(* ===== verification/Prelude.thy ===== *)
theory Prelude
  imports Main "HOL-Library.List_Lexorder" "HOL-Library.Char_ord" "HOL-Library.Word"
begin

text \<open>
  The shared vocabulary of the development: results with an error value, first-error traversal
  of a list, association lists kept sorted by key (the \<open>BTreeMap\<close>s of the source) and the
  generic lemmas on them, and computations that record their effects.  Strings are lists of bytes, so \<open>length\<close> is the byte length that
  \<open>str::len\<close> returns and the list order is the byte order of \<open>Ord for str\<close>.
\<close>

named_theorems result_simps \<open>evaluation of the result combinators\<close>

section \<open>Results\<close>

definition rbind :: "'e + 'a \<Rightarrow> ('a \<Rightarrow> 'e + 'b) \<Rightarrow> 'e + 'b" where
  "rbind m f = (case m of Inl e \<Rightarrow> Inl e | Inr x \<Rightarrow> f x)"

definition ensure :: "bool \<Rightarrow> 'e \<Rightarrow> 'e + unit" where
  "ensure c e = (if c then Inr () else Inl e)"

fun check_all :: "('a \<Rightarrow> 'e + unit) \<Rightarrow> 'a list \<Rightarrow> 'e + unit" where
  "check_all f [] = Inr ()"
| "check_all f (x # xs) = rbind (f x) (\<lambda>_. check_all f xs)"

fun map_result :: "('a \<Rightarrow> 'e + 'b) \<Rightarrow> 'a list \<Rightarrow> 'e + 'b list" where
  "map_result f [] = Inr []"
| "map_result f (x # xs) = rbind (f x) (\<lambda>y. rbind (map_result f xs) (\<lambda>ys. Inr (y # ys)))"

fun check_pairs :: "('a \<Rightarrow> 'a \<Rightarrow> 'e + unit) \<Rightarrow> 'a list \<Rightarrow> 'e + unit" where
  "check_pairs f [] = Inr ()"
| "check_pairs f (x # xs) = rbind (check_all (f x) xs) (\<lambda>_. check_pairs f xs)"

definition is_ok :: "'e + 'a \<Rightarrow> bool" where
  "is_ok r = (case r of Inl _ \<Rightarrow> False | Inr _ \<Rightarrow> True)"

definition of_opt :: "'e \<Rightarrow> 'a option \<Rightarrow> 'e + 'a" where
  "of_opt e m = (case m of None \<Rightarrow> Inl e | Some x \<Rightarrow> Inr x)"

definition map_err :: "('e \<Rightarrow> 'f) \<Rightarrow> 'e + 'a \<Rightarrow> 'f + 'a" where
  "map_err f r = (case r of Inl e \<Rightarrow> Inl (f e) | Inr x \<Rightarrow> Inr x)"

lemma rbind_simps [simp, result_simps]:
  "rbind (Inl e) f = Inl e" "rbind (Inr x) f = f x"
  by (simp_all add: rbind_def)

lemma ensure_simps [simp, result_simps]:
  "ensure True e = Inr ()" "ensure False e = Inl e"
  by (simp_all add: ensure_def)

lemma is_ok_simps [simp, result_simps]:
  "is_ok (Inr x)" "\<not> is_ok (Inl e)"
  by (simp_all add: is_ok_def)

lemma of_opt_simps [simp, result_simps]:
  "of_opt e None = Inl e" "of_opt e (Some x) = Inr x"
  by (simp_all add: of_opt_def)

lemma rbind_eq_Inr [result_simps]:
  "rbind m f = Inr y \<longleftrightarrow> (\<exists>x. m = Inr x \<and> f x = Inr y)"
  by (cases m) simp_all

lemma rbind_eq_Inl [result_simps]:
  "rbind m f = Inl e \<longleftrightarrow> m = Inl e \<or> (\<exists>x. m = Inr x \<and> f x = Inl e)"
  by (cases m) simp_all

lemma ensure_eq_Inr [simp, result_simps]: "ensure c e = Inr u \<longleftrightarrow> c"
  by (simp add: ensure_def)

lemma ensure_eq_Inl [simp, result_simps]: "ensure c e = Inl e' \<longleftrightarrow> \<not> c \<and> e' = e"
  by (auto simp: ensure_def)

lemma of_opt_eq_Inr [simp, result_simps]: "of_opt e m = Inr x \<longleftrightarrow> m = Some x"
  by (cases m) auto

lemma is_ok_iff: "is_ok r \<longleftrightarrow> (\<exists>x. r = Inr x)"
  by (cases r) simp_all

lemma is_ok_rbind [result_simps]:
  "is_ok (rbind m f) \<longleftrightarrow> (\<exists>x. m = Inr x \<and> is_ok (f x))"
  by (cases m) simp_all

lemma is_ok_ensure [simp, result_simps]: "is_ok (ensure c e) \<longleftrightarrow> c"
  by (simp add: ensure_def)

lemma is_ok_if [simp, result_simps]:
  "is_ok (if c then a else b) = (if c then is_ok a else is_ok b)"
  by simp

lemma if_Inl_eq_Inr [simp, result_simps]:
  "(if c then Inl e else m) = Inr x \<longleftrightarrow> \<not> c \<and> m = Inr x"
  "(if c then m else Inl e) = Inr x \<longleftrightarrow> c \<and> m = Inr x"
  by simp_all

lemma map_err_simps [simp, result_simps]:
  "map_err f (Inl e) = Inl (f e)" "map_err f (Inr x) = Inr x"
  "map_err f r = Inr y \<longleftrightarrow> r = Inr y" "is_ok (map_err f r) \<longleftrightarrow> is_ok r"
  by (auto simp: map_err_def split: sum.splits)

lemma set_map_filter: "set (List.map_filter f xs) = {y. \<exists>x\<in>set xs. f x = Some y}"
  by (force simp: List.map_filter_def image_iff)

lemma find_SomeD: "find P xs = Some x \<Longrightarrow> x \<in> set xs \<and> P x"
  by (induction xs) (auto split: if_splits)

lemma list_all2_in_set1: "list_all2 R xs ys \<Longrightarrow> x \<in> set xs \<Longrightarrow> \<exists>y\<in>set ys. R x y"
  by (induction rule: list_all2_induct) auto

lemma list_all2_in_set2: "list_all2 R xs ys \<Longrightarrow> y \<in> set ys \<Longrightarrow> \<exists>x\<in>set xs. R x y"
  by (induction rule: list_all2_induct) auto

lemma list_all2_map_eq: "list_all2 R xs ys \<Longrightarrow> (\<And>x y. R x y \<Longrightarrow> f y = g x) \<Longrightarrow> map f ys = map g xs"
  by (induction rule: list_all2_induct) auto

lemma check_all_iff [result_simps]:
  "check_all f xs = Inr u \<longleftrightarrow> (\<forall>x\<in>set xs. is_ok (f x))"
  by (induction xs) (auto simp: rbind_eq_Inr is_ok_iff)

lemma is_ok_check_all [result_simps]: "is_ok (check_all f xs) \<longleftrightarrow> (\<forall>x\<in>set xs. is_ok (f x))"
  by (simp add: is_ok_iff check_all_iff)

lemma check_pairs_iff [result_simps]:
  "check_pairs f xs = Inr u \<longleftrightarrow> sorted_wrt (\<lambda>x y. is_ok (f x y)) xs"
  by (induction xs) (auto simp: rbind_eq_Inr check_all_iff)

lemma map_result_length: "map_result f xs = Inr ys \<Longrightarrow> length ys = length xs"
  by (induction xs arbitrary: ys) (auto simp: rbind_eq_Inr)

lemma map_result_list_all2:
  "map_result f xs = Inr ys \<longleftrightarrow> list_all2 (\<lambda>x y. f x = Inr y) xs ys"
  by (induction xs arbitrary: ys) (auto simp: rbind_eq_Inr list_all2_Cons1)

lemma sorted_wrt_cong_on:
  "(\<And>x y. x \<in> set xs \<Longrightarrow> y \<in> set xs \<Longrightarrow> P x y \<longleftrightarrow> Q x y) \<Longrightarrow> sorted_wrt P xs \<longleftrightarrow> sorted_wrt Q xs"
  by (induction xs) auto

section \<open>Computations with a trace\<close>

text \<open>A computation on a state that records what it does to the outside and may stop with an error;
  the state and the record are those reached at the error.\<close>

type_synonym ('s, 't, 'e, 'a) traced = "'s \<Rightarrow> 's \<times> 't list \<times> ('e + 'a)"

definition tr_bind :: "('s, 't, 'e, 'a) traced \<Rightarrow> ('a \<Rightarrow> ('s, 't, 'e, 'b) traced) \<Rightarrow> ('s, 't, 'e, 'b) traced" where
  "tr_bind m f p =
     (case m p of
        (p1, t1, Inl e) \<Rightarrow> (p1, t1, Inl e)
      | (p1, t1, Inr x) \<Rightarrow> (case f x p1 of (p2, t2, r) \<Rightarrow> (p2, t1 @ t2, r)))"

definition tr_return :: "'a \<Rightarrow> ('s, 't, 'e, 'a) traced" where
  "tr_return x p = (p, [], Inr x)"

definition tr_fail :: "'e \<Rightarrow> ('s, 't, 'e, 'a) traced" where
  "tr_fail e p = (p, [], Inl e)"

lemma tr_bind_cases:
  assumes "tr_bind m f p = (p', t, r)"
  obtains (stop) e where "m p = (p', t, Inl e)" "r = Inl e"
    | (step) p1 t1 x t2 where "m p = (p1, t1, Inr x)" "f x p1 = (p', t2, r)" "t = t1 @ t2"
  using assms by (auto simp: tr_bind_def split: prod.splits sum.splits)

section \<open>Sorted association lists (BTreeMap)\<close>

type_synonym ('k, 'v) btree = "('k \<times> 'v) list"

fun bt_insert :: "'k::linorder \<Rightarrow> 'v \<Rightarrow> ('k, 'v) btree \<Rightarrow> ('k, 'v) btree" where
  "bt_insert k v [] = [(k, v)]"
| "bt_insert k v ((k', v') # m) =
     (if k < k' then (k, v) # (k', v') # m
      else if k = k' then (k, v) # m
      else (k', v') # bt_insert k v m)"

definition bt_get :: "'k \<Rightarrow> ('k, 'v) btree \<Rightarrow> 'v option" where
  "bt_get k m = map_of m k"

definition bt_remove :: "'k \<Rightarrow> ('k, 'v) btree \<Rightarrow> ('k, 'v) btree" where
  "bt_remove k m = filter (\<lambda>kv. fst kv \<noteq> k) m"

definition bt_of_list :: "('k::linorder \<times> 'v) list \<Rightarrow> ('k, 'v) btree" where
  "bt_of_list kvs = fold (\<lambda>(k, v) m. bt_insert k v m) kvs []"

definition bt_wf :: "('k::linorder, 'v) btree \<Rightarrow> bool" where
  "bt_wf m \<longleftrightarrow> sorted_wrt (<) (map fst m)"

lemma bt_get_insert [simp]:
  "bt_get k' (bt_insert k v m) = (if k' = k then Some v else bt_get k' m)"
  by (induction m) (auto simp: bt_get_def)

lemma bt_get_Nil [simp]: "bt_get k [] = None"
  by (simp add: bt_get_def)

lemma bt_get_remove [simp]:
  "bt_get k' (bt_remove k m) = (if k' = k then None else bt_get k' m)"
  by (induction m) (auto simp: bt_get_def bt_remove_def)

lemma bt_insert_keys [simp]: "fst ` set (bt_insert k v m) = insert k (fst ` set m)"
  by (induction k v m rule: bt_insert.induct) auto

lemma bt_wf_insert [simp, intro]: "bt_wf m \<Longrightarrow> bt_wf (bt_insert k v m)"
proof (induction m)
  case Nil
  then show ?case by (simp add: bt_wf_def)
next
  case (Cons kv m)
  obtain k' v' where kv: "kv = (k', v')" by (cases kv)
  have "fst ` set (bt_insert k v m) = insert k (fst ` set m)" by simp
  then have "\<And>x. x \<in> set (map fst (bt_insert k v m)) \<Longrightarrow> x = k \<or> x \<in> fst ` set m"
    by (metis insertE list.set_map)
  with Cons kv show ?case by (fastforce simp: bt_wf_def)
qed

lemma bt_wf_remove [simp, intro]: "bt_wf m \<Longrightarrow> bt_wf (bt_remove k m)"
  by (induction m) (auto simp: bt_wf_def bt_remove_def)

lemma bt_wf_Nil [simp]: "bt_wf []"
  by (simp add: bt_wf_def)

lemma bt_wf_fold: "bt_wf m \<Longrightarrow> bt_wf (fold (\<lambda>(k, v) m. bt_insert k v m) kvs m)"
  by (induction kvs arbitrary: m) auto

lemma bt_wf_of_list [simp]: "bt_wf (bt_of_list kvs)"
  by (simp add: bt_of_list_def bt_wf_fold)

lemma bt_get_fold:
  "bt_get k (fold (\<lambda>(k, v) m. bt_insert k v m) kvs m) =
     (case map_of (rev kvs) k of None \<Rightarrow> bt_get k m | Some v \<Rightarrow> Some v)"
  by (induction kvs arbitrary: m)
    (auto simp: map_add_def split: option.split if_splits)

lemma bt_get_of_list: "bt_get k (bt_of_list kvs) = map_of (rev kvs) k"
  by (simp add: bt_of_list_def bt_get_fold split: option.split)

lemma bt_wf_distinct: "bt_wf m \<Longrightarrow> distinct (map fst m)"
  unfolding bt_wf_def by (induction m) auto

lemma bt_get_mem: "bt_wf m \<Longrightarrow> bt_get k m = Some v \<longleftrightarrow> (k, v) \<in> set m"
  using bt_wf_distinct [of m] by (simp add: bt_get_def)

lemma bt_ext:
  assumes "bt_wf m" "bt_wf m'" "\<And>k. bt_get k m = bt_get k m'"
  shows "m = m'"
proof -
  have d: "distinct (map fst m)" "distinct (map fst m')"
    using assms bt_wf_distinct by blast+
  have "map_of m = map_of m'"
    using assms(3) by (auto simp: bt_get_def)
  then have "set m = set m'"
    using d by (metis map_of_eq_Some_iff subset_antisym subrelI)
  moreover have "sorted (map fst m)" "sorted (map fst m')"
    using assms(1,2) strict_sorted_iff by (auto simp: bt_wf_def)
  ultimately show ?thesis
    using d by (metis map_sorted_distinct_set_unique distinct_map Un_absorb)
qed

end
