(* ===== verification/Framing.thy ===== *)
theory Framing
  imports Prelude
begin

text \<open>
  The destination header of \<open>crates/common/src/framing.rs\<close> and the small value types of
  \<open>crates/common/src/lib.rs\<close>: encoding, the incremental in-memory decoder, the stream
  writer and reader, with the round trip in both directions and the agreement of the
  stream reader with the in-memory decoder.
\<close>

unbundle bit_operations_syntax

type_synonym u8 = "8 word"
type_synonym u16 = "16 word"

section \<open>Shared identifiers and buckets\<close>

datatype DurationBucket = Under100Ms | Under500Ms | Under2s | Under10s | Over10s

definition from_millis :: "nat \<Rightarrow> DurationBucket" where
  "from_millis ms =
     (if ms \<le> 99 then Under100Ms
      else if ms \<le> 499 then Under500Ms
      else if ms \<le> 1999 then Under2s
      else if ms \<le> 9999 then Under10s
      else Over10s)"

definition saturating_add_secs :: "64 word \<Rightarrow> 64 word \<Rightarrow> 64 word" where
  "saturating_add_secs t s = (if t + s < t then - 1 else t + s)"

section \<open>The header\<close>

datatype FramingError = UnsupportedVersion u8 | HostTooLong nat | InvalidUtf8

definition VERSION :: u8 where "VERSION = 1"
definition MAX_HOST_LEN :: nat where "MAX_HOST_LEN = 255"

definition to_be_bytes :: "u16 \<Rightarrow> u8 list" where
  "to_be_bytes w = [ucast (drop_bit 8 w), ucast w]"

definition from_be_bytes :: "u8 \<Rightarrow> u8 \<Rightarrow> u16" where
  "from_be_bytes a b = (push_bit 8 (ucast a) OR ucast b)"

definition cont_byte :: "u8 \<Rightarrow> bool" where
  "cont_byte b \<longleftrightarrow> 0x80 \<le> b \<and> b \<le> 0xBF"

text \<open>The well-formedness that \<open>str::from_utf8\<close> decides: the byte sequences of RFC 3629.\<close>

fun valid_utf8 :: "u8 list \<Rightarrow> bool" where
  "valid_utf8 [] = True"
| "valid_utf8 (a # bs) =
     (if a < 0x80 then valid_utf8 bs
      else if 0xC2 \<le> a \<and> a \<le> 0xDF then
        (case bs of b # r \<Rightarrow> cont_byte b \<and> valid_utf8 r | _ \<Rightarrow> False)
      else if 0xE0 \<le> a \<and> a \<le> 0xEF then
        (case bs of b # c # r \<Rightarrow>
           cont_byte b \<and> (a = 0xE0 \<longrightarrow> 0xA0 \<le> b) \<and> (a = 0xED \<longrightarrow> b \<le> 0x9F)
           \<and> cont_byte c \<and> valid_utf8 r
         | _ \<Rightarrow> False)
      else if 0xF0 \<le> a \<and> a \<le> 0xF4 then
        (case bs of b # c # d # r \<Rightarrow>
           cont_byte b \<and> (a = 0xF0 \<longrightarrow> 0x90 \<le> b) \<and> (a = 0xF4 \<longrightarrow> b \<le> 0x8F)
           \<and> cont_byte c \<and> cont_byte d \<and> valid_utf8 r
         | _ \<Rightarrow> False)
      else False)"

definition encode_destination :: "u8 list \<Rightarrow> u16 \<Rightarrow> FramingError + u8 list" where
  "encode_destination host port =
     (if length host > MAX_HOST_LEN then Inl (HostTooLong (length host))
      else Inr ([VERSION] @ to_be_bytes (of_nat (length host)) @ host @ to_be_bytes port))"

definition decode_destination ::
    "u8 list \<Rightarrow> FramingError + (u8 list \<times> u16 \<times> nat) option" where
  "decode_destination buf =
     (if buf = [] then Inr None
      else if buf ! 0 \<noteq> VERSION then Inl (UnsupportedVersion (buf ! 0))
      else if length buf < 3 then Inr None
      else
        let host_len = unat (from_be_bytes (buf ! 1) (buf ! 2)) in
        if host_len > MAX_HOST_LEN then Inl (HostTooLong host_len)
        else
          let needed = 3 + host_len + 2 in
          if length buf < needed then Inr None
          else
            let host_bytes = take host_len (drop 3 buf) in
            if \<not> valid_utf8 host_bytes then Inl InvalidUtf8
            else Inr (Some (host_bytes,
                   from_be_bytes (buf ! (3 + host_len)) (buf ! (3 + host_len + 1)), needed)))"

text \<open>
  Streams.  A writer is the bytes written so far; a reader is the bytes that will still
  arrive before the peer closes.  An i/o error keeps the kind and the framing error whose
  text it carries.
\<close>

datatype IoError = InvalidInput FramingError | InvalidData FramingError | UnexpectedEof

definition write_destination :: "u8 list \<Rightarrow> u8 list \<Rightarrow> u16 \<Rightarrow> IoError + u8 list" where
  "write_destination w host port =
     (case encode_destination host port of
        Inl e \<Rightarrow> Inl (InvalidInput e)
      | Inr buf \<Rightarrow> Inr (w @ buf))"

definition read_exact :: "nat \<Rightarrow> u8 list \<Rightarrow> IoError + (u8 list \<times> u8 list)" where
  "read_exact n r = (if length r < n then Inl UnexpectedEof else Inr (take n r, drop n r))"

definition read_u8 :: "u8 list \<Rightarrow> IoError + (u8 \<times> u8 list)" where
  "read_u8 r = rbind (read_exact 1 r) (\<lambda>(b, r). Inr (b ! 0, r))"

definition read_u16 :: "u8 list \<Rightarrow> IoError + (u16 \<times> u8 list)" where
  "read_u16 r = rbind (read_exact 2 r) (\<lambda>(b, r). Inr (from_be_bytes (b ! 0) (b ! 1), r))"

definition read_destination :: "u8 list \<Rightarrow> IoError + ((u8 list \<times> u16) \<times> u8 list)" where
  "read_destination r =
     rbind (read_u8 r) (\<lambda>(version, r).
     rbind (ensure (version = VERSION) (InvalidData (UnsupportedVersion version))) (\<lambda>_.
     rbind (read_u16 r) (\<lambda>(len, r).
     let host_len = unat len in
     rbind (ensure (host_len \<le> MAX_HOST_LEN) (InvalidData (HostTooLong host_len))) (\<lambda>_.
     rbind (read_exact host_len r) (\<lambda>(host_buf, r).
     rbind (ensure (valid_utf8 host_buf) (InvalidData InvalidUtf8)) (\<lambda>_.
     rbind (read_u16 r) (\<lambda>(port, r).
     Inr ((host_buf, port), r))))))))"

section \<open>Lemmas\<close>

lemma length_to_be_bytes [simp]: "length (to_be_bytes w) = 2"
  by (simp add: to_be_bytes_def)

lemma from_to_be_bytes: "from_be_bytes (ucast (drop_bit 8 w)) (ucast w) = w"
  unfolding from_be_bytes_def
  by (rule bit_word_eqI) (auto simp: bit_simps)

lemma bit_u8_high [simp]: "\<not> bit (b :: u8) (8 + n)"
  by (auto dest: bit_imp_le_length)

lemma to_from_be_bytes: "to_be_bytes (from_be_bytes a b) = [a, b]"
  unfolding from_be_bytes_def to_be_bytes_def
  by (auto intro!: bit_word_eqI simp: bit_simps)

lemma host_len_word: "n \<le> MAX_HOST_LEN \<Longrightarrow> unat (of_nat n :: u16) = n"
  by (simp add: MAX_HOST_LEN_def unat_of_nat take_bit_nat_eq_self)

lemma decode_encode_append:
  assumes "length host \<le> MAX_HOST_LEN" "valid_utf8 host"
  shows "decode_destination
     ([VERSION] @ to_be_bytes (of_nat (length host)) @ host @ to_be_bytes port @ rest)
       = Inr (Some (host, port, length host + 5))"
  using assms
  by (simp add: decode_destination_def to_be_bytes_def from_to_be_bytes host_len_word nth_append)

lemma decode_Some_bounds:
  assumes "decode_destination buf = Inr (Some (host, port, n))"
  shows "n \<le> length buf" "length host \<le> MAX_HOST_LEN" "n = length host + 5" "valid_utf8 host"
  using assms
  by (auto simp: decode_destination_def Let_def split: if_splits)

lemma buf_shape:
  assumes "length (buf :: u8 list) \<ge> k + 5"
  shows "take (k + 5) buf =
     [buf ! 0, buf ! 1, buf ! 2] @ take k (drop 3 buf) @ [buf ! (k + 3), buf ! (k + 4)]"
proof (rule nth_equalityI)
  show "length (take (k + 5) buf) =
     length ([buf ! 0, buf ! 1, buf ! 2] @ take k (drop 3 buf) @ [buf ! (k + 3), buf ! (k + 4)])"
    using assms by simp
  fix i assume "i < length (take (k + 5) buf)"
  then consider "i = 0" | "i = 1" | "i = 2" | "3 \<le> i" "i < k + 3" | "i = k + 3" | "i = k + 4"
    using assms by force
  then show "take (k + 5) buf ! i =
     ([buf ! 0, buf ! 1, buf ! 2] @ take k (drop 3 buf) @ [buf ! (k + 3), buf ! (k + 4)]) ! i"
    using assms by cases (auto simp: nth_append nth_Cons numeral_3_eq_3 split: nat.split)
qed

lemma encode_decode:
  assumes "decode_destination buf = Inr (Some (host, port, n))"
  shows "encode_destination host port = Inr (take n buf)"
proof -
  let ?k = "unat (from_be_bytes (buf ! 1) (buf ! 2))"
  have n: "n = ?k + 5" "?k \<le> MAX_HOST_LEN" "?k + 5 \<le> length buf" "buf ! 0 = VERSION"
    and h: "host = take ?k (drop 3 buf)" "length host = ?k"
    and p: "port = from_be_bytes (buf ! (?k + 3)) (buf ! (?k + 4))"
    using assms by (auto simp: decode_destination_def Let_def add.commute split: if_splits)
  have "(of_nat ?k :: u16) = from_be_bytes (buf ! 1) (buf ! 2)" by simp
  then show ?thesis
    using n h p by (simp add: encode_destination_def buf_shape to_from_be_bytes)
qed

lemma read_destination_cons:
  "read_destination (v # a # b # t) = Inr ((host, port), rest) \<longleftrightarrow>
   (\<exists>n. decode_destination (v # a # b # t) = Inr (Some (host, port, n))
        \<and> rest = drop n (v # a # b # t))"
  by (auto simp: read_destination_def decode_destination_def read_u8_def read_u16_def
      read_exact_def rbind_eq_Inr Let_def eval_nat_numeral split: if_splits)

lemma read_destination_decode:
  "read_destination r = Inr ((host, port), rest) \<longleftrightarrow>
   (\<exists>n. decode_destination r = Inr (Some (host, port, n)) \<and> rest = drop n r)"
proof (cases "length r < 3")
  case True
  then have "decode_destination r \<noteq> Inr (Some (host, port, n))" for n
    by (auto simp: decode_destination_def)
  moreover from True have "read_destination r \<noteq> Inr ((host, port), rest)"
    by (auto simp: read_destination_def read_u8_def read_u16_def read_exact_def rbind_eq_Inr
        split: if_splits)
  ultimately show ?thesis by blast
next
  case False
  then obtain v a b t where "r = v # a # b # t"
    by (auto simp: not_less numeral_3_eq_3 Suc_le_length_iff)
  then show ?thesis by (simp only: read_destination_cons)
qed

lemma decode_prefix:
  assumes "length host \<le> MAX_HOST_LEN" "k < length host + 5"
  shows "decode_destination
     (take k ([VERSION] @ to_be_bytes (of_nat (length host)) @ host @ to_be_bytes port)) = Inr None"
proof (cases "k < 3")
  case True
  then show ?thesis by (auto simp: decode_destination_def take_Cons' numeral_eq_Suc)
next
  case False
  then obtain j where k: "k = j + 3" by (metis add.commute le_Suc_ex not_less)
  have "take k ([VERSION] @ to_be_bytes (of_nat (length host)) @ host @ to_be_bytes port)
     = VERSION # to_be_bytes (of_nat (length host)) @ take j (host @ to_be_bytes port)"
    by (simp add: k to_be_bytes_def numeral_3_eq_3)
  then show ?thesis
    using assms
    by (simp add: k decode_destination_def to_be_bytes_def from_to_be_bytes host_len_word Let_def
        min_def, linarith)
qed

section \<open>Properties\<close>

text \<open>The header round-trips: for every host that is valid UTF-8 of at most 255 bytes and
  every port, encoding succeeds, decoding the encoding followed by any further bytes gives back
  the host, the port and the exact length of the header, and every strict prefix of the header
  decodes to the request for more bytes.\<close>

theorem framing_decode_encode:
  assumes "length host \<le> MAX_HOST_LEN" "valid_utf8 host"
  shows "\<exists>buf. encode_destination host port = Inr buf
    \<and> decode_destination (buf @ rest) = Inr (Some (host, port, length buf))
    \<and> (\<forall>k. k < length buf \<longrightarrow> decode_destination (take k buf) = Inr None)"
  using assms decode_encode_append [OF assms, of port rest] decode_prefix [OF assms(1), of _ port]
  by (simp add: encode_destination_def)

theorem framing_decode_encode_witness:
  "\<exists>buf. encode_destination [0x61, 0xC3, 0xA9] 443 = Inr buf
    \<and> decode_destination (buf @ [7]) = Inr (Some ([0x61, 0xC3, 0xA9], 443, length buf))"
proof -
  have "length [0x61, 0xC3, 0xA9 :: u8] \<le> MAX_HOST_LEN" "valid_utf8 [0x61, 0xC3, 0xA9]"
    by (simp_all add: MAX_HOST_LEN_def cont_byte_def)
  from framing_decode_encode [OF this] show ?thesis by blast
qed

text \<open>C33: Decoding accepts nothing but encodings: when decoding a buffer returns a host, a port
  and a length, the host is valid UTF-8 of at most 255 bytes, and encoding the host and port
  gives exactly that many first bytes of the buffer. The stream reader returns a host and a
  port precisely when the in-memory decoder does on the same bytes, and leaves exactly the
  bytes after the header unread.\<close>

theorem framing_encode_decode_and_stream:
  "(decode_destination buf = Inr (Some (host, port, n)) \<longrightarrow>
      encode_destination host port = Inr (take n buf) \<and> n \<le> length buf
      \<and> valid_utf8 host \<and> length host \<le> MAX_HOST_LEN)
   \<and> (read_destination buf = Inr ((host, port), rest) \<longleftrightarrow>
      (\<exists>m. decode_destination buf = Inr (Some (host, port, m)) \<and> rest = drop m buf))"
  unfolding read_destination_decode
  using encode_decode [of buf host port n] decode_Some_bounds [of buf host port n] by simp

theorem framing_encode_decode_and_stream_witness:
  "decode_destination [1, 0, 1, 0x61, 0, 80, 9] = Inr (Some ([0x61], 80, 6))
   \<and> encode_destination [0x61] 80 = Inr [1, 0, 1, 0x61, 0, 80]
   \<and> read_destination [1, 0, 1, 0x61, 0, 80, 9] = Inr (([0x61], 80), [9])"
proof -
  have d: "decode_destination [1, 0, 1, 0x61, 0, 80, 9] = Inr (Some ([0x61], 80, 6))"
    by (simp add: decode_destination_def VERSION_def from_be_bytes_def MAX_HOST_LEN_def)
  note framing_encode_decode_and_stream
    [of "[1, 0, 1, 0x61, 0, 80, 9]" "[0x61]" 80 6 "[9]"]
  with d show ?thesis by simp
qed

end
