(* ===== verification/RustStd.thy ===== *)
theory RustStd
  imports Prelude "HOL-Library.Product_Lexorder"
begin

text \<open>
  The string, integer and collection operations of the Rust standard library that the
  components share: prefix tests and splitting, ASCII character classes, hexadecimal
  encoding, decimal printing and parsing, 64-bit signed arithmetic (wrapping, checked and
  saturating) on integers, and ordered sets as sorted duplicate-free lists.
\<close>

section \<open>Strings\<close>

definition starts_with :: "string \<Rightarrow> string \<Rightarrow> bool" where
  "starts_with p s \<longleftrightarrow> take (length p) s = p"

definition ends_with :: "string \<Rightarrow> string \<Rightarrow> bool" where
  "ends_with p s \<longleftrightarrow> length p \<le> length s \<and> drop (length s - length p) s = p"

definition strip_prefix :: "string \<Rightarrow> string \<Rightarrow> string option" where
  "strip_prefix p s = (if starts_with p s then Some (drop (length p) s) else None)"

fun split_on :: "char \<Rightarrow> string \<Rightarrow> string list" where
  "split_on c [] = [[]]"
| "split_on c (x # xs) =
     (if x = c then [] # split_on c xs
      else case split_on c xs of [] \<Rightarrow> [[x]] | p # ps \<Rightarrow> (x # p) # ps)"

definition is_ascii_digit :: "char \<Rightarrow> bool" where
  "is_ascii_digit c \<longleftrightarrow> 48 \<le> (of_char c :: nat) \<and> (of_char c :: nat) \<le> 57"

definition is_ascii_lowercase :: "char \<Rightarrow> bool" where
  "is_ascii_lowercase c \<longleftrightarrow> 97 \<le> (of_char c :: nat) \<and> (of_char c :: nat) \<le> 122"

definition is_ascii_uppercase :: "char \<Rightarrow> bool" where
  "is_ascii_uppercase c \<longleftrightarrow> 65 \<le> (of_char c :: nat) \<and> (of_char c :: nat) \<le> 90"

definition is_ascii_alphanumeric :: "char \<Rightarrow> bool" where
  "is_ascii_alphanumeric c \<longleftrightarrow> is_ascii_digit c \<or> is_ascii_lowercase c \<or> is_ascii_uppercase c"

definition is_ascii_hexdigit :: "char \<Rightarrow> bool" where
  "is_ascii_hexdigit c \<longleftrightarrow>
     is_ascii_digit c
     \<or> (97 \<le> (of_char c :: nat) \<and> (of_char c :: nat) \<le> 102)
     \<or> (65 \<le> (of_char c :: nat) \<and> (of_char c :: nat) \<le> 70)"

definition ascii_lower :: "char \<Rightarrow> char" where
  "ascii_lower c = (if is_ascii_uppercase c then char_of ((of_char c :: nat) + 32) else c)"

definition to_ascii_lowercase :: "string \<Rightarrow> string" where
  "to_ascii_lowercase s = map ascii_lower s"

text \<open>The characters of a UTF-8 string, each as its bytes, and the Unicode classes the source
  asks for: white space (\<open>White_Space\<close>) and control characters (\<open>Cc\<close>).\<close>

definition utf8_len :: "char \<Rightarrow> nat" where
  "utf8_len c =
     (let b = of_char c :: int in if b < 128 then 1 else if b < 224 then 2 else if b < 240 then 3 else 4)"

fun utf8_split :: "string \<Rightarrow> string list" where
  "utf8_split [] = []"
| "utf8_split (c # s) =
     (c # take (utf8_len c - 1) s) # utf8_split (drop (utf8_len c - 1) s)"

definition code_point :: "string \<Rightarrow> int" where
  "code_point ch =
     (case map (of_char :: char \<Rightarrow> int) ch of
        [] \<Rightarrow> 0
      | [a] \<Rightarrow> a
      | [a, b] \<Rightarrow> (a mod 32) * 64 + b mod 64
      | [a, b, c] \<Rightarrow> (a mod 16) * 4096 + (b mod 64) * 64 + c mod 64
      | a # b # c # d # _ \<Rightarrow>
          (a mod 8) * 262144 + (b mod 64) * 4096 + (c mod 64) * 64 + d mod 64)"

definition is_whitespace :: "string \<Rightarrow> bool" where
  "is_whitespace ch =
     (let n = code_point ch in
      (9 \<le> n \<and> n \<le> 13) \<or> n = 32 \<or> n = 0x85 \<or> n = 0xA0 \<or> n = 0x1680
      \<or> (0x2000 \<le> n \<and> n \<le> 0x200A) \<or> n = 0x2028 \<or> n = 0x2029 \<or> n = 0x202F \<or> n = 0x205F
      \<or> n = 0x3000)"

definition is_control :: "string \<Rightarrow> bool" where
  "is_control ch = (let n = code_point ch in n < 32 \<or> (127 \<le> n \<and> n \<le> 159))"

definition trim_end_by :: "('a \<Rightarrow> bool) \<Rightarrow> 'a list \<Rightarrow> 'a list" where
  "trim_end_by P xs = rev (dropWhile P (rev xs))"

definition trim_start :: "string \<Rightarrow> string" where
  "trim_start s = concat (dropWhile is_whitespace (utf8_split s))"

definition trim_end :: "string \<Rightarrow> string" where
  "trim_end s = concat (trim_end_by is_whitespace (utf8_split s))"

definition trim :: "string \<Rightarrow> string" where
  "trim s = concat (trim_end_by is_whitespace (dropWhile is_whitespace (utf8_split s)))"

fun str_contains :: "string \<Rightarrow> string \<Rightarrow> bool" where
  "str_contains p [] = (p = [])"
| "str_contains p (c # s) = (starts_with p (c # s) \<or> str_contains p s)"

text \<open>\<open>str::lines\<close>: the pieces between line ends, where a line end is a line feed or a carriage
  return followed by a line feed, and no empty piece after a final line end.\<close>

fun str_lines :: "string \<Rightarrow> string list" where
  "str_lines [] = []"
| "str_lines [c] = (if c = CHR 0x0A then [[]] else [[c]])"
| "str_lines (c # d # s) =
     (if c = CHR 0x0A then [] # str_lines (d # s)
      else if c = CHR 0x0D \<and> d = CHR 0x0A then [] # str_lines s
      else case str_lines (d # s) of [] \<Rightarrow> [[c]] | l # ls \<Rightarrow> (c # l) # ls)"

text \<open>\<open>str::split_once\<close> with a character, and \<open>str::trim_matches\<close> with a character predicate.\<close>

fun split_once :: "char \<Rightarrow> string \<Rightarrow> (string \<times> string) option" where
  "split_once c [] = None"
| "split_once c (x # xs) =
     (if x = c then Some ([], xs) else map_option (\<lambda>(a, b). (x # a, b)) (split_once c xs))"

definition trim_matches :: "(char \<Rightarrow> bool) \<Rightarrow> string \<Rightarrow> string" where
  "trim_matches P s = trim_end_by P (dropWhile P s)"

text \<open>\<open>str::parse\<close> for unsigned integers below a bound: an optional plus sign, digits, no
  overflow.\<close>

fun parse_digits :: "nat \<Rightarrow> nat \<Rightarrow> string \<Rightarrow> nat option" where
  "parse_digits bound acc [] = Some acc"
| "parse_digits bound acc (c # cs) =
     (if is_ascii_digit c \<and> acc * 10 + (of_char c - 48) < bound
      then parse_digits bound (acc * 10 + (of_char c - 48)) cs else None)"

definition parse_uint :: "nat \<Rightarrow> string \<Rightarrow> nat option" where
  "parse_uint bound s =
     (let s = (case s of c # cs \<Rightarrow> if c = CHR ''+'' then cs else s | [] \<Rightarrow> []) in
      if s = [] then None else parse_digits bound 0 s)"

definition parse_u64 :: "string \<Rightarrow> nat option" where
  "parse_u64 s = parse_uint 18446744073709551616 s"

definition parse_u32 :: "string \<Rightarrow> nat option" where
  "parse_u32 s = parse_uint 4294967296 s"

text \<open>Printing in base ten and sixteen.\<close>

definition hex_digit :: "nat \<Rightarrow> char" where
  "hex_digit n = (if n < 10 then char_of (48 + n) else char_of (87 + n))"

definition hex_byte :: "8 word \<Rightarrow> string" where
  "hex_byte b = [hex_digit (unat b div 16), hex_digit (unat b mod 16)]"

definition hex_encode :: "8 word list \<Rightarrow> string" where
  "hex_encode bs = concat (map hex_byte bs)"

fun show_nat :: "nat \<Rightarrow> string" where
  "show_nat n = (if n < 10 then [char_of (48 + n)] else show_nat (n div 10) @ [char_of (48 + n mod 10)])"

declare show_nat.simps [simp del]

section \<open>64-bit integers\<close>

definition I64_MAX :: int where "I64_MAX = 9223372036854775807"
definition I64_MIN :: int where "I64_MIN = - 9223372036854775808"

definition in_i64 :: "int \<Rightarrow> bool" where
  "in_i64 x \<longleftrightarrow> I64_MIN \<le> x \<and> x \<le> I64_MAX"

definition wrap_i64 :: "int \<Rightarrow> int" where
  "wrap_i64 x = (x + 9223372036854775808) mod 18446744073709551616 - 9223372036854775808"

definition checked_sub_i64 :: "int \<Rightarrow> int \<Rightarrow> int option" where
  "checked_sub_i64 a b = (if in_i64 (a - b) then Some (a - b) else None)"

definition checked_add_i64 :: "int \<Rightarrow> int \<Rightarrow> int option" where
  "checked_add_i64 a b = (if in_i64 (a + b) then Some (a + b) else None)"

definition saturating_add_i64 :: "int \<Rightarrow> int \<Rightarrow> int" where
  "saturating_add_i64 a b = max I64_MIN (min I64_MAX (a + b))"

definition saturating_sub_i64 :: "int \<Rightarrow> int \<Rightarrow> int" where
  "saturating_sub_i64 a b = max I64_MIN (min I64_MAX (a - b))"

definition clamp :: "'a::linorder \<Rightarrow> 'a \<Rightarrow> 'a \<Rightarrow> 'a" where
  "clamp x lo hi = (if x < lo then lo else if hi < x then hi else x)"

section \<open>Ordered sets\<close>

definition btree_set :: "'a::linorder list \<Rightarrow> 'a list" where
  "btree_set xs = sort (remdups xs)"

section \<open>Lemmas\<close>

lemmas ascii_classes =
  is_ascii_alphanumeric_def is_ascii_digit_def is_ascii_lowercase_def is_ascii_uppercase_def

lemma ascii_lower_idem [simp]: "ascii_lower (ascii_lower c) = ascii_lower c"
  by (auto simp: ascii_lower_def is_ascii_uppercase_def)

lemma to_ascii_lowercase_idem [simp]: "to_ascii_lowercase (to_ascii_lowercase s) = to_ascii_lowercase s"
  by (simp add: to_ascii_lowercase_def)

lemma wrap_i64_id [simp]: "in_i64 x \<Longrightarrow> wrap_i64 x = x"
  by (simp add: wrap_i64_def in_i64_def I64_MAX_def I64_MIN_def)

lemma wrap_i64_range: "in_i64 (wrap_i64 x)"
proof -
  have "0 \<le> (x + 9223372036854775808) mod 18446744073709551616"
    "(x + 9223372036854775808) mod 18446744073709551616 < 18446744073709551616" by simp_all
  then show ?thesis by (simp add: wrap_i64_def in_i64_def I64_MAX_def I64_MIN_def)
qed

lemma set_btree_set [simp]: "set (btree_set xs) = set xs"
  by (simp add: btree_set_def)

lemma btree_set_sorted [simp]: "sorted (btree_set xs)" "distinct (btree_set xs)"
  by (simp_all add: btree_set_def)

lemma clamp_bounds: "lo \<le> hi \<Longrightarrow> lo \<le> clamp x lo hi \<and> clamp x lo hi \<le> hi"
  by (auto simp: clamp_def)

lemma clamp_id: "lo \<le> x \<Longrightarrow> x \<le> hi \<Longrightarrow> clamp x lo hi = x"
  by (auto simp: clamp_def)

lemma starts_with_append [simp]: "starts_with p (p @ s)"
  by (simp add: starts_with_def)

lemma starts_with_iff: "starts_with p s \<longleftrightarrow> (\<exists>r. s = p @ r)"
  by (metis append_eq_conv_conj starts_with_def append_take_drop_id)

lemma strip_prefix_append [simp]: "strip_prefix p (p @ s) = Some s"
  by (simp add: strip_prefix_def)

lemma strip_prefix_Some: "strip_prefix p s = Some r \<longleftrightarrow> s = p @ r"
  by (auto simp: strip_prefix_def starts_with_iff)

lemma split_on_neq_Nil [simp]: "split_on c s \<noteq> []"
  by (induction s) (auto split: list.split)

lemma split_on_no_sep: "c \<notin> set s \<Longrightarrow> split_on c s = [s]"
  by (induction s) auto

lemma split_on_append:
  "c \<notin> set a \<Longrightarrow> split_on c (a @ c # b) = a # split_on c b"
  by (induction a) (auto split: list.split)

lemma hex_digit_hex: "n < 16 \<Longrightarrow> is_ascii_hexdigit (hex_digit n)"
  by (auto simp: hex_digit_def is_ascii_hexdigit_def is_ascii_digit_def)

lemma hex_byte_hex: "c \<in> set (hex_byte b) \<Longrightarrow> is_ascii_hexdigit c"
proof -
  have "unat b < 256" using unsigned_less [of b, where 'a = nat] by simp
  then show "c \<in> set (hex_byte b) \<Longrightarrow> is_ascii_hexdigit c"
    by (auto simp: hex_byte_def intro!: hex_digit_hex)
qed

lemma length_hex_byte [simp]: "length (hex_byte b) = 2"
  by (simp add: hex_byte_def)

lemma length_hex_encode [simp]: "length (hex_encode bs) = 2 * length bs"
  by (induction bs) (auto simp: hex_encode_def)

lemma hex_encode_hex: "c \<in> set (hex_encode bs) \<Longrightarrow> is_ascii_hexdigit c"
  by (auto simp: hex_encode_def hex_byte_hex)

lemma hexdigit_not_dash: "is_ascii_hexdigit c \<Longrightarrow> c \<noteq> CHR ''-''"
  by (auto simp: is_ascii_hexdigit_def is_ascii_digit_def)

lemma hexdigit_alnum: "is_ascii_hexdigit c \<Longrightarrow> is_ascii_alphanumeric c"
  by (auto simp: is_ascii_hexdigit_def is_ascii_alphanumeric_def is_ascii_lowercase_def
      is_ascii_uppercase_def)

lemma hex_digit_inj: "m < 16 \<Longrightarrow> n < 16 \<Longrightarrow> hex_digit m = hex_digit n \<longleftrightarrow> m = n"
  by (auto simp: hex_digit_def split: if_splits)

lemma concat_utf8_split [simp]: "concat (utf8_split s) = s"
  by (induction s rule: utf8_split.induct) auto

lemma utf8_split_ascii:
  "(\<And>c. c \<in> set s \<Longrightarrow> (of_char c :: int) < 128) \<Longrightarrow> utf8_split s = map (\<lambda>c. [c]) s"
  by (induction s rule: utf8_split.induct) (auto simp: utf8_len_def)

lemma trim_end_by_Nil [simp]: "trim_end_by P [] = []"
  by (simp add: trim_end_by_def)

lemma trim_end_by_prefix: "\<exists>r. xs = trim_end_by P xs @ r \<and> list_all P r"
proof -
  have "xs = rev (dropWhile P (rev xs)) @ rev (takeWhile P (rev xs))"
    by (metis rev_append rev_rev_ident takeWhile_dropWhile_id)
  moreover have "list_all P (rev (takeWhile P (rev xs)))"
    by (auto simp: list_all_iff dest: set_takeWhileD)
  ultimately show ?thesis unfolding trim_end_by_def by blast
qed

lemma set_trim_end_by: "set (trim_end_by P xs) \<subseteq> set xs"
  by (auto simp: trim_end_by_def dest: set_dropWhileD)

lemma last_trim_end_by: "trim_end_by P xs \<noteq> [] \<Longrightarrow> \<not> P (last (trim_end_by P xs))"
  by (simp add: trim_end_by_def last_rev hd_dropWhile)

lemma trim_Nil [simp]: "trim [] = []" "trim_start [] = []" "trim_end [] = []"
  by (simp_all add: trim_def trim_start_def trim_end_def)

end
