(* ===== verification/Json.thy ===== *)
theory Json
  imports RustStd
begin

text \<open>
  JSON documents as the node software builds and reads them.  An object is a map ordered by
  key, kept as a sorted association list, so two objects with the same entries are equal.
  Numbers are integers; any other number is kept as its text.  The readers
  (\<open>get\<close>, \<open>as_str\<close>, \<open>as_u64\<close>, ...) answer \<open>None\<close> on a document of another shape.
\<close>

datatype json =
    JNull
  | JBool bool
  | JInt int
  | JReal string
  | JStr string
  | JArr "json list"
  | JObj "(string, json) btree"

definition jobj :: "(string \<times> json) list \<Rightarrow> json" where
  "jobj kvs = JObj (bt_of_list kvs)"

fun jget :: "string \<Rightarrow> json \<Rightarrow> json option" where
  "jget k (JObj m) = bt_get k m"
| "jget k _ = None"

definition jidx :: "json \<Rightarrow> string \<Rightarrow> json" where
  "jidx j k = (case jget k j of None \<Rightarrow> JNull | Some v \<Rightarrow> v)"

fun jset :: "string \<Rightarrow> json \<Rightarrow> json \<Rightarrow> json" where
  "jset k v (JObj m) = JObj (bt_insert k v m)"
| "jset k v JNull = JObj [(k, v)]"
| "jset k v j = j"

fun jremove :: "string \<Rightarrow> json \<Rightarrow> json" where
  "jremove k (JObj m) = JObj (bt_remove k m)"
| "jremove k j = j"

fun as_str :: "json \<Rightarrow> string option" where
  "as_str (JStr s) = Some s"
| "as_str _ = None"

fun as_bool :: "json \<Rightarrow> bool option" where
  "as_bool (JBool b) = Some b"
| "as_bool _ = None"

fun as_u64 :: "json \<Rightarrow> nat option" where
  "as_u64 (JInt i) = (if 0 \<le> i \<and> i < 18446744073709551616 then Some (nat i) else None)"
| "as_u64 _ = None"

fun as_i64 :: "json \<Rightarrow> int option" where
  "as_i64 (JInt i) = (if in_i64 i then Some i else None)"
| "as_i64 _ = None"

fun as_array :: "json \<Rightarrow> json list option" where
  "as_array (JArr xs) = Some xs"
| "as_array _ = None"

fun as_object :: "json \<Rightarrow> (string, json) btree option" where
  "as_object (JObj m) = Some m"
| "as_object _ = None"

definition is_obj :: "json \<Rightarrow> bool" where
  "is_obj j = (case j of JObj _ \<Rightarrow> True | _ \<Rightarrow> False)"

definition jstr_opt :: "string option \<Rightarrow> json" where
  "jstr_opt m = (case m of None \<Rightarrow> JNull | Some s \<Rightarrow> JStr s)"

definition jstrs :: "string list \<Rightarrow> json" where
  "jstrs ss = JArr (map JStr ss)"

definition jnat :: "nat \<Rightarrow> json" where
  "jnat n = JInt (int n)"

text \<open>\<open>get_str\<close> and its kin chain a key lookup with a reader.\<close>

definition get_str :: "string \<Rightarrow> json \<Rightarrow> string option" where
  "get_str k j = Option.bind (jget k j) as_str"

definition get_bool :: "string \<Rightarrow> json \<Rightarrow> bool option" where
  "get_bool k j = Option.bind (jget k j) as_bool"

definition get_u64 :: "string \<Rightarrow> json \<Rightarrow> nat option" where
  "get_u64 k j = Option.bind (jget k j) as_u64"

definition get_i64 :: "string \<Rightarrow> json \<Rightarrow> int option" where
  "get_i64 k j = Option.bind (jget k j) as_i64"

definition get_array :: "string \<Rightarrow> json \<Rightarrow> json list option" where
  "get_array k j = Option.bind (jget k j) as_array"

section \<open>Lemmas\<close>

lemma jget_jobj: "jget k (jobj kvs) = map_of (rev kvs) k"
  by (simp add: jobj_def bt_get_of_list)

lemma is_obj_jobj [simp]: "is_obj (jobj kvs)"
  by (simp add: jobj_def is_obj_def)

lemma jget_jset [simp]:
  "is_obj j \<Longrightarrow> jget k (jset k' v j) = (if k = k' then Some v else jget k j)"
  by (cases j) (auto simp: is_obj_def)

lemma is_obj_jset [simp]: "is_obj j \<Longrightarrow> is_obj (jset k v j)"
  by (cases j) (auto simp: is_obj_def)

lemma jget_jremove [simp]: "jget k (jremove k' j) = (if k = k' then None else jget k j)"
  by (cases j) auto

lemma is_obj_jremove [simp]: "is_obj (jremove k j) = is_obj j"
  by (cases j) (auto simp: is_obj_def)

lemma get_readers_jobj:
  "get_str k (jobj kvs) = Option.bind (map_of (rev kvs) k) as_str"
  "get_bool k (jobj kvs) = Option.bind (map_of (rev kvs) k) as_bool"
  "get_u64 k (jobj kvs) = Option.bind (map_of (rev kvs) k) as_u64"
  "get_i64 k (jobj kvs) = Option.bind (map_of (rev kvs) k) as_i64"
  "get_array k (jobj kvs) = Option.bind (map_of (rev kvs) k) as_array"
  by (simp_all add: get_str_def get_bool_def get_u64_def get_i64_def get_array_def jget_jobj)

lemma get_readers_jset:
  assumes "is_obj j"
  shows "get_str k (jset k' v j) = (if k = k' then as_str v else get_str k j)"
    "get_bool k (jset k' v j) = (if k = k' then as_bool v else get_bool k j)"
    "get_u64 k (jset k' v j) = (if k = k' then as_u64 v else get_u64 k j)"
    "get_i64 k (jset k' v j) = (if k = k' then as_i64 v else get_i64 k j)"
    "get_array k (jset k' v j) = (if k = k' then as_array v else get_array k j)"
  using assms by (simp_all add: get_str_def get_bool_def get_u64_def get_i64_def get_array_def)

lemma jidx_jobj: "jidx (jobj kvs) k = (case map_of (rev kvs) k of None \<Rightarrow> JNull | Some v \<Rightarrow> v)"
  by (simp add: jidx_def jget_jobj)

lemma jidx_jset [simp]: "is_obj j \<Longrightarrow> jidx (jset k' v j) k = (if k = k' then v else jidx j k)"
  by (simp add: jidx_def)

lemma as_u64_jnat [simp]: "as_u64 (jnat n) = (if n < 18446744073709551616 then Some n else None)"
  by (auto simp: jnat_def)

text \<open>Replacing an entry by itself and overwriting twice.\<close>

lemma bt_insert_overwrite: "bt_insert k v (bt_insert k v' m) = bt_insert k v m"
  by (induction k v' m rule: bt_insert.induct) auto

lemma jset_overwrite [simp]: "jset k v (jset k v' j) = jset k v j"
  by (cases j) (auto simp: bt_insert_overwrite)

section \<open>Derived readers\<close>

text \<open>How a derived reader takes a document apart: the fields by name, unknown ones refused, or an
  array that gives them in order; an optional field may be absent or null.\<close>

definition only_keys :: "string list \<Rightarrow> json \<Rightarrow> bool" where
  "only_keys ks j = (case j of JObj m \<Rightarrow> list_all (\<lambda>kv. fst kv \<in> set ks) m | _ \<Rightarrow> False)"

definition struct_fields :: "string list \<Rightarrow> json \<Rightarrow> json option" where
  "struct_fields names j =
     (case j of
        JObj m \<Rightarrow> if only_keys names j then Some j else None
      | JArr vs \<Rightarrow> if length vs \<le> length names then Some (jobj (zip names vs)) else None
      | _ \<Rightarrow> None)"

definition opt_field :: "(json \<Rightarrow> 'a option) \<Rightarrow> string \<Rightarrow> json \<Rightarrow> 'a option option" where
  "opt_field rd k j =
     (case jget k j of None \<Rightarrow> Some None | Some JNull \<Rightarrow> Some None | Some v \<Rightarrow> map_option Some (rd v))"

definition default_bool :: "string \<Rightarrow> json \<Rightarrow> bool option" where
  "default_bool k j = (case jget k j of None \<Rightarrow> Some False | Some v \<Rightarrow> as_bool v)"

definition as_u32 :: "json \<Rightarrow> nat option" where
  "as_u32 j = Option.bind (as_u64 j) (\<lambda>n. if n < 2 ^ 32 then Some n else None)"

definition as_u8 :: "json \<Rightarrow> nat option" where
  "as_u8 j = Option.bind (as_u64 j) (\<lambda>n. if n < 256 then Some n else None)"

lemma keys_of_list: "fst ` set (bt_of_list kvs) = fst ` set kvs"
proof -
  have "fst ` set (fold (\<lambda>(k, v) m. bt_insert k v m) kvs m) = fst ` set kvs \<union> fst ` set m" for m
    by (induction kvs arbitrary: m) (simp_all add: case_prod_beta)
  then show ?thesis by (simp add: bt_of_list_def)
qed

lemma only_keys_jobj: "only_keys ks (jobj kvs) \<longleftrightarrow> fst ` set kvs \<subseteq> set ks"
  using keys_of_list [of kvs] by (simp add: only_keys_def jobj_def list_all_iff image_subset_iff [symmetric])

lemma struct_fields_jobj: "fst ` set kvs \<subseteq> set names \<Longrightarrow> struct_fields names (jobj kvs) = Some (jobj kvs)"
  using only_keys_jobj [of names kvs] by (simp add: struct_fields_def jobj_def)

lemma those_map_Some: "those (map f xs) = Some (map g xs)" if "\<And>x. x \<in> set xs \<Longrightarrow> f x = Some (g x)" for f g
  using that by (induction xs) auto

end
