(* ===== verification/Credentials.thy ===== *)
theory Credentials
  imports RustStd
begin

text \<open>
  Credential material of \<open>crates/compat-config/src/credentials.rs\<close>: how identifiers and
  secrets are formed from the bytes of the system random generator, and the shape checks they
  must pass.  Random bytes are arguments; the hexadecimal encoder, the hash and the
  constant-time comparison are third-party code and are parameters.  The class of a credential
  (\<open>model.rs\<close>) is declared here because its prefix is part of every identifier.
\<close>

unbundle bit_operations_syntax

datatype CredentialClass = Native | Compatibility

fun class_str :: "CredentialClass \<Rightarrow> string" where
  "class_str Native = ''native''"
| "class_str Compatibility = ''compatibility''"

fun principal_prefix :: "CredentialClass \<Rightarrow> string" where
  "principal_prefix Native = ''native_''"
| "principal_prefix Compatibility = ''ext_''"

section \<open>Generation\<close>

text \<open>Sixteen random bytes with the version and variant bits of RFC 4122 set, printed in the
  8-4-4-4-12 layout.\<close>

definition uuid_bytes :: "8 word list \<Rightarrow> 8 word list" where
  "uuid_bytes bytes =
     (bytes[6 := (bytes ! 6 AND 0x0f) OR 0x40])[8 := (bytes ! 8 AND 0x3f) OR 0x80]"

definition generate_uuid_v4 :: "8 word list \<Rightarrow> string" where
  "generate_uuid_v4 bytes =
     (let b = uuid_bytes bytes in
      hex_byte (b ! 0) @ hex_byte (b ! 1) @ hex_byte (b ! 2) @ hex_byte (b ! 3) @ ''-'' @
      hex_byte (b ! 4) @ hex_byte (b ! 5) @ ''-'' @
      hex_byte (b ! 6) @ hex_byte (b ! 7) @ ''-'' @
      hex_byte (b ! 8) @ hex_byte (b ! 9) @ ''-'' @
      hex_byte (b ! 10) @ hex_byte (b ! 11) @ hex_byte (b ! 12) @ hex_byte (b ! 13) @
      hex_byte (b ! 14) @ hex_byte (b ! 15))"

definition generate_user_id :: "8 word list \<Rightarrow> string" where
  "generate_user_id bytes = ''user_'' @ generate_uuid_v4 bytes"

definition generate_native_principal_id :: "8 word list \<Rightarrow> string" where
  "generate_native_principal_id bytes =
     ''native_'' @ filter (\<lambda>c. c \<noteq> CHR ''-'') (generate_uuid_v4 bytes)"

definition generate_credential_id :: "8 word list \<Rightarrow> string" where
  "generate_credential_id bytes =
     ''cred_'' @ filter (\<lambda>c. c \<noteq> CHR ''-'') (generate_uuid_v4 bytes)"

definition generate_principal_id ::
    "(8 word list \<Rightarrow> string) \<Rightarrow> CredentialClass \<Rightarrow> 8 word list \<Rightarrow> string" where
  "generate_principal_id hex class bytes = principal_prefix class @ hex bytes"

definition generate_hysteria2_password :: "(8 word list \<Rightarrow> string) \<Rightarrow> 8 word list \<Rightarrow> string" where
  "generate_hysteria2_password hex bytes = hex bytes"

definition generate_hysteria2_obfs_password ::
    "(8 word list \<Rightarrow> string) \<Rightarrow> 8 word list \<Rightarrow> string" where
  "generate_hysteria2_obfs_password hex bytes = hex bytes"

definition generate_short_id :: "(8 word list \<Rightarrow> string) \<Rightarrow> 8 word list \<Rightarrow> string" where
  "generate_short_id hex bytes = hex bytes"

section \<open>Shape checks\<close>

datatype PrincipalError = WrongPrefix | WrongLength nat | NotHex

definition validate_principal_id :: "string \<Rightarrow> CredentialClass \<Rightarrow> PrincipalError + unit" where
  "validate_principal_id principal_id class =
     (case strip_prefix (principal_prefix class) principal_id of
        None \<Rightarrow> Inl WrongPrefix
      | Some suffix \<Rightarrow>
          if length suffix \<noteq> 24 then Inl (WrongLength (length suffix))
          else if \<not> list_all is_ascii_hexdigit suffix then Inl NotHex
          else Inr ())"

definition is_uuid_v4_shaped :: "string \<Rightarrow> bool" where
  "is_uuid_v4_shaped value =
     (let groups = split_on (CHR ''-'') value in
      length groups = 5
      \<and> list_all (\<lambda>(g, len). length g = len \<and> list_all is_ascii_hexdigit g)
          (zip groups [8, 4, 4, 4, 12]))"

text \<open>Token hashes.  \<open>sha\<close> is SHA-256, \<open>hex\<close> the hexadecimal encoder and \<open>ct_eq\<close> the
  constant-time comparison of equally long slices.\<close>

definition hash_token :: "(string \<Rightarrow> 8 word list) \<Rightarrow> (8 word list \<Rightarrow> string) \<Rightarrow> string \<Rightarrow> string" where
  "hash_token sha hex token = hex (sha token)"

definition token_hash_eq :: "(string \<Rightarrow> string \<Rightarrow> bool) \<Rightarrow> string \<Rightarrow> string \<Rightarrow> bool" where
  "token_hash_eq ct_eq computed stored =
     (if length computed \<noteq> length stored then False else ct_eq computed stored)"

definition verify_token ::
    "(string \<Rightarrow> 8 word list) \<Rightarrow> (8 word list \<Rightarrow> string) \<Rightarrow> (string \<Rightarrow> string \<Rightarrow> bool)
       \<Rightarrow> string \<Rightarrow> string \<Rightarrow> bool" where
  "verify_token sha hex ct_eq token stored = token_hash_eq ct_eq (hash_token sha hex token) stored"

section \<open>Lemmas\<close>

lemma split_hex_groups:
  assumes "\<And>c. c \<in> set g \<Longrightarrow> is_ascii_hexdigit c"
  shows "split_on (CHR ''-'') (g @ CHR ''-'' # r) = g # split_on (CHR ''-'') r"
  using assms hexdigit_not_dash by (intro split_on_append) blast

lemma split_hex_last:
  assumes "\<And>c. c \<in> set g \<Longrightarrow> is_ascii_hexdigit c"
  shows "split_on (CHR ''-'') g = [g]"
  using assms hexdigit_not_dash by (intro split_on_no_sep) blast

lemma generate_uuid_groups:
  "\<exists>a b c d e. generate_uuid_v4 bytes =
       a @ CHR ''-'' # b @ CHR ''-'' # c @ CHR ''-'' # d @ CHR ''-'' # e
     \<and> length a = 8 \<and> length b = 4 \<and> length c = 4 \<and> length d = 4 \<and> length e = 12
     \<and> (\<forall>x\<in>set a \<union> set b \<union> set c \<union> set d \<union> set e. is_ascii_hexdigit x)"
proof -
  let ?b = "\<lambda>i. hex_byte (uuid_bytes bytes ! i)"
  let ?cat = "\<lambda>is. concat (map ?b is)"
  have "generate_uuid_v4 bytes = ?cat [0,1,2,3] @ CHR ''-'' # ?cat [4,5] @ CHR ''-'' # ?cat [6,7]
      @ CHR ''-'' # ?cat [8,9] @ CHR ''-'' # ?cat [10,11,12,13,14,15]"
    by (simp add: generate_uuid_v4_def Let_def)
  then show ?thesis by (intro exI conjI) (assumption, auto intro: hex_byte_hex)
qed

lemma generate_uuid_v4_shaped: "is_uuid_v4_shaped (generate_uuid_v4 bytes)"
proof -
  obtain a b c d e where g: "generate_uuid_v4 bytes =
       a @ CHR ''-'' # b @ CHR ''-'' # c @ CHR ''-'' # d @ CHR ''-'' # e"
    and l: "length a = 8" "length b = 4" "length c = 4" "length d = 4" "length e = 12"
    and h: "\<forall>x\<in>set a \<union> set b \<union> set c \<union> set d \<union> set e. is_ascii_hexdigit x"
    using generate_uuid_groups by blast
  have "split_on (CHR ''-'') (generate_uuid_v4 bytes) = [a, b, c, d, e]"
    using h unfolding g by (simp add: split_hex_groups split_hex_last)
  with l h show ?thesis by (simp add: is_uuid_v4_shaped_def list_all_iff)
qed

lemma uuid_without_dashes:
  "length (filter (\<lambda>c. c \<noteq> CHR ''-'') (generate_uuid_v4 bytes)) = 32"
  "\<forall>c\<in>set (filter (\<lambda>c. c \<noteq> CHR ''-'') (generate_uuid_v4 bytes)). is_ascii_hexdigit c"
proof -
  obtain a b c d e where g: "generate_uuid_v4 bytes =
       a @ CHR ''-'' # b @ CHR ''-'' # c @ CHR ''-'' # d @ CHR ''-'' # e"
    and l: "length a = 8" "length b = 4" "length c = 4" "length d = 4" "length e = 12"
    and h: "\<forall>x\<in>set a \<union> set b \<union> set c \<union> set d \<union> set e. is_ascii_hexdigit x"
    using generate_uuid_groups by blast
  have f: "filter (\<lambda>c. c \<noteq> CHR ''-'') s = s" if "\<forall>x\<in>set s. is_ascii_hexdigit x" for s
    using that hexdigit_not_dash by (auto simp: filter_id_conv)
  have "filter (\<lambda>c. c \<noteq> CHR ''-'') (generate_uuid_v4 bytes) = a @ b @ c @ d @ e"
    using h unfolding g by (simp add: f)
  with l h show "length (filter (\<lambda>c. c \<noteq> CHR ''-'') (generate_uuid_v4 bytes)) = 32"
    "\<forall>c\<in>set (filter (\<lambda>c. c \<noteq> CHR ''-'') (generate_uuid_v4 bytes)). is_ascii_hexdigit c"
    by auto
qed

lemma generate_principal_id_valid:
  assumes "length (hex bytes) = 24" "\<forall>c\<in>set (hex bytes). is_ascii_hexdigit c"
  shows "validate_principal_id (generate_principal_id hex class bytes) class = Inr ()"
  using assms
  by (simp add: validate_principal_id_def generate_principal_id_def list_all_iff)

end
