(* ===== verification/Authorization.thy ===== *)
theory Authorization
  imports RustStd "HOL-Library.Multiset"
begin

text \<open>
  Time-bounded authorization records, \<open>crates/compat-config/src/authorization.rs\<close>: the check
  of one record, the set-level rules (pairwise overlap and the event sweep that bounds the
  number of simultaneously valid records of a principal), the deterministic view of the
  records active at an instant, and native renewal.  The sweep is proved exact.
\<close>

definition AUTH_NATIVE_LEASE_SECS :: int where "AUTH_NATIVE_LEASE_SECS = 30 * 60"
definition AUTH_NATIVE_RENEW_AFTER_SECS :: int where "AUTH_NATIVE_RENEW_AFTER_SECS = 15 * 60"
definition AUTH_COMPAT_MIN_LIFETIME_SECS :: int where "AUTH_COMPAT_MIN_LIFETIME_SECS = 6 * 60 * 60"
definition AUTH_COMPAT_MAX_LIFETIME_SECS :: int where "AUTH_COMPAT_MAX_LIFETIME_SECS = 30 * 24 * 60 * 60"
definition AUTH_MAX_OVERLAP_SECS :: int where "AUTH_MAX_OVERLAP_SECS = 48 * 60 * 60"

datatype AuthClass = AuthNative | AuthCompatibility

record Authorization =
  a_principal_id :: string
  a_credential_id :: string
  a_class :: AuthClass
  a_valid_from :: int
  a_valid_until :: int
  a_revoked :: bool
  a_vless_uuid :: "string option"
  a_hysteria2_password :: "string option"

datatype AuthError =
    BadPrincipalId | BadCredentialId | NativePrefix | ExtPrefix | InvalidRange | EmptyInterval
  | NoSecret | MalformedUuid | MalformedPassword | NativeLifetime | CompatLifetime
  | DuplicateCredential string | OverlapTooLong | MoreThanTwo string
  | NotFound | NotActiveNative | RenewalOverflow

section \<open>One record\<close>

definition valid_vless_uuid :: "string \<Rightarrow> bool" where
  "valid_vless_uuid value \<longleftrightarrow>
     length value = 36
     \<and> list_all (\<lambda>(index, c). if index \<in> {8, 13, 18, 23} then c = CHR ''-'' else is_ascii_hexdigit c)
         (zip [0..<36] value)"

definition valid_hysteria2_password :: "string \<Rightarrow> bool" where
  "valid_hysteria2_password value \<longleftrightarrow>
     16 \<le> length value \<and> length value \<le> 128
     \<and> list_all (\<lambda>c. 0x21 \<le> (of_char c :: nat) \<and> (of_char c :: nat) \<le> 0x7e) value"

definition validate_id :: "AuthError \<Rightarrow> string list \<Rightarrow> string \<Rightarrow> AuthError + unit" where
  "validate_id err prefixes value =
     (if \<not> list_ex (\<lambda>prefix. starts_with prefix value) prefixes
         \<or> length value < 12 \<or> length value > 96
         \<or> \<not> list_all (\<lambda>b. is_ascii_alphanumeric b \<or> b = CHR ''_'' \<or> b = CHR ''-'') value
      then Inl err else Inr ())"

definition auth_validate_principal_id :: "string \<Rightarrow> AuthError + unit" where
  "auth_validate_principal_id value = validate_id BadPrincipalId [''native_'', ''ext_''] value"

definition auth_validate_credential_id :: "string \<Rightarrow> AuthError + unit" where
  "auth_validate_credential_id value = validate_id BadCredentialId [''cred_''] value"

definition validate_item :: "Authorization \<Rightarrow> AuthError + unit" where
  "validate_item a =
     rbind (auth_validate_principal_id (a_principal_id a)) (\<lambda>_.
     rbind (auth_validate_credential_id (a_credential_id a)) (\<lambda>_.
     if a_class a = AuthNative \<and> \<not> starts_with ''native_'' (a_principal_id a) then Inl NativePrefix
     else if a_class a = AuthCompatibility \<and> \<not> starts_with ''ext_'' (a_principal_id a)
       then Inl ExtPrefix
     else rbind (of_opt InvalidRange (checked_sub_i64 (a_valid_until a) (a_valid_from a))) (\<lambda>lifetime.
     if a_revoked a then Inr ()
     else if lifetime \<le> 0 then Inl EmptyInterval
     else if a_vless_uuid a = None \<and> a_hysteria2_password a = None then Inl NoSecret
     else if (case a_vless_uuid a of None \<Rightarrow> False | Some s \<Rightarrow> \<not> valid_vless_uuid s)
       then Inl MalformedUuid
     else if (case a_hysteria2_password a of None \<Rightarrow> False | Some s \<Rightarrow> \<not> valid_hysteria2_password s)
       then Inl MalformedPassword
     else (case a_class a of
             AuthNative \<Rightarrow> if lifetime > AUTH_NATIVE_LEASE_SECS then Inl NativeLifetime else Inr ()
           | AuthCompatibility \<Rightarrow>
               if lifetime > AUTH_COMPAT_MAX_LIFETIME_SECS then Inl CompatLifetime else Inr ()))))"

definition is_active_at :: "Authorization \<Rightarrow> int \<Rightarrow> bool" where
  "is_active_at a now \<longleftrightarrow> \<not> a_revoked a \<and> a_valid_from a \<le> now \<and> now < a_valid_until a"

section \<open>Sets of records\<close>

type_synonym AuthorizationSet = "Authorization list"

definition auth_overlap_check :: "Authorization \<Rightarrow> Authorization \<Rightarrow> AuthError + unit" where
  "auth_overlap_check a b =
     (if wrap_i64 (min (a_valid_until a) (a_valid_until b) - max (a_valid_from a) (a_valid_from b))
         > AUTH_MAX_OVERLAP_SECS
      then Inl OverlapTooLong else Inr ())"

definition auth_events :: "Authorization list \<Rightarrow> (int \<times> int) list" where
  "auth_events cs = concat (map (\<lambda>c. [(a_valid_from c, 1), (a_valid_until c, - 1)]) cs)"

fun sweep :: "string \<Rightarrow> int \<Rightarrow> (int \<times> int) list \<Rightarrow> AuthError + unit" where
  "sweep pid active [] = Inr ()"
| "sweep pid active ((_, delta) # events) =
     (let active = active + delta in
      if active > 2 then Inl (MoreThanTwo pid) else sweep pid active events)"

definition principal_credentials :: "AuthorizationSet \<Rightarrow> string \<Rightarrow> Authorization list" where
  "principal_credentials s pid =
     filter (\<lambda>a. a_principal_id a = pid \<and> \<not> a_revoked a) s"

definition validate_set :: "AuthorizationSet \<Rightarrow> AuthError + unit" where
  "validate_set s =
     check_all (\<lambda>pid.
       let credentials = principal_credentials s pid in
       rbind (check_pairs auth_overlap_check credentials) (\<lambda>_.
       sweep pid 0 (sort (auth_events credentials))))
     (btree_set (map a_principal_id s))"

fun validate_items :: "string list \<Rightarrow> Authorization list \<Rightarrow> AuthError + unit" where
  "validate_items ids [] = Inr ()"
| "validate_items ids (item # items) =
     rbind (validate_item item) (\<lambda>_.
     if a_credential_id item \<in> set ids then Inl (DuplicateCredential (a_credential_id item))
     else validate_items (a_credential_id item # ids) items)"

definition validate_authorization_set :: "AuthorizationSet \<Rightarrow> AuthError + unit" where
  "validate_authorization_set s = rbind (validate_items [] s) (\<lambda>_. validate_set s)"

definition active_at :: "AuthorizationSet \<Rightarrow> int \<Rightarrow> Authorization list" where
  "active_at s now =
     sort_key (\<lambda>a. (a_principal_id a, a_credential_id a)) (filter (\<lambda>a. is_active_at a now) s)"

text \<open>Renewal works in place on the first record with the given id; the set is returned with the
  result because the start of the window is written before the addition is checked.\<close>

fun renew_native :: "AuthorizationSet \<Rightarrow> string \<Rightarrow> int \<Rightarrow> AuthorizationSet \<times> (AuthError + unit)" where
  "renew_native [] credential_id now = ([], Inl NotFound)"
| "renew_native (item # rest) credential_id now =
     (if a_credential_id item = credential_id then
        (if a_class item \<noteq> AuthNative \<or> a_revoked item \<or> \<not> is_active_at item now
         then (item # rest, Inl NotActiveNative)
         else case checked_add_i64 now AUTH_NATIVE_LEASE_SECS of
                None \<Rightarrow> (item\<lparr>a_valid_from := now\<rparr> # rest, Inl RenewalOverflow)
              | Some u \<Rightarrow> (item\<lparr>a_valid_from := now, a_valid_until := u\<rparr> # rest, Inr ()))
      else (let (rest', r) = renew_native rest credential_id now in (item # rest', r)))"

section \<open>The sweep is exact\<close>

definition active_count :: "Authorization list \<Rightarrow> int \<Rightarrow> nat" where
  "active_count cs t = length (filter (\<lambda>c. a_valid_from c \<le> t \<and> t < a_valid_until c) cs)"

lemma all_nat_cases: "(\<forall>k. P k) \<longleftrightarrow> P 0 \<and> (\<forall>k. P (Suc k))"
  by (metis not0_implies_Suc)

lemma sweep_iff:
  "a \<le> 2 \<Longrightarrow> sweep p a evs = Inr u \<longleftrightarrow> (\<forall>k. a + sum_list (map snd (take k evs)) \<le> 2)"
proof (induction evs arbitrary: a)
  case Nil
  then show ?case by simp
next
  case (Cons e evs)
  obtain t d where e: "e = (t, d)" by (cases e)
  show ?case
  proof (cases "a + d \<le> 2")
    case True
    then show ?thesis
      using Cons.prems Cons.IH [OF True]
      by (subst all_nat_cases) (simp add: e Let_def add.assoc)
  next
    case False
    then have "\<not> (\<forall>k. a + sum_list (map snd (take k (e # evs))) \<le> 2)"
      by (intro notI, drule_tac spec [of _ 1]) (simp add: e)
    with False show ?thesis by (simp add: e Let_def)
  qed
qed

lemma sorted_takeWhile_filter: "sorted (xs :: 'a::linorder list) \<Longrightarrow> takeWhile (\<lambda>y. y \<le> x) xs = filter (\<lambda>y. y \<le> x) xs"
  by (induction xs) (auto simp: eq_commute [of "[]"] filter_empty_conv dest: order_trans)

lemma sum_list_filter_sort:
  "sum_list (map f (filter P (sort xs))) = (sum_list (map f (filter P xs)) :: int)"
  by (metis mset_filter mset_sort mset_map sum_mset_sum_list)

lemma events_sum:
  assumes "\<forall>c\<in>set cs. a_valid_from c < a_valid_until c"
  shows "sum_list (map snd (filter (\<lambda>e. e \<le> (t, 1)) (auth_events cs))) = int (active_count cs t)"
  using assms by (induction cs) (auto simp: auth_events_def active_count_def)

lemma sweep_sound:
  assumes "sweep p 0 (sort (auth_events cs)) = Inr u"
    "\<forall>c\<in>set cs. a_valid_from c < a_valid_until c"
  shows "active_count cs t \<le> 2"
proof -
  let ?evs = "sort (auth_events cs)"
  have "takeWhile (\<lambda>e. e \<le> (t, 1)) ?evs = filter (\<lambda>e. e \<le> (t, 1)) ?evs"
    by (rule sorted_takeWhile_filter) simp
  moreover have "takeWhile (\<lambda>e. e \<le> (t, 1)) ?evs = take (length (takeWhile (\<lambda>e. e \<le> (t, 1)) ?evs)) ?evs"
    by (rule takeWhile_eq_take)
  ultimately obtain k where "take k ?evs = filter (\<lambda>e. e \<le> (t, 1)) ?evs" by metis
  then have "sum_list (map snd (filter (\<lambda>e. e \<le> (t, 1)) ?evs)) \<le> 2"
    using assms(1) sweep_iff [of 0 p ?evs u] by (metis add_0 zero_le_numeral)
  then show ?thesis
    using events_sum [OF assms(2), of t] by (simp add: sum_list_filter_sort)
qed

lemma sorted_prefix_rest:
  assumes "sorted (ys @ (t, 1) # zs)" "e \<in> set zs" "e \<le> (t, 1 :: int)"
  shows "e = (t, 1)"
  using assms by (simp add: sorted_append eq_iff)

lemma sum_ones: "(\<And>e. e \<in> set zs \<Longrightarrow> snd e = (1 :: int)) \<Longrightarrow> 0 \<le> sum_list (map snd zs)"
  by (rule sum_list_nonneg) auto

lemma prefix_sum_bound:
  assumes "sorted evs" "\<And>e. e \<in> set evs \<Longrightarrow> snd e = 1 \<or> snd e = (- 1 :: int)"
    "\<And>t. sum_list (map snd (filter (\<lambda>e. e \<le> (t, 1)) evs)) \<le> 2"
  shows "sum_list (map snd (take k evs)) \<le> (2 :: int)"
proof (induction k)
  case 0
  then show ?case by simp
next
  case (Suc k)
  show ?case
  proof (cases "k < length evs")
    case False
    then show ?thesis using Suc by simp
  next
    case True
    obtain t d where e: "evs ! k = (t, d)" by (cases "evs ! k")
    have split: "evs = take k evs @ (t, d) # drop (Suc k) evs"
      using id_take_nth_drop [OF True] by (simp add: e)
    have sum: "sum_list (map snd (take (Suc k) evs)) = sum_list (map snd (take k evs)) + d"
      using True by (simp add: take_Suc_conv_app_nth e)
    show ?thesis
    proof (cases "d = 1")
      case False
      then have "d = - 1" using assms(2) [of "(t, d)"] True e by (metis nth_mem snd_conv)
      then show ?thesis using Suc sum by simp
    next
      case True
      let ?Z = "filter (\<lambda>e. e \<le> (t, 1)) (drop (Suc k) evs)"
      have s: "sorted (take k evs @ (t, 1) # drop (Suc k) evs)"
        using assms(1) split True by simp
      have "snd e = 1" if "e \<in> set ?Z" for e
        using sorted_prefix_rest [OF s] that by fastforce
      then have "0 \<le> sum_list (map snd ?Z)" by (rule sum_ones)
      moreover have "filter (\<lambda>e. e \<le> (t, 1)) evs = take k evs @ (t, 1) # ?Z"
        using s by (subst split) (auto simp: True sorted_append)
      ultimately show ?thesis
        using assms(3) [of t] sum True by simp
    qed
  qed
qed

lemma sweep_exact:
  assumes "\<forall>c\<in>set cs. a_valid_from c < a_valid_until c"
  shows "sweep p 0 (sort (auth_events cs)) = Inr u \<longleftrightarrow> (\<forall>t. active_count cs t \<le> 2)"
proof
  assume "\<forall>t. active_count cs t \<le> 2"
  then have "sum_list (map snd (filter (\<lambda>e. e \<le> (t, 1)) (sort (auth_events cs)))) \<le> 2" for t
    using events_sum [OF assms, of t] by (simp add: sum_list_filter_sort)
  moreover have "snd e = 1 \<or> snd e = - 1" if "e \<in> set (sort (auth_events cs))" for e
    using that by (auto simp: auth_events_def)
  ultimately have "sum_list (map snd (take k (sort (auth_events cs)))) \<le> 2" for k
    by (intro prefix_sum_bound) auto
  then show "sweep p 0 (sort (auth_events cs)) = Inr u" by (subst sweep_iff) simp_all
qed (use sweep_sound assms in blast)

section \<open>Lemmas on validation\<close>

lemma validate_items_iff:
  "validate_items ids s = Inr u \<longleftrightarrow>
     (\<forall>a\<in>set s. is_ok (validate_item a)) \<and> distinct (map a_credential_id s)
     \<and> set ids \<inter> a_credential_id ` set s = {}"
  by (induction s arbitrary: ids) (auto simp: rbind_eq_Inr is_ok_iff)

lemma validate_item_live:
  assumes "is_ok (validate_item a)" "\<not> a_revoked a"
  shows "a_valid_from a < a_valid_until a" "in_i64 (a_valid_until a - a_valid_from a)"
    "a_valid_until a - a_valid_from a \<le> AUTH_COMPAT_MAX_LIFETIME_SECS"
    "a_class a = AuthNative \<Longrightarrow> a_valid_until a - a_valid_from a \<le> AUTH_NATIVE_LEASE_SECS"
  using assms
  by (auto simp: validate_item_def is_ok_rbind checked_sub_i64_def AUTH_NATIVE_LEASE_SECS_def
      AUTH_COMPAT_MAX_LIFETIME_SECS_def split: if_splits AuthClass.splits)

lemma active_count_principal:
  "active_count (principal_credentials s p) t
     = length (filter (\<lambda>a. a_principal_id a = p \<and> is_active_at a t) s)"
  by (simp add: active_count_def principal_credentials_def is_active_at_def conj_assoc)

lemma principal_credentials_live:
  assumes "\<forall>a\<in>set s. is_ok (validate_item a)"
  shows "\<forall>c\<in>set (principal_credentials s p). a_valid_from c < a_valid_until c"
  using assms validate_item_live(1) by (auto simp: principal_credentials_def)

lemma principal_credentials_other: "p \<notin> a_principal_id ` set s \<Longrightarrow> principal_credentials s p = []"
  by (auto simp: principal_credentials_def filter_empty_conv)

lemma validate_set_exact:
  assumes "\<forall>a\<in>set s. is_ok (validate_item a)"
  shows "validate_set s = Inr () \<longleftrightarrow>
     (\<forall>p. sorted_wrt (\<lambda>a b. is_ok (auth_overlap_check a b)) (principal_credentials s p))
     \<and> (\<forall>p t. length (filter (\<lambda>a. a_principal_id a = p \<and> is_active_at a t) s) \<le> 2)"
proof -
  have "is_ok (sweep p 0 (sort (auth_events (principal_credentials s p)))) \<longleftrightarrow>
      (\<forall>t. length (filter (\<lambda>a. a_principal_id a = p \<and> is_active_at a t) s) \<le> 2)" for p
    using sweep_exact [OF principal_credentials_live [OF assms], of p p "()"]
    by (simp add: is_ok_iff active_count_principal)
  then have "validate_set s = Inr () \<longleftrightarrow> (\<forall>p\<in>a_principal_id ` set s.
      sorted_wrt (\<lambda>a b. is_ok (auth_overlap_check a b)) (principal_credentials s p)
      \<and> (\<forall>t. length (filter (\<lambda>a. a_principal_id a = p \<and> is_active_at a t) s) \<le> 2))"
    by (simp add: validate_set_def check_all_iff Let_def is_ok_rbind check_pairs_iff)
  moreover have "length (filter (\<lambda>a. a_principal_id a = p \<and> is_active_at a t) s) \<le> 2"
    if "p \<notin> a_principal_id ` set s" for p t
    using principal_credentials_other [OF that] active_count_principal [of s p t]
    by (simp add: active_count_def)
  moreover have "sorted_wrt (\<lambda>a b. is_ok (auth_overlap_check a b)) (principal_credentials s p)"
    if "p \<notin> a_principal_id ` set s" for p
    using principal_credentials_other [OF that] by simp
  ultimately show ?thesis by blast
qed

lemma validate_authorization_setI:
  assumes "\<forall>a\<in>set s. is_ok (validate_item a)" "distinct (map a_credential_id s)"
    "sorted_wrt (\<lambda>a b. is_ok (auth_overlap_check a b)) s"
    "\<And>p t. length (filter (\<lambda>a. a_principal_id a = p \<and> is_active_at a t) s) \<le> 2"
  shows "validate_authorization_set s = Inr ()"
proof -
  have "sorted_wrt (\<lambda>a b. is_ok (auth_overlap_check a b)) (principal_credentials s p)" for p
    unfolding principal_credentials_def by (rule sorted_wrt_filter [OF assms(3)])
  then have "validate_set s = Inr ()"
    unfolding validate_set_exact [OF assms(1)] using assms(4) by blast
  then show ?thesis
    using assms(1,2) by (simp add: validate_authorization_set_def rbind_eq_Inr validate_items_iff)
qed

lemma auth_overlap_check_iff:
  assumes "\<bar>a_valid_from a\<bar> \<le> 4611686018427387903" "\<bar>a_valid_until a\<bar> \<le> 4611686018427387903"
    "\<bar>a_valid_from b\<bar> \<le> 4611686018427387903" "\<bar>a_valid_until b\<bar> \<le> 4611686018427387903"
  shows "is_ok (auth_overlap_check a b) \<longleftrightarrow>
    min (a_valid_until a) (a_valid_until b) - max (a_valid_from a) (a_valid_from b) \<le> 172800"
proof -
  have "\<bar>min (a_valid_until a) (a_valid_until b)\<bar> \<le> 4611686018427387903"
    "\<bar>max (a_valid_from a) (a_valid_from b)\<bar> \<le> 4611686018427387903"
    using assms by (auto simp: min_def max_def)
  then have "in_i64 (min (a_valid_until a) (a_valid_until b) - max (a_valid_from a) (a_valid_from b))"
    unfolding in_i64_def I64_MAX_def I64_MIN_def abs_le_iff by linarith
  then show ?thesis
    by (simp add: auth_overlap_check_def AUTH_MAX_OVERLAP_SECS_def)
qed

lemma sort_key_unique:
  assumes "mset xs = mset ys" "distinct (map f xs)"
  shows "sort_key f xs = sort_key f ys"
proof -
  have d: "distinct (map f ys)"
    using assms by (metis mset_eq_imp_distinct_iff mset_map)
  have "set xs = set ys" using assms(1) by (metis set_mset_mset)
  moreover have "inj_on f (set (sort_key f xs) \<union> set (sort_key f ys))"
    using assms(2) calculation by (simp add: distinct_map)
  ultimately show ?thesis
    using assms(2) d
    by (intro map_sorted_distinct_set_unique) (auto simp: distinct_map)
qed

lemma active_at_perm:
  assumes "mset s = mset s'" "distinct (map a_credential_id s)"
  shows "active_at s now = active_at s' now"
  unfolding active_at_def
proof (rule sort_key_unique)
  show "mset (filter (\<lambda>a. is_active_at a now) s) = mset (filter (\<lambda>a. is_active_at a now) s')"
    using assms(1) by simp
  show "distinct (map (\<lambda>a. (a_principal_id a, a_credential_id a)) (filter (\<lambda>a. is_active_at a now) s))"
    using assms(2) by (auto simp: distinct_map intro: inj_onI dest: inj_onD)
qed

lemma renew_native_ok:
  assumes "renew_native s cid now = (s', Inr u)"
  shows "\<exists>xs a ys. s = xs @ a # ys \<and> cid \<notin> a_credential_id ` set xs \<and> a_credential_id a = cid
    \<and> a_class a = AuthNative \<and> is_active_at a now \<and> in_i64 (now + AUTH_NATIVE_LEASE_SECS)
    \<and> s' = xs @ a\<lparr>a_valid_from := now, a_valid_until := now + AUTH_NATIVE_LEASE_SECS\<rparr> # ys"
  using assms
proof (induction s arbitrary: s')
  case Nil
  then show ?case by simp
next
  case (Cons item rest)
  show ?case
  proof (cases "a_credential_id item = cid")
    case True
    with Cons.prems show ?thesis
      by (intro exI [of _ "[]"] exI [of _ item] exI [of _ rest])
        (auto simp: checked_add_i64_def split: if_splits)
  next
    case False
    then obtain rest' where "renew_native rest cid now = (rest', Inr u)" "s' = item # rest'"
      using Cons.prems by (auto split: prod.splits)
    then obtain xs a ys where "rest = xs @ a # ys" "cid \<notin> a_credential_id ` set xs"
      "a_credential_id a = cid" "a_class a = AuthNative" "is_active_at a now"
      "in_i64 (now + AUTH_NATIVE_LEASE_SECS)"
      "s' = item # xs @ a\<lparr>a_valid_from := now, a_valid_until := now + AUTH_NATIVE_LEASE_SECS\<rparr> # ys"
      using Cons.IH by blast
    with False show ?thesis by (intro exI [of _ "item # xs"] exI [of _ a] exI [of _ ys]) auto
  qed
qed

lemma renew_keeps_item:
  assumes "is_ok (validate_item a)" "a_class a = AuthNative" "is_active_at a now"
    "in_i64 (now + AUTH_NATIVE_LEASE_SECS)"
  shows "is_ok (validate_item (a\<lparr>a_valid_from := now, a_valid_until := now + AUTH_NATIVE_LEASE_SECS\<rparr>))"
  using assms
  by (auto simp: validate_item_def is_ok_rbind checked_sub_i64_def AUTH_NATIVE_LEASE_SECS_def
      in_i64_def I64_MAX_def I64_MIN_def is_active_at_def split: if_splits)

section \<open>Properties\<close>

text \<open>C30: Validation of a set of authorizations is exact about simultaneity: for records that
  pass the individual checks, with timestamps inside half the 64-bit range, the set is accepted
  if and only if the credential identifiers are distinct, any two unrevoked records of one
  principal overlap for at most 48 hours, and at no instant are more than two records of one
  principal active.\<close>

theorem authorization_set_validation_exact:
  assumes items: "\<forall>a\<in>set s. is_ok (validate_item a)"
    and range: "\<forall>a\<in>set s. \<bar>a_valid_from a\<bar> \<le> 4611686018427387903
                          \<and> \<bar>a_valid_until a\<bar> \<le> 4611686018427387903"
  shows "validate_authorization_set s = Inr () \<longleftrightarrow>
    distinct (map a_credential_id s)
    \<and> (\<forall>p. sorted_wrt (\<lambda>a b. min (a_valid_until a) (a_valid_until b)
              - max (a_valid_from a) (a_valid_from b) \<le> 172800) (principal_credentials s p))
    \<and> (\<forall>p t. length (filter (\<lambda>a. a_principal_id a = p \<and> is_active_at a t) s) \<le> 2)"
proof -
  have "sorted_wrt (\<lambda>a b. is_ok (auth_overlap_check a b)) (principal_credentials s p) \<longleftrightarrow>
      sorted_wrt (\<lambda>a b. min (a_valid_until a) (a_valid_until b)
              - max (a_valid_from a) (a_valid_from b) \<le> 172800) (principal_credentials s p)" for p
    using range by (intro sorted_wrt_cong_on auth_overlap_check_iff) (auto simp: principal_credentials_def)
  then show ?thesis
    using items validate_set_exact [OF items]
    by (auto simp: validate_authorization_set_def rbind_eq_Inr validate_items_iff)
qed

definition example_authorization :: "string \<Rightarrow> int \<Rightarrow> int \<Rightarrow> Authorization" where
  "example_authorization suffix a b =
     \<lparr>a_principal_id = ''ext_alpha-000'', a_credential_id = ''cred_beta-00'' @ suffix,
      a_class = AuthCompatibility, a_valid_from = a, a_valid_until = b, a_revoked = False,
      a_vless_uuid = None, a_hysteria2_password = Some ''0123456789abcdef''\<rparr>"

lemma example_authorization_ok:
  assumes "x \<in> {CHR ''1'', CHR ''2'', CHR ''3''}" "0 \<le> a" "a < b" "b \<le> 2592000"
  shows "is_ok (validate_item (example_authorization [x] a b))"
proof -
  have "auth_validate_principal_id ''ext_alpha-000'' = Inr ()"
    by (simp add: auth_validate_principal_id_def validate_id_def starts_with_def ascii_classes)
  moreover have "auth_validate_credential_id (''cred_beta-00'' @ [x]) = Inr ()"
    using assms(1)
    by (elim insertE emptyE)
      (simp_all add: auth_validate_credential_id_def validate_id_def starts_with_def ascii_classes)
  moreover have "valid_hysteria2_password ''0123456789abcdef''"
    by (simp add: valid_hysteria2_password_def)
  ultimately show ?thesis
    using assms(2-4)
    by (simp add: validate_item_def example_authorization_def starts_with_def checked_sub_i64_def
        in_i64_def I64_MAX_def I64_MIN_def AUTH_COMPAT_MAX_LIFETIME_SECS_def del: append.simps)
qed

theorem authorization_set_validation_exact_witness:
  "validate_authorization_set
     [example_authorization ''1'' 0 1000, example_authorization ''2'' 500 2000,
      example_authorization ''3'' 900 3000] \<noteq> Inr ()"
proof -
  let ?s = "[example_authorization ''1'' 0 1000, example_authorization ''2'' 500 2000,
      example_authorization ''3'' 900 3000]"
  have i: "\<forall>a\<in>set ?s. is_ok (validate_item a)" by (simp add: example_authorization_ok)
  have r: "\<forall>a\<in>set ?s. \<bar>a_valid_from a\<bar> \<le> 4611686018427387903 \<and> \<bar>a_valid_until a\<bar> \<le> 4611686018427387903"
    by (simp add: example_authorization_def)
  have "\<exists>p t. 2 < length (filter (\<lambda>a. a_principal_id a = p \<and> is_active_at a t) ?s)"
    by (intro exI [of _ "''ext_alpha-000''"] exI [of _ 950])
      (simp add: example_authorization_def is_active_at_def)
  then have "\<not> (\<forall>p t. length (filter (\<lambda>a. a_principal_id a = p \<and> is_active_at a t) ?s) \<le> 2)"
    by (simp only: not_le not_all)
  then show ?thesis unfolding authorization_set_validation_exact [OF i r] by blast
qed

text \<open>The view of a validated set that every render uses contains exactly the unrevoked records
  whose half-open window contains the instant, each once, ordered by principal and credential; it
  contains at most two records of a principal, and it does not depend on the order in which the
  records were stored.\<close>

theorem active_at_view:
  assumes "validate_authorization_set s = Inr ()"
  shows "mset (active_at s now) = filter_mset (\<lambda>a. is_active_at a now) (mset s)
    \<and> sorted (map (\<lambda>a. (a_principal_id a, a_credential_id a)) (active_at s now))
    \<and> length (filter (\<lambda>a. a_principal_id a = p) (active_at s now)) \<le> 2
    \<and> (\<forall>s'. mset s' = mset s \<longrightarrow> active_at s' now = active_at s now)"
proof -
  have v: "\<forall>a\<in>set s. is_ok (validate_item a)" "distinct (map a_credential_id s)"
    "validate_set s = Inr ()"
    using assms by (auto simp: validate_authorization_set_def rbind_eq_Inr validate_items_iff)
  have m: "mset (active_at s now) = filter_mset (\<lambda>a. is_active_at a now) (mset s)"
    by (simp add: active_at_def)
  have "mset (filter (\<lambda>a. a_principal_id a = p) (active_at s now))
      = mset (filter (\<lambda>a. a_principal_id a = p \<and> is_active_at a now) s)"
    by (simp add: active_at_def filter_filter_mset conj_commute [of "is_active_at _ now"])
  then have "length (filter (\<lambda>a. a_principal_id a = p) (active_at s now))
      = length (filter (\<lambda>a. a_principal_id a = p \<and> is_active_at a now) s)"
    by (rule mset_eq_length)
  then have "length (filter (\<lambda>a. a_principal_id a = p) (active_at s now)) \<le> 2"
    using v(3) unfolding validate_set_exact [OF v(1)] by simp
  moreover have "sorted (map (\<lambda>a. (a_principal_id a, a_credential_id a)) (active_at s now))"
    by (simp add: active_at_def)
  moreover have "\<forall>s'. mset s' = mset s \<longrightarrow> active_at s' now = active_at s now"
    using active_at_perm [OF _ v(2)] by metis
  ultimately show ?thesis using m by blast
qed

theorem active_at_view_witness:
  "active_at [example_authorization ''2'' 500 2000, example_authorization ''1'' 0 1000] 950
     = active_at [example_authorization ''1'' 0 1000, example_authorization ''2'' 500 2000] 950"
proof -
  let ?s = "[example_authorization ''1'' 0 1000, example_authorization ''2'' 500 2000]"
  have "validate_authorization_set ?s = Inr ()"
  proof (rule validate_authorization_setI)
    show "\<forall>a\<in>set ?s. is_ok (validate_item a)" by (simp add: example_authorization_ok)
    show "distinct (map a_credential_id ?s)" by (simp add: example_authorization_def)
    show "sorted_wrt (\<lambda>a b. is_ok (auth_overlap_check a b)) ?s"
      by (simp add: auth_overlap_check_def example_authorization_def AUTH_MAX_OVERLAP_SECS_def
          in_i64_def I64_MAX_def I64_MIN_def)
    show "length (filter (\<lambda>a. a_principal_id a = p \<and> is_active_at a t) ?s) \<le> 2" for p t
      by (rule order_trans [OF length_filter_le]) simp
  qed
  from active_at_view [OF this, of 950] have
    "\<forall>s'. mset s' = mset ?s \<longrightarrow> active_at s' 950 = active_at ?s 950" by blast
  then have "mset (rev ?s) = mset ?s \<longrightarrow> active_at (rev ?s) 950 = active_at ?s 950" by (rule spec)
  from mp [OF this mset_rev] show ?thesis by (simp only: rev.simps append.simps)
qed

text \<open>Renewing a native authorization succeeds only for the first record with that identifier,
  and only when it is native, unrevoked and active now; it moves the window to the half hour from
  now, changes neither the secrets nor any other field nor any other record, and the renewed
  record passes the individual check again if it did before.\<close>

theorem renew_native_preserves:
  assumes "renew_native s cid now = (s', Inr u)"
  shows "\<exists>xs a b ys. s = xs @ a # ys \<and> s' = xs @ b # ys \<and> a_credential_id a = cid
    \<and> a_class a = AuthNative \<and> is_active_at a now
    \<and> b = a\<lparr>a_valid_from := now, a_valid_until := now + 1800\<rparr>
    \<and> (is_ok (validate_item a) \<longrightarrow> is_ok (validate_item b))"
proof -
  obtain xs a ys where h: "s = xs @ a # ys" "a_credential_id a = cid" "a_class a = AuthNative"
    "is_active_at a now" "in_i64 (now + AUTH_NATIVE_LEASE_SECS)"
    "s' = xs @ a\<lparr>a_valid_from := now, a_valid_until := now + AUTH_NATIVE_LEASE_SECS\<rparr> # ys"
    using renew_native_ok [OF assms] by blast
  have l: "AUTH_NATIVE_LEASE_SECS = 1800" by (simp add: AUTH_NATIVE_LEASE_SECS_def)
  from renew_keeps_item [OF _ h(3,4,5)] h show ?thesis unfolding l by blast
qed

theorem renew_native_preserves_witness:
  "\<exists>s'. renew_native [(example_authorization ''1'' 0 1000)\<lparr>a_class := AuthNative\<rparr>] ''cred_beta-001'' 500
       = (s', Inr ())
     \<and> (\<exists>b. s' = [b] \<and> b = (example_authorization ''1'' 500 2300)\<lparr>a_class := AuthNative\<rparr>)"
proof -
  have r: "renew_native [(example_authorization ''1'' 0 1000)\<lparr>a_class := AuthNative\<rparr>] ''cred_beta-001'' 500
      = ([(example_authorization ''1'' 500 2300)\<lparr>a_class := AuthNative\<rparr>], Inr ())"
    by (simp add: example_authorization_def is_active_at_def checked_add_i64_def in_i64_def I64_MAX_def
        I64_MIN_def AUTH_NATIVE_LEASE_SECS_def)
  with renew_native_preserves [OF r] show ?thesis by blast
qed

end
