(* ===== verification/LeasePool.thy ===== *)
theory LeasePool
  imports Json Credentials Authorization
begin

text \<open>
  The node-side lease pool, \<open>apps/provisioning-agent/src/lease_pool.rs\<close>: minting, the pure
  rotation and batching decisions, renewals, resizing, the exchange with the control plane and
  the whole \<open>tick\<close>.  The state of the process, the persisted copy and the observable actions
  (persisting, calling \<open>vpn-admin\<close>, calling the control plane) are explicit.  Parameters stand
  for the random bytes, the clock, the file system's success, \<open>vpn-admin\<close>, the control plane and
  the RFC 3339 printer and parser.
\<close>

section \<open>State\<close>

definition MAX_POOL_SIZE :: nat where "MAX_POOL_SIZE = 1024"
definition DEFAULT_BATCH_SECS :: int where "DEFAULT_BATCH_SECS = 600"
definition DEFAULT_MIN_REMAINING_SECS :: int where "DEFAULT_MIN_REMAINING_SECS = 600"

record Slot =
  s_slot :: nat
  s_generation :: nat
  s_valid_until :: int
  s_principal_id :: string
  s_credential_id :: string
  s_class :: AuthClass
  s_valid_from :: int
  s_revoked :: bool
  s_vless_uuid :: string
  s_hysteria2_password :: string
  s_reported :: bool

record LeaseState =
  ls_slots :: "Slot list"
  ls_applied :: bool
  ls_last_rotation_at :: int

definition default_lease_state :: LeaseState where
  "default_lease_state = \<lparr>ls_slots = [], ls_applied = False, ls_last_rotation_at = 0\<rparr>"

record RemoteSlot =
  r_generation :: nat
  r_state :: string
  r_urgent :: bool
  r_extend_to :: "int option"

record RemoteView =
  rv_as_of :: int
  rv_min_remaining :: int
  rv_slots :: "nat \<rightharpoonup> RemoteSlot"

section \<open>Pure decisions\<close>

definition round_down_to_grid :: "int \<Rightarrow> int \<Rightarrow> int" where
  "round_down_to_grid t grid = t div grid * grid"

definition clamp_batch_interval :: "nat \<Rightarrow> int" where
  "clamp_batch_interval secs = int (clamp secs 60 (nat DEFAULT_BATCH_SECS))"

definition clamp_lifetime :: "nat \<Rightarrow> int \<Rightarrow> int" where
  "clamp_lifetime secs grid =
     (let lo = max (DEFAULT_MIN_REMAINING_SECS + grid + 60) 900 in
      clamp (wrap_i64 (int secs)) lo AUTH_NATIVE_LEASE_SECS)"

text \<open>The four draws from the random generator that one minted slot consumes.\<close>

type_synonym draws = "8 word list \<times> 8 word list \<times> 8 word list \<times> 8 word list"
type_synonym hex_fun = "8 word list \<Rightarrow> string"

definition mint :: "hex_fun \<Rightarrow> draws \<Rightarrow> nat \<Rightarrow> nat \<Rightarrow> int \<Rightarrow> int \<Rightarrow> int \<Rightarrow> Slot" where
  "mint hex d slot generation now lifetime grid =
     (let (b1, b2, b3, b4) = d in
      \<lparr>s_slot = slot, s_generation = generation,
       s_valid_until = round_down_to_grid (now + lifetime) grid,
       s_principal_id = generate_native_principal_id b1,
       s_credential_id = generate_credential_id b2,
       s_class = AuthNative, s_valid_from = now, s_revoked = False,
       s_vless_uuid = generate_uuid_v4 b3,
       s_hysteria2_password = generate_hysteria2_password hex b4,
       s_reported = False\<rparr>)"

datatype Why = WhyExpired | WhyUrgent | WhyDeferrable

definition slot_candidate :: "RemoteView option \<Rightarrow> int \<Rightarrow> Slot \<Rightarrow> (nat \<times> Why) option" where
  "slot_candidate remote now s =
     (let min_remaining = (case remote of None \<Rightarrow> DEFAULT_MIN_REMAINING_SECS | Some r \<Rightarrow> rv_min_remaining r);
          leasable_until = s_valid_until s - min_remaining in
      if s_valid_until s \<le> now then Some (s_slot s, WhyExpired)
      else if \<not> s_reported s \<and> now \<ge> leasable_until then Some (s_slot s, WhyDeferrable)
      else case remote of
             None \<Rightarrow> None
           | Some r \<Rightarrow>
               (case rv_slots r (s_slot s) of
                  None \<Rightarrow> None
                | Some rs \<Rightarrow>
                    if r_generation rs = s_generation s then
                      (if r_state rs = ''revoked''
                       then Some (s_slot s, if r_urgent rs then WhyUrgent else WhyDeferrable)
                       else if r_state rs = ''active'' \<and> rv_as_of r \<ge> leasable_until
                       then Some (s_slot s, WhyDeferrable) else None)
                    else None))"

definition rotation_candidates :: "LeaseState \<Rightarrow> RemoteView option \<Rightarrow> int \<Rightarrow> (nat \<times> Why) list" where
  "rotation_candidates st remote now = List.map_filter (slot_candidate remote now) (ls_slots st)"

definition slots_to_rotate :: "LeaseState \<Rightarrow> RemoteView option \<Rightarrow> int \<Rightarrow> int \<Rightarrow> nat list" where
  "slots_to_rotate st remote now grid =
     (let candidates = rotation_candidates st remote now;
          forced = list_ex (\<lambda>(_, why). why \<noteq> WhyDeferrable) candidates;
          boundary_passed = (now div grid > ls_last_rotation_at st div grid) in
      if forced \<or> (candidates \<noteq> [] \<and> boundary_passed) then map fst candidates else [])"

definition extend_slot :: "RemoteView \<Rightarrow> int \<Rightarrow> int \<Rightarrow> int \<Rightarrow> Slot \<Rightarrow> Slot option" where
  "extend_slot remote now cap grid s =
     (case rv_slots remote (s_slot s) of
        None \<Rightarrow> None
      | Some rs \<Rightarrow>
          if r_generation rs \<noteq> s_generation s \<or> r_state rs \<noteq> ''leased'' \<or> s_valid_until s \<le> now
          then None
          else case r_extend_to rs of
                 None \<Rightarrow> None
               | Some t \<Rightarrow>
                   (let nxt = min (round_down_to_grid t grid) cap in
                    if nxt > s_valid_until s
                    then Some (s\<lparr>s_valid_from := now, s_valid_until := nxt, s_revoked := False\<rparr>)
                    else None))"

definition adopt_extensions ::
    "LeaseState \<Rightarrow> RemoteView \<Rightarrow> int \<Rightarrow> int \<Rightarrow> int \<Rightarrow> LeaseState \<times> nat" where
  "adopt_extensions st remote now lifetime grid =
     (let cap = round_down_to_grid (now + lifetime) grid;
          slots = map (\<lambda>s. case extend_slot remote now cap grid s of None \<Rightarrow> s | Some s' \<Rightarrow> s') (ls_slots st);
          n = length (filter (\<lambda>s. extend_slot remote now cap grid s \<noteq> None) (ls_slots st)) in
      (st\<lparr>ls_slots := slots, ls_applied := (if n > 0 then False else ls_applied st)\<rparr>, n))"

text \<open>\<open>plan\<close>: one pass over the slot numbers; each step looks up the first slot with the number.\<close>

fun update_first :: "('a \<Rightarrow> bool) \<Rightarrow> ('a \<Rightarrow> 'a) \<Rightarrow> 'a list \<Rightarrow> 'a list" where
  "update_first P f [] = []"
| "update_first P f (x # xs) = (if P x then f x # xs else x # update_first P f xs)"

definition rotate_slot :: "hex_fun \<Rightarrow> (nat \<Rightarrow> draws) \<Rightarrow> int \<Rightarrow> int \<Rightarrow> int \<Rightarrow> Slot \<Rightarrow> Slot" where
  "rotate_slot hex rng now lifetime grid s =
     (mint hex (rng (s_slot s)) (s_slot s) (s_generation s + 1) now lifetime grid)
       \<lparr>s_principal_id := s_principal_id s\<rparr>"

definition plan_step ::
    "hex_fun \<Rightarrow> (nat \<Rightarrow> draws) \<Rightarrow> nat list \<Rightarrow> int \<Rightarrow> int \<Rightarrow> int \<Rightarrow> nat \<Rightarrow> Slot list \<times> bool \<Rightarrow> Slot list \<times> bool" where
  "plan_step hex rng rot now lifetime grid slot acc =
     (let (slots, changed) = acc in
      case find (\<lambda>s. s_slot s = slot) slots of
        Some existing \<Rightarrow>
          if slot \<in> set rot
          then (update_first (\<lambda>s. s_slot s = slot) (rotate_slot hex rng now lifetime grid) slots, True)
          else (slots, changed)
      | None \<Rightarrow> (slots @ [mint hex (rng slot) slot 1 now lifetime grid], True))"

definition plan ::
    "hex_fun \<Rightarrow> (nat \<Rightarrow> draws) \<Rightarrow> LeaseState \<Rightarrow> nat \<Rightarrow> nat list \<Rightarrow> int \<Rightarrow> int \<Rightarrow> int \<Rightarrow> LeaseState \<times> bool" where
  "plan hex rng st sz rot now lifetime grid =
     (let sz = min sz MAX_POOL_SIZE;
          kept = filter (\<lambda>s. s_slot s < sz) (ls_slots st);
          changed0 = (length kept \<noteq> length (ls_slots st));
          (slots, changed) = fold (plan_step hex rng rot now lifetime grid) [0..<sz] (kept, changed0)
      in (st\<lparr>ls_slots := sort_key s_slot slots,
             ls_applied := (if changed then False else ls_applied st)\<rparr>, changed))"

datatype LeaseError =
    BadStateFile | ReadFailed | SaveFailed | ApplyFailed string | NotLive | TimeFormat | SyncFailed string
  | MissingAsOf | BadAsOf | BadExtendTo

text \<open>The legacy migration that \<open>load_state\<close> performs on what it read.\<close>

definition migrate_slot :: "draws \<Rightarrow> Slot \<Rightarrow> Slot" where
  "migrate_slot d s =
     (let (b1, b2, _, _) = d;
          s = (if s_principal_id s = [] then s\<lparr>s_principal_id := generate_native_principal_id b1\<rparr> else s);
          s = (if s_credential_id s = [] then s\<lparr>s_credential_id := generate_credential_id b2\<rparr> else s)
      in if s_valid_from s = 0
         then s\<lparr>s_valid_from := s_valid_until s - AUTH_NATIVE_LEASE_SECS\<rparr> else s)"

text \<open>What reading the state file gives; the bytes are what the deserializer makes of them.\<close>

datatype disk_read = DiskMissing | DiskUnreadable | DiskBytes "LeaseState option"

definition load_state :: "(nat \<Rightarrow> draws) \<Rightarrow> disk_read \<Rightarrow> LeaseError + LeaseState" where
  "load_state rng disk =
     (case disk of
        DiskBytes None \<Rightarrow> Inl BadStateFile
      | DiskBytes (Some st) \<Rightarrow>
          Inr (st\<lparr>ls_slots := map (\<lambda>(i, s). migrate_slot (rng i) s) (enumerate 0 (ls_slots st))\<rparr>)
      | DiskMissing \<Rightarrow> Inr default_lease_state
      | DiskUnreadable \<Rightarrow> Inl ReadFailed)"

section \<open>Exchange with vpn-admin and the control plane\<close>

fun auth_class_json :: "AuthClass \<Rightarrow> json" where
  "auth_class_json AuthNative = JStr ''native''"
| "auth_class_json AuthCompatibility = JStr ''compatibility''"

definition vpn_admin_slot :: "Slot \<Rightarrow> json" where
  "vpn_admin_slot s =
     jobj [(''slot'', jnat (s_slot s)),
           (''principal_id'', JStr (s_principal_id s)),
           (''credential_id'', JStr (s_credential_id s)),
           (''class'', auth_class_json (s_class s)),
           (''valid_from'', JInt (s_valid_from s)),
           (''revoked'', JBool (s_revoked s)),
           (''vless_uuid'', JStr (s_vless_uuid s)),
           (''hysteria2_password'', JStr (s_hysteria2_password s)),
           (''expires_at'', JInt (s_valid_until s))]"

definition vpn_admin_input :: "LeaseState \<Rightarrow> json" where
  "vpn_admin_input st = jobj [(''slots'', JArr (map vpn_admin_slot (ls_slots st)))]"

text \<open>\<open>fmt\<close> prints and \<open>prs\<close> parses RFC 3339 timestamps.\<close>

definition sync_slot :: "(int \<Rightarrow> string option) \<Rightarrow> Slot \<Rightarrow> LeaseError + json" where
  "sync_slot fmt s =
     rbind (of_opt TimeFormat (fmt (s_valid_from s))) (\<lambda>vf.
     rbind (of_opt TimeFormat (fmt (s_valid_until s))) (\<lambda>vu.
     let item = jobj [(''slot'', jnat (s_slot s)),
                      (''generation'', jnat (s_generation s)),
                      (''principal_id'', JStr (s_principal_id s)),
                      (''credential_id'', JStr (s_credential_id s)),
                      (''class'', auth_class_json (s_class s)),
                      (''valid_from'', JStr vf),
                      (''revoked'', JBool (s_revoked s)),
                      (''valid_until'', JStr vu)] in
     Inr (if s_reported s then item
          else jset ''hysteria2_password'' (JStr (s_hysteria2_password s))
                 (jset ''vless_uuid'' (JStr (s_vless_uuid s)) item))))"

definition sync_body ::
    "(int \<Rightarrow> string option) \<Rightarrow> LeaseState \<Rightarrow> string option \<Rightarrow> int \<Rightarrow> int \<Rightarrow> LeaseError + json" where
  "sync_body fmt st obfs lifetime grid =
     rbind (map_result (sync_slot fmt) (ls_slots st)) (\<lambda>slots.
     let body = jobj [(''slots'', JArr slots),
                      (''policy'', jobj [(''rotation_batch_interval_secs'', JInt grid),
                                         (''slot_lifetime_secs'', JInt lifetime)])] in
     Inr (case obfs of None \<Rightarrow> body | Some p \<Rightarrow> jset ''hysteria2_obfs_password'' (JStr p) body))"

text \<open>One item of the response: \<open>None\<close> skips it, an error aborts.  The slot number is truncated
  to 32 bits.\<close>

definition remote_item :: "(string \<Rightarrow> int option) \<Rightarrow> json \<Rightarrow> LeaseError + (nat \<times> RemoteSlot) option" where
  "remote_item prs item =
     (case (get_u64 ''slot'' item, get_u64 ''generation'' item, get_str ''state'' item) of
        (Some slot, Some generation, Some st) \<Rightarrow>
          rbind (case get_str ''extend_to'' item of
                   None \<Rightarrow> Inr None
                 | Some t \<Rightarrow> (case prs t of None \<Rightarrow> Inl BadExtendTo | Some u \<Rightarrow> Inr (Some u)))
            (\<lambda>extend_to.
              Inr (Some (slot mod 2 ^ 32,
                \<lparr>r_generation = generation, r_state = st,
                 r_urgent = (get_bool ''urgent'' item = Some True), r_extend_to = extend_to\<rparr>)))
      | _ \<Rightarrow> Inr None)"

definition mark_slot :: "(nat \<rightharpoonup> RemoteSlot) \<Rightarrow> Slot \<Rightarrow> Slot" where
  "mark_slot view s =
     (case view (s_slot s) of
        Some r \<Rightarrow>
          if r_generation r = s_generation s
          then s\<lparr>s_reported := True, s_revoked := (r_state r = ''revoked'')\<rparr>
          else s\<lparr>s_reported := False, s_revoked := False\<rparr>
      | None \<Rightarrow> s\<lparr>s_reported := False, s_revoked := False\<rparr>)"

definition absorb_sync_response ::
    "(string \<Rightarrow> int option) \<Rightarrow> LeaseState \<Rightarrow> json \<Rightarrow> LeaseError + (LeaseState \<times> RemoteView)" where
  "absorb_sync_response prs st resp =
     rbind (of_opt MissingAsOf (get_str ''as_of'' resp)) (\<lambda>as_of_str.
     rbind (of_opt BadAsOf (prs as_of_str)) (\<lambda>as_of.
     let min_remaining = (case get_i64 ''min_remaining_seconds'' resp of
                            None \<Rightarrow> DEFAULT_MIN_REMAINING_SECS | Some m \<Rightarrow> m);
         items = (case get_array ''slots'' resp of None \<Rightarrow> [] | Some xs \<Rightarrow> xs) in
     rbind (map_result (remote_item prs) items) (\<lambda>rs.
     let view = map_of (rev (List.map_filter id rs)) in
     Inr (st\<lparr>ls_slots := map (mark_slot view) (ls_slots st)\<rparr>,
          \<lparr>rv_as_of = as_of, rv_min_remaining = min_remaining, rv_slots = view\<rparr>))))"

section \<open>The pool process\<close>

datatype lease_action = SaveState LeaseState | RunVpnAdmin LeaseState json | SyncLeases LeaseState json

record LeasePool =
  lp_disk :: "LeaseState option"
  lp_state :: LeaseState
  lp_remote :: "RemoteView option"
  lp_obfs_password :: "string option"
  lp_obfs_reported :: bool
  lp_applied_this_process :: bool

text \<open>What one tick sees of the world.\<close>

record TickEnv =
  te_now :: int
  te_now_after_sync :: int
  te_batch_secs :: nat
  te_lifetime_secs :: nat
  te_pool_size :: nat
  te_sync_due :: bool
  te_hex :: hex_fun
  te_rng :: "nat \<Rightarrow> draws"
  te_save_ok :: "LeaseState \<Rightarrow> bool"
  te_vpn_admin :: "json \<Rightarrow> string + json"
  te_sync :: "json \<Rightarrow> string + json"
  te_fmt :: "int \<Rightarrow> string option"
  te_parse :: "string \<Rightarrow> int option"

type_synonym 'a lp = "(LeasePool, lease_action, LeaseError, 'a) traced"

definition save_state :: "TickEnv \<Rightarrow> unit lp" where
  "save_state env p =
     (if te_save_ok env (lp_state p)
      then (p\<lparr>lp_disk := Some (lp_state p)\<rparr>, [SaveState (lp_state p)], Inr ())
      else (p, [], Inl SaveFailed))"

definition open_pool :: "(nat \<Rightarrow> draws) \<Rightarrow> disk_read \<Rightarrow> LeaseError + LeasePool" where
  "open_pool rng disk =
     rbind (load_state rng disk) (\<lambda>st.
     Inr \<lparr>lp_disk = (case disk of DiskBytes d \<Rightarrow> d | _ \<Rightarrow> None), lp_state = st, lp_remote = None,
          lp_obfs_password = None, lp_obfs_reported = False, lp_applied_this_process = False\<rparr>)"

definition apply_pool :: "TickEnv \<Rightarrow> unit lp" where
  "apply_pool env p =
     (let input = vpn_admin_input (lp_state p) in
      case te_vpn_admin env input of
        Inl e \<Rightarrow> (p, [RunVpnAdmin (lp_state p) input], Inl (ApplyFailed e))
      | Inr parsed \<Rightarrow>
          if get_bool ''live'' parsed \<noteq> Some True
          then (p, [RunVpnAdmin (lp_state p) input], Inl NotLive)
          else
            let obfs = get_str ''hysteria2_obfs_password'' parsed;
                p1 = p\<lparr>lp_obfs_reported := (if obfs \<noteq> lp_obfs_password p then False else lp_obfs_reported p),
                       lp_obfs_password := obfs,
                       lp_state := (lp_state p)\<lparr>ls_applied := True\<rparr>,
                       lp_applied_this_process := True\<rparr>
            in case save_state env p1 of
                 (p2, t, r) \<Rightarrow> (p2, RunVpnAdmin (lp_state p) input # t, r))"

definition plan_phase :: "TickEnv \<Rightarrow> int \<Rightarrow> int \<Rightarrow> bool lp" where
  "plan_phase env grid lifetime p =
     (let rot = slots_to_rotate (lp_state p) (lp_remote p) (te_now env) grid;
          st0 = (if rot \<noteq> [] then (lp_state p)\<lparr>ls_last_rotation_at := te_now env\<rparr> else lp_state p);
          (st1, changed) = plan (te_hex env) (te_rng env) st0 (te_pool_size env) rot (te_now env) lifetime grid;
          p1 = p\<lparr>lp_state := st1\<rparr>
      in if changed then tr_bind (save_state env) (\<lambda>_. tr_return True) p1 else (p1, [], Inr False))"

definition apply_phase :: "TickEnv \<Rightarrow> bool \<Rightarrow> bool lp" where
  "apply_phase env dirty p =
     (if \<not> ls_applied (lp_state p) \<or> \<not> lp_applied_this_process p
      then tr_bind (apply_pool env) (\<lambda>_. tr_return True) p
      else (p, [], Inr dirty))"

definition sync_phase :: "TickEnv \<Rightarrow> int \<Rightarrow> int \<Rightarrow> unit lp" where
  "sync_phase env grid lifetime p =
     (let obfs = (if lp_obfs_reported p then None else lp_obfs_password p) in
      case sync_body (te_fmt env) (lp_state p) obfs lifetime grid of
        Inl e \<Rightarrow> (p, [], Inl e)
      | Inr body \<Rightarrow>
          (case te_sync env body of
             Inl e \<Rightarrow> (p, [SyncLeases (lp_state p) body], Inl (SyncFailed e))
           | Inr resp \<Rightarrow>
               (case absorb_sync_response (te_parse env) (lp_state p) resp of
                  Inl e \<Rightarrow> (p, [SyncLeases (lp_state p) body], Inl e)
                | Inr (st1, view) \<Rightarrow>
                    let (st2, _) = adopt_extensions st1 view (te_now_after_sync env) lifetime grid;
                        p1 = p\<lparr>lp_state := st2,
                               lp_obfs_reported := (if get_bool ''obfs_stored'' resp = Some True
                                                      \<or> lp_obfs_password p = None
                                                    then True else lp_obfs_reported p),
                               lp_remote := Some view\<rparr>
                    in if st2 \<noteq> lp_state p
                       then (case save_state env p1 of
                               (p2, t, r) \<Rightarrow> (p2, SyncLeases (lp_state p) body # t, r))
                       else (p1, [SyncLeases (lp_state p) body], Inr ()))))"

definition tick :: "TickEnv \<Rightarrow> unit lp" where
  "tick env =
     (let grid = clamp_batch_interval (te_batch_secs env);
          lifetime = clamp_lifetime (te_lifetime_secs env) grid in
      tr_bind (plan_phase env grid lifetime) (\<lambda>dirty.
      tr_bind (apply_phase env dirty) (\<lambda>dirty p.
      if te_pool_size env = 0 \<and> ls_slots (lp_state p) = [] then tr_return () p
      else if \<not> (te_sync_due env \<or> dirty) then tr_return () p
      else sync_phase env grid lifetime p)))"

section \<open>Arithmetic of the grid\<close>

lemma clamp_batch_interval_bounds: "60 \<le> clamp_batch_interval secs" "clamp_batch_interval secs \<le> 600"
  by (auto simp: clamp_batch_interval_def clamp_def DEFAULT_BATCH_SECS_def)

lemma clamp_lifetime_bounds:
  assumes "grid \<le> 600"
  shows "grid + 660 \<le> clamp_lifetime secs grid" "900 \<le> clamp_lifetime secs grid"
    "clamp_lifetime secs grid \<le> 1800"
  using assms
  by (auto simp: clamp_lifetime_def clamp_def Let_def DEFAULT_MIN_REMAINING_SECS_def
      AUTH_NATIVE_LEASE_SECS_def)

lemma round_down_bounds:
  assumes "0 < grid"
  shows "round_down_to_grid t grid \<le> t" "t - grid < round_down_to_grid t grid"
    "grid dvd round_down_to_grid t grid"
proof -
  have "0 \<le> t mod grid" "t mod grid < grid" using assms by simp_all
  moreover have "round_down_to_grid t grid = t - t mod grid"
    by (simp add: round_down_to_grid_def minus_mod_eq_div_mult [symmetric])
  ultimately show "round_down_to_grid t grid \<le> t" "t - grid < round_down_to_grid t grid" by simp_all
qed (simp add: round_down_to_grid_def)

lemma mint_simps [simp]:
  "s_slot (mint hex d i g now l grid) = i"
  "s_generation (mint hex d i g now l grid) = g"
  "s_valid_from (mint hex d i g now l grid) = now"
  "s_valid_until (mint hex d i g now l grid) = round_down_to_grid (now + l) grid"
  "s_class (mint hex d i g now l grid) = AuthNative"
  "s_revoked (mint hex d i g now l grid) = False"
  "s_reported (mint hex d i g now l grid) = False"
  by (simp_all add: mint_def split: prod.split)

lemma rotate_slot_simps [simp]:
  "s_slot (rotate_slot hex rng now l grid s) = s_slot s"
  "s_generation (rotate_slot hex rng now l grid s) = s_generation s + 1"
  "s_principal_id (rotate_slot hex rng now l grid s) = s_principal_id s"
  "s_valid_from (rotate_slot hex rng now l grid s) = now"
  "s_valid_until (rotate_slot hex rng now l grid s) = round_down_to_grid (now + l) grid"
  "s_class (rotate_slot hex rng now l grid s) = AuthNative"
  "s_revoked (rotate_slot hex rng now l grid s) = False"
  "s_reported (rotate_slot hex rng now l grid s) = False"
  by (simp_all add: rotate_slot_def)

section \<open>What a plan computes\<close>

text \<open>The reference: slot by slot, independently of the order in which the loop visits them.\<close>

definition plan_slot ::
    "hex_fun \<Rightarrow> (nat \<Rightarrow> draws) \<Rightarrow> nat list \<Rightarrow> int \<Rightarrow> int \<Rightarrow> int \<Rightarrow> Slot list \<Rightarrow> nat \<Rightarrow> Slot" where
  "plan_slot hex rng rot now lifetime grid slots i =
     (case find (\<lambda>s. s_slot s = i) slots of
        None \<Rightarrow> mint hex (rng i) i 1 now lifetime grid
      | Some s \<Rightarrow> if i \<in> set rot then rotate_slot hex rng now lifetime grid s else s)"

lemma plan_slot_slot [simp]: "s_slot (plan_slot hex rng rot now l grid slots i) = i"
  by (auto simp: plan_slot_def find_Some_iff split: option.split)

lemma update_first_map:
  "distinct (map f xs) \<Longrightarrow> update_first (\<lambda>x. f x = k) g xs = map (\<lambda>x. if f x = k then g x else x) xs"
  by (induction xs) (auto simp: image_iff intro!: map_idI [symmetric])

lemma find_distinct:
  assumes "distinct (map f xs)" "x \<in> set xs"
  shows "find (\<lambda>y. f y = f x) xs = Some x"
  using assms by (induction xs) (auto simp: image_iff)

lemma find_None_key: "find (\<lambda>y. f y = k) xs = None \<longleftrightarrow> k \<notin> f ` set xs"
  by (auto simp: find_None_iff)

text \<open>The loop invariant after the first \<open>k\<close> slot numbers.\<close>

definition plan_inv :: "(nat \<Rightarrow> Slot) \<Rightarrow> Slot list \<Rightarrow> nat \<Rightarrow> Slot list \<Rightarrow> bool" where
  "plan_inv g kept k L \<longleftrightarrow>
     distinct (map s_slot L) \<and> set L = g ` {0..<k} \<union> {s \<in> set kept. k \<le> s_slot s}"

lemma plan_step_inv:
  assumes kept: "distinct (map s_slot kept)"
    and g: "g = plan_slot hex rng rot now l grid kept"
    and inv: "plan_inv g kept k L"
  shows "plan_inv g kept (Suc k) (fst (plan_step hex rng rot now l grid k (L, c)))"
proof -
  have d: "distinct (map s_slot L)" and S: "set L = g ` {0..<k} \<union> {s \<in> set kept. k \<le> s_slot s}"
    using inv by (simp_all add: plan_inv_def)
  have gs: "s_slot (g i) = i" for i by (simp add: g)
  have atLeast: "{0..<Suc k} = insert k {0..<k}" by auto
  show ?thesis
  proof (cases "find (\<lambda>s. s_slot s = k) L")
    case None
    then have nL: "k \<notin> s_slot ` set L" by (simp add: find_None_key)
    then have "k \<notin> s_slot ` set kept" using S by (auto simp: image_iff)
    then have "find (\<lambda>s. s_slot s = k) kept = None" by (simp add: find_None_key)
    then have gk: "g k = mint hex (rng k) k 1 now l grid" by (simp add: g plan_slot_def)
    have "s_slot x \<noteq> k" if "x \<in> set kept" for x
      using \<open>k \<notin> s_slot ` set kept\<close> that by blast
    then have "{s \<in> set kept. k \<le> s_slot s} = {s \<in> set kept. Suc k \<le> s_slot s}"
      by (intro Collect_cong conj_cong refl) (metis Suc_leI Suc_leD le_neq_implies_less)
    moreover have "fst (plan_step hex rng rot now l grid k (L, c)) = L @ [g k]"
      using None by (simp add: plan_step_def gk)
    ultimately show ?thesis
      using d S nL by (simp add: plan_inv_def gs atLeast)
  next
    case (Some s)
    then have sL: "s \<in> set L" "s_slot s = k" by (auto simp: find_Some_iff)
    then have sk: "s \<in> set kept" using S by (auto simp: gs)
    have uniq: "s' = s" if "s' \<in> set kept" "s_slot s' = k" for s'
      using find_distinct [OF kept that(1)] find_distinct [OF kept sk] that sL by simp
    have gk: "g k = (if k \<in> set rot then rotate_slot hex rng now l grid s else s)"
      using find_distinct [OF kept sk] sL by (simp add: g plan_slot_def)
    have rest: "{x \<in> set kept. k \<le> s_slot x} = insert s {x \<in> set kept. Suc k \<le> s_slot x}"
    proof
      show "{x \<in> set kept. k \<le> s_slot x} \<subseteq> insert s {x \<in> set kept. Suc k \<le> s_slot x}"
        using uniq not_less_eq_eq by force
      show "insert s {x \<in> set kept. Suc k \<le> s_slot x} \<subseteq> {x \<in> set kept. k \<le> s_slot x}"
        using sk sL by auto
    qed
    show ?thesis
    proof (cases "k \<in> set rot")
      case False
      then show ?thesis
        using Some d S by (simp add: plan_step_def plan_inv_def gk atLeast rest)
    next
      case True
      define f where "f = (\<lambda>x. if s_slot x = k then rotate_slot hex rng now l grid x else x)"
      have fid: "f x = x" if "s_slot x \<noteq> k" for x using that by (simp add: f_def)
      have fs: "s_slot (f x) = s_slot x" for x by (simp add: f_def)
      have "f ` (g ` {0..<k}) = g ` {0..<k}"
        by (intro image_cong [THEN trans, OF refl _ image_ident]) (auto simp: gs fid)
      moreover have "f ` {x \<in> set kept. Suc k \<le> s_slot x} = {x \<in> set kept. Suc k \<le> s_slot x}"
        by (intro image_cong [THEN trans, OF refl _ image_ident]) (auto simp: fid)
      moreover have "f s = g k" using True sL by (simp add: gk f_def)
      ultimately have "f ` set L = g ` {0..<Suc k} \<union> {x \<in> set kept. Suc k \<le> s_slot x}"
        by (simp add: S rest atLeast image_Un)
      moreover have "distinct (map s_slot (map f L))" using d by (simp add: comp_def fs)
      moreover have "fst (plan_step hex rng rot now l grid k (L, c)) = map f L"
        using True Some update_first_map [OF d, of k "rotate_slot hex rng now l grid"]
        by (simp add: plan_step_def f_def)
      ultimately show ?thesis by (simp add: plan_inv_def)
    qed
  qed
qed

lemma plan_fold_inv:
  assumes "distinct (map s_slot kept)"
  shows "plan_inv (plan_slot hex rng rot now l grid kept) kept n
           (fst (fold (plan_step hex rng rot now l grid) [0..<n] (kept, c)))"
proof (induction n)
  case 0
  then show ?case using assms by (simp add: plan_inv_def)
next
  case (Suc n)
  then show ?case
    using plan_step_inv [OF assms refl Suc.IH,
        of "snd (fold (plan_step hex rng rot now l grid) [0..<n] (kept, c))"]
    by simp
qed

lemma sort_key_numbered:
  assumes "distinct (map s_slot L)" "set L = g ` {0..<n}" "\<And>i. s_slot (g i) = i"
  shows "sort_key s_slot L = map g [0..<n]"
proof (rule map_sorted_distinct_set_unique)
  show "inj_on s_slot (set (sort_key s_slot L) \<union> set (map g [0..<n]))"
    using assms by (auto simp: inj_on_def)
  show "sorted (map s_slot (map g [0..<n]))" "distinct (map s_slot (map g [0..<n]))"
    using assms(3) by (simp_all add: comp_def)
qed (use assms in \<open>auto simp: distinct_map\<close>)

lemma find_filter: "(\<And>x. P x \<Longrightarrow> Q x) \<Longrightarrow> find P (filter Q xs) = find P xs"
  by (induction xs) auto

lemma plan_slots:
  assumes "distinct (map s_slot (ls_slots st))"
  shows "ls_slots (fst (plan hex rng st sz rot now l grid)) =
    map (plan_slot hex rng rot now l grid (ls_slots st)) [0..<min sz MAX_POOL_SIZE]"
proof -
  define n where "n = min sz MAX_POOL_SIZE"
  define kept where "kept = filter (\<lambda>s. s_slot s < n) (ls_slots st)"
  have dk: "distinct (map s_slot kept)" using assms by (simp add: kept_def distinct_map_filter)
  have "sort_key s_slot (fst (fold (plan_step hex rng rot now l grid) [0..<n] (kept, c)))
      = map (plan_slot hex rng rot now l grid kept) [0..<n]" for c
    using plan_fold_inv [OF dk, of hex rng rot now l grid n c]
    by (intro sort_key_numbered) (auto simp: plan_inv_def kept_def)
  moreover have "plan_slot hex rng rot now l grid kept i = plan_slot hex rng rot now l grid (ls_slots st) i"
    if "i < n" for i
    using that find_filter [of "\<lambda>s. s_slot s = i" "\<lambda>s. s_slot s < n" "ls_slots st"]
    by (simp add: plan_slot_def kept_def)
  then have "map (plan_slot hex rng rot now l grid kept) [0..<n] =
      map (plan_slot hex rng rot now l grid (ls_slots st)) [0..<n]" by simp
  ultimately show ?thesis
    unfolding plan_def Let_def n_def [symmetric] kept_def [symmetric] case_prod_beta by simp
qed

section \<open>Rotation and batching\<close>

lemma candidate_slot: "slot_candidate remote now s = Some (i, w) \<Longrightarrow> i = s_slot s"
  by (auto simp: slot_candidate_def Let_def split: if_splits option.splits)

lemma candidate_expired: "s_valid_until s \<le> now \<Longrightarrow> slot_candidate remote now s = Some (s_slot s, WhyExpired)"
  by (simp add: slot_candidate_def)

lemma candidates_mem:
  "(i, w) \<in> set (rotation_candidates st remote now) \<longleftrightarrow>
     (\<exists>s\<in>set (ls_slots st). slot_candidate remote now s = Some (i, w))"
  by (auto simp: rotation_candidates_def set_map_filter)

lemma expired_rotates:
  assumes "s \<in> set (ls_slots st)" "s_valid_until s \<le> now"
  shows "s_slot s \<in> set (slots_to_rotate st remote now grid)"
proof -
  have c: "(s_slot s, WhyExpired) \<in> set (rotation_candidates st remote now)"
    using assms candidate_expired by (auto simp: candidates_mem)
  then have "list_ex (\<lambda>(_, why). why \<noteq> WhyDeferrable) (rotation_candidates st remote now)"
    by (force simp: list_ex_iff)
  then show ?thesis using c by (force simp: slots_to_rotate_def Let_def)
qed

lemma plan_unexpired:
  assumes d: "distinct (map s_slot (ls_slots st))" and g: "0 < grid" "grid + 660 \<le> l"
    and rot: "\<And>s. s \<in> set (ls_slots st) \<Longrightarrow> s_valid_until s \<le> now \<Longrightarrow> s_slot s \<in> set rot"
    and s: "s \<in> set (ls_slots (fst (plan hex rng st sz rot now l grid)))"
  shows "now < s_valid_until s"
proof -
  have m: "now < round_down_to_grid (now + l) grid"
    using round_down_bounds(2) [OF g(1), of "now + l"] g(2) by simp
  obtain i where i: "s = plan_slot hex rng rot now l grid (ls_slots st) i"
    using s unfolding plan_slots [OF d] by auto
  show ?thesis
    using m rot by (auto simp: i plan_slot_def not_le [symmetric] dest!: find_SomeD split: option.split)
qed

section \<open>Slots as authorizations\<close>

text \<open>The authorization record that \<open>vpn-admin\<close> builds from a slot it is handed.\<close>

definition slot_authorization :: "Slot \<Rightarrow> Authorization" where
  "slot_authorization s =
     \<lparr>a_principal_id = s_principal_id s, a_credential_id = s_credential_id s, a_class = s_class s,
      a_valid_from = s_valid_from s, a_valid_until = s_valid_until s, a_revoked = s_revoked s,
      a_vless_uuid = Some (s_vless_uuid s), a_hysteria2_password = Some (s_hysteria2_password s)\<rparr>"

text \<open>What the hexadecimal encoder documents, and the lengths of the four draws.\<close>

definition hex_spec :: "hex_fun \<Rightarrow> bool" where
  "hex_spec hex \<longleftrightarrow> (\<forall>bs. length (hex bs) = 2 * length bs \<and> (\<forall>c\<in>set (hex bs). is_ascii_hexdigit c))"

definition draws_ok :: "draws \<Rightarrow> bool" where
  "draws_ok d \<longleftrightarrow> (case d of (b1, b2, b3, b4) \<Rightarrow>
     length b1 = 16 \<and> length b2 = 16 \<and> length b3 = 16 \<and> length b4 = 24)"

lemma hex_spec_hex_encode: "hex_spec hex_encode"
  by (auto simp: hex_spec_def hex_encode_hex)

definition idx_all :: "(nat \<Rightarrow> 'a \<Rightarrow> bool) \<Rightarrow> nat \<Rightarrow> 'a list \<Rightarrow> bool" where
  "idx_all P i v \<longleftrightarrow> (\<forall>k<length v. P (i + k) (v ! k))"

lemma idx_all_Cons: "idx_all P i (c # y) \<longleftrightarrow> P i c \<and> idx_all P (Suc i) y"
  by (simp add: idx_all_def All_less_Suc2)

lemma idx_all_append: "idx_all P i (x @ y) \<longleftrightarrow> idx_all P i x \<and> idx_all P (i + length x) y"
  by (induction x arbitrary: i) (simp_all add: idx_all_Cons, simp add: idx_all_def)

definition uuid_char :: "nat \<Rightarrow> char \<Rightarrow> bool" where
  "uuid_char i c = (if i \<in> {8, 13, 18, 23} then c = CHR ''-'' else is_ascii_hexdigit c)"

lemma valid_vless_uuid_idx: "valid_vless_uuid v \<longleftrightarrow> length v = 36 \<and> idx_all uuid_char 0 v"
  unfolding valid_vless_uuid_def idx_all_def uuid_char_def list_all_length
  by (cases "length v = 36") simp_all

lemma idx_all_hex:
  assumes "\<forall>c\<in>set x. is_ascii_hexdigit c" "{a..<a + length x} \<inter> {8, 13, 18, 23} = {}"
  shows "idx_all uuid_char a x"
  unfolding idx_all_def
proof (intro allI impI)
  fix k assume "k < length x"
  then have "a + k \<in> {a..<a + length x}" by simp
  then have "a + k \<notin> {8, 13, 18, 23}" using assms(2) by blast
  then show "uuid_char (a + k) (x ! k)" using assms(1) \<open>k < length x\<close> by (simp add: uuid_char_def)
qed

lemma generate_uuid_valid_vless: "valid_vless_uuid (generate_uuid_v4 b)"
proof -
  obtain x1 x2 x3 x4 x5 where g: "generate_uuid_v4 b =
       x1 @ CHR ''-'' # x2 @ CHR ''-'' # x3 @ CHR ''-'' # x4 @ CHR ''-'' # x5"
    and l: "length x1 = 8" "length x2 = 4" "length x3 = 4" "length x4 = 4" "length x5 = 12"
    and h: "\<forall>x\<in>set x1 \<union> set x2 \<union> set x3 \<union> set x4 \<union> set x5. is_ascii_hexdigit x"
    using generate_uuid_groups by blast
  have "idx_all uuid_char 0 x1" by (rule idx_all_hex) (use h l in simp_all)
  moreover have "idx_all uuid_char 9 x2" by (rule idx_all_hex) (use h l in simp_all)
  moreover have "idx_all uuid_char 14 x3" by (rule idx_all_hex) (use h l in simp_all)
  moreover have "idx_all uuid_char 19 x4" by (rule idx_all_hex) (use h l in simp_all)
  moreover have "idx_all uuid_char 24 x5" by (rule idx_all_hex) (use h l in simp_all)
  ultimately show ?thesis
    using l by (simp add: valid_vless_uuid_idx g idx_all_append idx_all_Cons uuid_char_def)
qed

lemma hex_printable: "is_ascii_hexdigit c \<Longrightarrow> 0x21 \<le> (of_char c :: nat) \<and> (of_char c :: nat) \<le> 0x7e"
  by (auto simp: is_ascii_hexdigit_def is_ascii_digit_def)

lemma generated_password_valid:
  assumes "hex_spec hex" "length b = 24"
  shows "valid_hysteria2_password (generate_hysteria2_password hex b)"
  using assms hex_printable
  by (auto simp: valid_hysteria2_password_def generate_hysteria2_password_def hex_spec_def list_all_iff)

lemma generated_ids_valid:
  "auth_validate_principal_id (generate_native_principal_id b) = Inr ()"
  "auth_validate_credential_id (generate_credential_id b) = Inr ()"
  "starts_with ''native_'' (generate_native_principal_id b)"
proof -
  have h: "c \<in> set (filter (\<lambda>c. c \<noteq> CHR ''-'') (generate_uuid_v4 b)) \<Longrightarrow> is_ascii_alphanumeric c" for c
    using uuid_without_dashes(2) [of b] hexdigit_alnum by blast
  show "auth_validate_principal_id (generate_native_principal_id b) = Inr ()"
    "auth_validate_credential_id (generate_credential_id b) = Inr ()"
    using h uuid_without_dashes(1) [of b]
    by (auto simp: auth_validate_principal_id_def auth_validate_credential_id_def validate_id_def
        generate_native_principal_id_def generate_credential_id_def starts_with_def list_all_iff
        ascii_classes)
  show "starts_with ''native_'' (generate_native_principal_id b)"
    by (simp add: generate_native_principal_id_def starts_with_def)
qed

text \<open>The type invariant of a slot: unrevoked, it would be accepted as a native authorization.\<close>

definition slot_inv :: "Slot \<Rightarrow> bool" where
  "slot_inv s \<longleftrightarrow> s_class s = AuthNative \<and> is_ok (validate_item (slot_authorization (s\<lparr>s_revoked := False\<rparr>)))"

lemma slot_inv_alt:
  "slot_inv s \<longleftrightarrow>
     s_class s = AuthNative
     \<and> auth_validate_principal_id (s_principal_id s) = Inr ()
     \<and> auth_validate_credential_id (s_credential_id s) = Inr ()
     \<and> starts_with ''native_'' (s_principal_id s)
     \<and> valid_vless_uuid (s_vless_uuid s) \<and> valid_hysteria2_password (s_hysteria2_password s)
     \<and> 0 < s_valid_until s - s_valid_from s \<and> s_valid_until s - s_valid_from s \<le> 1800"
  by (simp add: slot_inv_def slot_authorization_def validate_item_def is_ok_rbind checked_sub_i64_def
      in_i64_def I64_MAX_def I64_MIN_def AUTH_NATIVE_LEASE_SECS_def not_le not_less) auto

lemma slot_inv_validates: "slot_inv s \<Longrightarrow> is_ok (validate_item (slot_authorization s))"
  by (simp add: slot_inv_alt slot_authorization_def validate_item_def is_ok_rbind checked_sub_i64_def
      in_i64_def I64_MAX_def I64_MIN_def AUTH_NATIVE_LEASE_SECS_def)

lemma minted_window:
  assumes "0 < grid" "grid + 660 \<le> l" "l \<le> 1800"
  shows "0 < round_down_to_grid (now + l) grid - now" "round_down_to_grid (now + l) grid - now \<le> 1800"
    "660 \<le> round_down_to_grid (now + l) grid - now"
  using round_down_bounds [OF assms(1), of "now + l"] assms by linarith+

lemma mint_inv:
  assumes "hex_spec hex" "draws_ok d" "0 < grid" "grid + 660 \<le> l" "l \<le> 1800"
  shows "slot_inv (mint hex d i g now l grid)"
proof -
  obtain b1 b2 b3 b4 where d: "d = (b1, b2, b3, b4)" by (cases d)
  then have "length b4 = 24" using assms(2) by (simp add: draws_ok_def)
  with minted_window [OF assms(3-5), of now] assms(1) show ?thesis
    by (simp add: slot_inv_alt) (simp add: mint_def d generated_ids_valid generate_uuid_valid_vless
        generated_password_valid)
qed

lemma rotate_inv:
  assumes "slot_inv s" "hex_spec hex" "\<And>i. draws_ok (rng i)" "0 < grid" "grid + 660 \<le> l" "l \<le> 1800"
  shows "slot_inv (rotate_slot hex rng now l grid s)"
  using mint_inv [OF assms(2) assms(3) assms(4-6), of "s_slot s" "s_slot s" "s_generation s + 1" now] assms(1)
  by (simp add: slot_inv_alt rotate_slot_def)

lemma mark_inv: "slot_inv s \<Longrightarrow> slot_inv (mark_slot view s)"
  by (auto simp: slot_inv_alt mark_slot_def split: option.split)

lemma extend_inv:
  assumes "slot_inv s" "extend_slot remote now (round_down_to_grid (now + l) grid) grid s = Some s'"
    "0 < grid" "l \<le> 1800"
  shows "slot_inv s'" "s_valid_until s < s_valid_until s'" "s_valid_until s' \<le> now + l"
    "grid dvd s_valid_until s'" "s_slot s' = s_slot s"
proof -
  note b = round_down_bounds [OF assms(3)]
  show "slot_inv s'" "s_valid_until s < s_valid_until s'" "s_valid_until s' \<le> now + l"
    "s_slot s' = s_slot s"
    using assms b(1) [of "now + l"]
    by (auto simp: slot_inv_alt extend_slot_def Let_def min_def split: option.splits if_splits)
  show "grid dvd s_valid_until s'"
    using assms(2) b(3) by (auto simp: extend_slot_def Let_def min_def split: option.splits if_splits)
qed

section \<open>The invariant of the pool\<close>

definition pool_inv :: "LeaseState \<Rightarrow> bool" where
  "pool_inv st \<longleftrightarrow>
     map s_slot (ls_slots st) = [0..<length (ls_slots st)] \<and> (\<forall>s\<in>set (ls_slots st). slot_inv s)"

lemma pool_inv_distinct: "pool_inv st \<Longrightarrow> distinct (map s_slot (ls_slots st))"
  by (simp add: pool_inv_def)

lemma plan_step_unchanged:
  "snd (plan_step hex rng rot now l grid i acc) = False \<Longrightarrow> plan_step hex rng rot now l grid i acc = acc"
  by (cases acc) (auto simp: plan_step_def Let_def split: option.splits if_splits)

lemma plan_fold_unchanged:
  "snd (fold (plan_step hex rng rot now l grid) is acc) = False \<Longrightarrow>
     fold (plan_step hex rng rot now l grid) is acc = acc"
proof (induction "is" arbitrary: acc)
  case Nil
  then show ?case by simp
next
  case (Cons i "is")
  then have f: "fold (plan_step hex rng rot now l grid) is (plan_step hex rng rot now l grid i acc)
      = plan_step hex rng rot now l grid i acc" by simp
  then show ?case using Cons.prems plan_step_unchanged by (metis fold_simps(2))
qed

lemma plan_unchanged:
  assumes "pool_inv st" "snd (plan hex rng st sz rot now l grid) = False"
  shows "fst (plan hex rng st sz rot now l grid) = st"
proof -
  let ?kept = "filter (\<lambda>s. s_slot s < min sz MAX_POOL_SIZE) (ls_slots st)"
  let ?F = "fold (plan_step hex rng rot now l grid) [0..<min sz MAX_POOL_SIZE]
      (?kept, length ?kept \<noteq> length (ls_slots st))"
  have c: "snd ?F = False" using assms(2) by (simp add: plan_def Let_def case_prod_beta)
  then have F: "?F = (?kept, length ?kept \<noteq> length (ls_slots st))" by (rule plan_fold_unchanged)
  with c have "length ?kept = length (ls_slots st)" by simp
  then have k: "?kept = ls_slots st" by (metis filter_True length_filter_less nat_neq_iff)
  have "sort_key s_slot (ls_slots st) = ls_slots st"
    using assms(1) by (intro sort_key_id_if_sorted) (simp add: pool_inv_def)
  then show ?thesis using F k c by (simp add: plan_def Let_def case_prod_beta)
qed

lemma plan_pool_inv:
  assumes "pool_inv st" "hex_spec hex" "\<And>i. draws_ok (rng i)" "0 < grid" "grid + 660 \<le> l" "l \<le> 1800"
  shows "pool_inv (fst (plan hex rng st sz rot now l grid))"
proof -
  have d: "distinct (map s_slot (ls_slots st))" using assms(1) by (rule pool_inv_distinct)
  have "slot_inv (plan_slot hex rng rot now l grid (ls_slots st) i)" for i
    using assms mint_inv [OF assms(2,3,4-6)] rotate_inv [OF _ assms(2,3,4-6)]
    by (auto simp: plan_slot_def pool_inv_def dest!: find_SomeD split: option.split)
  then show ?thesis by (auto simp: pool_inv_def plan_slots [OF d] comp_def)
qed

text \<open>What a synchronisation may do to a slot: mark it, or extend it.\<close>

definition refreshes :: "Slot \<Rightarrow> Slot \<Rightarrow> bool" where
  "refreshes s s' \<longleftrightarrow>
     s_slot s' = s_slot s \<and> s_generation s' = s_generation s \<and> s_credential_id s' = s_credential_id s
     \<and> s_principal_id s' = s_principal_id s \<and> s_vless_uuid s' = s_vless_uuid s
     \<and> s_hysteria2_password s' = s_hysteria2_password s
     \<and> s_valid_until s \<le> s_valid_until s' \<and> (slot_inv s \<longrightarrow> slot_inv s')"

text \<open>What of a slot the running sing-box and the control plane must agree on: all but the two
  marks that mirror the control plane's own view.\<close>

definition slot_live :: "Slot \<Rightarrow> Slot" where
  "slot_live s = s\<lparr>s_reported := False, s_revoked := False\<rparr>"

definition live_slots :: "LeaseState \<Rightarrow> Slot set" where
  "live_slots st = slot_live ` set (ls_slots st)"

lemma mark_live [simp]: "slot_live (mark_slot view s) = slot_live s"
  by (simp add: slot_live_def mark_slot_def split: option.split)

lemma refreshes_refl: "refreshes s s"
  by (simp add: refreshes_def)

lemma refreshes_trans: "refreshes s s' \<Longrightarrow> refreshes s' s'' \<Longrightarrow> refreshes s s''"
  by (auto simp: refreshes_def)

lemma mark_refreshes: "refreshes s (mark_slot view s)"
  using mark_inv [of s view] by (auto simp: refreshes_def mark_slot_def split: option.splits)

lemma extend_refreshes:
  assumes "extend_slot remote now (round_down_to_grid (now + l) grid) grid s = Some s'" "0 < grid" "l \<le> 1800"
  shows "refreshes s s'"
proof -
  have "slot_inv s \<Longrightarrow> slot_inv s'" using extend_inv(1) [OF _ assms] .
  with assms(1) show ?thesis
    by (auto simp: refreshes_def extend_slot_def Let_def split: option.splits if_splits)
qed

lemma adopt_refreshes:
  assumes "0 < grid" "l \<le> 1800"
  shows "list_all2 refreshes (ls_slots st) (ls_slots (fst (adopt_extensions st remote now l grid)))"
  using extend_refreshes [OF _ assms] refreshes_refl
  by (auto simp: adopt_extensions_def Let_def list_all2_map2 intro!: list.rel_refl_strong split: option.split)

lemma absorb_refreshes:
  assumes "absorb_sync_response prs st resp = Inr (st', view)"
  shows "list_all2 refreshes (ls_slots st) (ls_slots st')" "ls_applied st' = ls_applied st"
    "live_slots st' = live_slots st"
proof -
  obtain v where st': "st' = st\<lparr>ls_slots := map (mark_slot v) (ls_slots st)\<rparr>"
    using assms by (auto simp: absorb_sync_response_def rbind_eq_Inr Let_def)
  show "list_all2 refreshes (ls_slots st) (ls_slots st')"
    using mark_refreshes by (simp add: st' list_all2_map2 list.rel_refl_strong)
  show "ls_applied st' = ls_applied st" by (simp add: st')
  show "live_slots st' = live_slots st" by (simp add: st' live_slots_def image_image)
qed

lemma adopt_applied:
  assumes "ls_applied (fst (adopt_extensions st remote now l grid))"
  shows "fst (adopt_extensions st remote now l grid) = st"
proof -
  let ?e = "extend_slot remote now (round_down_to_grid (now + l) grid) grid"
  have "filter (\<lambda>s. ?e s \<noteq> None) (ls_slots st) = []" and a: "ls_applied st"
    using assms by (auto simp: adopt_extensions_def Let_def split: if_splits)
  then have "\<forall>s\<in>set (ls_slots st). ?e s = None" by (simp add: filter_empty_conv)
  then show ?thesis
    using a by (simp add: adopt_extensions_def Let_def filter_empty_conv map_idI)
qed

lemma refreshes_pool_inv:
  assumes "list_all2 refreshes (ls_slots st) (ls_slots st')" "pool_inv st"
  shows "pool_inv st'"
proof -
  have "length (ls_slots st') = length (ls_slots st)" using assms(1) by (simp add: list_all2_lengthD)
  moreover have "map s_slot (ls_slots st') = map s_slot (ls_slots st)"
    using assms(1) by (rule list_all2_map_eq) (simp add: refreshes_def)
  moreover have "slot_inv s'" if "s' \<in> set (ls_slots st')" for s'
    using list_all2_in_set2 [OF assms(1) that] assms(2) by (auto simp: refreshes_def pool_inv_def)
  ultimately show ?thesis using assms(2) by (simp add: pool_inv_def)
qed

lemma save_state_simps [simp]:
  "lp_state (fst (save_state env p)) = lp_state p"
  "lp_applied_this_process (fst (save_state env p)) = lp_applied_this_process p"
  "lp_remote (fst (save_state env p)) = lp_remote p"
  "SyncLeases st b \<notin> set (fst (snd (save_state env p)))"
  "RunVpnAdmin st b \<notin> set (fst (snd (save_state env p)))"
  by (auto simp: save_state_def)

lemma sync_phase_shape:
  obtains (nobody) e where "sync_phase env grid l p = (p, [], Inl e)"
  | (call) body e where "sync_phase env grid l p = (p, [SyncLeases (lp_state p) body], Inl e)"
  | (ok) body resp st1 view p1 where
    "absorb_sync_response (te_parse env) (lp_state p) resp = Inr (st1, view)"
    "lp_state p1 = fst (adopt_extensions st1 view (te_now_after_sync env) l grid)"
    "lp_applied_this_process p1 = lp_applied_this_process p" "lp_disk p1 = lp_disk p"
    "sync_phase env grid l p =
       (if lp_state p1 \<noteq> lp_state p
        then (let r = save_state env p1 in (fst r, SyncLeases (lp_state p) body # fst (snd r), snd (snd r)))
        else (p1, [SyncLeases (lp_state p) body], Inr ()))"
proof (cases "sync_body (te_fmt env) (lp_state p)
    (if lp_obfs_reported p then None else lp_obfs_password p) l grid")
  case (Inl e)
  then have "sync_phase env grid l p = (p, [], Inl e)" by (simp add: sync_phase_def Let_def)
  then show ?thesis by (rule that(1))
next
  case b: (Inr body)
  show ?thesis
  proof (cases "te_sync env body")
    case (Inl e)
    with b have "sync_phase env grid l p = (p, [SyncLeases (lp_state p) body], Inl (SyncFailed e))"
      by (simp add: sync_phase_def Let_def)
    then show ?thesis by (rule that(2))
  next
    case r: (Inr resp)
    show ?thesis
    proof (cases "absorb_sync_response (te_parse env) (lp_state p) resp")
      case (Inl e)
      with b r have "sync_phase env grid l p = (p, [SyncLeases (lp_state p) body], Inl e)"
        by (simp add: sync_phase_def Let_def)
      then show ?thesis by (rule that(2))
    next
      case a: (Inr sv)
      obtain st1 view where sv: "sv = (st1, view)" by (cases sv)
      let ?p1 = "p\<lparr>lp_state := fst (adopt_extensions st1 view (te_now_after_sync env) l grid),
          lp_obfs_reported := (if get_bool ''obfs_stored'' resp = Some True \<or> lp_obfs_password p = None
                                then True else lp_obfs_reported p),
          lp_remote := Some view\<rparr>"
      have "sync_phase env grid l p =
       (if lp_state ?p1 \<noteq> lp_state p
        then (let r = save_state env ?p1 in (fst r, SyncLeases (lp_state p) body # fst (snd r), snd (snd r)))
        else (?p1, [SyncLeases (lp_state p) body], Inr ()))"
        using b r a unfolding sv by (simp add: sync_phase_def Let_def case_prod_beta)
      from that(3) [OF _ _ _ _ this] a sv show ?thesis by simp
    qed
  qed
qed

lemma sync_phase_process [simp]:
  "lp_applied_this_process (fst (sync_phase env grid l p)) = lp_applied_this_process p"
  by (cases rule: sync_phase_shape [of env grid l p]) (simp_all add: Let_def)

lemma sync_phase_state:
  assumes "0 < grid" "l \<le> 1800"
  shows "list_all2 refreshes (ls_slots (lp_state p)) (ls_slots (lp_state (fst (sync_phase env grid l p))))"
    "ls_applied (lp_state (fst (sync_phase env grid l p))) \<Longrightarrow>
       ls_applied (lp_state p)
       \<and> live_slots (lp_state (fst (sync_phase env grid l p))) = live_slots (lp_state p)"
proof -
  let ?P = "lp_state (fst (sync_phase env grid l p))"
  have "list_all2 refreshes (ls_slots (lp_state p)) (ls_slots ?P)
      \<and> (ls_applied ?P \<longrightarrow> ls_applied (lp_state p)
          \<and> live_slots ?P = live_slots (lp_state p))"
  proof (cases rule: sync_phase_shape [of env grid l p])
    case (ok body resp st1 view p1)
    note r = absorb_refreshes [OF ok(1)]
    have P: "?P = fst (adopt_extensions st1 view (te_now_after_sync env) l grid)"
      using ok(2) unfolding ok(5) by (simp add: Let_def)
    have "list_all2 refreshes (ls_slots (lp_state p)) (ls_slots ?P)"
      unfolding P by (rule list_all2_trans [OF refreshes_trans r(1) adopt_refreshes [OF assms]])
    moreover have "ls_applied ?P \<Longrightarrow> ?P = st1"
      unfolding P by (rule adopt_applied)
    ultimately show ?thesis using r by metis
  qed (simp_all add: list.rel_refl_strong refreshes_refl)
  then show "list_all2 refreshes (ls_slots (lp_state p)) (ls_slots ?P)"
    "ls_applied ?P \<Longrightarrow> ls_applied (lp_state p)
       \<and> live_slots ?P = live_slots (lp_state p)" by blast+
qed

lemma sync_phase_trace:
  "SyncLeases st b \<in> set (fst (snd (sync_phase env grid l p))) \<Longrightarrow> st = lp_state p"
  "RunVpnAdmin st b \<notin> set (fst (snd (sync_phase env grid l p)))"
  by (cases rule: sync_phase_shape [of env grid l p]; auto simp: Let_def split: if_splits)+

section \<open>The whole tick\<close>

definition planned :: "TickEnv \<Rightarrow> LeasePool \<Rightarrow> LeaseState \<times> bool" where
  "planned env p =
     (let grid = clamp_batch_interval (te_batch_secs env);
          rot = slots_to_rotate (lp_state p) (lp_remote p) (te_now env) grid in
      plan (te_hex env) (te_rng env)
        (if rot \<noteq> [] then (lp_state p)\<lparr>ls_last_rotation_at := te_now env\<rparr> else lp_state p)
        (te_pool_size env) rot (te_now env) (clamp_lifetime (te_lifetime_secs env) grid) grid)"

lemma plan_phase_shape:
  fixes env
  defines "grid \<equiv> clamp_batch_interval (te_batch_secs env)"
  defines "l \<equiv> clamp_lifetime (te_lifetime_secs env) grid"
  shows "plan_phase env grid l p =
    (if snd (planned env p)
     then (if te_save_ok env (fst (planned env p))
           then (p\<lparr>lp_state := fst (planned env p), lp_disk := Some (fst (planned env p))\<rparr>,
                 [SaveState (fst (planned env p))], Inr True)
           else (p\<lparr>lp_state := fst (planned env p)\<rparr>, [], Inl SaveFailed))
     else (p\<lparr>lp_state := fst (planned env p)\<rparr>, [], Inr False))"
  unfolding plan_phase_def planned_def l_def grid_def Let_def
  by (simp only: case_prod_beta tr_bind_def tr_return_def save_state_def) simp

lemma plan_phase_state:
  fixes env
  defines "grid \<equiv> clamp_batch_interval (te_batch_secs env)"
  defines "l \<equiv> clamp_lifetime (te_lifetime_secs env) grid"
  shows "lp_state (fst (plan_phase env grid l p)) = fst (planned env p)"
    "lp_applied_this_process (fst (plan_phase env grid l p)) = lp_applied_this_process p"
    "SyncLeases st b \<notin> set (fst (snd (plan_phase env grid l p)))"
    "RunVpnAdmin st b \<notin> set (fst (snd (plan_phase env grid l p)))"
  unfolding grid_def l_def plan_phase_shape by auto

lemma apply_phase_state:
  "ls_slots (lp_state (fst (apply_phase env d p))) = ls_slots (lp_state p)"
  by (simp add: apply_phase_def tr_bind_def tr_return_def apply_pool_def Let_def save_state_def
      split: sum.split)

lemma tick_shape:
  fixes env
  defines "grid \<equiv> clamp_batch_interval (te_batch_secs env)"
  defines "l \<equiv> clamp_lifetime (te_lifetime_secs env) grid"
  obtains (planfail) e where "plan_phase env grid l p = (fst (tick env p), fst (snd (tick env p)), Inl e)"
  | (applyfail) p1 t1 d t2 e where "plan_phase env grid l p = (p1, t1, Inr d)"
    "apply_phase env d p1 = (fst (tick env p), t2, Inl e)" "fst (snd (tick env p)) = t1 @ t2"
  | (nosync) p1 t1 d t2 d' where "plan_phase env grid l p = (p1, t1, Inr d)"
    "apply_phase env d p1 = (fst (tick env p), t2, Inr d')" "fst (snd (tick env p)) = t1 @ t2"
  | (sync) p1 t1 d p2 t2 d' where "plan_phase env grid l p = (p1, t1, Inr d)"
    "apply_phase env d p1 = (p2, t2, Inr d')" "fst (tick env p) = fst (sync_phase env grid l p2)"
    "fst (snd (tick env p)) = t1 @ t2 @ fst (snd (sync_phase env grid l p2))"
    "te_sync_due env \<or> d'"
proof -
  have T: "tick env p = tr_bind (plan_phase env grid l) (\<lambda>dirty.
      tr_bind (apply_phase env dirty) (\<lambda>dirty p.
      if te_pool_size env = 0 \<and> ls_slots (lp_state p) = [] then tr_return () p
      else if \<not> (te_sync_due env \<or> dirty) then tr_return () p
      else sync_phase env grid l p)) p"
    unfolding tick_def Let_def l_def grid_def ..
  obtain p1 t1 r1 where P: "plan_phase env grid l p = (p1, t1, r1)" by (metis prod_cases3)
  show ?thesis
  proof (cases r1)
    case (Inl e)
    with P have "tick env p = (p1, t1, Inl e)" unfolding T by (simp add: tr_bind_def)
    with P Inl show ?thesis using that(1) by simp
  next
    case d: (Inr d)
    obtain p2 t2 r2 where A: "apply_phase env d p1 = (p2, t2, r2)" by (metis prod_cases3)
    show ?thesis
    proof (cases r2)
      case (Inl e)
      with P A d have "tick env p = (p2, t1 @ t2, Inl e)" unfolding T by (simp add: tr_bind_def)
      with P A d Inl show ?thesis using that(2) by simp
    next
      case d': (Inr d')
      let ?skip = "te_pool_size env = 0 \<and> ls_slots (lp_state p2) = [] \<or> \<not> (te_sync_due env \<or> d')"
      show ?thesis
      proof (cases ?skip)
        case True
        with P A d d' have "tick env p = (p2, t1 @ t2, Inr ())"
          unfolding T by (auto simp: tr_bind_def tr_return_def)
        with P A d d' show ?thesis using that(3) by simp
      next
        case False
        obtain p3 t3 r3 where S: "sync_phase env grid l p2 = (p3, t3, r3)" by (metis prod_cases3)
        with False P A d d' have "tick env p = (p3, t1 @ t2 @ t3, r3)"
          unfolding T by (auto simp: tr_bind_def tr_return_def)
        with P A d d' S False show ?thesis using that(4) by simp
      qed
    qed
  qed
qed

lemma tick_refreshes_plan:
  "list_all2 refreshes (ls_slots (fst (planned env p))) (ls_slots (lp_state (fst (tick env p))))"
proof -
  let ?g = "clamp_batch_interval (te_batch_secs env)"
  let ?l = "clamp_lifetime (te_lifetime_secs env) ?g"
  have g: "0 < ?g" "?l \<le> 1800"
    using clamp_batch_interval_bounds [of "te_batch_secs env"] clamp_lifetime_bounds(3) [of ?g] by auto
  have refl: "xs = ys \<Longrightarrow> list_all2 refreshes xs ys" for xs ys
    by (simp add: list.rel_refl_strong refreshes_refl)
  note P = plan_phase_state(1) [of env p]
  show ?thesis
  proof (cases rule: tick_shape [of env p])
    case (planfail e)
    then show ?thesis using P by (intro refl) simp
  next
    case (applyfail p1 t1 d t2 e)
    then show ?thesis using P apply_phase_state [of env d p1] by (intro refl) simp
  next
    case (nosync p1 t1 d t2 d')
    then show ?thesis using P apply_phase_state [of env d p1] by (intro refl) simp
  next
    case (sync p1 t1 d p2 t2 d')
    then have "ls_slots (fst (planned env p)) = ls_slots (lp_state p2)"
      using P apply_phase_state [of env d p1] by simp
    then show ?thesis using sync_phase_state(1) [OF g, of p2 env] sync(3) by simp
  qed
qed

lemma planned_pool:
  assumes "pool_inv (lp_state p)" "hex_spec (te_hex env)" "\<And>i. draws_ok (te_rng env i)"
  shows "pool_inv (fst (planned env p))"
    "length (ls_slots (fst (planned env p))) = min (te_pool_size env) 1024"
    "s \<in> set (ls_slots (fst (planned env p))) \<Longrightarrow> te_now env < s_valid_until s"
proof -
  let ?g = "clamp_batch_interval (te_batch_secs env)"
  let ?l = "clamp_lifetime (te_lifetime_secs env) ?g"
  let ?rot = "slots_to_rotate (lp_state p) (lp_remote p) (te_now env) ?g"
  define st0 where "st0 = (if ?rot \<noteq> [] then (lp_state p)\<lparr>ls_last_rotation_at := te_now env\<rparr> else lp_state p)"
  have g: "0 < ?g" "?g + 660 \<le> ?l" "?l \<le> 1800"
    using clamp_batch_interval_bounds [of "te_batch_secs env"] clamp_lifetime_bounds [of ?g] by auto
  have st0: "ls_slots st0 = ls_slots (lp_state p)" by (simp add: st0_def)
  then have i: "pool_inv st0" using assms(1) by (simp add: pool_inv_def)
  have pl: "planned env p =
      plan (te_hex env) (te_rng env) st0 (te_pool_size env) ?rot (te_now env) ?l ?g"
    by (simp add: planned_def Let_def st0_def)
  show "pool_inv (fst (planned env p))"
    unfolding pl by (rule plan_pool_inv [OF i assms(2,3) g])
  show "length (ls_slots (fst (planned env p))) = min (te_pool_size env) 1024"
    unfolding pl plan_slots [OF pool_inv_distinct [OF i]] by (simp add: MAX_POOL_SIZE_def)
  show "te_now env < s_valid_until s" if "s \<in> set (ls_slots (fst (planned env p)))"
    using that unfolding pl
    by (rule plan_unexpired [OF pool_inv_distinct [OF i] g(1,2), rotated])
       (simp add: st0 expired_rotates)
qed

section \<open>Persistence and reporting\<close>

text \<open>The slots a restarted process would find after the saves of a trace.\<close>

fun persisted :: "LeaseState option \<Rightarrow> lease_action list \<Rightarrow> LeaseState option" where
  "persisted d [] = d"
| "persisted d (SaveState st # t) = persisted (Some st) t"
| "persisted d (RunVpnAdmin st b # t) = persisted d t"
| "persisted d (SyncLeases st b # t) = persisted d t"

definition disk_slots :: "LeaseState option \<Rightarrow> Slot set" where
  "disk_slots d = (case d of None \<Rightarrow> {} | Some st \<Rightarrow> live_slots st)"

lemma plan_unchanged_live:
  assumes "\<not> snd (plan hex rng st sz rot now l grid)"
  shows "live_slots (fst (plan hex rng st sz rot now l grid)) = live_slots st"
    "ls_applied (fst (plan hex rng st sz rot now l grid)) = ls_applied st"
proof -
  let ?kept = "filter (\<lambda>s. s_slot s < min sz MAX_POOL_SIZE) (ls_slots st)"
  let ?F = "fold (plan_step hex rng rot now l grid) [0..<min sz MAX_POOL_SIZE]
      (?kept, length ?kept \<noteq> length (ls_slots st))"
  have c: "snd ?F = False" using assms by (simp add: plan_def Let_def case_prod_beta)
  then have F: "?F = (?kept, length ?kept \<noteq> length (ls_slots st))" by (rule plan_fold_unchanged)
  with c have "length ?kept = length (ls_slots st)" by simp
  then have "?kept = ls_slots st" by (metis filter_True length_filter_less nat_neq_iff)
  then show "live_slots (fst (plan hex rng st sz rot now l grid)) = live_slots st"
    "ls_applied (fst (plan hex rng st sz rot now l grid)) = ls_applied st"
    using F c by (simp_all add: plan_def Let_def case_prod_beta live_slots_def)
qed

lemma plan_changed_unapplied:
  "snd (plan hex rng st sz rot now l grid) \<Longrightarrow> \<not> ls_applied (fst (plan hex rng st sz rot now l grid))"
  by (simp add: plan_def Let_def case_prod_beta)

lemma planned_live:
  "\<not> snd (planned env p) \<Longrightarrow> live_slots (fst (planned env p)) = live_slots (lp_state p)"
  "\<not> snd (planned env p) \<Longrightarrow> ls_applied (fst (planned env p)) = ls_applied (lp_state p)"
  "snd (planned env p) \<Longrightarrow> \<not> ls_applied (fst (planned env p))"
proof -
  have [simp]: "live_slots (st\<lparr>ls_last_rotation_at := n\<rparr>) = live_slots st" for st n
    by (simp add: live_slots_def)
  show "\<not> snd (planned env p) \<Longrightarrow> live_slots (fst (planned env p)) = live_slots (lp_state p)"
    "\<not> snd (planned env p) \<Longrightarrow> ls_applied (fst (planned env p)) = ls_applied (lp_state p)"
    "snd (planned env p) \<Longrightarrow> \<not> ls_applied (fst (planned env p))"
    unfolding planned_def Let_def
    by (simp_all only: plan_unchanged_live plan_changed_unapplied not_False_eq_True) (simp_all split: if_split)
qed

text \<open>The calls of the apply phase: none when the state is already live, otherwise one.\<close>

definition acknowledged :: "TickEnv \<Rightarrow> json \<Rightarrow> bool" where
  "acknowledged env input =
     (case te_vpn_admin env input of Inl _ \<Rightarrow> False | Inr parsed \<Rightarrow> get_bool ''live'' parsed = Some True)"

lemma apply_phase_shape:
  obtains (live) "ls_applied (lp_state p)" "lp_applied_this_process p" "apply_phase env d p = (p, [], Inr d)"
  | (refused) e where "\<not> acknowledged env (vpn_admin_input (lp_state p))"
    "apply_phase env d p = (p, [RunVpnAdmin (lp_state p) (vpn_admin_input (lp_state p))], Inl e)"
  | (unsaved) p1 where "acknowledged env (vpn_admin_input (lp_state p))"
    "lp_state p1 = (lp_state p)\<lparr>ls_applied := True\<rparr>" "lp_applied_this_process p1" "lp_disk p1 = lp_disk p"
    "\<not> te_save_ok env (lp_state p1)"
    "apply_phase env d p = (p1, [RunVpnAdmin (lp_state p) (vpn_admin_input (lp_state p))], Inl SaveFailed)"
  | (applied) p1 where "acknowledged env (vpn_admin_input (lp_state p))"
    "lp_state p1 = (lp_state p)\<lparr>ls_applied := True\<rparr>" "lp_applied_this_process p1"
    "lp_disk p1 = Some (lp_state p1)"
    "apply_phase env d p =
       (p1, [RunVpnAdmin (lp_state p) (vpn_admin_input (lp_state p)), SaveState (lp_state p1)], Inr True)"
proof (cases "ls_applied (lp_state p) \<and> lp_applied_this_process p")
  case True
  then show ?thesis using that(1) by (simp add: apply_phase_def)
next
  case na: False
  then have A: "apply_phase env d p = tr_bind (apply_pool env) (\<lambda>_. tr_return True) p"
    by (auto simp: apply_phase_def)
  let ?i = "vpn_admin_input (lp_state p)"
  show ?thesis
  proof (cases "acknowledged env ?i")
    case False
    then have "\<exists>e. apply_pool env p = (p, [RunVpnAdmin (lp_state p) ?i], Inl e)"
      by (auto simp: apply_pool_def acknowledged_def split: sum.splits)
    then show ?thesis using that(2) False unfolding A by (auto simp: tr_bind_def)
  next
    case True
    then obtain parsed where v: "te_vpn_admin env ?i = Inr parsed" "get_bool ''live'' parsed = Some True"
      by (auto simp: acknowledged_def split: sum.splits)
    define p1 where "p1 = p\<lparr>lp_obfs_reported :=
          (if get_str ''hysteria2_obfs_password'' parsed \<noteq> lp_obfs_password p then False else lp_obfs_reported p),
        lp_obfs_password := get_str ''hysteria2_obfs_password'' parsed,
        lp_state := (lp_state p)\<lparr>ls_applied := True\<rparr>, lp_applied_this_process := True\<rparr>"
    have a: "apply_pool env p =
        (fst (save_state env p1), RunVpnAdmin (lp_state p) ?i # fst (snd (save_state env p1)),
         snd (snd (save_state env p1)))"
      by (simp add: apply_pool_def v p1_def Let_def case_prod_beta)
    have f: "lp_state p1 = (lp_state p)\<lparr>ls_applied := True\<rparr>" "lp_applied_this_process p1" "lp_disk p1 = lp_disk p"
      by (simp_all add: p1_def)
    show ?thesis
    proof (cases "te_save_ok env (lp_state p1)")
      case True
      show ?thesis
        by (rule that(4) [of "p1\<lparr>lp_disk := Some (lp_state p1)\<rparr>"])
           (simp_all add: \<open>acknowledged env ?i\<close> f A tr_bind_def tr_return_def a save_state_def True [unfolded f])
    next
      case False
      show ?thesis
        by (rule that(3) [of p1])
           (simp_all add: \<open>acknowledged env ?i\<close> f A tr_bind_def tr_return_def a save_state_def False [unfolded f])
    qed
  qed
qed

text \<open>The slots the running sing-box is known to have loaded: those of the last acknowledged
  application, unknown after one that was not acknowledged.\<close>

fun live_after :: "(json \<Rightarrow> bool) \<Rightarrow> Slot set option \<Rightarrow> lease_action list \<Rightarrow> Slot set option" where
  "live_after ack live [] = live"
| "live_after ack live (SaveState st # t) = live_after ack live t"
| "live_after ack live (RunVpnAdmin st b # t) = live_after ack (if ack b then Some (live_slots st) else None) t"
| "live_after ack live (SyncLeases st b # t) = live_after ack live t"

lemma live_after_append [simp]: "live_after ack live (t @ t') = live_after ack (live_after ack live t) t'"
  by (induction ack live t rule: live_after.induct) simp_all

lemma persisted_append [simp]: "persisted d (t @ t') = persisted (persisted d t) t'"
  by (induction d t rule: persisted.induct) simp_all

text \<open>A process: opened on what the disk holds, then ticks, each in its own environment.\<close>

inductive pool_run :: "LeasePool \<Rightarrow> Slot set option \<Rightarrow> bool" where
  pool_open: "open_pool rng disk = Inr p \<Longrightarrow> pool_run p None"
| pool_tick: "pool_run p live \<Longrightarrow>
    pool_run (fst (tick env p)) (live_after (acknowledged env) live (fst (snd (tick env p))))"

definition known_live :: "LeasePool \<Rightarrow> Slot set option \<Rightarrow> bool" where
  "known_live p live \<longleftrightarrow>
     (ls_applied (lp_state p) \<and> lp_applied_this_process p \<longrightarrow> live = Some (live_slots (lp_state p)))"

lemma live_slots_applied [simp]: "live_slots (st\<lparr>ls_applied := b\<rparr>) = live_slots st"
  by (simp add: live_slots_def)

lemma plan_phase_known:
  fixes env
  defines "grid \<equiv> clamp_batch_interval (te_batch_secs env)"
  defines "l \<equiv> clamp_lifetime (te_lifetime_secs env) grid"
  assumes "known_live p live"
  shows "known_live (fst (plan_phase env grid l p))
      (live_after (acknowledged env) live (fst (snd (plan_phase env grid l p))))"
  using assms(3) planned_live [of env p]
  unfolding grid_def l_def plan_phase_shape known_live_def by (cases "snd (planned env p)") auto

lemma apply_phase_known:
  assumes "known_live p live"
  shows "known_live (fst (apply_phase env d p))
      (live_after (acknowledged env) live (fst (snd (apply_phase env d p))))"
    "snd (snd (apply_phase env d p)) = Inr d' \<Longrightarrow>
      live_after (acknowledged env) live (fst (snd (apply_phase env d p)))
        = Some (live_slots (lp_state (fst (apply_phase env d p))))"
    "SyncLeases st b \<notin> set (fst (snd (apply_phase env d p)))"
  using assms
  by (cases rule: apply_phase_shape [of p env d]; auto simp: known_live_def acknowledged_def apply_phase_def
      split: if_splits)+

lemma sync_phase_split:
  obtains "fst (snd (sync_phase env grid l p)) = []"
  | body saves where "fst (snd (sync_phase env grid l p)) = SyncLeases (lp_state p) body # saves"
    "sync_body (te_fmt env) (lp_state p) (if lp_obfs_reported p then None else lp_obfs_password p) l grid = Inr body"
    "\<forall>a\<in>set saves. \<exists>st. a = SaveState st"
proof (cases "sync_body (te_fmt env) (lp_state p)
    (if lp_obfs_reported p then None else lp_obfs_password p) l grid")
  case (Inl e)
  then show ?thesis using that(1) by (simp add: sync_phase_def Let_def)
next
  case (Inr body)
  then have "\<exists>saves. fst (snd (sync_phase env grid l p)) = SyncLeases (lp_state p) body # saves
      \<and> (\<forall>a\<in>set saves. \<exists>st. a = SaveState st)"
    by (cases "te_sync env body"; cases "absorb_sync_response (te_parse env) (lp_state p) (projr (te_sync env body))")
      (auto simp: sync_phase_def Let_def case_prod_beta save_state_def)
  then show ?thesis using that(2) Inr by blast
qed

lemma live_after_saves: "\<forall>a\<in>set t. \<exists>st. a = SaveState st \<Longrightarrow> live_after ack live t = live"
  by (induction t) auto

lemma sync_phase_known:
  assumes "known_live p live" "0 < grid" "l \<le> 1800"
  shows "known_live (fst (sync_phase env grid l p))
      (live_after (acknowledged env) live (fst (snd (sync_phase env grid l p))))"
proof -
  have "live_after (acknowledged env) live (fst (snd (sync_phase env grid l p))) = live"
    by (cases rule: sync_phase_split [of env grid l p]) (simp_all add: live_after_saves)
  then show ?thesis
    using assms(1) sync_phase_state(2) [OF assms(2,3), of env p] by (auto simp: known_live_def)
qed

lemma tick_known:
  assumes "known_live p live"
  shows "known_live (fst (tick env p)) (live_after (acknowledged env) live (fst (snd (tick env p))))"
proof -
  let ?g = "clamp_batch_interval (te_batch_secs env)"
  let ?l = "clamp_lifetime (te_lifetime_secs env) ?g"
  have g: "0 < ?g" "?l \<le> 1800"
    using clamp_batch_interval_bounds [of "te_batch_secs env"] clamp_lifetime_bounds(3) [of ?g] by auto
  note P = plan_phase_known [OF assms, of env]
  show ?thesis
  proof (cases rule: tick_shape [of env p])
    case (planfail e)
    then show ?thesis using P by simp
  next
    case (applyfail p1 t1 d t2 e)
    then show ?thesis using P apply_phase_known(1) [of p1 _ env d] by fastforce
  next
    case (nosync p1 t1 d t2 d')
    then show ?thesis using P apply_phase_known(1) [of p1 _ env d] by fastforce
  next
    case (sync p1 t1 d p2 t2 d')
    have "known_live p1 (live_after (acknowledged env) live t1)" using P sync(1) by simp
    then have "known_live p2 (live_after (acknowledged env) live (t1 @ t2))"
      using apply_phase_known(1) [of p1 _ env d] sync(2) by fastforce
    from sync_phase_known [OF this g, of env] show ?thesis unfolding sync(3,4) by simp
  qed
qed

lemma pool_run_known: "pool_run p live \<Longrightarrow> known_live p live"
proof (induction rule: pool_run.induct)
  case (pool_open rng disk p)
  then show ?case by (auto simp: known_live_def open_pool_def rbind_eq_Inr)
next
  case (pool_tick p live env)
  then show ?case using tick_known by blast
qed

lemma split_at_sync:
  assumes "xs @ ys = a @ SyncLeases st b # c" "\<And>st b. SyncLeases st b \<notin> set xs"
    "ys = [] \<or> (\<exists>st' b' saves. ys = SyncLeases st' b' # saves \<and> (\<forall>x\<in>set saves. \<exists>st. x = SaveState st))"
  shows "a = xs \<and> ys = SyncLeases st b # c"
proof -
  from assms(1) consider (l) u where "xs = a @ u" "u @ ys = SyncLeases st b # c"
    | (r) u where "a = xs @ u" "ys = u @ SyncLeases st b # c"
    by (auto simp: append_eq_append_conv2)
  then show ?thesis
  proof cases
    case l
    then show ?thesis using assms(2) [of st b] by (cases u) auto
  next
    case r
    then show ?thesis using assms(3) by (cases u) auto
  qed
qed

lemma slot_live_simps:
  "s_slot (slot_live s) = s_slot s" "s_generation (slot_live s) = s_generation s"
  by (simp_all add: slot_live_def)

text \<open>What a request says of a slot: the body of a synchronisation, which carries the secrets of a
  slot only while the control plane has not confirmed it, and the input of an application.\<close>

definition reports_slot :: "(int \<Rightarrow> string option) \<Rightarrow> Slot \<Rightarrow> json \<Rightarrow> bool" where
  "reports_slot fmt s j \<longleftrightarrow>
     jget ''slot'' j = Some (jnat (s_slot s)) \<and> jget ''generation'' j = Some (jnat (s_generation s))
     \<and> get_str ''principal_id'' j = Some (s_principal_id s) \<and> get_str ''credential_id'' j = Some (s_credential_id s)
     \<and> jget ''class'' j = Some (auth_class_json (s_class s)) \<and> get_bool ''revoked'' j = Some (s_revoked s)
     \<and> (\<exists>vf vu. fmt (s_valid_from s) = Some vf \<and> get_str ''valid_from'' j = Some vf
          \<and> fmt (s_valid_until s) = Some vu \<and> get_str ''valid_until'' j = Some vu)
     \<and> get_str ''vless_uuid'' j = (if s_reported s then None else Some (s_vless_uuid s))
     \<and> get_str ''hysteria2_password'' j = (if s_reported s then None else Some (s_hysteria2_password s))"

definition reports :: "(int \<Rightarrow> string option) \<Rightarrow> LeaseState \<Rightarrow> json \<Rightarrow> bool" where
  "reports fmt st body \<longleftrightarrow>
     (\<exists>items. get_array ''slots'' body = Some items \<and> list_all2 (reports_slot fmt) (ls_slots st) items)"

definition loads_slot :: "Slot \<Rightarrow> json \<Rightarrow> bool" where
  "loads_slot s j \<longleftrightarrow>
     jget ''slot'' j = Some (jnat (s_slot s))
     \<and> get_str ''principal_id'' j = Some (s_principal_id s) \<and> get_str ''credential_id'' j = Some (s_credential_id s)
     \<and> jget ''class'' j = Some (auth_class_json (s_class s)) \<and> get_bool ''revoked'' j = Some (s_revoked s)
     \<and> jget ''valid_from'' j = Some (JInt (s_valid_from s)) \<and> jget ''expires_at'' j = Some (JInt (s_valid_until s))
     \<and> get_str ''vless_uuid'' j = Some (s_vless_uuid s) \<and> get_str ''hysteria2_password'' j = Some (s_hysteria2_password s)"

definition loads :: "LeaseState \<Rightarrow> json \<Rightarrow> bool" where
  "loads st input \<longleftrightarrow> (\<exists>items. get_array ''slots'' input = Some items \<and> list_all2 loads_slot (ls_slots st) items)"

lemma sync_slot_reports: "sync_slot fmt s = Inr j \<Longrightarrow> reports_slot fmt s j"
proof -
  assume "sync_slot fmt s = Inr j"
  then obtain vf vu where f: "fmt (s_valid_from s) = Some vf" "fmt (s_valid_until s) = Some vu"
    "sync_slot fmt s = Inr j"
    by (auto simp: sync_slot_def rbind_eq_Inr)
  then show ?thesis
    by (cases "s_reported s")
      (simp_all add: sync_slot_def reports_slot_def Let_def get_readers_jobj get_readers_jset jget_jobj, auto simp: get_readers_jobj get_readers_jset jget_jobj)
qed

lemma map_result_all2: "map_result f xs = Inr ys \<Longrightarrow> list_all2 (\<lambda>x y. f x = Inr y) xs ys"
  by (induction xs arbitrary: ys) (auto simp: rbind_eq_Inr)

lemma sync_body_reports: "sync_body fmt st obfs l grid = Inr body \<Longrightarrow> reports fmt st body"
proof -
  assume "sync_body fmt st obfs l grid = Inr body"
  then obtain items where "map_result (sync_slot fmt) (ls_slots st) = Inr items" "get_array ''slots'' body = Some items"
    by (auto simp: sync_body_def Let_def rbind_eq_Inr get_readers_jobj get_readers_jset split: option.splits)
  moreover from this(1) have "list_all2 (reports_slot fmt) (ls_slots st) items"
    by (rule list_all2_mono [OF map_result_all2]) (rule sync_slot_reports)
  ultimately show ?thesis by (auto simp: reports_def)
qed

lemma vpn_admin_input_loads: "loads st (vpn_admin_input st)"
proof -
  have "loads_slot s (vpn_admin_slot s)" for s
    by (simp add: loads_slot_def vpn_admin_slot_def get_readers_jobj jget_jobj)
  then have "list_all2 loads_slot (ls_slots st) (map vpn_admin_slot (ls_slots st))"
    by (simp add: list_all2_map2 list_all2_same)
  then show ?thesis by (auto simp: loads_def vpn_admin_input_def get_readers_jobj)
qed

lemma tick_reports: "SyncLeases st body \<in> set (fst (snd (tick env p))) \<Longrightarrow> reports (te_fmt env) st body"
proof -
  let ?g = "clamp_batch_interval (te_batch_secs env)"
  let ?l = "clamp_lifetime (te_lifetime_secs env) ?g"
  assume m: "SyncLeases st body \<in> set (fst (snd (tick env p)))"
  have n: "SyncLeases st body \<notin> set (fst (snd (apply_phase env d p')))" for d p'
    by (cases rule: apply_phase_shape [of p' env d]) auto
  note P = plan_phase_state(3) [of st body env p]
  obtain p2 where "SyncLeases st body \<in> set (fst (snd (sync_phase env ?g ?l p2)))"
  proof (cases rule: tick_shape [of env p])
    case (applyfail p1 t1 d t2 e)
    then show ?thesis using m P n [of d p1] by simp
  next
    case (nosync p1 t1 d t2 d')
    then show ?thesis using m P n [of d p1] by simp
  next
    case (sync p1 t1 d p2 t2 d')
    then show ?thesis using m P n [of d p1] that [of p2] by auto
  qed (use m P in simp)
  then show ?thesis
    by (cases rule: sync_phase_split [of env ?g ?l p2]) (auto dest: sync_body_reports)
qed

lemma tick_loads: "RunVpnAdmin st b \<in> set (fst (snd (tick env p))) \<Longrightarrow> loads st b"
proof -
  let ?g = "clamp_batch_interval (te_batch_secs env)"
  let ?l = "clamp_lifetime (te_lifetime_secs env) ?g"
  assume m: "RunVpnAdmin st b \<in> set (fst (snd (tick env p)))"
  note P = plan_phase_state(4) [of st b env p] and Y = sync_phase_trace(2) [of st b env ?g ?l]
  obtain d p1 where "RunVpnAdmin st b \<in> set (fst (snd (apply_phase env d p1)))"
  proof (cases rule: tick_shape [of env p])
    case (applyfail p1 t1 d t2 e)
    then show ?thesis using m P that [of d p1] by auto
  next
    case (nosync p1 t1 d t2 d')
    then show ?thesis using m P that [of d p1] by auto
  next
    case (sync p1 t1 d p2 t2 d')
    then show ?thesis using m P Y [of p2] that [of d p1] by auto
  qed (use m P in simp)
  then have "b = vpn_admin_input st" by (cases rule: apply_phase_shape [of p1 env d]) auto
  then show ?thesis using vpn_admin_input_loads by simp
qed

lemma sync_body_ok: "(\<And>t. fmt t \<noteq> None) \<Longrightarrow> \<exists>body. sync_body fmt st obfs l grid = Inr body"
proof -
  assume f: "\<And>t. fmt t \<noteq> None"
  have "\<exists>j. sync_slot fmt s = Inr j" for s
    using f [of "s_valid_from s"] f [of "s_valid_until s"] by (auto simp: sync_slot_def Let_def)
  then have "\<exists>js. map_result (sync_slot fmt) ss = Inr js" for ss
  proof (induction ss)
    case (Cons a ss)
    then obtain j js where "sync_slot fmt a = Inr j" "map_result (sync_slot fmt) ss = Inr js" by metis
    then show ?case by simp
  qed simp
  then obtain js where "map_result (sync_slot fmt) (ls_slots st) = Inr js" by blast
  then show ?thesis by (simp add: sync_body_def Let_def)
qed

lemma tick_syncs:
  assumes due: "te_sync_due env \<or> snd (planned env p)" and "te_pool_size env \<noteq> 0"
    and ok: "\<And>st. te_save_ok env st" "\<And>b. acknowledged env b" "\<And>t. te_fmt env t \<noteq> None"
  shows "\<exists>before st body after. fst (snd (tick env p)) = before @ SyncLeases st body # after
    \<and> ls_slots st = ls_slots (fst (planned env p))"
proof -
  let ?g = "clamp_batch_interval (te_batch_secs env)"
  let ?l = "clamp_lifetime (te_lifetime_secs env) ?g"
  obtain p1 t1 where P: "plan_phase env ?g ?l p = (p1, t1, Inr (snd (planned env p)))"
      "lp_state p1 = fst (planned env p)"
    using ok(1) plan_phase_shape [of env p] by (cases "snd (planned env p)") auto
  obtain p2 t2 d where A: "apply_phase env (snd (planned env p)) p1 = (p2, t2, Inr d)"
      "d \<or> d = snd (planned env p)"
    by (cases rule: apply_phase_shape [of p1 env "snd (planned env p)"]) (use ok in auto)
  have st: "ls_slots (lp_state p2) = ls_slots (fst (planned env p))"
    using apply_phase_state [of env "snd (planned env p)" p1] A P(2) by simp
  have T: "fst (snd (tick env p)) = (t1 @ t2) @ fst (snd (sync_phase env ?g ?l p2))"
    using P(1) A assms(1,2) by (auto simp: tick_def Let_def tr_bind_def case_prod_beta split: sum.splits)
  obtain body where "sync_body (te_fmt env) (lp_state p2)
      (if lp_obfs_reported p2 then None else lp_obfs_password p2) ?l ?g = Inr body"
    using sync_body_ok ok(3) by metis
  then have "fst (snd (sync_phase env ?g ?l p2)) \<noteq> []"
    by (auto simp: sync_phase_def Let_def case_prod_beta split: sum.splits)
  then obtain body saves where "fst (snd (sync_phase env ?g ?l p2)) = SyncLeases (lp_state p2) body # saves"
    by (cases rule: sync_phase_split [of env ?g ?l p2]) auto
  then show ?thesis using T st by metis
qed

text \<open>What the tick makes of a slot it rotates.\<close>

definition rotated :: "TickEnv \<Rightarrow> Slot \<Rightarrow> Slot" where
  "rotated env s =
     (let grid = clamp_batch_interval (te_batch_secs env)
      in rotate_slot (te_hex env) (te_rng env) (te_now env) (clamp_lifetime (te_lifetime_secs env) grid) grid s)"

lemma rotated_simps:
  "s_slot (rotated env s) = s_slot s" "s_generation (rotated env s) = s_generation s + 1"
  "s_principal_id (rotated env s) = s_principal_id s" "\<not> s_reported (rotated env s)"
  by (simp_all add: rotated_def rotate_slot_def mint_def Let_def case_prod_beta)

lemma planned_rotates:
  assumes "pool_inv (lp_state p)" "s \<in> set (ls_slots (lp_state p))" "s_slot s < min (te_pool_size env) 1024"
    "s_slot s \<in> set (slots_to_rotate (lp_state p) (lp_remote p) (te_now env)
       (clamp_batch_interval (te_batch_secs env)))"
  shows "rotated env s \<in> set (ls_slots (fst (planned env p)))"
proof -
  define g where "g = clamp_batch_interval (te_batch_secs env)"
  define l where "l = clamp_lifetime (te_lifetime_secs env) g"
  define rot where "rot = slots_to_rotate (lp_state p) (lp_remote p) (te_now env) g"
  define st0 where "st0 = (if rot \<noteq> [] then (lp_state p)\<lparr>ls_last_rotation_at := te_now env\<rparr> else lp_state p)"
  have st0: "ls_slots st0 = ls_slots (lp_state p)" by (simp add: st0_def)
  then have d: "distinct (map s_slot (ls_slots st0))" using pool_inv_distinct [OF assms(1)] by simp
  have pl: "planned env p = plan (te_hex env) (te_rng env) st0 (te_pool_size env) rot (te_now env) l g"
    by (simp add: planned_def Let_def st0_def rot_def g_def l_def)
  have f: "find (\<lambda>t. s_slot t = s_slot s) (ls_slots st0) = Some s"
    using find_distinct [OF d] assms(2) st0 by simp
  let ?s = "plan_slot (te_hex env) (te_rng env) rot (te_now env) l g (ls_slots st0) (s_slot s)"
  have "?s \<in> set (ls_slots (fst (planned env p)))"
    using assms(3) unfolding pl plan_slots [OF d] by (simp add: MAX_POOL_SIZE_def)
  moreover have "?s = rotated env s"
    using assms(4) f by (simp add: plan_slot_def rot_def g_def l_def rotated_def Let_def)
  ultimately show ?thesis by simp
qed

lemma plan_phase_persists:
  fixes env
  defines "grid \<equiv> clamp_batch_interval (te_batch_secs env)"
  defines "l \<equiv> clamp_lifetime (te_lifetime_secs env) grid"
  assumes "disk_slots (lp_disk p) = live_slots (lp_state p)" "plan_phase env grid l p = (p1, t1, Inr d)"
  shows "disk_slots (persisted (lp_disk p) t1) = live_slots (lp_state p1)"
    "disk_slots (lp_disk p1) = live_slots (lp_state p1)" "RunVpnAdmin st b \<notin> set t1"
  using assms(3,4) planned_live [of env p]
  unfolding grid_def l_def plan_phase_shape
  by (auto simp: disk_slots_def split: if_splits)

lemma split_at_apply:
  assumes "xs @ ys @ zs = a @ RunVpnAdmin st b # c" "\<And>st b. RunVpnAdmin st b \<notin> set xs"
    "\<And>st b. RunVpnAdmin st b \<notin> set zs" "ys = [] \<or> (\<exists>b' saves. ys = RunVpnAdmin st' b' # saves \<and> (\<forall>x\<in>set saves. \<exists>st. x = SaveState st))"
  shows "a = xs \<and> st = st'"
proof -
  from assms(1) consider (l) u where "xs = a @ u" "u @ ys @ zs = RunVpnAdmin st b # c"
    | (r) u where "a = xs @ u" "ys @ zs = u @ RunVpnAdmin st b # c"
    by (auto simp: append_eq_append_conv2)
  then show ?thesis
  proof cases
    case l
    then show ?thesis using assms(2) [of st b] assms(3) [of st b] assms(4) by (cases u) auto
  next
    case (r u)
    show ?thesis
    proof (cases ys)
      case Nil
      then have "RunVpnAdmin st b \<in> set zs" using r by simp
      then show ?thesis using assms(3) by blast
    next
      case (Cons y saves)
      then have y: "\<exists>b'. y = RunVpnAdmin st' b'" and sv: "\<forall>x\<in>set saves. \<exists>st. x = SaveState st"
        using assms(4) by auto
      show ?thesis
      proof (cases u)
        case Nil
        then show ?thesis using r Cons y by auto
      next
        case (Cons v w)
        then have "saves @ zs = w @ RunVpnAdmin st b # c" using r \<open>ys = y # saves\<close> by simp
        then have "RunVpnAdmin st b \<in> set (saves @ zs)" by simp
        then show ?thesis using sv assms(3) [of st b] by auto
      qed
    qed
  qed
qed

lemma apply_phase_first:
  "fst (snd (apply_phase env d p)) = [] \<or> (\<exists>b' saves. fst (snd (apply_phase env d p)) = RunVpnAdmin (lp_state p) b' # saves
     \<and> (\<forall>x\<in>set saves. \<exists>st. x = SaveState st))"
  by (cases rule: apply_phase_shape [of p env d]) auto

lemma apply_phase_persists:
  assumes "disk_slots (lp_disk p) = live_slots (lp_state p)"
  shows "disk_slots (lp_disk (fst (apply_phase env d p))) = live_slots (lp_state (fst (apply_phase env d p)))"
  using assms by (cases rule: apply_phase_shape [of p env d]) (auto simp: disk_slots_def)

lemma sync_phase_persists:
  assumes "disk_slots (lp_disk p) = live_slots (lp_state p)" "\<And>st. te_save_ok env st"
  shows "disk_slots (lp_disk (fst (sync_phase env grid l p))) = live_slots (lp_state (fst (sync_phase env grid l p)))"
  using assms by (cases rule: sync_phase_shape [of env grid l p]) (auto simp: disk_slots_def save_state_def Let_def)

section \<open>Properties\<close>

text \<open>C24: A plan, computed by one pass that mutates a vector of slots, is the slot-by-slot
  reference: resized to the clamped pool size, each number below it holds its old slot, the
  rotated one when it was chosen, or a fresh first generation, in order.\<close>

theorem plan_is_slotwise:
  assumes "distinct (map s_slot (ls_slots st))"
  shows "ls_slots (fst (plan hex rng st sz rot now l grid)) =
    map (\<lambda>i. case find (\<lambda>s. s_slot s = i) (ls_slots st) of
               None \<Rightarrow> mint hex (rng i) i 1 now l grid
             | Some s \<Rightarrow> if i \<in> set rot then rotate_slot hex rng now l grid s else s)
      [0..<min sz 1024]"
  using plan_slots [OF assms, of hex rng sz rot now l grid] by (simp add: plan_slot_def [abs_def] MAX_POOL_SIZE_def)

theorem plan_is_slotwise_witness:
  "ls_slots (fst (plan hex_encode (\<lambda>_. ([], [], [], [])) default_lease_state 1 [0] 1000 900 60)) =
     [mint hex_encode ([], [], [], []) 0 1 1000 900 60]"
  using plan_is_slotwise [of default_lease_state hex_encode "\<lambda>_. ([], [], [], [])" 1 "[0]" 1000 900 60]
  by (simp add: default_lease_state_def)

text \<open>C7: Whatever \<open>vpn-admin\<close>, the disk and the control plane answer, a tick keeps the pool
  well formed (slots numbered in order, each acceptable as a native authorization with a window of
  at most half an hour), leaves exactly the configured number of slots, at most 1024, and leaves
  no slot that is expired at the time of the tick.\<close>

theorem tick_keeps_pool:
  assumes "pool_inv (lp_state p)" "hex_spec (te_hex env)" "\<And>i. draws_ok (te_rng env i)"
  shows "pool_inv (lp_state (fst (tick env p)))
    \<and> length (ls_slots (lp_state (fst (tick env p)))) = min (te_pool_size env) 1024
    \<and> (\<forall>s\<in>set (ls_slots (lp_state (fst (tick env p)))).
         te_now env < s_valid_until s \<and> is_ok (validate_item (slot_authorization s)))"
proof -
  note r = tick_refreshes_plan [of env p] and q = planned_pool [OF assms]
  have i: "pool_inv (lp_state (fst (tick env p)))" by (rule refreshes_pool_inv [OF r q(1)])
  have "te_now env < s_valid_until s" if "s \<in> set (ls_slots (lp_state (fst (tick env p))))" for s
    using list_all2_in_set2 [OF r that] q(3) by (fastforce simp: refreshes_def)
  moreover have "length (ls_slots (lp_state (fst (tick env p)))) = min (te_pool_size env) 1024"
    using list_all2_lengthD [OF r] q(2) by simp
  ultimately show ?thesis using i slot_inv_validates by (auto simp: pool_inv_def)
qed

definition fresh_pool :: LeasePool where
  "fresh_pool = \<lparr>lp_disk = None, lp_state = default_lease_state, lp_remote = None, lp_obfs_password = None,
     lp_obfs_reported = False, lp_applied_this_process = False\<rparr>"

lemma open_missing: "open_pool rng DiskMissing = Inr fresh_pool"
  by (simp add: open_pool_def load_state_def fresh_pool_def)

definition example_env :: TickEnv where
  "example_env =
     \<lparr>te_now = 1700000000, te_now_after_sync = 1700000001, te_batch_secs = 600, te_lifetime_secs = 1800,
      te_pool_size = 3, te_sync_due = True, te_hex = hex_encode,
      te_rng = (\<lambda>_. (replicate 16 0, replicate 16 0, replicate 16 0, replicate 24 0)),
      te_save_ok = (\<lambda>_. True), te_vpn_admin = (\<lambda>_. Inr (jobj [(''live'', JBool True)])),
      te_sync = (\<lambda>_. Inl ''offline''), te_fmt = (\<lambda>_. Some ''t''), te_parse = (\<lambda>_. None)\<rparr>"

theorem tick_keeps_pool_witness:
  "length (ls_slots (lp_state (fst (tick example_env fresh_pool)))) = 3"
  using tick_keeps_pool [of fresh_pool example_env] hex_spec_hex_encode
  by (simp add: example_env_def fresh_pool_def default_lease_state_def pool_inv_def draws_ok_def)

text \<open>C6: Reporting fails closed.  In every run of the process, over any answers of
  \<open>vpn-admin\<close> and the control plane, the body a synchronisation sends lists, slot by slot (number,
  generation, identifiers, class, window, revocation, and the secrets of a slot that is not
  confirmed yet), the slots of the pool, and these are exactly the ones that the last application
  that \<open>vpn-admin\<close> acknowledged as live loaded, with no unacknowledged application after it;
  every application the tick makes hands \<open>vpn-admin\<close> its slots with all their secrets.\<close>

theorem sync_reports_only_live:
  assumes "pool_run p live" "fst (snd (tick env p)) = before @ SyncLeases st body # after"
  shows "reports (te_fmt env) st body \<and> live_after (acknowledged env) live before = Some (live_slots st)
    \<and> (\<forall>st' input. RunVpnAdmin st' input \<in> set before \<longrightarrow> loads st' input)"
proof -
  have R: "reports (te_fmt env) st body" "\<forall>st' input. RunVpnAdmin st' input \<in> set before \<longrightarrow> loads st' input"
    using tick_reports [of st body env p] tick_loads [of _ _ env p] assms(2) by simp_all
  note K = pool_run_known [OF assms(1)]
  note P = plan_phase_known [OF K, of env] plan_phase_state(3) [of _ _ env p]
  show ?thesis
  proof (cases rule: tick_shape [of env p])
    case (planfail e)
    have "SyncLeases st body \<in> set (fst (snd (tick env p)))" unfolding assms(2) by simp
    then show ?thesis using planfail P(2) [of st body] by simp
  next
    case (applyfail p1 t1 d t2 e)
    have "SyncLeases st body \<in> set (fst (snd (tick env p)))" unfolding assms(2) by simp
    then show ?thesis
      using applyfail P apply_phase_known(3) [of p1 _ st body env d] by fastforce
  next
    case (nosync p1 t1 d t2 d')
    have "SyncLeases st body \<in> set (fst (snd (tick env p)))" unfolding assms(2) by simp
    then show ?thesis
      using nosync P apply_phase_known(3) [of p1 _ st body env d] by fastforce
  next
    case (sync p1 t1 d p2 t2 d')
    let ?g = "clamp_batch_interval (te_batch_secs env)"
    let ?l = "clamp_lifetime (te_lifetime_secs env) ?g"
    have K1: "known_live p1 (live_after (acknowledged env) live t1)" using P(1) sync(1) by simp
    have A: "SyncLeases st' b' \<notin> set t2"
      "live_after (acknowledged env) (live_after (acknowledged env) live t1) t2 = Some (live_slots (lp_state p2))"
      for st' b'
      using apply_phase_known(3) [OF K1, of st' b' env d] apply_phase_known(2) [OF K1, of env d d'] sync(2)
      by simp_all
    have "before = t1 @ t2 \<and> fst (snd (sync_phase env ?g ?l p2)) = SyncLeases st body # after"
    proof (rule split_at_sync)
      show "(t1 @ t2) @ fst (snd (sync_phase env ?g ?l p2)) = before @ SyncLeases st body # after"
        using assms(2) sync(4) by simp
      show "SyncLeases st' b' \<notin> set (t1 @ t2)" for st' b' using P(2) [of st' b'] A(1) sync(1) by simp
      show "fst (snd (sync_phase env ?g ?l p2)) = [] \<or> (\<exists>st' b' saves. fst (snd (sync_phase env ?g ?l p2))
          = SyncLeases st' b' # saves \<and> (\<forall>x\<in>set saves. \<exists>st. x = SaveState st))"
        by (cases rule: sync_phase_split [of env ?g ?l p2]) auto
    qed
    moreover from this have "st = lp_state p2" using sync_phase_trace(1) [of st body env ?g ?l p2] by simp
    ultimately show ?thesis using A(2) R by simp
  qed
qed

theorem sync_reports_only_live_witness:
  "\<exists>before st body after.
     fst (snd (tick example_env fresh_pool)) = before @ SyncLeases st body # after
     \<and> live_after (acknowledged example_env) None before = Some (live_slots st)
     \<and> reports (te_fmt example_env) st body \<and> length (ls_slots st) = 3"
proof -
  let ?p = fresh_pool
  have "length (ls_slots (fst (planned example_env ?p))) = 3"
    using planned_pool(2) [of ?p example_env] hex_spec_hex_encode
    by (simp add: example_env_def fresh_pool_def default_lease_state_def pool_inv_def draws_ok_def)
  moreover have "te_sync_due example_env" "te_pool_size example_env \<noteq> 0"
    "\<And>st. te_save_ok example_env st" "\<And>b. acknowledged example_env b" "\<And>t. te_fmt example_env t \<noteq> None"
    by (simp_all add: example_env_def acknowledged_def get_readers_jobj)
  ultimately obtain before st body after where
    t: "fst (snd (tick example_env ?p)) = before @ SyncLeases st body # after" "length (ls_slots st) = 3"
    using tick_syncs [of example_env ?p] by metis
  from sync_reports_only_live [OF pool_open [OF open_missing] t(1)] t show ?thesis by blast
qed

text \<open>C8: On a node whose disk, clock printer and \<open>vpn-admin\<close> work, a slot chosen for
  rotation, an expired one in particular, is replaced by its next generation with a window that is
  still open, and that generation reaches the control plane in the same tick: the body sent has an
  item with its number, the new generation, the kept principal, the fresh credential identifier and
  secrets, and the new window.\<close>

theorem rotation_is_reported:
  assumes "pool_inv (lp_state p)" "hex_spec (te_hex env)" "\<And>i. draws_ok (te_rng env i)"
    and s: "s \<in> set (ls_slots (lp_state p))" "s_slot s < min (te_pool_size env) 1024"
      "s_slot s \<in> set (slots_to_rotate (lp_state p) (lp_remote p) (te_now env)
         (clamp_batch_interval (te_batch_secs env)))"
    and ok: "\<And>st. te_save_ok env st" "\<And>b. acknowledged env b" "\<And>t. te_fmt env t \<noteq> None"
  shows "\<exists>before st body after s' items item. fst (snd (tick env p)) = before @ SyncLeases st body # after
    \<and> s' \<in> set (ls_slots st) \<and> s_slot s' = s_slot s \<and> s_generation s' = s_generation s + 1
    \<and> te_now env < s_valid_until s' \<and> s' = rotated env s
    \<and> get_array ''slots'' body = Some items \<and> item \<in> set items \<and> reports_slot (te_fmt env) s' item
    \<and> jget ''slot'' item = Some (jnat (s_slot s)) \<and> jget ''generation'' item = Some (jnat (s_generation s + 1))
    \<and> get_str ''principal_id'' item = Some (s_principal_id s)
    \<and> get_str ''vless_uuid'' item = Some (s_vless_uuid s')
    \<and> get_str ''hysteria2_password'' item = Some (s_hysteria2_password s')"
proof -
  let ?s = "rotated env s"
  have s': "?s \<in> set (ls_slots (fst (planned env p)))" by (rule planned_rotates [OF assms(1) s])
  have d: "distinct (map s_slot (ls_slots (lp_state p)))" using assms(1) by (rule pool_inv_distinct)
  have "snd (planned env p)"
  proof (rule ccontr)
    assume "\<not> snd (planned env p)"
    from planned_live(1) [OF this] s' have "slot_live ?s \<in> slot_live ` set (ls_slots (lp_state p))"
      by (auto simp: live_slots_def)
    then obtain t where t: "slot_live ?s = slot_live t" "t \<in> set (ls_slots (lp_state p))" by (elim imageE)
    have "s_slot t = s_slot s" "s_generation t = s_generation s + 1"
      using slot_live_simps [of t] slot_live_simps [of ?s] rotated_simps(1,2) [of env s] t(1) by simp_all
    moreover from this(1) have "t = s" using d t(2) s(1) by (auto simp: distinct_map dest: inj_onD)
    ultimately show False by simp
  qed
  moreover have "te_pool_size env \<noteq> 0" using s(2) by auto
  ultimately obtain before st body after where
    t: "fst (snd (tick env p)) = before @ SyncLeases st body # after" "ls_slots st = ls_slots (fst (planned env p))"
    using tick_syncs [of env p] ok by metis
  from tick_reports [of st body env p] t(1) obtain items where
    i: "get_array ''slots'' body = Some items" "list_all2 (reports_slot (te_fmt env)) (ls_slots st) items"
    by (auto simp: reports_def)
  from list_all2_in_set1 [OF i(2)] s' t(2) obtain item where r: "item \<in> set items" "reports_slot (te_fmt env) ?s item"
    by metis
  show ?thesis
    by (rule exI [of _ before], rule exI [of _ st], rule exI [of _ body], rule exI [of _ after], rule exI [of _ ?s],
        rule exI [of _ items], rule exI [of _ item])
      (use t i(1) r s' planned_pool(3) [OF assms(1-3) s'] rotated_simps [of _ s] in \<open>simp add: reports_slot_def\<close>)
qed

text \<open>A pool with one expired slot.\<close>

definition example_pool :: LeasePool where
  "example_pool = fresh_pool
     \<lparr>lp_state := \<lparr>ls_slots = [mint hex_encode (te_rng example_env 0) 0 4 1699990000 1800 600],
                   ls_applied = True, ls_last_rotation_at = 0\<rparr>\<rparr>"

lemma example_pool_inv: "pool_inv (lp_state example_pool)"
  using mint_inv [OF hex_spec_hex_encode, of "te_rng example_env 0" 600 1800 0 4 1699990000]
  by (simp add: example_pool_def pool_inv_def example_env_def draws_ok_def)

lemma example_env_simps:
  "hex_spec (te_hex example_env)" "draws_ok (te_rng example_env i)" "te_save_ok example_env st"
  "acknowledged example_env b" "te_fmt example_env t \<noteq> None"
  by (simp_all add: example_env_def hex_spec_hex_encode draws_ok_def acknowledged_def get_readers_jobj)

theorem rotation_is_reported_witness:
  "\<exists>before st body after s' items item. fst (snd (tick example_env example_pool)) = before @ SyncLeases st body # after
    \<and> s' \<in> set (ls_slots st) \<and> s_slot s' = 0 \<and> s_generation s' = 5 \<and> 1700000000 < s_valid_until s'
    \<and> get_array ''slots'' body = Some items \<and> item \<in> set items \<and> jget ''generation'' item = Some (jnat 5)"
proof -
  let ?s = "mint hex_encode (te_rng example_env 0) 0 4 1699990000 1800 600"
  have m: "?s \<in> set (ls_slots (lp_state example_pool))" by (simp add: example_pool_def)
  have r: "s_slot ?s \<in> set (slots_to_rotate (lp_state example_pool) (lp_remote example_pool)
      (te_now example_env) (clamp_batch_interval (te_batch_secs example_env)))"
    using m by (rule expired_rotates) (simp add: example_env_def round_down_to_grid_def)
  have "s_slot ?s < min (te_pool_size example_env) 1024" by (simp add: example_env_def)
  from rotation_is_reported [OF example_pool_inv example_env_simps(1,2) m this r example_env_simps(3,4,5)]
  obtain before st body after s' items item where
    "fst (snd (tick example_env example_pool)) = before @ SyncLeases st body # after" "s' \<in> set (ls_slots st)"
    "s_slot s' = 0" "s_generation s' = 5" "1700000000 < s_valid_until s'"
    "get_array ''slots'' body = Some items" "item \<in> set items" "jget ''generation'' item = Some (jnat 5)"
    by (auto simp: example_env_def)
  then show ?thesis by blast
qed

text \<open>C9: Persist before applying.  When the persisted slots are those in memory, every
  application hands \<open>vpn-admin\<close>, in the document it passes, slots that are already on disk, so that a crash in the middle
  re-applies the same secrets; and a tick whose writes succeed ends with the slots on disk again.\<close>

theorem persisted_before_applied:
  assumes "disk_slots (lp_disk p) = live_slots (lp_state p)"
  shows "(fst (snd (tick env p)) = before @ RunVpnAdmin st b # after \<longrightarrow>
      disk_slots (persisted (lp_disk p) before) = live_slots st \<and> loads st b)
    \<and> ((\<forall>st. te_save_ok env st) \<longrightarrow>
      disk_slots (lp_disk (fst (tick env p))) = live_slots (lp_state (fst (tick env p))))"
proof -
  have L: "loads st b" if "fst (snd (tick env p)) = before @ RunVpnAdmin st b # after"
    using tick_loads [of st b env p] that by simp
  have "(fst (snd (tick env p)) = before @ RunVpnAdmin st b # after \<longrightarrow>
      disk_slots (persisted (lp_disk p) before) = live_slots st)
    \<and> ((\<forall>st. te_save_ok env st) \<longrightarrow>
      disk_slots (lp_disk (fst (tick env p))) = live_slots (lp_state (fst (tick env p))))"
  proof (cases rule: tick_shape [of env p])
    case (planfail e)
    moreover have "(\<forall>st. te_save_ok env st) \<Longrightarrow> False"
      using planfail plan_phase_shape [of env p] by (auto split: if_splits)
    ultimately show ?thesis using plan_phase_state(4) [of st b env p] by auto
  next
    case (applyfail p1 t1 d t2 e)
    note P = plan_phase_persists [OF assms applyfail(1)]
    show ?thesis
      using P split_at_apply [of t1 t2 "[]" before st b after "lp_state p1"] apply_phase_first [of env d p1]
        apply_phase_persists [OF P(2), of env d] applyfail by auto
  next
    case (nosync p1 t1 d t2 d')
    note P = plan_phase_persists [OF assms nosync(1)]
    show ?thesis
      using P split_at_apply [of t1 t2 "[]" before st b after "lp_state p1"] apply_phase_first [of env d p1]
        apply_phase_persists [OF P(2), of env d] nosync by auto
  next
    case (sync p1 t1 d p2 t2 d')
    note P = plan_phase_persists [OF assms sync(1)]
    let ?g = "clamp_batch_interval (te_batch_secs env)"
    let ?l = "clamp_lifetime (te_lifetime_secs env) ?g"
    have "disk_slots (lp_disk p2) = live_slots (lp_state p2)"
      using apply_phase_persists [OF P(2), of env d] sync(2) by simp
    then show ?thesis
      using P split_at_apply [of t1 t2 "fst (snd (sync_phase env ?g ?l p2))" before st b after "lp_state p1"]
        apply_phase_first [of env d p1] sync sync_phase_trace(2) [of _ _ env ?g ?l p2]
        sync_phase_persists [of p2 env ?g ?l] by auto
  qed
  with L show ?thesis by blast
qed

theorem persisted_before_applied_witness:
  "disk_slots (lp_disk fresh_pool) = live_slots (lp_state fresh_pool)
   \<and> disk_slots (lp_disk (fst (tick example_env fresh_pool))) =
     live_slots (lp_state (fst (tick example_env fresh_pool)))"
proof -
  have "disk_slots (lp_disk fresh_pool) =
      live_slots (lp_state fresh_pool)"
    by (simp add: fresh_pool_def disk_slots_def live_slots_def default_lease_state_def)
  then show ?thesis using persisted_before_applied [of fresh_pool example_env]
    example_env_simps(3) by blast
qed

text \<open>The ordering does not survive a failed write: the planned slots stay in memory, the
  next tick finds nothing to plan, and so it hands \<open>vpn-admin\<close> a freshly minted secret that is
  on no disk.\<close>

theorem failed_save_applies_unpersisted:
  "\<exists>p env env' input rest.
     disk_slots (lp_disk p) = live_slots (lp_state p)
     \<and> snd (snd (tick env p)) = Inl SaveFailed
     \<and> fst (snd (tick env' (fst (tick env p)))) = RunVpnAdmin (lp_state (fst (tick env p))) input # rest
     \<and> live_slots (lp_state (fst (tick env p))) \<noteq> {} \<and> disk_slots (lp_disk (fst (tick env p))) = {}"
proof -
  define env where "env = example_env\<lparr>te_pool_size := 1\<rparr>"
  define bad where "bad = env\<lparr>te_save_ok := \<lambda>_. False\<rparr>"
  define p where "p = fresh_pool"
  define s where "s = mint hex_encode (te_rng example_env 0) 0 1 1700000000 1800 600"
  define st where "st = \<lparr>ls_slots = [s], ls_applied = False, ls_last_rotation_at = 0\<rparr>"
  define p1 where "p1 = p\<lparr>lp_state := st\<rparr>"
  have c: "clamp_batch_interval 600 = 600" "clamp_lifetime 1800 600 = 1800"
    by (simp_all add: clamp_batch_interval_def clamp_lifetime_def clamp_def wrap_i64_def
        DEFAULT_BATCH_SECS_def DEFAULT_MIN_REMAINING_SECS_def AUTH_NATIVE_LEASE_SECS_def)
  have "planned bad p = (st, True)"
    by (simp add: planned_def bad_def env_def example_env_def c p_def fresh_pool_def default_lease_state_def slots_to_rotate_def rotation_candidates_def plan_def plan_step_def
        MAX_POOL_SIZE_def st_def s_def)
  moreover have "\<not> te_save_ok bad st" by (simp add: bad_def)
  ultimately have t1: "tick bad p = (p1, [], Inl SaveFailed)"
    unfolding tick_def Let_def tr_bind_def plan_phase_shape by (simp add: p1_def)
  have "slot_candidate None 1700000000 s = None"
    by (simp add: slot_candidate_def s_def round_down_to_grid_def DEFAULT_MIN_REMAINING_SECS_def)
  moreover have "s_slot s = 0" by (simp add: s_def)
  ultimately have pl: "planned env p1 = (st, False)"
    by (simp add: planned_def env_def example_env_def c p1_def p_def fresh_pool_def st_def
        slots_to_rotate_def rotation_candidates_def plan_def plan_step_def MAX_POOL_SIZE_def
        List.map_filter_def)
  let ?r = "tick env p1"
  have "\<exists>rest. fst (snd ?r) = RunVpnAdmin st (vpn_admin_input st) # rest"
  proof -
    define g where "g = clamp_batch_interval (te_batch_secs env)"
    define l where "l = clamp_lifetime (te_lifetime_secs env) g"
    have P: "plan_phase env g l p1 = (p1, [], Inr False)"
      using pl unfolding g_def l_def plan_phase_shape by (simp add: p1_def)
    have "\<not> ls_applied (lp_state p1)" "lp_state p1 = st" by (simp_all add: p1_def st_def)
    then obtain t2 where A: "fst (snd (apply_phase env False p1)) = RunVpnAdmin st (vpn_admin_input st) # t2"
      by (cases rule: apply_phase_shape [of p1 env False]) auto
    show ?thesis
      using P A unfolding tick_def Let_def g_def l_def
      by (auto simp: tr_bind_def case_prod_beta split: sum.splits)
  qed
  moreover have "disk_slots (lp_disk p) = live_slots (lp_state p)" "disk_slots (lp_disk p1) = {}"
      "live_slots (lp_state p1) \<noteq> {}" "lp_state p1 = st"
    by (simp_all add: p_def p1_def st_def fresh_pool_def disk_slots_def live_slots_def default_lease_state_def)
  ultimately show ?thesis using t1 by (metis fst_conv snd_conv)
qed

text \<open>Renewals only move forward and stay bounded.  Adopting the control plane's extensions
  changes a slot only when the control plane reports this very generation as leased and the slot
  is unexpired; then only its window changes, to one that starts now, ends strictly later than
  before, on the grid, and no later than one lifetime from now, whatever was asked for.\<close>

theorem extensions_bounded:
  assumes "0 < grid"
  shows "list_all2 (\<lambda>s s'. s' = s \<or>
      (\<exists>rs u. rv_slots view (s_slot s) = Some rs \<and> r_generation rs = s_generation s
         \<and> r_state rs = ''leased'' \<and> now < s_valid_until s
         \<and> s' = s\<lparr>s_valid_from := now, s_valid_until := u, s_revoked := False\<rparr>
         \<and> s_valid_until s < u \<and> u \<le> now + lifetime \<and> grid dvd u))
    (ls_slots st) (ls_slots (fst (adopt_extensions st view now lifetime grid)))"
proof -
  note b = round_down_bounds [OF assms]
  have "s' = s \<or> (\<exists>rs u. rv_slots view (s_slot s) = Some rs \<and> r_generation rs = s_generation s
         \<and> r_state rs = ''leased'' \<and> now < s_valid_until s
         \<and> s' = s\<lparr>s_valid_from := now, s_valid_until := u, s_revoked := False\<rparr>
         \<and> s_valid_until s < u \<and> u \<le> now + lifetime \<and> grid dvd u)"
    if "s' = (case extend_slot view now (round_down_to_grid (now + lifetime) grid) grid s of None \<Rightarrow> s | Some t \<Rightarrow> t)"
    for s s'
    using that b(1) [of "now + lifetime"] b(3)
    by (auto simp: extend_slot_def Let_def min_def not_le split: option.splits if_splits)
  then show ?thesis
    by (simp add: adopt_extensions_def Let_def list_all2_map2 list.rel_refl_strong)
qed

theorem extensions_bounded_witness:
  "list_all2 (\<lambda>s s'. s' = s \<or>
      (\<exists>rs u. [0 \<mapsto> \<lparr>r_generation = 4, r_state = ''leased'', r_urgent = False, r_extend_to = Some 1700009999\<rparr>] (s_slot s)
           = Some rs \<and> r_generation rs = s_generation s
         \<and> r_state rs = ''leased'' \<and> 1699990000 < s_valid_until s
         \<and> s' = s\<lparr>s_valid_from := 1699990000, s_valid_until := u, s_revoked := False\<rparr>
         \<and> s_valid_until s < u \<and> u \<le> 1699990000 + 1800 \<and> 600 dvd u))
    (ls_slots (lp_state example_pool))
    (ls_slots (fst (adopt_extensions (lp_state example_pool)
      \<lparr>rv_as_of = 0, rv_min_remaining = 600, rv_slots = [0 \<mapsto>
        \<lparr>r_generation = 4, r_state = ''leased'', r_urgent = False, r_extend_to = Some 1700009999\<rparr>]\<rparr>
      1699990000 1800 600)))"
  using extensions_bounded [of 600 "\<lparr>rv_as_of = 0, rv_min_remaining = 600, rv_slots = [0 \<mapsto>
        \<lparr>r_generation = 4, r_state = ''leased'', r_urgent = False, r_extend_to = Some 1700009999\<rparr>]\<rparr>"
      1699990000 1800 "lp_state example_pool"]
  by (simp only: RemoteView.select_convs)

text \<open>Rotations are batched.  Once a rotation has happened in a grid interval, another one in
  the same interval has a forced cause: some slot has expired, or the control plane revoked its
  current generation as urgent.  A deferrable slot waits for the next boundary.\<close>

theorem rotation_batched:
  assumes "slots_to_rotate st remote now grid \<noteq> []" "now div grid \<le> ls_last_rotation_at st div grid"
  shows "\<exists>s\<in>set (ls_slots st). s_valid_until s \<le> now
    \<or> (\<exists>r rs. remote = Some r \<and> rv_slots r (s_slot s) = Some rs \<and> r_generation rs = s_generation s
         \<and> r_state rs = ''revoked'' \<and> r_urgent rs)"
proof -
  have "list_ex (\<lambda>(_, why). why \<noteq> WhyDeferrable) (rotation_candidates st remote now)"
    using assms by (auto simp: slots_to_rotate_def Let_def split: if_splits)
  then obtain i w where "(i, w) \<in> set (rotation_candidates st remote now)" "w \<noteq> WhyDeferrable"
    by (auto simp: list_ex_iff)
  then obtain s where "s \<in> set (ls_slots st)" "slot_candidate remote now s = Some (i, w)" "w \<noteq> WhyDeferrable"
    unfolding candidates_mem by blast
  then show ?thesis
    by (auto simp: slot_candidate_def Let_def intro!: bexI [of _ s] split: if_splits option.splits)
qed

theorem rotation_batched_witness:
  "\<exists>s\<in>set (ls_slots (lp_state example_pool)). s_valid_until s \<le> 1700000000
    \<or> (\<exists>r rs. None = Some r \<and> rv_slots r (s_slot s) = Some rs \<and> r_generation rs = s_generation s
         \<and> r_state rs = ''revoked'' \<and> r_urgent rs)"
proof -
  have "s_slot s \<in> set (slots_to_rotate ((lp_state example_pool)\<lparr>ls_last_rotation_at := 1700000000\<rparr>) None 1700000000 600)"
    if "s \<in> set (ls_slots (lp_state example_pool))" for s
    using that by (intro expired_rotates) (simp_all add: example_pool_def round_down_to_grid_def)
  moreover have "ls_slots (lp_state example_pool) \<noteq> []" by (simp add: example_pool_def)
  ultimately have
    "slots_to_rotate ((lp_state example_pool)\<lparr>ls_last_rotation_at := 1700000000\<rparr>) None 1700000000 600 \<noteq> []"
    by (metis list.set_intros(1) list.exhaust empty_iff empty_set)
  from rotation_batched [OF this] show ?thesis by simp
qed

end
