(* ===== verification/CredentialPolicy.thy ===== *)
theory CredentialPolicy
  imports Credentials
begin

text \<open>
  Credential grants (\<open>CredentialGrant\<close> of \<open>crates/compat-config/src/model.rs\<close>) and the grant
  policy of \<open>crates/compat-config/src/credential_policy.rs\<close>: revocation, renewal, structural
  validation, authorization at an instant and the validation of a set of grants.  The lemmas
  show that renewal never touches credential material, that a dead grant stays dead under any
  sequence of operations, and what the set validation does and does not bound.
\<close>

section \<open>Grants\<close>

record CredentialGrant =
  g_principal_id :: string
  g_class :: CredentialClass
  g_vless_uuid :: string
  g_hysteria2_password :: string
  g_valid_from :: int
  g_valid_until :: int
  g_revoked_at :: "int option"
  g_generation :: "64 word"

definition first_generation :: "64 word" where "first_generation = 1"

definition grant_new :: "string \<Rightarrow> CredentialClass \<Rightarrow> string \<Rightarrow> string \<Rightarrow> int \<Rightarrow> int \<Rightarrow> CredentialGrant" where
  "grant_new principal_id class vless_uuid password valid_from valid_until =
     \<lparr>g_principal_id = principal_id, g_class = class, g_vless_uuid = vless_uuid,
      g_hysteria2_password = password, g_valid_from = valid_from, g_valid_until = valid_until,
      g_revoked_at = None, g_generation = 1\<rparr>"

definition is_revoked_at :: "CredentialGrant \<Rightarrow> int \<Rightarrow> bool" where
  "is_revoked_at g now = (case g_revoked_at g of None \<Rightarrow> False | Some at \<Rightarrow> at \<le> now)"

definition revoke :: "CredentialGrant \<Rightarrow> int \<Rightarrow> CredentialGrant" where
  "revoke g now =
     g\<lparr>g_revoked_at := Some (case g_revoked_at g of None \<Rightarrow> now | Some existing \<Rightarrow> min existing now)\<rparr>"

datatype GrantError =
    WasRevoked | Expired | Shortened
  | BadPrincipal PrincipalError | BadUuid | EmptyPassword | EmptyWindow | NonPositiveWindow
  | RevokedBeforeOpen | OverlapTooLong int | TooManyLive nat

definition renew_until :: "CredentialGrant \<Rightarrow> int \<Rightarrow> int \<Rightarrow> GrantError + CredentialGrant" where
  "renew_until g new_valid_until now =
     (if is_revoked_at g now then Inl WasRevoked
      else if now \<ge> g_valid_until g then Inl Expired
      else if new_valid_until < g_valid_until g then Inl Shortened
      else Inr (g\<lparr>g_valid_until := new_valid_until\<rparr>))"

definition grant_validate :: "CredentialGrant \<Rightarrow> GrantError + unit" where
  "grant_validate g =
     (case validate_principal_id (g_principal_id g) (g_class g) of
        Inl e \<Rightarrow> Inl (BadPrincipal e)
      | Inr _ \<Rightarrow>
          if \<not> is_uuid_v4_shaped (g_vless_uuid g) then Inl BadUuid
          else if g_hysteria2_password g = [] then Inl EmptyPassword
          else if g_valid_until g \<le> g_valid_from g then Inl EmptyWindow
          else if g_valid_until g \<le> 0 \<or> g_valid_from g < 0 then Inl NonPositiveWindow
          else (case g_revoked_at g of
                  None \<Rightarrow> Inr ()
                | Some r \<Rightarrow> if r < g_valid_from g then Inl RevokedBeforeOpen else Inr ()))"

section \<open>Policy\<close>

definition NATIVE_LEASE_SECS :: int where "NATIVE_LEASE_SECS = 30 * 60"
definition NATIVE_RENEW_LEAD_SECS :: int where "NATIVE_RENEW_LEAD_SECS = NATIVE_LEASE_SECS div 2"
definition COMPAT_LIFETIME_SECS :: int where "COMPAT_LIFETIME_SECS = 7 * 24 * 60 * 60"
definition COMPAT_MIN_LIFETIME_SECS :: int where "COMPAT_MIN_LIFETIME_SECS = 6 * 60 * 60"
definition COMPAT_MAX_LIFETIME_SECS :: int where "COMPAT_MAX_LIFETIME_SECS = 30 * 24 * 60 * 60"
definition MAX_OVERLAP_SECS :: int where "MAX_OVERLAP_SECS = 60 * 60"
definition MAX_LIVE_GRANTS_PER_CLASS :: nat where "MAX_LIVE_GRANTS_PER_CLASS = 2"
definition VALID_FROM_SKEW_GRACE_SECS :: int where "VALID_FROM_SKEW_GRACE_SECS = 30"

definition grant_is_authorized :: "CredentialGrant \<Rightarrow> int \<Rightarrow> bool" where
  "grant_is_authorized g now \<longleftrightarrow>
     \<not> is_revoked_at g now
     \<and> wrap_i64 (now + VALID_FROM_SKEW_GRACE_SECS) \<ge> g_valid_from g
     \<and> now < g_valid_until g"

definition grant_expiry :: "CredentialGrant \<Rightarrow> int" where
  "grant_expiry g = g_valid_until g"

definition overlap_secs :: "CredentialGrant \<Rightarrow> CredentialGrant \<Rightarrow> int" where
  "overlap_secs a b =
     max (wrap_i64 (min (grant_expiry a) (grant_expiry b) - max (g_valid_from a) (g_valid_from b))) 0"

definition overlap_check :: "CredentialGrant \<Rightarrow> CredentialGrant \<Rightarrow> GrantError + unit" where
  "overlap_check a b =
     (let overlap = overlap_secs a b in
      if overlap \<le> 0 then Inr ()
      else if overlap > MAX_OVERLAP_SECS then Inl (OverlapTooLong overlap) else Inr ())"

definition live_check :: "CredentialGrant list \<Rightarrow> CredentialGrant \<Rightarrow> GrantError + unit" where
  "live_check same_class anchor =
     (let live_at_start = filter (\<lambda>g. grant_is_authorized g (g_valid_from anchor)) same_class in
      if length live_at_start > MAX_LIVE_GRANTS_PER_CLASS
      then Inl (TooManyLive (length live_at_start)) else Inr ())"

definition validate_grant_set :: "CredentialGrant list \<Rightarrow> GrantError + unit" where
  "validate_grant_set grants =
     (let of_class = (\<lambda>class. filter (\<lambda>g. g_class g = class) grants) in
      rbind (check_all grant_validate grants) (\<lambda>_.
      rbind (check_all (\<lambda>class. check_pairs overlap_check (of_class class)) [Native, Compatibility]) (\<lambda>_.
      check_all (\<lambda>class. check_all (live_check (of_class class)) (of_class class))
        [Native, Compatibility])))"

definition clamp_compat_lifetime :: "int \<Rightarrow> int" where
  "clamp_compat_lifetime requested =
     clamp requested COMPAT_MIN_LIFETIME_SECS COMPAT_MAX_LIFETIME_SECS"

text \<open>The life of one grant: at each step the clock does not go back and one operation of the
  source is applied (a renewal that is refused leaves the grant as it was).\<close>

inductive grant_run :: "int \<Rightarrow> CredentialGrant \<Rightarrow> int \<Rightarrow> CredentialGrant \<Rightarrow> bool" where
  run_start: "grant_run t g t g"
| run_tick: "grant_run t g t' g' \<Longrightarrow> t' \<le> t'' \<Longrightarrow> grant_run t g t'' g'"
| run_revoke: "grant_run t g t' g' \<Longrightarrow> grant_run t g t' (revoke g' t')"
| run_renew: "grant_run t g t' g' \<Longrightarrow> renew_until g' u t' = Inr g'' \<Longrightarrow> grant_run t g t' g''"

section \<open>Lemmas\<close>

definition grant_dead :: "CredentialGrant \<Rightarrow> int \<Rightarrow> bool" where
  "grant_dead g t \<longleftrightarrow> is_revoked_at g t \<or> g_valid_until g \<le> t"

lemma grant_dead_not_authorized: "grant_dead g t \<Longrightarrow> \<not> grant_is_authorized g t"
  by (auto simp: grant_dead_def grant_is_authorized_def)

lemma grant_dead_mono: "grant_dead g t \<Longrightarrow> t \<le> t' \<Longrightarrow> grant_dead g t'"
  by (auto simp: grant_dead_def is_revoked_at_def split: option.splits)

lemma grant_dead_revoke: "grant_dead g t \<Longrightarrow> grant_dead (revoke g t) t"
  by (auto simp: grant_dead_def is_revoked_at_def revoke_def split: option.splits)

lemma renew_dead: "grant_dead g t \<Longrightarrow> renew_until g u t \<noteq> Inr g'"
  by (auto simp: grant_dead_def renew_until_def)

lemma grant_run_dead:
  "grant_run t g t' g' \<Longrightarrow> grant_dead g t \<Longrightarrow> grant_dead g' t'"
  by (induction rule: grant_run.induct)
    (auto intro: grant_dead_mono grant_dead_revoke dest: renew_dead)

lemma grant_run_material:
  "grant_run t g t' g' \<Longrightarrow>
     t \<le> t' \<and> g_principal_id g' = g_principal_id g \<and> g_class g' = g_class g
     \<and> g_vless_uuid g' = g_vless_uuid g \<and> g_hysteria2_password g' = g_hysteria2_password g
     \<and> g_valid_from g' = g_valid_from g \<and> g_valid_until g \<le> g_valid_until g'
     \<and> g_generation g' = g_generation g"
  by (induction rule: grant_run.induct)
    (auto simp: revoke_def renew_until_def split: if_splits)

lemma authorized_at_later_start:
  assumes "grant_is_authorized g t" "g_valid_from g \<le> f" "f \<le> t"
    "0 \<le> f" "t \<le> I64_MAX - VALID_FROM_SKEW_GRACE_SECS"
  shows "grant_is_authorized g f"
proof -
  have "in_i64 (f + VALID_FROM_SKEW_GRACE_SECS)"
    using assms by (simp add: in_i64_def I64_MAX_def I64_MIN_def VALID_FROM_SKEW_GRACE_SECS_def)
  then show ?thesis
    using assms
    by (auto simp: grant_is_authorized_def is_revoked_at_def VALID_FROM_SKEW_GRACE_SECS_def
        split: option.splits)
qed

lemma validate_grant_set_parts:
  assumes "validate_grant_set grants = Inr ()"
  shows "\<forall>g\<in>set grants. grant_validate g = Inr ()"
    "sorted_wrt (\<lambda>a b. is_ok (overlap_check a b)) (filter (\<lambda>g. g_class g = c) grants)"
    "\<forall>a\<in>set (filter (\<lambda>g. g_class g = c) grants).
        is_ok (live_check (filter (\<lambda>g. g_class g = c) grants) a)"
  using assms
  by (cases c; auto simp: validate_grant_set_def Let_def rbind_eq_Inr check_all_iff
      is_ok_iff check_pairs_iff)+

lemma length_filter_imp: "(\<And>x. x \<in> set xs \<Longrightarrow> P x \<Longrightarrow> Q x) \<Longrightarrow> length (filter P xs) \<le> length (filter Q xs)"
  by (induction xs) auto

lemma live_bound_from_anchor:
  assumes v: "validate_grant_set grants = Inr ()" and t: "t \<le> I64_MAX - VALID_FROM_SKEW_GRACE_SECS"
  shows "length (filter (\<lambda>g. grant_is_authorized g t \<and> g_valid_from g \<le> t)
            (filter (\<lambda>g. g_class g = c) grants)) \<le> MAX_LIVE_GRANTS_PER_CLASS"
proof -
  let ?cls = "filter (\<lambda>g. g_class g = c) grants"
  let ?P = "\<lambda>g. grant_is_authorized g t \<and> g_valid_from g \<le> t"
  show ?thesis
  proof (cases "filter ?P ?cls = []")
    case True
    then show ?thesis by (simp only: list.size)
  next
    case False
    let ?F = "g_valid_from ` set (filter ?P ?cls)"
    have "?F \<noteq> {}" using False by (simp only: image_is_empty set_empty not_False_eq_True)
    then have "Max ?F \<in> ?F" by (intro Max_in) simp_all
    then obtain a where a: "a \<in> set (filter ?P ?cls)" "g_valid_from a = Max ?F" by auto
    then have "grant_validate a = Inr ()" using validate_grant_set_parts(1) [OF v] by simp
    then have pos: "0 \<le> g_valid_from a"
      by (auto simp: grant_validate_def split: sum.splits if_splits)
    have "grant_is_authorized g (g_valid_from a)" if "g \<in> set ?cls" "?P g" for g
    proof (rule authorized_at_later_start [OF _ _ _ pos t])
      have "g_valid_from g \<in> ?F" using that by simp
      then show "g_valid_from g \<le> g_valid_from a" unfolding a(2) by (rule Max_ge [rotated]) simp
      show "g_valid_from a \<le> t" using a(1) by simp
    qed (use that in simp)
    then have "length (filter ?P ?cls) \<le> length (filter (\<lambda>g. grant_is_authorized g (g_valid_from a)) ?cls)"
      by (intro length_filter_imp) blast
    also have "\<dots> \<le> MAX_LIVE_GRANTS_PER_CLASS"
      using bspec [OF validate_grant_set_parts(3) [OF v, of c], of a] a(1)
      by (simp add: live_check_def Let_def split: if_splits)
    finally show ?thesis .
  qed
qed

lemma overlap_check_bound:
  assumes "is_ok (overlap_check a b)" "grant_validate a = Inr ()" "grant_validate b = Inr ()"
    "g_valid_until a \<le> I64_MAX" "g_valid_until b \<le> I64_MAX"
  shows "min (g_valid_until a) (g_valid_until b) - max (g_valid_from a) (g_valid_from b) \<le> MAX_OVERLAP_SECS"
proof -
  have "0 \<le> g_valid_from a" "0 \<le> g_valid_from b" "g_valid_from a < g_valid_until a"
    "g_valid_from b < g_valid_until b"
    using assms(2,3) by (auto simp: grant_validate_def split: sum.splits if_splits)
  then have "in_i64 (min (g_valid_until a) (g_valid_until b) - max (g_valid_from a) (g_valid_from b))"
    using assms(4,5) by (auto simp: in_i64_def I64_MAX_def I64_MIN_def)
  then show ?thesis
    using assms(1) by (auto simp: overlap_check_def Let_def overlap_secs_def grant_expiry_def
        MAX_OVERLAP_SECS_def split: if_splits)
qed

section \<open>Properties\<close>

text \<open>A grant that is dead (revoked, or at or past its end) is never authorized again: along
  every sequence of clock advances, revocations and successful renewals, in any order and number,
  it stays unauthorized; and along every such sequence from any grant the principal, the class,
  the VLESS UUID, the Hysteria2 password, the generation and the start of the window never
  change and the end of the window never moves back.\<close>

theorem grant_no_resurrection:
  assumes "grant_run t g t' g'"
  shows "(is_revoked_at g t \<or> g_valid_until g \<le> t \<longrightarrow> \<not> grant_is_authorized g' t')
    \<and> g' = g\<lparr>g_valid_until := g_valid_until g', g_revoked_at := g_revoked_at g'\<rparr>
    \<and> g_valid_until g \<le> g_valid_until g'"
  using grant_run_dead [OF assms] grant_dead_not_authorized [of g' t'] grant_run_material [OF assms]
  by (auto simp: grant_dead_def)

definition example_grant :: "string \<Rightarrow> int \<Rightarrow> int \<Rightarrow> CredentialGrant" where
  "example_grant suffix a b = grant_new (''ext_00000000000000000000000'' @ suffix) Compatibility
     ''00000000-0000-4000-8000-000000000000'' ''secret'' a b"

theorem grant_no_resurrection_witness:
  "\<not> grant_is_authorized (revoke (example_grant ''a'' 0 1000) 1000) 2000"
proof -
  have "grant_run 1000 (example_grant ''a'' 0 1000) 2000 (revoke (example_grant ''a'' 0 1000) 1000)"
    by (rule run_tick [OF run_revoke [OF run_start]]) simp
  from grant_no_resurrection [OF this] show ?thesis
    by (simp add: example_grant_def grant_new_def)
qed

text \<open>In a validated set of grants, at every instant at most two grants of one class are
  authorized with their window already open, and any two grants of one class overlap for at most
  one hour.\<close>

theorem grant_set_live_bound:
  assumes v: "validate_grant_set grants = Inr ()" and t: "t \<le> I64_MAX - VALID_FROM_SKEW_GRACE_SECS"
    and i64: "\<forall>g\<in>set grants. g_valid_until g \<le> I64_MAX"
  shows "length (filter (\<lambda>g. g_class g = c \<and> grant_is_authorized g t \<and> g_valid_from g \<le> t) grants) \<le> 2
    \<and> sorted_wrt (\<lambda>a b. min (g_valid_until a) (g_valid_until b)
          - max (g_valid_from a) (g_valid_from b) \<le> 3600) (filter (\<lambda>g. g_class g = c) grants)"
proof
  show "length (filter (\<lambda>g. g_class g = c \<and> grant_is_authorized g t \<and> g_valid_from g \<le> t) grants) \<le> 2"
    using live_bound_from_anchor [OF v t, of c] by (simp add: MAX_LIVE_GRANTS_PER_CLASS_def)
  have h: "MAX_OVERLAP_SECS = 3600" by (simp add: MAX_OVERLAP_SECS_def)
  show "sorted_wrt (\<lambda>a b. min (g_valid_until a) (g_valid_until b)
      - max (g_valid_from a) (g_valid_from b) \<le> 3600) (filter (\<lambda>g. g_class g = c) grants)"
    using overlap_check_bound validate_grant_set_parts(1) [OF v] i64 unfolding h
    by (intro sorted_wrt_mono_rel [OF _ validate_grant_set_parts(2) [OF v]]) simp
qed

lemma example_grant_ok:
  assumes "x \<in> {CHR ''a'', CHR ''b'', CHR ''c''}" "0 \<le> a" "a < b"
  shows "grant_validate (example_grant [x] a b) = Inr ()"
proof -
  let ?uuid = "''00000000-0000-4000-8000-000000000000''"
  have "is_uuid_v4_shaped ?uuid" by (simp add: is_uuid_v4_shaped_def is_ascii_hexdigit_def is_ascii_digit_def)
  moreover have "validate_principal_id (''ext_00000000000000000000000'' @ [x]) Compatibility = Inr ()"
    using assms(1)
    by (auto simp: validate_principal_id_def strip_prefix_def starts_with_def is_ascii_hexdigit_def
        is_ascii_digit_def)
  ultimately show ?thesis
    using assms(2,3) by (simp add: grant_validate_def example_grant_def grant_new_def del: append.simps)
qed

definition three_grants :: "CredentialGrant list" where
  "three_grants = [example_grant ''a'' 0 1000, example_grant ''b'' 500 1500, example_grant ''c'' 1020 2000]"

lemma three_grants_valid: "validate_grant_set three_grants = Inr ()"
proof -
  have "check_all grant_validate three_grants = Inr ()"
    by (simp add: three_grants_def example_grant_ok)
  then show ?thesis
    by (simp add: validate_grant_set_def three_grants_def example_grant_def grant_new_def Let_def
        overlap_check_def overlap_secs_def grant_expiry_def in_i64_def I64_MAX_def I64_MIN_def
        live_check_def grant_is_authorized_def is_revoked_at_def MAX_OVERLAP_SECS_def
        VALID_FROM_SKEW_GRACE_SECS_def MAX_LIVE_GRANTS_PER_CLASS_def)
qed

theorem grant_set_live_bound_witness:
  "length (filter (\<lambda>g. g_class g = Compatibility \<and> grant_is_authorized g 1200 \<and> g_valid_from g \<le> 1200)
     three_grants) \<le> 2"
  using grant_set_live_bound [OF three_grants_valid, of 1200 Compatibility]
  by (simp add: I64_MAX_def VALID_FROM_SKEW_GRACE_SECS_def three_grants_def example_grant_def
      grant_new_def)

text \<open>C31: Inside the start-of-window tolerance the bound of two is not enforced: there is a
  validated set with three grants of one class authorized at the same instant, because the set
  is only examined at the starts of its windows while a grant is already authorized thirty
  seconds before its start.\<close>

theorem grant_set_grace_admits_three:
  "\<exists>grants t. validate_grant_set grants = Inr ()
     \<and> length (filter (\<lambda>g. g_class g = Compatibility \<and> grant_is_authorized g t) grants) = 3"
proof (intro exI conjI)
  show "validate_grant_set three_grants = Inr ()" by (rule three_grants_valid)
  show "length (filter (\<lambda>g. g_class g = Compatibility \<and> grant_is_authorized g 995) three_grants) = 3"
    by (simp add: three_grants_def example_grant_def grant_new_def grant_is_authorized_def
        is_revoked_at_def in_i64_def I64_MAX_def I64_MIN_def VALID_FROM_SKEW_GRACE_SECS_def)
qed

end
