(* ===== verification/Model.thy ===== *)
theory Model
  imports CredentialPolicy
begin

text \<open>
  The compatibility-domain types of \<open>crates/compat-config/src/model.rs\<close> and the rest of
  \<open>credential_policy.rs\<close> that speaks about accounts: endpoints, peer credentials, accounts
  with their grants, the server parameters, and the constants of the egress and probe policy.
\<close>

section \<open>Constants\<close>

definition GOOGLE_EGRESS_DOMAINS :: "string list" where
  "GOOGLE_EGRESS_DOMAINS =
     [''youtube.com'', ''youtubekids.com'', ''youtu.be'', ''youtube-nocookie.com'',
      ''googlevideo.com'', ''ytimg.com'', ''ggpht.com'', ''googleusercontent.com'',
      ''youtubei.googleapis.com'', ''google.com'', ''googleapis.com'', ''gstatic.com'']"

definition PROBE_USER_NAME :: string where "PROBE_USER_NAME = ''arcana-probe''"
definition RESERVED_SELFTEST_USER_NAME :: string where
  "RESERVED_SELFTEST_USER_NAME = ''arcana-selftest''"
definition PROBE_TRACE_V4_URL :: string where
  "PROBE_TRACE_V4_URL = ''https://1.1.1.1/cdn-cgi/trace''"
definition PROBE_DNS_URL :: string where
  "PROBE_DNS_URL = ''https://www.gstatic.com/generate_204''"
definition PROBE_V6_ONLY_URL :: string where
  "PROBE_V6_ONLY_URL = ''https://ipv6.icanhazip.com''"

definition C16_DENY_IPV4_CIDRS :: "string list" where
  "C16_DENY_IPV4_CIDRS =
     [''0.0.0.0/8'', ''10.0.0.0/8'', ''100.64.0.0/10'', ''127.0.0.0/8'', ''169.254.0.0/16'',
      ''172.16.0.0/12'', ''192.0.0.0/24'', ''192.0.2.0/24'', ''192.168.0.0/16'', ''198.18.0.0/15'',
      ''198.51.100.0/24'', ''203.0.113.0/24'', ''224.0.0.0/4'', ''240.0.0.0/4'']"

definition C16_DENY_IPV6_CIDRS :: "string list" where
  "C16_DENY_IPV6_CIDRS =
     [''::/128'', ''::1/128'', ''::ffff:0:0/96'', ''64:ff9b::/96'', ''100::/64'', ''2001:db8::/32'',
      ''fc00::/7'', ''fe80::/10'', ''ff00::/8'', ''fd00:ec2::254/128'']"

definition C16_DENY_TCP_PORT :: nat where "C16_DENY_TCP_PORT = 25"
definition PROBE_ALLOWED_IP_CIDRS :: "string list" where "PROBE_ALLOWED_IP_CIDRS = [''1.1.1.1/32'']"
definition PROBE_ALLOWED_DOMAINS :: "string list" where
  "PROBE_ALLOWED_DOMAINS = [''www.gstatic.com'', ''ipv6.icanhazip.com'']"
definition PROBE_ALLOWED_PORT :: nat where "PROBE_ALLOWED_PORT = 443"

section \<open>Endpoints\<close>

datatype CompatTransport = VlessReality | Hysteria2

fun transport_str :: "CompatTransport \<Rightarrow> string" where
  "transport_str VlessReality = ''vless-reality''"
| "transport_str Hysteria2 = ''hysteria2''"

datatype PublicParameters =
    RealityParams (pp_public_key: string) (pp_short_id: string) (pp_fingerprint: string)
  | Hysteria2Params (pp_obfs_password: "string option")

datatype EndpointOrigin = Local | Peer

definition is_local :: "EndpointOrigin \<Rightarrow> bool" where
  "is_local o' = (case o' of Local \<Rightarrow> True | Peer \<Rightarrow> False)"

datatype EndpointVlessFlow = Vision | NoFlow

record CompatEndpoint =
  ep_id :: string
  ep_transport :: CompatTransport
  ep_host :: string
  ep_port :: nat
  ep_server_name :: "string option"
  ep_label :: string
  ep_public_parameters :: PublicParameters
  ep_origin :: EndpointOrigin
  ep_failure_domain :: "string option"
  ep_region :: "string option"
  ep_provider :: "string option"
  ep_asn :: "string option"
  ep_path :: "string option"
  ep_credential_ref :: "string option"
  ep_vless_flow :: EndpointVlessFlow

definition default_endpoint :: CompatEndpoint where
  "default_endpoint =
     \<lparr>ep_id = [], ep_transport = VlessReality, ep_host = [], ep_port = 0, ep_server_name = None,
      ep_label = [], ep_public_parameters = RealityParams [] [] [], ep_origin = Local,
      ep_failure_domain = None, ep_region = None, ep_provider = None, ep_asn = None,
      ep_path = None, ep_credential_ref = None, ep_vless_flow = Vision\<rparr>"

datatype PeerCredential = PeerVless (pc_uuid: string) | PeerHysteria2 (pc_password: string)

fun peer_credential_transport :: "PeerCredential \<Rightarrow> CompatTransport" where
  "peer_credential_transport (PeerVless _) = VlessReality"
| "peer_credential_transport (PeerHysteria2 _) = Hysteria2"

section \<open>Accounts\<close>

record CompatUser =
  u_id :: string
  u_name :: string
  u_enabled :: bool
  u_vless_uuid :: string
  u_hysteria2_password :: string
  u_token_hash :: string
  u_created_at :: int
  u_expires_at :: "int option"
  u_vision_off :: bool
  u_google_egress_hairpin :: bool
  u_exit_principal :: bool
  u_peer_credentials :: "(string, PeerCredential) btree"
  u_is_reserved_probe :: bool
  u_credentials :: "CredentialGrant list"

definition is_active :: "CompatUser \<Rightarrow> int \<Rightarrow> bool" where
  "is_active u now =
     (let started = \<not> starts_with ''cred_'' (u_id u) \<or> u_created_at u \<le> now in
      u_enabled u \<and> started \<and> (case u_expires_at u of None \<Rightarrow> True | Some exp \<Rightarrow> now < exp))"

definition effective_grants :: "CompatUser \<Rightarrow> CredentialGrant list" where
  "effective_grants u =
     (if u_credentials u \<noteq> [] then u_credentials u
      else [\<lparr>g_principal_id = u_id u, g_class = Compatibility, g_vless_uuid = u_vless_uuid u,
             g_hysteria2_password = u_hysteria2_password u, g_valid_from = 0,
             g_valid_until = (case u_expires_at u of None \<Rightarrow> I64_MAX | Some exp \<Rightarrow> exp),
             g_revoked_at = None, g_generation = 1\<rparr>])"

definition active_principal_ids :: "CompatUser \<Rightarrow> int \<Rightarrow> string list" where
  "active_principal_ids u now =
     (if \<not> is_active u now then []
      else map g_principal_id (filter (\<lambda>g. grant_is_authorized g now) (effective_grants u)))"

definition peer_credential :: "CompatUser \<Rightarrow> string \<Rightarrow> PeerCredential option" where
  "peer_credential u endpoint_id = bt_get endpoint_id (u_peer_credentials u)"

definition validate_grants :: "CompatUser \<Rightarrow> GrantError + unit" where
  "validate_grants u = validate_grant_set (u_credentials u)"

definition live_grants :: "CompatUser \<Rightarrow> CredentialClass \<Rightarrow> int \<Rightarrow> CredentialGrant list" where
  "live_grants u class now =
     filter (\<lambda>g. g_class g = class \<and> grant_is_authorized g now) (u_credentials u)"

fun max_by_generation :: "CredentialGrant list \<Rightarrow> CredentialGrant option" where
  "max_by_generation [] = None"
| "max_by_generation (g # gs) =
     (case max_by_generation gs of
        None \<Rightarrow> Some g
      | Some h \<Rightarrow> if g_generation g > g_generation h then Some g else Some h)"

definition current_grant :: "CompatUser \<Rightarrow> CredentialClass \<Rightarrow> int \<Rightarrow> CredentialGrant option" where
  "current_grant u class now = max_by_generation (live_grants u class now)"

section \<open>Server parameters\<close>

record RealityServerParams =
  rs_private_key :: string
  rs_public_key :: string
  rs_short_ids :: "string list"
  rs_handshake_server :: string
  rs_handshake_port :: nat
  rs_google_egress_hairpin_uuid :: "string option"

record Hysteria2ServerParams =
  hs_tls_cert_path :: string
  hs_tls_key_path :: string
  hs_obfs_password :: "string option"
  hs_masquerade_dir_path :: "string option"
  hs_up_mbps :: "nat option"
  hs_down_mbps :: "nat option"

section \<open>Lemmas\<close>

lemma active_principal_ids_inactive [simp]: "\<not> is_active u now \<Longrightarrow> active_principal_ids u now = []"
  by (simp add: active_principal_ids_def)

lemma active_principal_ids_active:
  "p \<in> set (active_principal_ids u now) \<Longrightarrow> is_active u now"
  by (auto simp: active_principal_ids_def split: if_splits)

lemma max_by_generation_None [simp]: "max_by_generation gs = None \<longleftrightarrow> gs = []"
  by (cases gs) (auto split: option.splits)

lemma max_by_generation_Some:
  "max_by_generation gs = Some g \<Longrightarrow> g \<in> set gs \<and> (\<forall>h\<in>set gs. g_generation h \<le> g_generation g)"
  by (induction gs arbitrary: g) (auto split: option.splits if_splits)

section \<open>Properties\<close>

text \<open>An account without stored grants is authorized exactly as its account switch says: at
  every instant for which the tolerance arithmetic does not overflow, its only authorized
  principal is its own id when the account is active and it has none otherwise. A disabled or
  expired account never has an authorized principal, whatever grants it stores.\<close>

theorem legacy_account_authorization:
  assumes "- VALID_FROM_SKEW_GRACE_SECS \<le> now" "now + VALID_FROM_SKEW_GRACE_SECS \<le> I64_MAX"
  shows "(u_credentials u = [] \<longrightarrow>
      active_principal_ids u now = (if is_active u now then [u_id u] else []))
    \<and> (\<not> is_active u now \<longrightarrow> active_principal_ids u now = [])"
proof -
  have "in_i64 (now + VALID_FROM_SKEW_GRACE_SECS)" "now < I64_MAX"
    using assms by (simp_all add: in_i64_def I64_MIN_def I64_MAX_def VALID_FROM_SKEW_GRACE_SECS_def)
  then show ?thesis
    using assms
    by (auto simp: active_principal_ids_def effective_grants_def grant_is_authorized_def
        is_revoked_at_def is_active_def Let_def split: option.splits)
qed

definition example_user :: CompatUser where
  "example_user =
     \<lparr>u_id = ''user_1'', u_name = ''alice'', u_enabled = True, u_vless_uuid = ''uuid'',
      u_hysteria2_password = ''pw'', u_token_hash = ''hash'', u_created_at = 0,
      u_expires_at = Some 2000, u_vision_off = False, u_google_egress_hairpin = False,
      u_exit_principal = False, u_peer_credentials = [], u_is_reserved_probe = False,
      u_credentials = []\<rparr>"

theorem legacy_account_authorization_witness:
  "active_principal_ids example_user 1999 = [''user_1''] \<and> active_principal_ids example_user 2000 = []"
proof -
  have b: "- VALID_FROM_SKEW_GRACE_SECS \<le> 1999" "1999 + VALID_FROM_SKEW_GRACE_SECS \<le> I64_MAX"
    "- VALID_FROM_SKEW_GRACE_SECS \<le> 2000" "2000 + VALID_FROM_SKEW_GRACE_SECS \<le> I64_MAX"
    by (simp_all add: VALID_FROM_SKEW_GRACE_SECS_def I64_MAX_def)
  show ?thesis
    using legacy_account_authorization [OF b(1,2), of example_user]
      legacy_account_authorization [OF b(3,4), of example_user]
    by (simp add: example_user_def is_active_def starts_with_def)
qed

end
