(* ===== verification/StoreWriters.thy ===== *)
theory StoreWriters
  imports LeasePool Model
begin

text \<open>
  The two writers of the compatibility user store that \<open>vpn-admin\<close> runs for the provisioning
  agent: the lease pool (\<open>apps/admin/src/lease_pool.rs\<close>) and the external authorizations
  (\<open>apps/admin/src/external_authorization.rs\<close>).  Each replaces exactly the users it owns.
  The locale \<open>owned_writer\<close> states what a writer's ownership test and update promise; it is
  interpreted for both writers.  Parameters: SHA-256, the hexadecimal encoder and the random
  subscription tokens.
\<close>

section \<open>Lease pool\<close>

definition LEASE_USER_PREFIX :: string where "LEASE_USER_PREFIX = ''lease-''"
definition MAX_SLOTS :: nat where "MAX_SLOTS = 4096"

record LeaseSlotInput =
  li_slot :: nat
  li_vless_uuid :: string
  li_hysteria2_password :: string
  li_expires_at :: int
  li_principal_id :: "string option"
  li_credential_id :: "string option"
  li_class :: "AuthClass option"
  li_valid_from :: "int option"
  li_revoked :: bool

type_synonym LeasePoolInput = "LeaseSlotInput list"

definition lease_user_id :: "nat \<Rightarrow> string" where
  "lease_user_id slot = LEASE_USER_PREFIX @ replicate (4 - length (show_nat slot)) (CHR ''0'') @ show_nat slot"

definition is_lease_user :: "CompatUser \<Rightarrow> bool" where
  "is_lease_user user \<longleftrightarrow>
     starts_with LEASE_USER_PREFIX (u_id user)
     \<or> (starts_with ''cred_'' (u_id user) \<and> starts_with ''native_'' (u_name user))"

definition lease_valid_uuid :: "string \<Rightarrow> bool" where
  "lease_valid_uuid s \<longleftrightarrow>
     length s = 36
     \<and> list_all (\<lambda>(i, c). if i \<in> {8, 13, 18, 23} then c = CHR ''-'' else is_ascii_hexdigit c) (enumerate 0 s)"

definition lease_valid_password :: "string \<Rightarrow> bool" where
  "lease_valid_password s \<longleftrightarrow>
     16 \<le> length s \<and> length s \<le> 128
     \<and> list_all (\<lambda>c. 0x21 \<le> (of_char c :: nat) \<and> (of_char c :: nat) \<le> 0x7e) s"

datatype ReconcileError =
    PoolTooLarge | BadSlot nat | MalformedCredential nat | NoExpiry nat | PartialMetadata nat
  | RevokedWithoutMetadata nat | BadAuthorizations AuthError | DuplicateUuids | UuidCollision
  | NotCompatibility | IdCollision

definition metadata_count :: "LeaseSlotInput \<Rightarrow> nat" where
  "metadata_count s = length (filter id
     [li_principal_id s \<noteq> None, li_credential_id s \<noteq> None, li_class s \<noteq> None, li_valid_from s \<noteq> None])"

definition lease_authorization :: "LeaseSlotInput \<Rightarrow> Authorization" where
  "lease_authorization s =
     \<lparr>a_principal_id = the (li_principal_id s), a_credential_id = the (li_credential_id s),
      a_class = the (li_class s), a_valid_from = the (li_valid_from s), a_valid_until = li_expires_at s,
      a_revoked = li_revoked s, a_vless_uuid = Some (li_vless_uuid s),
      a_hysteria2_password = Some (li_hysteria2_password s)\<rparr>"

text \<open>The checking loop: the slots seen so far, and the authorizations collected.\<close>

fun check_slots :: "nat set \<Rightarrow> Authorization list \<Rightarrow> LeaseSlotInput list \<Rightarrow> ReconcileError + Authorization list" where
  "check_slots seen auths [] = Inr auths"
| "check_slots seen auths (s # slots) =
     (if li_slot s \<ge> MAX_SLOTS \<or> li_slot s \<in> seen then Inl (BadSlot (li_slot s))
      else if \<not> lease_valid_uuid (li_vless_uuid s) \<or> \<not> lease_valid_password (li_hysteria2_password s)
        then Inl (MalformedCredential (li_slot s))
      else if li_expires_at s \<le> 0 then Inl (NoExpiry (li_slot s))
      else if metadata_count s \<noteq> 0 \<and> metadata_count s \<noteq> 4 then Inl (PartialMetadata (li_slot s))
      else if metadata_count s = 4
        then check_slots (insert (li_slot s) seen) (auths @ [lease_authorization s]) slots
      else if li_revoked s then Inl (RevokedWithoutMetadata (li_slot s))
      else check_slots (insert (li_slot s) seen) auths slots)"

definition lease_id :: "LeaseSlotInput \<Rightarrow> string" where
  "lease_id s = (case li_credential_id s of Some c \<Rightarrow> c | None \<Rightarrow> lease_user_id (li_slot s))"

text \<open>A new user of the store; its token is drawn, hashed and forgotten.\<close>

definition lease_fresh_user :: "(string \<Rightarrow> 8 word list) \<Rightarrow> hex_fun \<Rightarrow> (string \<Rightarrow> string) \<Rightarrow> int \<Rightarrow> string \<Rightarrow> CompatUser" where
  "lease_fresh_user sha hex tok now uid =
     \<lparr>u_id = uid, u_name = uid, u_enabled = True, u_vless_uuid = [], u_hysteria2_password = [],
      u_token_hash = hash_token sha hex (tok uid), u_created_at = now, u_expires_at = None,
      u_vision_off = False, u_google_egress_hairpin = False, u_exit_principal = False,
      u_peer_credentials = [], u_is_reserved_probe = False, u_credentials = []\<rparr>"

definition lease_update :: "LeaseSlotInput \<Rightarrow> CompatUser \<Rightarrow> CompatUser" where
  "lease_update s user =
     user\<lparr>u_name := (case li_principal_id s of Some p \<Rightarrow> p | None \<Rightarrow> lease_id s),
          u_enabled := \<not> li_revoked s,
          u_vless_uuid := to_ascii_lowercase (li_vless_uuid s),
          u_hysteria2_password := li_hysteria2_password s,
          u_created_at := (case li_valid_from s of Some t \<Rightarrow> t | None \<Rightarrow> u_created_at user),
          u_expires_at := Some (li_expires_at s),
          u_vision_off := False, u_google_egress_hairpin := False\<rparr>"

definition lease_reconcile ::
    "(string \<Rightarrow> 8 word list) \<Rightarrow> hex_fun \<Rightarrow> (string \<Rightarrow> string) \<Rightarrow>
       CompatUser list \<Rightarrow> LeasePoolInput \<Rightarrow> int \<Rightarrow> ReconcileError + (CompatUser list \<times> bool)" where
  "lease_reconcile sha hex tok users input now =
     (if length input > MAX_SLOTS then Inl PoolTooLarge
      else rbind (check_slots {} [] input) (\<lambda>auths.
      case validate_authorization_set auths of
        Inl e \<Rightarrow> Inl (BadAuthorizations e)
      | Inr _ \<Rightarrow>
          let lease_uuids = btree_set (map (\<lambda>s. to_ascii_lowercase (li_vless_uuid s)) input) in
          if length lease_uuids \<noteq> length input then Inl DuplicateUuids
          else if list_ex (\<lambda>u. \<not> is_lease_user u \<and> to_ascii_lowercase (u_vless_uuid u) \<in> set lease_uuids) users
            then Inl UuidCollision
          else
            let next = filter (\<lambda>u. \<not> is_lease_user u) users
                  @ map (\<lambda>s. lease_update s
                            (case find (\<lambda>u. u_id u = lease_id s) users of
                               Some existing \<Rightarrow> existing
                             | None \<Rightarrow> lease_fresh_user sha hex tok now (lease_id s)))
                      (sort_key li_slot input)
            in Inr (next, next \<noteq> users)))"

section \<open>External authorizations\<close>

definition is_external :: "CompatUser \<Rightarrow> bool" where
  "is_external user \<longleftrightarrow> starts_with ''cred_'' (u_id user) \<and> starts_with ''ext_'' (u_name user)"

text \<open>The insertion loop over the UUIDs that are present.\<close>

fun distinct_uuids :: "string set \<Rightarrow> Authorization list \<Rightarrow> ReconcileError + string set" where
  "distinct_uuids uuids [] = Inr uuids"
| "distinct_uuids uuids (auth # auths) =
     (case a_vless_uuid auth of
        None \<Rightarrow> distinct_uuids uuids auths
      | Some v \<Rightarrow>
          if to_ascii_lowercase v \<in> uuids then Inl DuplicateUuids
          else distinct_uuids (insert (to_ascii_lowercase v) uuids) auths)"

definition external_fresh_user ::
    "(string \<Rightarrow> 8 word list) \<Rightarrow> hex_fun \<Rightarrow> (string \<Rightarrow> string) \<Rightarrow> int \<Rightarrow> Authorization \<Rightarrow> CompatUser" where
  "external_fresh_user sha hex tok now auth =
     \<lparr>u_id = a_credential_id auth, u_name = a_principal_id auth, u_enabled = False, u_vless_uuid = [],
      u_hysteria2_password = [], u_token_hash = hash_token sha hex (tok (a_credential_id auth)),
      u_created_at = now, u_expires_at = None, u_vision_off = False, u_google_egress_hairpin = False,
      u_exit_principal = False, u_peer_credentials = [], u_is_reserved_probe = False, u_credentials = []\<rparr>"

definition external_update :: "Authorization \<Rightarrow> CompatUser \<Rightarrow> CompatUser" where
  "external_update auth user =
     user\<lparr>u_name := a_principal_id auth,
          u_enabled := \<not> a_revoked auth,
          u_created_at := a_valid_from auth,
          u_expires_at := Some (a_valid_until auth),
          u_vless_uuid := (case a_vless_uuid auth of Some v \<Rightarrow> to_ascii_lowercase v | None \<Rightarrow> []),
          u_hysteria2_password := (case a_hysteria2_password auth of Some p \<Rightarrow> p | None \<Rightarrow> [])\<rparr>"

definition external_reconcile ::
    "(string \<Rightarrow> 8 word list) \<Rightarrow> hex_fun \<Rightarrow> (string \<Rightarrow> string) \<Rightarrow>
       CompatUser list \<Rightarrow> Authorization list \<Rightarrow> int \<Rightarrow> ReconcileError + (CompatUser list \<times> bool)" where
  "external_reconcile sha hex tok users auths now =
     (case validate_authorization_set auths of
        Inl e \<Rightarrow> Inl (BadAuthorizations e)
      | Inr _ \<Rightarrow>
          if list_ex (\<lambda>a. a_class a \<noteq> AuthCompatibility) auths then Inl NotCompatibility
          else rbind (distinct_uuids {} auths) (\<lambda>uuids.
          if list_ex (\<lambda>u. to_ascii_lowercase (u_vless_uuid u) \<in> uuids) (filter (\<lambda>u. \<not> is_external u) users)
            then Inl UuidCollision
          else if list_ex (\<lambda>u. u_id u \<in> set (map a_credential_id auths)) (filter (\<lambda>u. \<not> is_external u) users)
            then Inl IdCollision
          else
            let next = filter (\<lambda>u. \<not> is_external u) users
                  @ map (\<lambda>a. external_update a
                            (case find (\<lambda>u. u_id u = a_credential_id a \<and> is_external u) users of
                               Some existing \<Rightarrow> existing
                             | None \<Rightarrow> external_fresh_user sha hex tok now a))
                      (sort_key a_credential_id auths)
            in Inr (next, next \<noteq> users)))"

section \<open>The contract of a writer\<close>

lemma find_append: "find P (xs @ ys) = (case find P xs of None \<Rightarrow> find P ys | Some x \<Rightarrow> Some x)"
  by (induction xs) simp_all

text \<open>Replace the owned users: keep the others in place, then one user per desired record, updated
  from the user that already has its id, or new.\<close>

definition write_owned ::
    "(CompatUser \<Rightarrow> bool) \<Rightarrow> (CompatUser \<Rightarrow> bool) \<Rightarrow> ('d \<Rightarrow> string) \<Rightarrow> ('d \<Rightarrow> CompatUser)
       \<Rightarrow> ('d \<Rightarrow> CompatUser \<Rightarrow> CompatUser) \<Rightarrow> CompatUser list \<Rightarrow> 'd list \<Rightarrow> CompatUser list" where
  "write_owned owned reuse key fresh upd users ds =
     filter (\<lambda>u. \<not> owned u) users
     @ map (\<lambda>d. upd d (case find (\<lambda>u. u_id u = key d \<and> reuse u) users of
                         Some u \<Rightarrow> u | None \<Rightarrow> fresh d)) ds"

locale owned_writer =
  fixes owned reuse :: "CompatUser \<Rightarrow> bool"
    and key :: "'d \<Rightarrow> string"
    and fresh :: "'d \<Rightarrow> CompatUser"
    and upd :: "'d \<Rightarrow> CompatUser \<Rightarrow> CompatUser"
    and admitted :: "'d \<Rightarrow> bool"
  assumes fresh_id: "u_id (fresh d) = key d"
    and upd_id: "u_id (upd d u) = u_id u"
    and upd_owned: "admitted d \<Longrightarrow> u_id u = key d \<Longrightarrow> owned (upd d u) \<and> reuse (upd d u)"
    and upd_idem: "upd d (upd d u) = upd d u"
begin

lemma chosen_id: "u_id (case find (\<lambda>u. u_id u = key d \<and> reuse u) users of Some u \<Rightarrow> u | None \<Rightarrow> fresh d) = key d"
  by (auto simp: fresh_id dest: find_SomeD split: option.split)

lemma written_ids: "map u_id (write_owned owned reuse key fresh upd users ds) =
    map u_id (filter (\<lambda>u. \<not> owned u) users) @ map key ds"
  by (simp add: write_owned_def upd_id chosen_id)

lemma written_owned:
  assumes "\<forall>d\<in>set ds. admitted d"
  shows "filter owned (write_owned owned reuse key fresh upd users ds) =
    map (\<lambda>d. upd d (case find (\<lambda>u. u_id u = key d \<and> reuse u) users of Some u \<Rightarrow> u | None \<Rightarrow> fresh d)) ds"
    and "filter (\<lambda>u. \<not> owned u) (write_owned owned reuse key fresh upd users ds) = filter (\<lambda>u. \<not> owned u) users"
proof -
  let ?f = "\<lambda>d. upd d (case find (\<lambda>u. u_id u = key d \<and> reuse u) users of Some u \<Rightarrow> u | None \<Rightarrow> fresh d)"
  have o: "owned (?f d)" if "d \<in> set ds" for d
    using assms that upd_owned [of d, OF _ chosen_id] by blast
  then have a: "filter owned (map ?f ds) = map ?f ds" by simp
  have b: "filter (\<lambda>u. \<not> owned u) (map ?f ds) = []" using o by simp
  show "filter owned (write_owned owned reuse key fresh upd users ds) = map ?f ds"
    unfolding write_owned_def filter_append a by simp
  show "filter (\<lambda>u. \<not> owned u) (write_owned owned reuse key fresh upd users ds) = filter (\<lambda>u. \<not> owned u) users"
    unfolding write_owned_def filter_append b by simp
qed

lemma written_distinct:
  assumes "distinct (map u_id users)" "distinct (map key ds)"
    "\<forall>u\<in>set users. \<not> owned u \<longrightarrow> u_id u \<notin> key ` set ds"
  shows "distinct (map u_id (write_owned owned reuse key fresh upd users ds))"
  unfolding written_ids using assms by (auto simp: distinct_map_filter)

text \<open>Writing the same records again, with any new users the records would need, changes nothing.\<close>

lemma written_again:
  assumes adm: "\<forall>d\<in>set ds. admitted d" and dist: "distinct (map key ds)"
    and col: "\<forall>u\<in>set users. \<not> owned u \<longrightarrow> u_id u \<notin> key ` set ds"
  shows "write_owned owned reuse key fresh' upd (write_owned owned reuse key fresh upd users ds) ds =
    write_owned owned reuse key fresh upd users ds"
proof -
  define f where "f d = upd d (case find (\<lambda>u. u_id u = key d \<and> reuse u) users of Some u \<Rightarrow> u | None \<Rightarrow> fresh d)" for d
  define kept where "kept = filter (\<lambda>u. \<not> owned u) users"
  have w: "write_owned owned reuse key fresh upd users ds = kept @ map f ds"
    by (simp add: write_owned_def kept_def f_def)
  have fid: "u_id (f d) = key d" for d by (simp add: f_def upd_id chosen_id)
  have fr: "reuse (f d)" if "d \<in> set ds" for d
    using adm that upd_owned [of d, OF _ chosen_id] by (simp add: f_def)
  have again: "find (\<lambda>u. u_id u = key d \<and> reuse u) (kept @ map f ds) = Some (f d)" if d: "d \<in> set ds" for d
  proof -
    have "find (\<lambda>u. u_id u = key d \<and> reuse u) kept = None"
      using col d by (auto simp: find_None_iff kept_def)
    moreover have "find (\<lambda>u. u_id u = key d \<and> reuse u) (map f ds') = Some (f d)"
      if "distinct (map key ds')" "d \<in> set ds'" "set ds' \<subseteq> set ds" for ds'
      using that fr by (induction ds') (auto simp: fid)
    ultimately show ?thesis using d dist by (simp add: find_append)
  qed
  have "map (\<lambda>d. upd d (case find (\<lambda>u. u_id u = key d \<and> reuse u) (kept @ map f ds) of
      Some u \<Rightarrow> u | None \<Rightarrow> fresh' d)) ds = map f ds"
    using again by (simp add: f_def upd_idem)
  moreover have "filter (\<lambda>u. \<not> owned u) (kept @ map f ds) = kept"
    using written_owned(2) [OF adm, of users] unfolding w by (simp add: kept_def)
  ultimately show ?thesis unfolding w by (simp add: write_owned_def [of _ _ _ fresh'])
qed

end

text \<open>What each writer admits.\<close>

definition lease_admitted :: "LeaseSlotInput \<Rightarrow> bool" where
  "lease_admitted s \<longleftrightarrow>
     (case li_credential_id s of
        None \<Rightarrow> li_principal_id s = None
      | Some c \<Rightarrow> starts_with ''cred_'' c
          \<and> (case li_principal_id s of None \<Rightarrow> False | Some p \<Rightarrow> starts_with ''native_'' p))"

definition external_admitted :: "Authorization \<Rightarrow> bool" where
  "external_admitted a \<longleftrightarrow> starts_with ''cred_'' (a_credential_id a) \<and> starts_with ''ext_'' (a_principal_id a)"

interpretation lease: owned_writer is_lease_user "\<lambda>_. True" lease_id
  "\<lambda>s. lease_fresh_user sha hex tok now (lease_id s)" lease_update lease_admitted
  for sha hex tok now
  by unfold_locales
    (auto simp: lease_fresh_user_def lease_update_def is_lease_user_def lease_admitted_def lease_id_def
      lease_user_id_def split: option.splits)

interpretation external: owned_writer is_external is_external a_credential_id
  "external_fresh_user sha hex tok now" external_update external_admitted
  for sha hex tok now
  by unfold_locales
    (auto simp: external_fresh_user_def external_update_def is_external_def external_admitted_def)

section \<open>What the checks establish\<close>

lemma metadata_count_iff:
  "metadata_count s = 4 \<longleftrightarrow> li_principal_id s \<noteq> None \<and> li_credential_id s \<noteq> None \<and> li_class s \<noteq> None \<and> li_valid_from s \<noteq> None"
  "metadata_count s = 0 \<longleftrightarrow> li_principal_id s = None \<and> li_credential_id s = None \<and> li_class s = None \<and> li_valid_from s = None"
  by (auto simp: metadata_count_def)

definition slot_accepted :: "LeaseSlotInput \<Rightarrow> bool" where
  "slot_accepted s \<longleftrightarrow>
     li_slot s < MAX_SLOTS \<and> lease_valid_uuid (li_vless_uuid s) \<and> lease_valid_password (li_hysteria2_password s)
     \<and> 0 < li_expires_at s \<and> (metadata_count s = 4 \<or> metadata_count s = 0 \<and> \<not> li_revoked s)"

lemma check_slots_iff:
  "check_slots seen auths ss = Inr auths' \<longleftrightarrow>
     distinct (map li_slot ss) \<and> li_slot ` set ss \<inter> seen = {} \<and> (\<forall>s\<in>set ss. slot_accepted s)
     \<and> auths' = auths @ map lease_authorization (filter (\<lambda>s. metadata_count s = 4) ss)"
proof (induction seen auths ss rule: check_slots.induct)
  case (1 seen auths)
  then show ?case by auto
next
  case (2 seen auths s ss)
  show ?case
  proof (cases "slot_accepted s \<and> li_slot s \<notin> seen")
    case True
    then show ?thesis using 2 by (auto simp: slot_accepted_def not_le not_less)
  next
    case False
    then show ?thesis by (auto simp: slot_accepted_def not_le not_less)
  qed
qed

definition lease_accepts :: "CompatUser list \<Rightarrow> LeasePoolInput \<Rightarrow> bool" where
  "lease_accepts users input \<longleftrightarrow>
     length input \<le> MAX_SLOTS \<and> distinct (map li_slot input) \<and> (\<forall>s\<in>set input. slot_accepted s)
     \<and> validate_authorization_set (map lease_authorization (filter (\<lambda>s. metadata_count s = 4) input)) = Inr ()
     \<and> distinct (map (\<lambda>s. to_ascii_lowercase (li_vless_uuid s)) input)
     \<and> (\<forall>u\<in>set users. \<not> is_lease_user u \<longrightarrow>
          to_ascii_lowercase (u_vless_uuid u) \<notin> (\<lambda>s. to_ascii_lowercase (li_vless_uuid s)) ` set input)"

lemma length_btree_set: "length (btree_set (map f xs)) = length xs \<longleftrightarrow> distinct (map f xs)"
  by (metis btree_set_def card_distinct distinct_card length_map length_remdups_card_conv length_sort)

lemma validate_item_prefixes:
  assumes "is_ok (validate_item a)"
  shows "starts_with ''cred_'' (a_credential_id a)"
    "starts_with (case a_class a of AuthNative \<Rightarrow> ''native_'' | AuthCompatibility \<Rightarrow> ''ext_'') (a_principal_id a)"
proof -
  have "auth_validate_credential_id (a_credential_id a) = Inr ()"
    using assms by (auto simp: validate_item_def is_ok_rbind)
  then show "starts_with ''cred_'' (a_credential_id a)"
    by (simp add: auth_validate_credential_id_def validate_id_def split: if_splits)
  show "starts_with (case a_class a of AuthNative \<Rightarrow> ''native_'' | AuthCompatibility \<Rightarrow> ''ext_'') (a_principal_id a)"
    using assms by (cases "a_class a") (auto simp: validate_item_def is_ok_rbind simp del: is_ok_if split: if_splits)
qed

lemma lease_reconcile_iff:
  "lease_reconcile sha hex tok users input now = Inr (nxt, changed) \<longleftrightarrow>
     lease_accepts users input
     \<and> nxt = write_owned is_lease_user (\<lambda>_. True) lease_id (\<lambda>s. lease_fresh_user sha hex tok now (lease_id s))
               lease_update users (sort_key li_slot input)
     \<and> changed = (nxt \<noteq> users)"
proof (cases "check_slots {} [] input")
  case (Inl e)
  then have "\<not> (distinct (map li_slot input) \<and> (\<forall>s\<in>set input. slot_accepted s))"
    using check_slots_iff [of "{}" "[]" input "map lease_authorization (filter (\<lambda>s. metadata_count s = 4) input)"]
    by auto
  then show ?thesis using Inl by (auto simp: lease_reconcile_def lease_accepts_def)
next
  case (Inr auths)
  then have a: "distinct (map li_slot input)" "\<forall>s\<in>set input. slot_accepted s"
      "auths = map lease_authorization (filter (\<lambda>s. metadata_count s = 4) input)"
    using check_slots_iff [of "{}" "[]" input auths] by auto
  show ?thesis
    using a(1,2) Inr
    by (auto simp: lease_reconcile_def lease_accepts_def Let_def write_owned_def length_btree_set list_ex_iff
        not_less a(3) split: sum.splits)
qed

lemma lease_input_admitted:
  assumes "lease_accepts users input" "s \<in> set input" "li_class s \<noteq> Some AuthCompatibility"
  shows "lease_admitted s"
proof (cases "metadata_count s = 4")
  case True
  let ?as = "map lease_authorization (filter (\<lambda>s. metadata_count s = 4) input)"
  have "validate_items [] ?as = Inr ()"
    using assms(1) by (auto simp: lease_accepts_def validate_authorization_set_def rbind_eq_Inr)
  then have "is_ok (validate_item (lease_authorization s))"
    using True assms(2) by (auto simp: validate_items_iff)
  moreover have "li_class s = Some AuthNative"
    using True assms(3) by (cases "the (li_class s)") (auto simp: metadata_count_iff)
  ultimately show ?thesis
    using True validate_item_prefixes [of "lease_authorization s"]
    by (auto simp: lease_authorization_def lease_admitted_def metadata_count_iff)
next
  case False
  then show ?thesis
    using assms(1,2) by (auto simp: lease_accepts_def slot_accepted_def lease_admitted_def metadata_count_iff)
qed

lemma writers_disjoint: "is_external u \<Longrightarrow> \<not> is_lease_user u"
  by (auto simp: is_external_def is_lease_user_def starts_with_iff LEASE_USER_PREFIX_def)

text \<open>Legacy identifiers are distinct: the padded decimals are read back.\<close>

definition dec_value :: "string \<Rightarrow> nat" where
  "dec_value s = foldl (\<lambda>a c. a * 10 + (of_char c - 48)) 0 s"

lemma dec_value_show_nat: "dec_value (show_nat n) = n"
proof (induction n rule: show_nat.induct)
  case (1 n)
  show ?case
  proof (cases "n < 10")
    case True
    then show ?thesis by (simp add: show_nat.simps [of n] dec_value_def)
  next
    case False
    then have "show_nat n = show_nat (n div 10) @ [char_of (48 + n mod 10)]" by (simp add: show_nat.simps [of n])
    then have "dec_value (show_nat n) = dec_value (show_nat (n div 10)) * 10 + n mod 10"
      by (simp add: dec_value_def of_char_of)
    then show ?thesis using 1 [OF False] by simp
  qed
qed

lemma dec_value_zeros: "dec_value (replicate k (CHR ''0'') @ s) = dec_value s"
proof -
  have "foldl (\<lambda>a c. a * 10 + (of_char c - 48)) 0 (replicate k (CHR ''0'')) = (0 :: nat)"
    by (induction k) (simp_all add: replicate_append_same [symmetric])
  then show ?thesis by (simp add: dec_value_def)
qed

lemma lease_user_id_inj: "lease_user_id i = lease_user_id j \<Longrightarrow> i = j"
proof -
  assume "lease_user_id i = lease_user_id j"
  then have "dec_value (replicate (4 - length (show_nat i)) (CHR ''0'') @ show_nat i) =
      dec_value (replicate (4 - length (show_nat j)) (CHR ''0'') @ show_nat j)"
    by (simp add: lease_user_id_def)
  then show "i = j" by (simp only: dec_value_zeros dec_value_show_nat)
qed

lemma lease_ids_distinct:
  assumes "lease_accepts users input" "\<forall>s\<in>set input. li_class s \<noteq> Some AuthCompatibility"
  shows "distinct (map lease_id input)"
proof -
  let ?as = "map lease_authorization (filter (\<lambda>s. metadata_count s = 4) input)"
  have "validate_items [] ?as = Inr ()"
    using assms(1) by (auto simp: lease_accepts_def validate_authorization_set_def rbind_eq_Inr)
  then have "distinct (map a_credential_id ?as)" by (simp add: validate_items_iff)
  then have c: "inj_on (\<lambda>s. the (li_credential_id s)) {s \<in> set input. metadata_count s = 4}"
    by (auto simp: distinct_map comp_inj_on_iff [symmetric] lease_authorization_def inj_on_def)
  have d: "distinct input" "inj_on li_slot (set input)"
    using assms(1) by (auto simp: lease_accepts_def distinct_map)
  have "inj_on lease_id (set input)"
  proof (rule inj_onI)
    fix s t assume m: "s \<in> set input" "t \<in> set input" and eq: "lease_id s = lease_id t"
    have a: "lease_admitted s" "lease_admitted t" using m assms lease_input_admitted by blast+
    have acc: "slot_accepted s" "slot_accepted t" using m assms(1) by (auto simp: lease_accepts_def)
    show "s = t"
    proof (cases "li_credential_id s")
      case None
      then have "li_credential_id t = None"
        using eq a by (cases "li_credential_id t")
          (auto simp: lease_id_def lease_user_id_def LEASE_USER_PREFIX_def lease_admitted_def starts_with_iff)
      then have "li_slot s = li_slot t" using eq None lease_user_id_inj by (simp add: lease_id_def)
      then show ?thesis using d(2) m by (auto dest: inj_onD)
    next
      case (Some c)
      then obtain c' where t: "li_credential_id t = Some c'"
        using eq a by (cases "li_credential_id t")
          (auto simp: lease_id_def lease_user_id_def LEASE_USER_PREFIX_def lease_admitted_def starts_with_iff)
      have "metadata_count s = 4" "metadata_count t = 4"
        using acc Some t by (auto simp: slot_accepted_def metadata_count_iff)
      then show ?thesis using inj_onD [OF c, of s t] m eq Some t by (simp add: lease_id_def)
    qed
  qed
  then show ?thesis using d(1) by (simp add: distinct_map)
qed

lemma lease_users_written:
  assumes "lease_reconcile sha hex tok users input now = Inr (nxt, changed)"
    "\<forall>s\<in>set input. li_class s \<noteq> Some AuthCompatibility"
  shows "map (\<lambda>u. (u_id u, u_vless_uuid u, u_hysteria2_password u, u_expires_at u, u_enabled u)) (filter is_lease_user nxt)
      = map (\<lambda>s. (lease_id s, to_ascii_lowercase (li_vless_uuid s), li_hysteria2_password s, Some (li_expires_at s),
                   \<not> li_revoked s)) (sort_key li_slot input)"
    "filter (\<lambda>u. \<not> is_lease_user u) nxt = filter (\<lambda>u. \<not> is_lease_user u) users"
proof -
  note r = assms(1) [unfolded lease_reconcile_iff]
  have adm: "\<forall>s\<in>set (sort_key li_slot input). lease_admitted s"
    using r assms(2) lease_input_admitted by auto
  note w = lease.written_owned [OF adm, of sha hex tok now users]
  have nxt: "nxt = write_owned is_lease_user (\<lambda>_. True) lease_id
      (\<lambda>s. lease_fresh_user sha hex tok now (lease_id s)) lease_update users (sort_key li_slot input)"
    using r by blast
  show "filter (\<lambda>u. \<not> is_lease_user u) nxt = filter (\<lambda>u. \<not> is_lease_user u) users"
    unfolding nxt by (rule w(2))
  have "u_id (lease_update s (case find (\<lambda>u. u_id u = lease_id s \<and> True) users of
      Some u \<Rightarrow> u | None \<Rightarrow> lease_fresh_user sha hex tok now (lease_id s))) = lease_id s" for s
    using lease.chosen_id by (simp add: lease.upd_id)
  then show "map (\<lambda>u. (u_id u, u_vless_uuid u, u_hysteria2_password u, u_expires_at u, u_enabled u)) (filter is_lease_user nxt)
      = map (\<lambda>s. (lease_id s, to_ascii_lowercase (li_vless_uuid s), li_hysteria2_password s, Some (li_expires_at s),
                   \<not> li_revoked s)) (sort_key li_slot input)"
    unfolding nxt w(1) by (simp add: lease_update_def)
qed

section \<open>Properties\<close>

text \<open>The lease writer owns exactly the lease users.  When it accepts the agent's slots, every
  other user, an external one in particular, is carried over unchanged and in order, and the lease
  users become exactly the slots in order: identifier, pseudonym, secrets, end of the window, and
  enabled unless revoked.\<close>

theorem lease_writer_owns_lease_users:
  assumes "lease_reconcile sha hex tok users input now = Inr (nxt, changed)"
    "\<forall>s\<in>set input. li_class s \<noteq> Some AuthCompatibility"
  shows "filter (\<lambda>u. \<not> is_lease_user u) nxt = filter (\<lambda>u. \<not> is_lease_user u) users
    \<and> filter is_external nxt = filter is_external users
    \<and> map (\<lambda>u. (u_id u, u_vless_uuid u, u_hysteria2_password u, u_expires_at u, u_enabled u)) (filter is_lease_user nxt)
      = map (\<lambda>s. (case li_credential_id s of Some c \<Rightarrow> c | None \<Rightarrow> lease_user_id (li_slot s),
                   to_ascii_lowercase (li_vless_uuid s), li_hysteria2_password s, Some (li_expires_at s),
                   \<not> li_revoked s)) (sort_key li_slot input)
    \<and> changed = (nxt \<noteq> users)"
proof -
  note w = lease_users_written [OF assms]
  have "filter is_external us = filter is_external (filter (\<lambda>u. \<not> is_lease_user u) us)" for us
    using writers_disjoint by (auto intro: filter_cong)
  then have "filter is_external nxt = filter is_external users" using w(2) by metis
  then show ?thesis using w assms(1) by (simp add: lease_id_def lease_reconcile_iff)
qed

definition example_slot :: LeaseSlotInput where
  "example_slot =
     \<lparr>li_slot = 7, li_vless_uuid = ''0000000A-0000-4000-8000-000000000001'',
      li_hysteria2_password = ''test-password-0007'', li_expires_at = 1700001800,
      li_principal_id = Some ''native_principal'', li_credential_id = Some ''cred_00000001'',
      li_class = Some AuthNative, li_valid_from = Some 1700000000, li_revoked = False\<rparr>"

definition example_operator :: CompatUser where
  "example_operator = (lease_fresh_user (\<lambda>_. []) hex_encode id 0 ''alice'')
     \<lparr>u_vless_uuid := ''11111111-0000-4000-8000-000000000001''\<rparr>"

lemma example_slot_accepted: "slot_accepted example_slot"
proof -
  have "lease_valid_uuid ''0000000A-0000-4000-8000-000000000001''" by code_simp
  then show ?thesis
    by (simp add: slot_accepted_def example_slot_def MAX_SLOTS_def lease_valid_password_def metadata_count_def)
qed

lemma char_of_97: "char_of (97 :: nat) = CHR ''a''"
  by code_simp

lemma example_operator_not_lease: "\<not> is_lease_user example_operator"
  by (simp add: example_operator_def lease_fresh_user_def is_lease_user_def LEASE_USER_PREFIX_def starts_with_def)

lemma example_lease_accepts: "lease_accepts [example_operator] [example_slot]"
proof -
  have "valid_vless_uuid ''0000000A-0000-4000-8000-000000000001''" by code_simp
  then have "is_ok (validate_item (lease_authorization example_slot))"
    by (simp add: validate_item_def lease_authorization_def example_slot_def auth_validate_principal_id_def
        auth_validate_credential_id_def validate_id_def starts_with_def ascii_classes checked_sub_i64_def in_i64_def
        I64_MAX_def I64_MIN_def valid_hysteria2_password_def AUTH_NATIVE_LEASE_SECS_def)
  then have "validate_authorization_set [lease_authorization example_slot] = Inr ()"
    by (simp add: validate_authorization_set_def validate_items_iff is_ok_iff validate_set_def btree_set_def
        principal_credentials_def auth_events_def lease_authorization_def example_slot_def insort_key_def)
  moreover have "metadata_count example_slot = 4" by (simp add: example_slot_def metadata_count_def)
  moreover have "to_ascii_lowercase (u_vless_uuid example_operator) \<noteq> to_ascii_lowercase (li_vless_uuid example_slot)"
    by (simp add: example_operator_def example_slot_def to_ascii_lowercase_def ascii_lower_def is_ascii_uppercase_def)
  ultimately show ?thesis
    using example_slot_accepted by (simp add: lease_accepts_def MAX_SLOTS_def)
qed

theorem lease_writer_owns_lease_users_witness:
  "\<exists>nxt. lease_reconcile (\<lambda>_. []) hex_encode id [example_operator] [example_slot] 5 = Inr (nxt, True)
     \<and> filter (\<lambda>u. \<not> is_lease_user u) nxt = [example_operator]
     \<and> map u_vless_uuid (filter is_lease_user nxt) = [''0000000a-0000-4000-8000-000000000001'']"
proof -
  obtain nxt where r: "lease_reconcile (\<lambda>_. []) hex_encode id [example_operator] [example_slot] 5
      = Inr (nxt, nxt \<noteq> [example_operator])"
    using example_lease_accepts lease_reconcile_iff by blast
  have "\<forall>s\<in>set [example_slot]. li_class s \<noteq> Some AuthCompatibility" by (simp add: example_slot_def)
  note t = lease_writer_owns_lease_users [OF r this]
  have "map (\<lambda>u. (u_id u, u_vless_uuid u, u_hysteria2_password u, u_expires_at u, u_enabled u)) (filter is_lease_user nxt)
      = [(''cred_00000001'', ''0000000a-0000-4000-8000-000000000001'', ''test-password-0007'', Some 1700001800, True)]"
    using t by (simp add: example_slot_def to_ascii_lowercase_def ascii_lower_def is_ascii_uppercase_def char_of_97)
  then obtain u where u: "filter is_lease_user nxt = [u]" "u_vless_uuid u = ''0000000a-0000-4000-8000-000000000001''"
    by auto
  then have "nxt \<noteq> [example_operator]" using example_operator_not_lease by auto
  then show ?thesis using r t u example_operator_not_lease by auto
qed

text \<open>Handing the lease writer the same slots again changes nothing, whatever the time and the
  random tokens of the second run, as long as no user of another owner carries one of the slots'
  identifiers.\<close>

theorem lease_writer_idempotent:
  assumes "lease_reconcile sha hex tok users input now = Inr (nxt, changed)"
    "\<forall>s\<in>set input. li_class s \<noteq> Some AuthCompatibility"
    "\<forall>u\<in>set users. \<not> is_lease_user u \<longrightarrow> u_id u \<notin> lease_id ` set input"
  shows "lease_reconcile sha hex tok' nxt input now' = Inr (nxt, False)
    \<and> (distinct (map u_id users) \<longrightarrow> distinct (map u_id nxt))"
proof -
  note r = assms(1) [unfolded lease_reconcile_iff]
  define ds where "ds = sort_key li_slot input"
  have adm: "\<forall>s\<in>set ds. lease_admitted s"
    using r assms(2) lease_input_admitted by (auto simp: ds_def)
  have dist: "distinct (map lease_id ds)"
    using lease_ids_distinct [of users input] r assms(2) by (auto simp: ds_def distinct_map)
  have col: "\<forall>u\<in>set users. \<not> is_lease_user u \<longrightarrow> u_id u \<notin> lease_id ` set ds"
    using assms(3) by (simp add: ds_def)
  have nxt: "nxt = write_owned is_lease_user (\<lambda>_. True) lease_id
      (\<lambda>s. lease_fresh_user sha hex tok now (lease_id s)) lease_update users ds"
    using r by (simp add: ds_def)
  have keep: "filter (\<lambda>u. \<not> is_lease_user u) nxt = filter (\<lambda>u. \<not> is_lease_user u) users"
    unfolding nxt by (rule lease.written_owned(2) [OF adm])
  then have "{u \<in> set nxt. \<not> is_lease_user u} = {u \<in> set users. \<not> is_lease_user u}"
    by (metis set_filter)
  then have "lease_accepts nxt input" using r by (auto simp: lease_accepts_def)
  then have "lease_reconcile sha hex tok' nxt input now' = Inr (nxt, False)"
    unfolding lease_reconcile_iff
    using lease.written_again [OF adm dist col, of "\<lambda>s. lease_fresh_user sha hex tok' now' (lease_id s)" sha hex tok now]
    by (simp add: nxt ds_def)
  moreover have "distinct (map u_id nxt)" if "distinct (map u_id users)"
    unfolding nxt by (rule lease.written_distinct [OF that dist col])
  ultimately show ?thesis by blast
qed

theorem lease_writer_idempotent_witness:
  "\<exists>nxt. lease_reconcile (\<lambda>_. []) hex_encode id [example_operator] [example_slot] 5 = Inr (nxt, True)
     \<and> lease_reconcile (\<lambda>_. []) hex_encode (\<lambda>_. ''other'') nxt [example_slot] 99 = Inr (nxt, False)"
proof -
  obtain nxt where r: "lease_reconcile (\<lambda>_. []) hex_encode id [example_operator] [example_slot] 5
      = Inr (nxt, nxt \<noteq> [example_operator])"
    using example_lease_accepts lease_reconcile_iff by blast
  have "\<forall>s\<in>set [example_slot]. li_class s \<noteq> Some AuthCompatibility"
    "\<forall>u\<in>set [example_operator]. \<not> is_lease_user u \<longrightarrow> u_id u \<notin> lease_id ` set [example_slot]"
    by (simp_all add: example_slot_def example_operator_def lease_fresh_user_def lease_id_def)
  note t = lease_writer_idempotent [OF r this, of "\<lambda>_. ''other''" 99]
  have "nxt \<noteq> [example_operator]"
    using r example_operator_not_lease by (auto simp: lease_reconcile_iff write_owned_def)
  then show ?thesis using r t by auto
qed

text \<open>C25: Without that side condition the store breaks: the lease writer does not compare the
  slots' identifiers with the users of another owner, so from a store with unique identifiers it
  produces one with two users of the same identifier, the second of which inherits the first's
  subscription token.\<close>

theorem lease_writer_duplicates_ids:
  "\<exists>users input nxt. distinct (map u_id users)
     \<and> lease_reconcile sha hex tok users input now = Inr (nxt, True)
     \<and> \<not> distinct (map u_id nxt)
     \<and> (\<exists>u v. nxt = [u, v] \<and> is_external u \<and> is_lease_user v \<and> u_token_hash v = u_token_hash u)"
proof -
  define u where "u = example_operator\<lparr>u_id := ''cred_00000001'', u_name := ''ext_principal0''\<rparr>"
  have e: "is_external u" by (simp add: u_def is_external_def starts_with_def)
  then have nl: "\<not> is_lease_user u" by (rule writers_disjoint)
  have acc: "lease_accepts [u] [example_slot]"
    using example_lease_accepts example_operator_not_lease nl by (simp add: lease_accepts_def u_def)
  have uid: "u_id u = lease_id example_slot" by (simp add: u_def lease_id_def example_slot_def)
  define v where "v = lease_update example_slot u"
  have "write_owned is_lease_user (\<lambda>_. True) lease_id (\<lambda>s. lease_fresh_user sha hex tok now (lease_id s))
      lease_update [u] (sort_key li_slot [example_slot]) = [u, v]"
    using nl uid by (simp add: write_owned_def v_def)
  then have r: "lease_reconcile sha hex tok [u] [example_slot] now = Inr ([u, v], True)"
    unfolding lease_reconcile_iff using acc by simp
  have "is_lease_user v" "u_token_hash v = u_token_hash u" "u_id v = u_id u"
    by (simp_all add: v_def lease_update_def u_def is_lease_user_def example_slot_def starts_with_def)
  with r e show ?thesis by (intro exI [of _ "[u]"] exI [of _ "[example_slot]"] exI [of _ "[u, v]"]) auto
qed

lemma distinct_uuids_iff:
  "distinct_uuids seen auths = Inr r \<longleftrightarrow>
     distinct (map to_ascii_lowercase (List.map_filter a_vless_uuid auths))
     \<and> seen \<inter> to_ascii_lowercase ` set (List.map_filter a_vless_uuid auths) = {}
     \<and> r = seen \<union> to_ascii_lowercase ` set (List.map_filter a_vless_uuid auths)"
proof (induction seen auths rule: distinct_uuids.induct)
  case (1 seen)
  then show ?case by (auto simp: List.map_filter_simps)
next
  case (2 seen a auths)
  define L where "L = to_ascii_lowercase ` set (List.map_filter a_vless_uuid auths)"
  show ?case
  proof (cases "a_vless_uuid a")
    case None
    then show ?thesis using 2(1) by (simp add: List.map_filter_simps)
  next
    case (Some v)
    have set: "seen \<inter> insert (to_ascii_lowercase v) L = {} \<longleftrightarrow> to_ascii_lowercase v \<notin> seen \<and> seen \<inter> L = {}"
      "insert (to_ascii_lowercase v) seen \<inter> L = {} \<longleftrightarrow> to_ascii_lowercase v \<notin> L \<and> seen \<inter> L = {}"
      "seen \<union> insert (to_ascii_lowercase v) L = insert (to_ascii_lowercase v) seen \<union> L" by auto
    have mf: "List.map_filter a_vless_uuid (a # auths) = v # List.map_filter a_vless_uuid auths"
      using Some by (simp add: List.map_filter_simps)
    have dist: "distinct (map to_ascii_lowercase (v # List.map_filter a_vless_uuid auths)) \<longleftrightarrow>
        to_ascii_lowercase v \<notin> L \<and> distinct (map to_ascii_lowercase (List.map_filter a_vless_uuid auths))"
      and img: "to_ascii_lowercase ` set (v # List.map_filter a_vless_uuid auths) = insert (to_ascii_lowercase v) L"
      by (simp_all add: L_def)
    show ?thesis
    proof (cases "to_ascii_lowercase v \<in> seen")
      case True
      then show ?thesis unfolding mf img using Some by simp
    next
      case False
      have e: "distinct_uuids seen (a # auths) = distinct_uuids (insert (to_ascii_lowercase v) seen) auths"
        using Some False by simp
      show ?thesis unfolding e 2(2) [OF Some False, folded L_def] mf dist img set using False by blast
    qed
  qed
qed

definition external_accepts :: "CompatUser list \<Rightarrow> Authorization list \<Rightarrow> bool" where
  "external_accepts users auths \<longleftrightarrow>
     validate_authorization_set auths = Inr () \<and> (\<forall>a\<in>set auths. a_class a = AuthCompatibility)
     \<and> distinct (map to_ascii_lowercase (List.map_filter a_vless_uuid auths))
     \<and> (\<forall>u\<in>set users. \<not> is_external u \<longrightarrow>
          to_ascii_lowercase (u_vless_uuid u) \<notin> to_ascii_lowercase ` set (List.map_filter a_vless_uuid auths)
          \<and> u_id u \<notin> a_credential_id ` set auths)"

lemma external_reconcile_iff:
  "external_reconcile sha hex tok users auths now = Inr (nxt, changed) \<longleftrightarrow>
     external_accepts users auths
     \<and> nxt = write_owned is_external is_external a_credential_id (external_fresh_user sha hex tok now)
               external_update users (sort_key a_credential_id auths)
     \<and> changed = (nxt \<noteq> users)"
  by (auto simp: external_reconcile_def external_accepts_def Let_def write_owned_def list_ex_iff
      rbind_eq_Inr distinct_uuids_iff split: sum.splits)

lemma external_input_admitted:
  assumes "external_accepts users auths" "a \<in> set auths"
  shows "external_admitted a"
proof -
  have "is_ok (validate_item a)"
    using assms by (auto simp: external_accepts_def validate_authorization_set_def rbind_eq_Inr validate_items_iff)
  then show ?thesis
    using validate_item_prefixes [of a] assms by (auto simp: external_admitted_def external_accepts_def)
qed

text \<open>The external writer owns exactly the control plane's users: it keeps every other user,
  a lease user in particular, unchanged and in order; the external users become exactly the given
  authorizations, by credential; identifiers stay unique; and a second run changes nothing.\<close>

theorem external_writer_owns_external_users:
  assumes "external_reconcile sha hex tok users auths now = Inr (nxt, changed)"
  shows "filter (\<lambda>u. \<not> is_external u) nxt = filter (\<lambda>u. \<not> is_external u) users
    \<and> filter is_lease_user nxt = filter is_lease_user users
    \<and> map (\<lambda>u. (u_id u, u_name u, u_enabled u, u_created_at u, u_expires_at u)) (filter is_external nxt)
      = map (\<lambda>a. (a_credential_id a, a_principal_id a, \<not> a_revoked a, a_valid_from a, Some (a_valid_until a)))
          (sort_key a_credential_id auths)
    \<and> (distinct (map u_id users) \<longrightarrow> distinct (map u_id nxt))
    \<and> external_reconcile sha hex tok' nxt auths now' = Inr (nxt, False)"
proof -
  note r = assms(1) [unfolded external_reconcile_iff]
  define ds where "ds = sort_key a_credential_id auths"
  have adm: "\<forall>a\<in>set ds. external_admitted a" using r external_input_admitted by (auto simp: ds_def)
  have nxt: "nxt = write_owned is_external is_external a_credential_id (external_fresh_user sha hex tok now)
      external_update users ds"
    using r by (simp add: ds_def)
  have "distinct (map a_credential_id auths)"
    using r by (auto simp: external_accepts_def validate_authorization_set_def rbind_eq_Inr validate_items_iff)
  then have dist: "distinct (map a_credential_id ds)" by (auto simp: ds_def distinct_map)
  have col: "\<forall>u\<in>set users. \<not> is_external u \<longrightarrow> u_id u \<notin> a_credential_id ` set ds"
    using r by (auto simp: ds_def external_accepts_def)
  note w = external.written_owned [OF adm, of sha hex tok now users]
  have keep: "filter (\<lambda>u. \<not> is_external u) nxt = filter (\<lambda>u. \<not> is_external u) users"
    unfolding nxt by (rule w(2))
  have "filter is_lease_user us = filter is_lease_user (filter (\<lambda>u. \<not> is_external u) us)" for us
    using writers_disjoint by (auto intro: filter_cong)
  then have "filter is_lease_user nxt = filter is_lease_user users" using keep by metis
  moreover have "map (\<lambda>u. (u_id u, u_name u, u_enabled u, u_created_at u, u_expires_at u)) (filter is_external nxt)
      = map (\<lambda>a. (a_credential_id a, a_principal_id a, \<not> a_revoked a, a_valid_from a, Some (a_valid_until a))) ds"
    unfolding nxt w(1) using external.chosen_id by (simp add: external.upd_id) (simp add: external_update_def)
  moreover have "distinct (map u_id nxt)" if "distinct (map u_id users)"
    unfolding nxt by (rule external.written_distinct [OF that dist col])
  moreover have "{u \<in> set nxt. \<not> is_external u} = {u \<in> set users. \<not> is_external u}"
    using keep by (metis set_filter)
  then have "external_accepts nxt auths" using r by (auto simp: external_accepts_def)
  then have "external_reconcile sha hex tok' nxt auths now' = Inr (nxt, False)"
    unfolding external_reconcile_iff
    using external.written_again [OF adm dist col, of "external_fresh_user sha hex tok' now'" sha hex tok now]
    by (simp add: nxt ds_def)
  ultimately show ?thesis using keep by (simp add: ds_def)
qed

theorem external_writer_owns_external_users_witness:
  "\<exists>nxt changed. external_reconcile (\<lambda>_. []) hex_encode id [example_operator] [example_authorization ''1'' 0 1000] 5
       = Inr (nxt, changed)
     \<and> filter (\<lambda>u. \<not> is_external u) nxt = [example_operator] \<and> map u_id (filter is_external nxt) = [''cred_beta-001'']"
proof -
  let ?a = "example_authorization ''1'' 0 1000"
  have "is_ok (validate_item ?a)" by (rule example_authorization_ok) simp_all
  then have "validate_authorization_set [?a] = Inr ()" by (intro validate_authorization_setI) auto
  moreover have ne: "\<not> is_external example_operator" "u_id example_operator \<noteq> ''cred_beta-001''"
    by (simp_all add: example_operator_def is_external_def lease_fresh_user_def starts_with_def)
  ultimately have "external_accepts [example_operator] [?a]"
    by (simp add: external_accepts_def example_authorization_def List.map_filter_simps)
  then obtain nxt where r: "external_reconcile (\<lambda>_. []) hex_encode id [example_operator] [?a] 5 =
      Inr (nxt, nxt \<noteq> [example_operator])"
    using external_reconcile_iff by blast
  note t = external_writer_owns_external_users [OF r]
  have "map (\<lambda>u. (u_id u, u_name u, u_enabled u, u_created_at u, u_expires_at u)) (filter is_external nxt)
      = [(''cred_beta-001'', ''ext_alpha-000'', True, 0, Some 1000)]"
    using t by (simp add: example_authorization_def)
  then have "map u_id (filter is_external nxt) = [''cred_beta-001'']" by auto
  then show ?thesis using r t ne by auto
qed

section \<open>The agent's document\<close>

text \<open>How the input document is read: the fields of \<open>LeaseSlotInput\<close> with their attributes, unknown
  fields refused, optional ones absent or null.\<close>

fun as_class :: "json \<Rightarrow> AuthClass option" where
  "as_class (JStr s) = (if s = ''native'' then Some AuthNative
     else if s = ''compatibility'' then Some AuthCompatibility else None)"
| "as_class (JObj [(s, JNull)]) = as_class (JStr s)"
| "as_class _ = None"

definition lease_slot_of_json :: "json \<Rightarrow> LeaseSlotInput option" where
  "lease_slot_of_json v =
     Option.bind (struct_fields [''slot'', ''vless_uuid'', ''hysteria2_password'', ''expires_at'', ''principal_id'',
           ''credential_id'', ''class'', ''valid_from'', ''revoked''] v) (\<lambda>j.
      Option.bind (Option.bind (jget ''slot'' j) as_u32) (\<lambda>slot.
      Option.bind (get_str ''vless_uuid'' j) (\<lambda>uuid.
      Option.bind (get_str ''hysteria2_password'' j) (\<lambda>pw.
      Option.bind (get_i64 ''expires_at'' j) (\<lambda>ex.
      Option.bind (opt_field as_str ''principal_id'' j) (\<lambda>pid.
      Option.bind (opt_field as_str ''credential_id'' j) (\<lambda>cid.
      Option.bind (opt_field as_class ''class'' j) (\<lambda>cls.
      Option.bind (opt_field as_i64 ''valid_from'' j) (\<lambda>vf.
      Option.bind (default_bool ''revoked'' j) (\<lambda>rev.
        Some \<lparr>li_slot = slot, li_vless_uuid = uuid, li_hysteria2_password = pw, li_expires_at = ex,
              li_principal_id = pid, li_credential_id = cid, li_class = cls, li_valid_from = vf,
              li_revoked = rev\<rparr>))))))))))"

definition lease_pool_of_json :: "json \<Rightarrow> LeasePoolInput option" where
  "lease_pool_of_json v =
     Option.bind (struct_fields [''slots''] v) (\<lambda>j.
      Option.bind (get_array ''slots'' j) (\<lambda>items.
        those (map lease_slot_of_json items)))"

definition slot_input :: "Slot \<Rightarrow> LeaseSlotInput" where
  "slot_input s =
     \<lparr>li_slot = s_slot s, li_vless_uuid = s_vless_uuid s, li_hysteria2_password = s_hysteria2_password s,
      li_expires_at = s_valid_until s, li_principal_id = Some (s_principal_id s),
      li_credential_id = Some (s_credential_id s), li_class = Some (s_class s),
      li_valid_from = Some (s_valid_from s), li_revoked = s_revoked s\<rparr>"

lemma lease_slot_read_back:
  assumes "s_slot s < 2 ^ 32" "in_i64 (s_valid_until s)" "in_i64 (s_valid_from s)"
  shows "lease_slot_of_json (vpn_admin_slot s) = Some (slot_input s)"
proof -
  have "struct_fields [''slot'', ''vless_uuid'', ''hysteria2_password'', ''expires_at'', ''principal_id'',
           ''credential_id'', ''class'', ''valid_from'', ''revoked''] (vpn_admin_slot s) = Some (vpn_admin_slot s)"
    unfolding vpn_admin_slot_def by (rule struct_fields_jobj) simp
  then show ?thesis
    using assms unfolding lease_slot_of_json_def
    by (cases "s_class s") (simp_all add: vpn_admin_slot_def get_readers_jobj jget_jobj as_u32_def opt_field_def
        default_bool_def slot_input_def)
qed

lemma lease_pool_read_back:
  assumes "\<And>s. s \<in> set (ls_slots st) \<Longrightarrow> s_slot s < 2 ^ 32 \<and> in_i64 (s_valid_until s) \<and> in_i64 (s_valid_from s)"
  shows "lease_pool_of_json (vpn_admin_input st) = Some (map slot_input (ls_slots st))"
proof -
  have "those (map lease_slot_of_json (map vpn_admin_slot (ls_slots st))) = Some (map slot_input (ls_slots st))"
    unfolding map_map comp_def by (rule those_map_Some) (use assms lease_slot_read_back in blast)
  then show ?thesis
    by (simp add: lease_pool_of_json_def vpn_admin_input_def struct_fields_jobj get_readers_jobj)
qed

lemma slot_input_simps [simp]:
  "li_slot (slot_input s) = s_slot s" "li_vless_uuid (slot_input s) = s_vless_uuid s"
  "li_hysteria2_password (slot_input s) = s_hysteria2_password s" "li_expires_at (slot_input s) = s_valid_until s"
  "li_credential_id (slot_input s) = Some (s_credential_id s)" "li_class (slot_input s) = Some (s_class s)"
  "li_revoked (slot_input s) = s_revoked s" "metadata_count (slot_input s) = 4"
  by (simp_all add: slot_input_def metadata_count_def)

lemma slot_input_authorization: "lease_authorization (slot_input s) = slot_authorization s"
  by (simp add: lease_authorization_def slot_input_def slot_authorization_def)

lemma lease_shapes: "lease_valid_uuid s = valid_vless_uuid s" "lease_valid_password s = valid_hysteria2_password s"
  by (auto simp: lease_valid_uuid_def valid_vless_uuid_def lease_valid_password_def valid_hysteria2_password_def
      enumerate_eq_zip)

text \<open>Timestamps of an epoch the arithmetic is exact on.\<close>

definition epoch :: "int \<Rightarrow> bool" where
  "epoch t \<longleftrightarrow> 0 < t \<and> t \<le> 4611686018427387903"

lemma filter_key_le_one: "distinct (map f xs) \<Longrightarrow> length (filter (\<lambda>x. f x = k) xs) \<le> 1"
  by (induction xs) (auto simp: filter_empty_conv rev_image_eqI)

lemma filter_imp_length: "(\<And>x. P x \<Longrightarrow> Q x) \<Longrightarrow> length (filter P xs) \<le> length (filter Q xs)"
  by (induction xs) auto

lemma pool_authorizations_valid:
  assumes "pool_inv st" "distinct (map s_credential_id (ls_slots st))" "distinct (map s_principal_id (ls_slots st))"
    "\<And>s. s \<in> set (ls_slots st) \<Longrightarrow> epoch (s_valid_from s) \<and> epoch (s_valid_until s)"
  shows "validate_authorization_set (map slot_authorization (ls_slots st)) = Inr ()"
proof (rule validate_authorization_setI)
  let ?as = "map slot_authorization (ls_slots st)"
  have inv: "slot_inv s" if "s \<in> set (ls_slots st)" for s using assms(1) that by (simp add: pool_inv_def)
  show "\<forall>a\<in>set ?as. is_ok (validate_item a)" using inv slot_inv_validates by auto
  show "distinct (map a_credential_id ?as)" using assms(2) by (simp add: comp_def slot_authorization_def)
  have "is_ok (auth_overlap_check (slot_authorization s) (slot_authorization t))"
    if "s \<in> set (ls_slots st)" "t \<in> set (ls_slots st)" for s t
  proof -
    have "s_valid_until s - s_valid_from s \<le> 1800" using inv [OF that(1)] by (simp add: slot_inv_alt)
    then show ?thesis
      using assms(4) [OF that(1)] assms(4) [OF that(2)]
      by (subst auth_overlap_check_iff) (auto simp: slot_authorization_def epoch_def)
  qed
  then show "sorted_wrt (\<lambda>a b. is_ok (auth_overlap_check a b)) ?as"
    by (auto simp: sorted_wrt_iff_nth_less)
  fix p t
  have "distinct (map a_principal_id ?as)" using assms(3) by (simp add: comp_def slot_authorization_def)
  then have "length (filter (\<lambda>a. a_principal_id a = p) ?as) \<le> 1" by (rule filter_key_le_one)
  moreover have "length (filter (\<lambda>a. a_principal_id a = p \<and> is_active_at a t) ?as)
      \<le> length (filter (\<lambda>a. a_principal_id a = p) ?as)"
    by (rule filter_imp_length) simp
  ultimately show "length (filter (\<lambda>a. a_principal_id a = p \<and> is_active_at a t) ?as) \<le> 2" by simp
qed

text \<open>C20: The agent and \<open>vpn-admin\<close> fit together.  The document the agent writes for a well-formed
  pool with distinct identities and secrets is read back field by field, passes every check of the
  lease writer, and makes the lease users of the store exactly the pool's slots.\<close>

theorem agent_pool_accepted:
  assumes "pool_inv st" "length (ls_slots st) \<le> 1024"
    "distinct (map s_credential_id (ls_slots st))" "distinct (map s_principal_id (ls_slots st))"
    "distinct (map (\<lambda>s. to_ascii_lowercase (s_vless_uuid s)) (ls_slots st))"
    "\<forall>s\<in>set (ls_slots st). epoch (s_valid_from s) \<and> epoch (s_valid_until s)"
    "\<forall>u\<in>set users. \<not> is_lease_user u \<longrightarrow>
       to_ascii_lowercase (u_vless_uuid u) \<notin> (\<lambda>s. to_ascii_lowercase (s_vless_uuid s)) ` set (ls_slots st)"
  shows "\<exists>input nxt changed. lease_pool_of_json (vpn_admin_input st) = Some input
    \<and> lease_reconcile sha hex tok users input now = Inr (nxt, changed)
    \<and> map (\<lambda>u. (u_id u, u_vless_uuid u, u_hysteria2_password u, u_expires_at u, u_enabled u)) (filter is_lease_user nxt)
      = map (\<lambda>s. (s_credential_id s, to_ascii_lowercase (s_vless_uuid s), s_hysteria2_password s,
                   Some (s_valid_until s), \<not> s_revoked s)) (ls_slots st)"
proof -
  let ?in = "map slot_input (ls_slots st)"
  have slots: "map s_slot (ls_slots st) = [0..<length (ls_slots st)]" using assms(1) by (simp add: pool_inv_def)
  have lt: "s_slot s < 1024" if "s \<in> set (ls_slots st)" for s
  proof -
    have "s_slot s \<in> set [0..<length (ls_slots st)]" unfolding slots [symmetric] using that by simp
    then show ?thesis using assms(2) by simp
  qed
  have read: "lease_pool_of_json (vpn_admin_input st) = Some ?in"
    using lt assms(6)
    by (intro lease_pool_read_back) (fastforce simp: epoch_def in_i64_def I64_MAX_def I64_MIN_def)
  have inv: "slot_inv s" if "s \<in> set (ls_slots st)" for s using assms(1) that by (simp add: pool_inv_def)
  have acc: "slot_accepted (slot_input s)" if "s \<in> set (ls_slots st)" for s
    using inv [OF that] lt [OF that] assms(6) that
    by (auto simp: slot_accepted_def MAX_SLOTS_def lease_shapes slot_inv_alt epoch_def)
  have "validate_authorization_set (map slot_authorization (ls_slots st)) = Inr ()"
    using assms(1,3,4,6) by (intro pool_authorizations_valid) auto
  then have "lease_accepts users ?in"
    using assms acc slots
    by (simp add: lease_accepts_def MAX_SLOTS_def comp_def slot_input_authorization image_image)
  then obtain nxt where r: "lease_reconcile sha hex tok users ?in now = Inr (nxt, nxt \<noteq> users)"
    using lease_reconcile_iff by blast
  have cls: "\<forall>s\<in>set ?in. li_class s \<noteq> Some AuthCompatibility" using inv by (auto simp: slot_inv_alt)
  have "sort_key li_slot ?in = ?in"
    using slots by (intro sort_key_id_if_sorted) (simp add: comp_def)
  then have "map (\<lambda>u. (u_id u, u_vless_uuid u, u_hysteria2_password u, u_expires_at u, u_enabled u)) (filter is_lease_user nxt)
      = map (\<lambda>s. (s_credential_id s, to_ascii_lowercase (s_vless_uuid s), s_hysteria2_password s,
                   Some (s_valid_until s), \<not> s_revoked s)) (ls_slots st)"
    using lease_users_written [OF r cls] by (simp add: comp_def lease_id_def)
  with read r show ?thesis by blast
qed

theorem agent_pool_accepted_witness:
  "\<exists>input nxt changed. lease_pool_of_json (vpn_admin_input (lp_state example_pool)) = Some input
    \<and> lease_reconcile (\<lambda>_. []) hex_encode id [] input 1699990000 = Inr (nxt, changed)
    \<and> map u_expires_at (filter is_lease_user nxt) = [Some 1699991400]"
proof -
  let ?st = "lp_state example_pool"
  have e: "\<forall>s\<in>set (ls_slots ?st). epoch (s_valid_from s) \<and> epoch (s_valid_until s)"
    by (simp add: example_pool_def epoch_def round_down_to_grid_def)
  have v: "map s_valid_until (ls_slots ?st) = [1699991400]"
    by (simp add: example_pool_def round_down_to_grid_def)
  have l: "length (ls_slots ?st) = 1" by (simp add: example_pool_def)
  then have d: "distinct (map f (ls_slots ?st))" for f :: "Slot \<Rightarrow> string"
    by (metis distinct_singleton length_0_conv length_Suc_conv list.simps(8,9) One_nat_def)
  obtain input nxt changed where r: "lease_pool_of_json (vpn_admin_input ?st) = Some input"
      "lease_reconcile (\<lambda>_. []) hex_encode id [] input 1699990000 = Inr (nxt, changed)"
      "map (\<lambda>u. (u_id u, u_vless_uuid u, u_hysteria2_password u, u_expires_at u, u_enabled u)) (filter is_lease_user nxt)
        = map (\<lambda>s. (s_credential_id s, to_ascii_lowercase (s_vless_uuid s), s_hysteria2_password s,
                   Some (s_valid_until s), \<not> s_revoked s)) (ls_slots ?st)"
    using agent_pool_accepted [OF example_pool_inv _ d d d e, of "[]" "\<lambda>_. []" hex_encode id 1699990000] l by auto
  have "map u_expires_at (filter is_lease_user nxt) = map (\<lambda>s. Some (s_valid_until s)) (ls_slots ?st)"
    using arg_cong [OF r(3), of "map (\<lambda>(a, b, c, d, e). d)"] by (simp add: comp_def)
  also have "\<dots> = map Some (map s_valid_until (ls_slots ?st))" by simp
  finally show ?thesis using r(1,2) v by auto
qed

end
