(* ===== verification/Pacing.thy ===== *)
theory Pacing
  imports RustStd
begin

text \<open>
  Control-plane pacing of the provisioning agent: \<open>pacing.rs\<close> (backoff with jitter, the
  \<open>Retry-After\<close> header, the shared circuit breaker), the calls of \<open>worker_client.rs\<close> that
  consult and feed the breaker, and \<open>events.rs\<close> (wake-up flags, the schedule of the main loop,
  the long-poll loop).

  Durations and instants are natural numbers of nanoseconds.  A random value in \<open>[0, 1)\<close> is the
  numerator of the fraction over \<open>2 ^ 53\<close> that \<open>random_unit\<close> computes; products with it are
  rounded down, the idealised value of the floating-point product.  Parameters: the outcome of each
  HTTP request and the parser of HTTP dates.
\<close>

section \<open>Durations and the Retry-After header\<close>

type_synonym duration = nat
type_synonym instant = nat

definition secs :: "nat \<Rightarrow> duration" where "secs n = n * 1000000000"
definition millis :: "nat \<Rightarrow> duration" where "millis n = n * 1000000"
definition DURATION_MAX :: duration where "DURATION_MAX = 18446744073709551616 * 1000000000 - 1"
definition UNIT :: nat where "UNIT = 2 ^ 53"

definition checked_mul :: "duration \<Rightarrow> nat \<Rightarrow> duration option" where
  "checked_mul d n = (if d * n \<le> DURATION_MAX then Some (d * n) else None)"

definition MAX_RETRY_AFTER :: duration where "MAX_RETRY_AFTER = secs 3600"

text \<open>The header as text (\<open>None\<close> when it is absent or not text, trimmed by the caller of the HTTP
  library); \<open>date\<close> reads an HTTP date as nanoseconds relative to now.\<close>

definition parse_retry_after :: "(string \<Rightarrow> int option) \<Rightarrow> string option \<Rightarrow> duration option" where
  "parse_retry_after date header =
     (case header of
        None \<Rightarrow> None
      | Some raw \<Rightarrow>
          (case parse_u64 raw of
             Some seconds \<Rightarrow> Some (min (secs seconds) MAX_RETRY_AFTER)
           | None \<Rightarrow>
               (case date raw of
                  None \<Rightarrow> None
                | Some delta \<Rightarrow>
                    if delta < 0 then None
                    else
                      let whole = nat (delta div 1000000000) + (if delta mod 1000000000 > 0 then 1 else 0)
                      in Some (min (secs whole) MAX_RETRY_AFTER))))"

section \<open>Backoff\<close>

record Backoff =
  b_base :: duration
  b_cap :: duration
  b_failures :: nat

definition U32_MAX :: nat where "U32_MAX = 4294967295"

definition backoff_new :: "duration \<Rightarrow> duration \<Rightarrow> Backoff" where
  "backoff_new base cap = \<lparr>b_base = base, b_cap = cap, b_failures = 0\<rparr>"

definition backoff_reset :: "Backoff \<Rightarrow> Backoff" where
  "backoff_reset b = b\<lparr>b_failures := 0\<rparr>"

definition next_delay :: "Backoff \<Rightarrow> nat \<Rightarrow> duration \<times> Backoff" where
  "next_delay b jitter =
     (let exponent = min (b_failures b) 20;
          step = min (case checked_mul (b_base b) (2 ^ exponent) of None \<Rightarrow> b_cap b | Some d \<Rightarrow> d) (b_cap b);
          jitter = min jitter UNIT
      in (step div 2 + step * jitter div (2 * UNIT),
          b\<lparr>b_failures := min (b_failures b + 1) U32_MAX\<rparr>))"

section \<open>The circuit breaker\<close>

datatype ApiError = Gated duration | Status string nat "duration option"

record GateState =
  gs_backoff :: Backoff
  gs_blocked_until :: "instant option"
  gs_server_minimum_until :: "instant option"
  gs_consecutive_failures :: nat

definition gate_new :: "duration \<Rightarrow> duration \<Rightarrow> GateState" where
  "gate_new base cap =
     \<lparr>gs_backoff = backoff_new base cap, gs_blocked_until = None, gs_server_minimum_until = None,
      gs_consecutive_failures = 0\<rparr>"

definition check_at :: "GateState \<Rightarrow> instant \<Rightarrow> ApiError + unit" where
  "check_at g now =
     (case gs_blocked_until g of
        Some until \<Rightarrow> if until > now then Inl (Gated (until - now)) else Inr ()
      | None \<Rightarrow> Inr ())"

definition record_success :: "instant \<Rightarrow> GateState \<Rightarrow> GateState" where
  "record_success now g =
     g\<lparr>gs_backoff := backoff_reset (gs_backoff g),
       gs_consecutive_failures := 0,
       gs_blocked_until :=
         (case gs_server_minimum_until g of Some until \<Rightarrow> if until > now then Some until else None | None \<Rightarrow> None)\<rparr>"

definition record_failure_at :: "instant \<Rightarrow> duration option \<Rightarrow> nat \<Rightarrow> GateState \<Rightarrow> GateState" where
  "record_failure_at now retry_after jitter g =
     (let (own, backoff) = next_delay (gs_backoff g) jitter;
          delay = (case retry_after of None \<Rightarrow> own | Some server \<Rightarrow> max server own);
          until = now + delay
      in g\<lparr>gs_backoff := backoff,
           gs_server_minimum_until :=
             (case retry_after of
                None \<Rightarrow> gs_server_minimum_until g
              | Some server \<Rightarrow>
                  Some (case gs_server_minimum_until g of None \<Rightarrow> now + server | Some current \<Rightarrow> max current (now + server))),
           gs_blocked_until :=
             Some (case gs_blocked_until g of None \<Rightarrow> until | Some current \<Rightarrow> max current until),
           gs_consecutive_failures := min (gs_consecutive_failures g + 1) U32_MAX\<rparr>)"

section \<open>Calls to the control plane\<close>

text \<open>What sending a request gives: no answer, or a status with its \<open>Retry-After\<close> header and
  body.  A call is made at one instant and answered at another.\<close>

datatype 'b http = NoAnswer | Answer nat "string option" 'b

definition is_success :: "nat \<Rightarrow> bool" where "is_success status \<longleftrightarrow> 200 \<le> status \<and> status < 300"
definition is_server_error :: "nat \<Rightarrow> bool" where "is_server_error status \<longleftrightarrow> 500 \<le> status \<and> status < 600"

datatype CallError = Api ApiError | RequestFailed string | BadBody

text \<open>A polling call: the gate afterwards, whether a request left the node, and the result.\<close>

definition polling ::
    "(string \<Rightarrow> int option) \<Rightarrow> string \<Rightarrow> instant \<Rightarrow> instant \<Rightarrow> nat \<Rightarrow> 'b http \<Rightarrow> GateState
       \<Rightarrow> GateState \<times> bool \<times> (CallError + nat \<times> 'b)" where
  "polling date what asked answered jitter http g =
     (case check_at g asked of
        Inl e \<Rightarrow> (g, False, Inl (Api e))
      | Inr _ \<Rightarrow>
          (case http of
             NoAnswer \<Rightarrow> (record_failure_at answered None jitter g, True, Inl (RequestFailed what))
           | Answer status header body \<Rightarrow>
               if is_success status \<or> status = 304
               then (record_success answered g, True, Inr (status, body))
               else
                 let retry_after = parse_retry_after date header in
                 (record_failure_at answered retry_after jitter g, True, Inl (Api (Status what status retry_after)))))"

definition observe :: "(string \<Rightarrow> int option) \<Rightarrow> instant \<Rightarrow> nat \<Rightarrow> nat \<Rightarrow> string option \<Rightarrow> GateState \<Rightarrow> GateState" where
  "observe date now jitter status header g =
     (if is_success status then record_success now g
      else if status = 429 \<or> is_server_error status
        then record_failure_at now (parse_retry_after date header) jitter g
      else g)"

datatype ReportDisposition = Accepted | Terminal

text \<open>\<open>complete\<close> and \<open>fail\<close> treat the answer alike; they are never gated.\<close>

definition report_call ::
    "(string \<Rightarrow> int option) \<Rightarrow> string \<Rightarrow> instant \<Rightarrow> nat \<Rightarrow> 'b http \<Rightarrow> GateState
       \<Rightarrow> GateState \<times> (CallError + ReportDisposition)" where
  "report_call date what answered jitter http g =
     (case http of
        NoAnswer \<Rightarrow> (g, Inl (RequestFailed what))
      | Answer status header _ \<Rightarrow>
          (observe date answered jitter status header g,
           if is_success status then Inr Accepted
           else if status \<in> {401, 403, 404, 409, 410} then Inr Terminal
           else Inl (RequestFailed what)))"

datatype EventsOutcome =
    Event (ev_reason: string) (ev_changed: "string list") (ev_cursor: string)
  | Unavailable
  | Superseded "duration option"

text \<open>The body of an events answer is \<open>None\<close> when it does not parse.\<close>

definition wait_events ::
    "(string \<Rightarrow> int option) \<Rightarrow> instant \<Rightarrow> instant \<Rightarrow> nat \<Rightarrow> (string \<times> string list \<times> string) option http \<Rightarrow> GateState
       \<Rightarrow> GateState \<times> bool \<times> (CallError + EventsOutcome)" where
  "wait_events date asked answered jitter http g =
     (case check_at g asked of
        Inl e \<Rightarrow> (g, False, Inl (Api e))
      | Inr _ \<Rightarrow>
          (case http of
             NoAnswer \<Rightarrow> (record_failure_at answered None jitter g, True, Inl (RequestFailed ''GET /api/agent/events''))
           | Answer status header body \<Rightarrow>
               if is_success status then
                 (case body of
                    None \<Rightarrow> (g, True, Inl BadBody)
                  | Some (reason, changed, cursor) \<Rightarrow>
                      if reason = [] then (g, True, Inl BadBody)
                      else (record_success answered g, True, Inr (Event reason changed cursor)))
               else if status \<in> {501, 404, 405} then (g, True, Inr Unavailable)
               else if status = 409 then (g, True, Inr (Superseded (parse_retry_after date header)))
               else
                 let retry_after = parse_retry_after date header in
                 (record_failure_at answered retry_after jitter g, True,
                  Inl (Api (Status ''GET /api/agent/events'' status retry_after)))))"

section \<open>Wake-ups and the schedule of the main loop\<close>

record Wakeups =
  w_jobs :: bool
  w_authorizations :: bool
  w_leases :: bool
  w_healthy :: bool
  w_notified :: bool

definition wakeups_new :: Wakeups where
  "wakeups_new = \<lparr>w_jobs = False, w_authorizations = False, w_leases = False, w_healthy = False, w_notified = False\<rparr>"

definition mark_channel :: "string \<Rightarrow> Wakeups \<Rightarrow> Wakeups" where
  "mark_channel channel w =
     (if channel = ''jobs'' then w\<lparr>w_jobs := True\<rparr>
      else if channel = ''authorizations'' then w\<lparr>w_authorizations := True\<rparr>
      else if channel = ''leases'' then w\<lparr>w_leases := True\<rparr>
      else w)"

definition mark :: "string list \<Rightarrow> Wakeups \<Rightarrow> Wakeups" where
  "mark channels w = (fold mark_channel channels w)\<lparr>w_notified := True\<rparr>"

definition set_healthy :: "bool \<Rightarrow> Wakeups \<Rightarrow> Wakeups" where
  "set_healthy healthy w =
     (let w' = w\<lparr>w_healthy := healthy\<rparr> in
      if w_healthy w \<and> \<not> healthy then w'\<lparr>w_notified := True\<rparr> else w')"

record Due =
  due_claim :: bool
  due_authorizations :: bool
  due_leases :: bool

record Schedule =
  sc_reconcile :: duration
  sc_next_claim :: instant
  sc_next_authorizations :: instant
  sc_next_leases :: instant

definition schedule_new :: "duration \<Rightarrow> instant \<Rightarrow> Schedule" where
  "schedule_new reconcile now =
     \<lparr>sc_reconcile = reconcile, sc_next_claim = now, sc_next_authorizations = now, sc_next_leases = now\<rparr>"

definition due :: "instant \<Rightarrow> Wakeups \<Rightarrow> Schedule \<Rightarrow> Due \<times> Wakeups \<times> Schedule" where
  "due now w sc =
     (let w' = w\<lparr>w_jobs := False, w_authorizations := False, w_leases := False\<rparr>;
          primary = w_healthy w;
          claim = (\<not> primary \<or> w_jobs w \<or> now \<ge> sc_next_claim sc);
          authorizations = (\<not> primary \<or> w_authorizations w \<or> now \<ge> sc_next_authorizations sc);
          leases = (\<not> primary \<or> w_leases w \<or> now \<ge> sc_next_leases sc)
      in (\<lparr>due_claim = claim, due_authorizations = authorizations, due_leases = leases\<rparr>, w',
          sc\<lparr>sc_next_claim := (if claim then now + sc_reconcile sc else sc_next_claim sc),
             sc_next_authorizations := (if authorizations then now + sc_reconcile sc else sc_next_authorizations sc),
             sc_next_leases := (if leases then now + sc_reconcile sc else sc_next_leases sc)\<rparr>))"

definition claim_again_now :: "instant \<Rightarrow> Schedule \<Rightarrow> Schedule" where
  "claim_again_now now sc = sc\<lparr>sc_next_claim := now\<rparr>"

definition retry_claim :: "instant \<Rightarrow> Schedule \<Rightarrow> Schedule" where
  "retry_claim now sc = sc\<lparr>sc_next_claim := now\<rparr>"

definition retry_authorizations :: "instant \<Rightarrow> Schedule \<Rightarrow> Schedule" where
  "retry_authorizations now sc = sc\<lparr>sc_next_authorizations := now\<rparr>"

definition retry_leases :: "instant \<Rightarrow> Schedule \<Rightarrow> Schedule" where
  "retry_leases now sc = sc\<lparr>sc_next_leases := now\<rparr>"

section \<open>The long-poll loop\<close>

record Timing =
  t_wait_secs :: nat
  t_unavailable_sleep :: duration
  t_superseded_floor :: duration
  t_error_base :: duration
  t_error_cap :: duration
  t_min_event_interval :: duration

definition timing_production :: "nat \<Rightarrow> Timing" where
  "timing_production wait_secs =
     \<lparr>t_wait_secs = wait_secs, t_unavailable_sleep = secs 600, t_superseded_floor = secs 5,
      t_error_base = secs 2, t_error_cap = secs 60, t_min_event_interval = secs 1\<rparr>"

definition jittered :: "duration \<Rightarrow> nat \<Rightarrow> duration" where
  "jittered base unit = base * (3 * UNIT + 2 * unit) div (4 * UNIT)"

definition superseded_delay :: "duration option \<Rightarrow> duration \<Rightarrow> nat \<Rightarrow> duration" where
  "superseded_delay retry_after floor unit =
     (let minimum = max (case retry_after of None \<Rightarrow> 0 | Some d \<Rightarrow> d) floor in
      minimum + minimum * min unit UNIT div (4 * UNIT))"

record LoopState =
  l_cursor :: "string option"
  l_backoff :: Backoff
  l_wake :: Wakeups

text \<open>One iteration after the request, which took \<open>elapsed\<close>: the next state and how long the loop
  sleeps before it asks again.\<close>

definition loop_step :: "Timing \<Rightarrow> duration \<Rightarrow> nat \<Rightarrow> (CallError + EventsOutcome) \<Rightarrow> LoopState \<Rightarrow> LoopState \<times> duration" where
  "loop_step timing elapsed unit outcome st =
     (case outcome of
        Inr (Event reason changed next) \<Rightarrow>
          (st\<lparr>l_backoff := backoff_reset (l_backoff st),
              l_cursor := (if next \<noteq> [] then Some next else l_cursor st),
              l_wake := (let w = set_healthy True (l_wake st) in
                         if reason \<noteq> ''timeout'' \<and> changed \<noteq> [] then mark changed w else w)\<rparr>,
           if elapsed < t_min_event_interval timing then t_min_event_interval timing - elapsed else 0)
      | Inr Unavailable \<Rightarrow>
          (st\<lparr>l_wake := set_healthy False (l_wake st), l_cursor := None\<rparr>, jittered (t_unavailable_sleep timing) unit)
      | Inr (Superseded retry_after) \<Rightarrow>
          (st\<lparr>l_wake := set_healthy False (l_wake st)\<rparr>, superseded_delay retry_after (t_superseded_floor timing) unit)
      | Inl (Api (Gated remaining)) \<Rightarrow>
          (st\<lparr>l_wake := set_healthy False (l_wake st)\<rparr>, remaining + millis 50)
      | Inl _ \<Rightarrow>
          (let (delay, b) = next_delay (l_backoff st) unit in
           (st\<lparr>l_wake := set_healthy False (l_wake st), l_backoff := b\<rparr>, delay)))"

section \<open>Lemmas\<close>

text \<open>The exponential step of a backoff.\<close>

definition backoff_step :: "Backoff \<Rightarrow> duration" where
  "backoff_step b =
     min (case checked_mul (b_base b) (2 ^ min (b_failures b) 20) of None \<Rightarrow> b_cap b | Some d \<Rightarrow> d) (b_cap b)"

lemma next_delay_bounds:
  "backoff_step b div 2 \<le> fst (next_delay b jitter)" "fst (next_delay b jitter) \<le> backoff_step b"
proof -
  define st where "st = backoff_step b"
  define j where "j = min jitter UNIT"
  have d: "fst (next_delay b jitter) = st div 2 + st * j div (2 * UNIT)"
    by (simp add: next_delay_def backoff_step_def st_def j_def Let_def)
  have "st * j div (2 * UNIT) \<le> st * UNIT div (2 * UNIT)"
    by (intro div_le_mono mult_le_mono) (simp_all add: j_def)
  also have "\<dots> = st div 2" by (simp add: UNIT_def div_mult_mult2 mult.commute)
  finally have "st * j div (2 * UNIT) \<le> st div 2" .
  then show "backoff_step b div 2 \<le> fst (next_delay b jitter)" "fst (next_delay b jitter) \<le> backoff_step b"
    unfolding d st_def [symmetric] by simp_all
qed

lemma next_delay_cap: "fst (next_delay b jitter) \<le> b_cap b"
  using next_delay_bounds(2) [of b jitter] by (simp add: backoff_step_def)

lemma next_delay_params [simp]:
  "b_base (snd (next_delay b jitter)) = b_base b" "b_cap (snd (next_delay b jitter)) = b_cap b"
  by (simp_all add: next_delay_def Let_def)

lemma backoff_step_base: "b_base b \<le> b_cap b \<Longrightarrow> b_base b \<le> backoff_step b"
proof -
  have "b_base b \<le> b_base b * 2 ^ min (b_failures b) 20" by simp
  then show "b_base b \<le> b_cap b \<Longrightarrow> b_base b \<le> backoff_step b"
    by (simp add: backoff_step_def checked_mul_def split: option.split)
qed

lemma parse_retry_after_max: "parse_retry_after date header = Some d \<Longrightarrow> d \<le> MAX_RETRY_AFTER"
  by (auto simp: parse_retry_after_def Let_def split: option.splits if_splits)

lemma record_success_simps [simp]:
  "gs_server_minimum_until (record_success now g) = gs_server_minimum_until g"
  "b_cap (gs_backoff (record_success now g)) = b_cap (gs_backoff g)"
  by (simp_all add: record_success_def backoff_reset_def)

lemma record_failure_simps:
  "gs_blocked_until (record_failure_at now ra j g) =
     Some (max (case gs_blocked_until g of None \<Rightarrow> 0 | Some u \<Rightarrow> u)
       (now + max (case ra of None \<Rightarrow> 0 | Some d \<Rightarrow> d) (fst (next_delay (gs_backoff g) j))))"
  "gs_server_minimum_until (record_failure_at now ra j g) =
     (case ra of None \<Rightarrow> gs_server_minimum_until g
      | Some d \<Rightarrow> Some (max (case gs_server_minimum_until g of None \<Rightarrow> 0 | Some u \<Rightarrow> u) (now + d)))"
  "b_cap (gs_backoff (record_failure_at now ra j g)) = b_cap (gs_backoff g)"
  by (simp_all add: record_failure_at_def Let_def case_prod_beta max_def split: option.split)

section \<open>Histories of the breaker\<close>

text \<open>The breaker is shared by every task of the agent: whatever they do, its state evolves by
  successes and failures recorded at instants that do not decrease.\<close>

inductive gate_steps :: "(string \<Rightarrow> int option) \<Rightarrow> instant \<Rightarrow> GateState \<Rightarrow> instant \<Rightarrow> GateState \<Rightarrow> bool" for date where
  gate_refl: "gate_steps date t g t g"
| gate_success: "gate_steps date t g t' g' \<Longrightarrow> t' \<le> u \<Longrightarrow> gate_steps date t g u (record_success u g')"
| gate_failure: "gate_steps date t g t' g' \<Longrightarrow> t' \<le> u \<Longrightarrow>
    gate_steps date t g u (record_failure_at u (parse_retry_after date header) jitter g')"

lemma gate_steps_time: "gate_steps date t g t' g' \<Longrightarrow> t \<le> t'"
  by (induction rule: gate_steps.induct) simp_all

text \<open>The server's minimum is never forgotten before it has passed.\<close>

lemma gate_keeps_floor:
  assumes "gate_steps date t g t' g'"
    "\<exists>m'\<ge>m. gs_server_minimum_until g = Some m'" "\<exists>b\<ge>m. gs_blocked_until g = Some b"
  shows "(\<exists>m'\<ge>m. gs_server_minimum_until g' = Some m') \<and> (t' < m \<longrightarrow> (\<exists>b\<ge>m. gs_blocked_until g' = Some b))"
  using assms
proof (induction rule: gate_steps.induct)
  case (gate_refl t g)
  then show ?case by auto
next
  case (gate_success t g t' g' u)
  then obtain m' where m': "m \<le> m'" "gs_server_minimum_until g' = Some m'" by blast
  then show ?case by (auto simp: record_success_def)
next
  case (gate_failure t g t' g' u header jitter)
  then obtain m' where m': "m \<le> m'" "gs_server_minimum_until g' = Some m'"
    "t' < m \<longrightarrow> (\<exists>b\<ge>m. gs_blocked_until g' = Some b)" by blast
  have "u < m \<longrightarrow> t' < m" using gate_failure.hyps by simp
  then show ?case
    using m' by (auto simp: record_failure_simps max_def split: option.split)
qed

definition gate_inv :: "duration \<Rightarrow> instant \<Rightarrow> GateState \<Rightarrow> bool" where
  "gate_inv cap t g \<longleftrightarrow>
     b_cap (gs_backoff g) = cap
     \<and> (\<forall>m. gs_server_minimum_until g = Some m \<longrightarrow> m \<le> t + max cap MAX_RETRY_AFTER)
     \<and> (\<forall>u. gs_blocked_until g = Some u \<longrightarrow> u \<le> t + max cap MAX_RETRY_AFTER)"

lemma gate_steps_inv:
  assumes "gate_steps date t g t' g'" "gate_inv cap t g"
  shows "gate_inv cap t' g'"
  using assms
proof (induction rule: gate_steps.induct)
  case (gate_refl t g)
  then show ?case by simp
next
  case (gate_success t g t' g' u)
  then show ?case by (fastforce simp: gate_inv_def record_success_def backoff_reset_def split: option.splits)
next
  case (gate_failure t g t' g' u header jitter)
  then have inv: "gate_inv cap t' g'" by simp
  have d: "fst (next_delay (gs_backoff g') jitter) \<le> cap"
    using next_delay_cap [of "gs_backoff g'" jitter] inv by (simp add: gate_inv_def)
  have r: "(case parse_retry_after date header of None \<Rightarrow> 0 | Some d \<Rightarrow> d) \<le> MAX_RETRY_AFTER"
    using parse_retry_after_max [of date header] by (auto split: option.split)
  show ?case
    unfolding gate_inv_def record_failure_simps
    using inv gate_failure.hyps(2) d r
    by (fastforce simp: gate_inv_def max_def split: option.splits if_splits)
qed

section \<open>Histories of the schedule\<close>

text \<open>Between two iterations of the main loop the event task may set any flags, and a step that
  failed or processed a job asks to be retried; the log holds what each iteration was told.\<close>

inductive sched_steps :: "instant \<Rightarrow> Schedule \<Rightarrow> instant \<Rightarrow> Wakeups \<Rightarrow> Schedule \<Rightarrow> Due list \<Rightarrow> bool" where
  sched_start: "sched_steps t sc t w sc []"
| sched_wake: "sched_steps t sc t' w sc' log \<Longrightarrow> sched_steps t sc t' w' sc' log"
| sched_retry: "sched_steps t sc t' w sc' log \<Longrightarrow> t' \<le> u \<Longrightarrow>
    f \<in> {claim_again_now, retry_claim, retry_authorizations, retry_leases} \<Longrightarrow> sched_steps t sc u w (f u sc') log"
| sched_due: "sched_steps t sc t' w sc' log \<Longrightarrow> t' \<le> u \<Longrightarrow> due u w sc' = (d, w', sc'') \<Longrightarrow>
    sched_steps t sc u w' sc'' (d # log)"

definition sched_bound :: "instant \<Rightarrow> Schedule \<Rightarrow> bool" where
  "sched_bound limit sc \<longleftrightarrow>
     sc_next_claim sc \<le> limit \<and> sc_next_authorizations sc \<le> limit \<and> sc_next_leases sc \<le> limit"

lemma due_cases:
  assumes "due u w sc = (d, w', sc')"
  shows "due_claim d \<or> sc_next_claim sc' = sc_next_claim sc \<and> u < sc_next_claim sc"
    "due_authorizations d \<or> sc_next_authorizations sc' = sc_next_authorizations sc \<and> u < sc_next_authorizations sc"
    "due_leases d \<or> sc_next_leases sc' = sc_next_leases sc \<and> u < sc_next_leases sc"
proof -
  have d: "d = fst (due u w sc)" "sc' = snd (snd (due u w sc))" using assms by simp_all
  show "due_claim d \<or> sc_next_claim sc' = sc_next_claim sc \<and> u < sc_next_claim sc"
    "due_authorizations d \<or> sc_next_authorizations sc' = sc_next_authorizations sc \<and> u < sc_next_authorizations sc"
    "due_leases d \<or> sc_next_leases sc' = sc_next_leases sc \<and> u < sc_next_leases sc"
    unfolding d by (simp_all add: due_def Let_def not_le)
qed

lemma sched_steps_inv:
  assumes "sched_steps t sc t' w sc' log" "sched_bound (t + r) sc"
  shows "(sc_next_claim sc' \<le> max t' (t + r) \<or> list_ex due_claim log)
    \<and> (sc_next_authorizations sc' \<le> max t' (t + r) \<or> list_ex due_authorizations log)
    \<and> (sc_next_leases sc' \<le> max t' (t + r) \<or> list_ex due_leases log)"
  using assms
proof (induction rule: sched_steps.induct)
  case (sched_start t sc w)
  then show ?case by (simp add: sched_bound_def)
next
  case (sched_wake t sc t' w sc' log w')
  then show ?case by simp
next
  case (sched_retry t sc t' w sc' log u f)
  then have "(sc_next_claim sc' \<le> max u (t + r) \<or> list_ex due_claim log)
    \<and> (sc_next_authorizations sc' \<le> max u (t + r) \<or> list_ex due_authorizations log)
    \<and> (sc_next_leases sc' \<le> max u (t + r) \<or> list_ex due_leases log)"
    using max.mono [OF sched_retry.hyps(2) order_refl, of "t + r"] by (meson order_trans)
  then show ?case
    using sched_retry.hyps(3)
    by (auto simp: claim_again_now_def retry_claim_def retry_authorizations_def retry_leases_def)
next
  case (sched_due t sc t' w sc' log u d w' sc'')
  then have "(sc_next_claim sc' \<le> max u (t + r) \<or> list_ex due_claim log)
    \<and> (sc_next_authorizations sc' \<le> max u (t + r) \<or> list_ex due_authorizations log)
    \<and> (sc_next_leases sc' \<le> max u (t + r) \<or> list_ex due_leases log)"
    using max.mono [OF sched_due.hyps(2) order_refl, of "t + r"] by (meson order_trans)
  then show ?case using due_cases [OF sched_due.hyps(3)] by auto
qed

section \<open>Properties\<close>

text \<open>C23: A server's \<open>Retry-After\<close> is a floor.  Once a failure has been recorded with it, no later
  success or failure of any task reopens the breaker before that time has passed, and until then
  no polling call and no event request leaves the node.\<close>

theorem retry_after_honoured:
  assumes "gate_steps date t (record_failure_at t (Some d) jitter g) t' g'" "t' \<le> now" "now < t + d"
  shows "\<exists>r. check_at g' now = Inl (Gated r)
    \<and> polling date what now answered j http g' = (g', False, Inl (Api (Gated r)))
    \<and> wait_events date now answered j http' g' = (g', False, Inl (Api (Gated r)))"
proof -
  let ?g = "record_failure_at t (Some d) jitter g"
  obtain m where m: "gs_server_minimum_until ?g = Some m" "t + d \<le> m" by (auto simp: record_failure_simps)
  obtain b where b: "gs_blocked_until ?g = Some b" "t + d \<le> b" by (auto simp: record_failure_simps)
  have "\<exists>b'\<ge>t + d. gs_blocked_until g' = Some b'"
    using gate_keeps_floor [OF assms(1), of "t + d"] m b assms(2,3) by auto
  then show ?thesis using assms(3) by (auto simp: check_at_def polling_def wait_events_def)
qed

theorem retry_after_honoured_witness:
  "\<exists>r. check_at (record_success 5 (record_failure_at 3 (Some 100) 0 (gate_new 2 60))) 102 = Inl (Gated r)"
proof -
  have "gate_steps (\<lambda>_. None) 3 (record_failure_at 3 (Some 100) 0 (gate_new 2 60)) 5
      (record_success 5 (record_failure_at 3 (Some 100) 0 (gate_new 2 60)))"
    by (rule gate_success [OF gate_refl]) simp
  from retry_after_honoured [OF this, of 102 "[]" 0 0 NoAnswer NoAnswer] show ?thesis by auto
qed

text \<open>The breaker always reopens.  Whatever answers the control plane gives, hostile
  \<open>Retry-After\<close> headers included, after the last recorded outcome the agent is silent for at most
  the configured cap or one hour, whichever is longer.\<close>

theorem gate_reopens:
  assumes "gate_steps date start (gate_new base cap) t g" "t + max cap MAX_RETRY_AFTER \<le> now"
  shows "check_at g now = Inr ()"
proof -
  have "gate_inv cap start (gate_new base cap)" by (simp add: gate_inv_def gate_new_def backoff_new_def)
  then have inv: "gate_inv cap t g" by (rule gate_steps_inv [OF assms(1)])
  show ?thesis
  proof (cases "gs_blocked_until g")
    case None
    then show ?thesis by (simp add: check_at_def)
  next
    case (Some u)
    then have "u \<le> now" using inv assms(2) by (fastforce simp: gate_inv_def)
    then show ?thesis using Some by (simp add: check_at_def)
  qed
qed

theorem gate_reopens_witness:
  "check_at (record_failure_at 7 (parse_retry_after (\<lambda>_. None) (Some ''99999'')) 0 (gate_new (secs 2) (secs 60)))
     (7 + secs 3600) = Inr ()"
proof -
  have "gate_steps (\<lambda>_. None) 0 (gate_new (secs 2) (secs 60)) 7
      (record_failure_at 7 (parse_retry_after (\<lambda>_. None) (Some ''99999'')) 0 (gate_new (secs 2) (secs 60)))"
    by (rule gate_failure [OF gate_refl]) simp
  from gate_reopens [OF this, of "7 + secs 3600"] show ?thesis
    by (simp add: MAX_RETRY_AFTER_def secs_def)
qed

text \<open>The long-poll loop cannot spin.  With the production timing, the next event request goes
  out no earlier than one second after the previous one was sent, whatever the answer, an instant
  one included; after a refusal by the breaker it goes out when the breaker has reopened.\<close>

theorem event_loop_paced:
  assumes "b_base (l_backoff st) = secs 2" "b_cap (l_backoff st) = secs 60"
  shows "case outcome of
      Inl (Api (Gated remaining)) \<Rightarrow> remaining < snd (loop_step (timing_production w) elapsed unit outcome st)
    | _ \<Rightarrow> secs 1 \<le> elapsed + snd (loop_step (timing_production w) elapsed unit outcome st)"
proof -
  have e: "secs 1 \<le> fst (next_delay (l_backoff st) unit)"
  proof -
    have "secs 2 \<le> backoff_step (l_backoff st)"
      using backoff_step_base [of "l_backoff st"] assms by (simp add: secs_def)
    then have "secs 1 \<le> backoff_step (l_backoff st) div 2" by (simp add: secs_def)
    then show ?thesis using next_delay_bounds(1) order_trans by blast
  qed
  have "secs 600 * (3 * UNIT) div (4 * UNIT) \<le> jittered (secs 600) unit"
    unfolding jittered_def by (intro div_le_mono mult_le_mono) simp_all
  then have u: "secs 1 \<le> jittered (secs 600) unit" by (simp add: secs_def UNIT_def)
  show ?thesis
  proof (cases outcome)
    case (Inl err)
    then show ?thesis
      using e by (auto simp: loop_step_def millis_def case_prod_beta trans_le_add2
          split: CallError.split ApiError.split)
  next
    case (Inr ev)
    then show ?thesis
      using u by (auto simp: loop_step_def timing_production_def superseded_delay_def Let_def secs_def max_def
          split: EventsOutcome.split)
  qed
qed

theorem event_loop_paced_witness:
  "secs 1 \<le> 3 + snd (loop_step (timing_production 25) 3 0 (Inr (Event ''change'' [''jobs''] ''c1''))
     \<lparr>l_cursor = None, l_backoff = backoff_new (secs 2) (secs 60), l_wake = wakeups_new\<rparr>)"
  using event_loop_paced [where outcome = "Inr (Event ''change'' [''jobs''] ''c1'')" and w = 25 and elapsed = 3 and unit = 0
      and st = "\<lparr>l_cursor = None, l_backoff = backoff_new (secs 2) (secs 60), l_wake = wakeups_new\<rparr>"]
  by (simp add: backoff_new_def)

text \<open>No channel starves.  However the event channel behaves, every window of one reconcile
  interval that ends at an iteration of the main loop contains an iteration at which jobs are due,
  one at which authorizations are due and one at which leases are due.\<close>

theorem schedule_never_starves:
  assumes "sched_steps t sc t' w sc' log" "sched_bound (t + r) sc"
    "t' \<le> now" "t + r \<le> now" "due now w sc' = (d, w', sc'')"
  shows "list_ex due_claim (d # log) \<and> list_ex due_authorizations (d # log) \<and> list_ex due_leases (d # log)"
proof -
  have "max t' (t + r) \<le> now" using assms(3,4) by simp
  then show ?thesis
    using sched_steps_inv [OF assms(1,2)] due_cases [OF assms(5)] by auto
qed

theorem schedule_never_starves_witness:
  "due_claim (fst (due 400 (wakeups_new\<lparr>w_healthy := True\<rparr>) (schedule_new 300 100)))"
proof -
  let ?w = "wakeups_new\<lparr>w_healthy := True\<rparr>"
  have "sched_steps 100 (schedule_new 300 100) 100 ?w (schedule_new 300 100) []" by (rule sched_start)
  moreover have "sched_bound (100 + 300) (schedule_new 300 100)" by (simp add: sched_bound_def schedule_new_def)
  ultimately show ?thesis
    using schedule_never_starves [of 100 "schedule_new 300 100" 100 ?w "schedule_new 300 100" "[]" 300 400
        "fst (due 400 ?w (schedule_new 300 100))" "fst (snd (due 400 ?w (schedule_new 300 100)))"
        "snd (snd (due 400 ?w (schedule_new 300 100)))"] by simp
qed

end
