(* ===== verification/Jobs.thy ===== *)
theory Jobs
  imports Json Pacing
begin

text \<open>
  How the provisioning agent executes a job of the control plane and reports its outcome:
  \<open>dispatch.rs\<close> (one \<open>vpn-admin\<close> command per job type, bounded retries), \<open>op_dedup.rs\<close> (the
  log that keeps a redelivered job from running twice), \<open>report_queue.rs\<close> (the persistent queue
  of completion reports and its delivery task) and the pipeline of \<open>main.rs\<close> that joins them.
  The queue file is shared by two tasks; their steps are interleaved explicitly.  Parameters:
  \<open>vpn-admin\<close>, the control plane's answers, the RFC 3339 parser, the clock and whether a write to
  disk succeeds.
\<close>

section \<open>Files\<close>

datatype 'a stored = NoFile | Unreadable | Corrupt | Stored "'a list"

definition load_file :: "'a stored \<Rightarrow> unit + 'a list" where
  "load_file f = (case f of NoFile \<Rightarrow> Inr [] | Stored xs \<Rightarrow> Inr xs | _ \<Rightarrow> Inl ())"

text \<open>A save writes a temporary file, renames it over the old one and then syncs the directory: it
  fails before the rename, or after it, or not at all.\<close>

datatype save_outcome = SaveOk | SaveRefused | SaveUnsynced

definition save_file :: "save_outcome \<Rightarrow> 'a list \<Rightarrow> 'a stored \<Rightarrow> 'a stored \<times> (unit + unit)" where
  "save_file ok xs f =
     (case ok of SaveOk \<Rightarrow> (Stored xs, Inr ()) | SaveRefused \<Rightarrow> (f, Inl ()) | SaveUnsynced \<Rightarrow> (Stored xs, Inl ()))"

datatype Outcome = Complete json | Fail string

section \<open>Operation log\<close>

definition MAX_ENTRIES :: nat where "MAX_ENTRIES = 4096"
definition RETENTION_SECS :: nat where "RETENTION_SECS = 24 * 60 * 60"

record DedupEntry =
  de_job_id :: int
  de_outcome :: Outcome
  de_recorded_at :: nat

definition dedup_lookup :: "int \<Rightarrow> DedupEntry stored \<Rightarrow> unit + Outcome option" where
  "dedup_lookup job_id f =
     rbind (load_file f) (\<lambda>es. Inr (map_option de_outcome (find (\<lambda>e. de_job_id e = job_id) es)))"

definition prune :: "nat \<Rightarrow> DedupEntry list \<Rightarrow> DedupEntry list" where
  "prune now es =
     (let cutoff = now - RETENTION_SECS;
          es = filter (\<lambda>e. de_recorded_at e \<ge> cutoff) es
      in if length es > MAX_ENTRIES
         then drop (length es - MAX_ENTRIES) (sort_key de_recorded_at es) else es)"

definition dedup_record :: "save_outcome \<Rightarrow> nat \<Rightarrow> int \<Rightarrow> Outcome \<Rightarrow> DedupEntry stored \<Rightarrow> DedupEntry stored \<times> (unit + unit)" where
  "dedup_record ok now job_id outcome f =
     (case load_file f of
        Inl e \<Rightarrow> (f, Inl e)
      | Inr es \<Rightarrow>
          save_file ok
            (prune now (filter (\<lambda>e. de_job_id e \<noteq> job_id) es
               @ [\<lparr>de_job_id = job_id, de_outcome = outcome, de_recorded_at = now\<rparr>])) f)"

section \<open>Report queue\<close>

definition MAX_PENDING :: nat where "MAX_PENDING = 4096"
definition REPORT_MAX_ATTEMPTS :: nat where "REPORT_MAX_ATTEMPTS = 8"
definition MAX_BACKOFF_SECS :: nat where "MAX_BACKOFF_SECS = 30"

record ReportEntry =
  re_job_id :: int
  re_claim_token :: string
  re_lease_expires_at :: string
  re_outcome :: Outcome
  re_attempts :: nat

definition enqueue :: "save_outcome \<Rightarrow> ReportEntry \<Rightarrow> ReportEntry stored \<Rightarrow> ReportEntry stored \<times> (unit + unit)" where
  "enqueue ok entry f =
     (case load_file f of
        Inl e \<Rightarrow> (f, Inl e)
      | Inr entries \<Rightarrow>
          save_file ok ((if length entries \<ge> MAX_PENDING then tl entries else entries) @ [entry]) f)"

definition enqueue_complete ::
    "save_outcome \<Rightarrow> int \<Rightarrow> string \<Rightarrow> string \<Rightarrow> json \<Rightarrow> ReportEntry stored \<Rightarrow> ReportEntry stored \<times> (unit + unit)" where
  "enqueue_complete ok job_id claim_token lease_expires_at result f =
     enqueue ok \<lparr>re_job_id = job_id, re_claim_token = claim_token, re_lease_expires_at = lease_expires_at,
       re_outcome = Complete result, re_attempts = 0\<rparr> f"

definition enqueue_fail ::
    "save_outcome \<Rightarrow> int \<Rightarrow> string \<Rightarrow> string \<Rightarrow> string \<Rightarrow> ReportEntry stored \<Rightarrow> ReportEntry stored \<times> (unit + unit)" where
  "enqueue_fail ok job_id claim_token lease_expires_at message f =
     enqueue ok \<lparr>re_job_id = job_id, re_claim_token = claim_token, re_lease_expires_at = lease_expires_at,
       re_outcome = Fail message, re_attempts = 0\<rparr> f"

text \<open>What one delivery pass sees: the parser of deadlines, the clock before each entry, and the
  control plane's answer to the report of each entry.\<close>

record DeliveryEnv =
  d_parse :: "string \<Rightarrow> int option"
  d_clock :: "nat \<Rightarrow> int"
  d_call :: "nat \<Rightarrow> ReportEntry \<Rightarrow> unit + ReportDisposition"

definition report_expired :: "DeliveryEnv \<Rightarrow> nat \<Rightarrow> ReportEntry \<Rightarrow> bool" where
  "report_expired env i entry =
     (case d_parse env (re_lease_expires_at entry) of None \<Rightarrow> True | Some deadline \<Rightarrow> deadline \<le> d_clock env i)"

text \<open>The pass over the loaded entries: the reports sent, the entries kept, and the largest attempt
  count among them.\<close>

fun deliver :: "DeliveryEnv \<Rightarrow> nat \<Rightarrow> ReportEntry list \<Rightarrow> nat \<Rightarrow> ReportEntry list \<times> ReportEntry list \<times> nat" where
  "deliver env i [] m = ([], [], m)"
| "deliver env i (entry # entries) m =
     (if report_expired env i entry then deliver env (i + 1) entries m
      else
        case d_call env i entry of
          Inr _ \<Rightarrow> (let (sent, kept, m') = deliver env (i + 1) entries m in (entry # sent, kept, m'))
        | Inl _ \<Rightarrow>
            (let entry' = entry\<lparr>re_attempts := min (re_attempts entry + 1) U32_MAX\<rparr> in
             if re_attempts entry' \<ge> REPORT_MAX_ATTEMPTS
             then (let (sent, kept, m') = deliver env (i + 1) entries m in (entry # sent, kept, m'))
             else (let (sent, kept, m') = deliver env (i + 1) entries (max m (re_attempts entry'))
                   in (entry # sent, entry' # kept, m'))))"

definition report_backoff_secs :: "nat \<Rightarrow> nat" where
  "report_backoff_secs max_attempts_after = min (2 ^ min max_attempts_after 5) MAX_BACKOFF_SECS"

text \<open>The two tasks on the queue file.  The delivery task loads the file, delivers what it loaded
  (waiting on the network), and then replaces the file; the main task may enqueue at any point.\<close>

record QueueWorld =
  q_file :: "ReportEntry stored"
  q_loaded :: "ReportEntry list option"

definition queue_load :: "QueueWorld \<Rightarrow> QueueWorld" where
  "queue_load w =
     (case load_file (q_file w) of
        Inl _ \<Rightarrow> w
      | Inr [] \<Rightarrow> w
      | Inr es \<Rightarrow> w\<lparr>q_loaded := Some es\<rparr>)"

definition queue_finish :: "DeliveryEnv \<Rightarrow> save_outcome \<Rightarrow> QueueWorld \<Rightarrow> QueueWorld \<times> ReportEntry list" where
  "queue_finish env ok w =
     (case q_loaded w of
        None \<Rightarrow> (w, [])
      | Some es \<Rightarrow>
          (let (sent, kept, _) = deliver env 0 es 0 in
           (w\<lparr>q_file := fst (save_file ok kept (q_file w)), q_loaded := None\<rparr>, sent)))"

definition queue_enqueue :: "save_outcome \<Rightarrow> ReportEntry \<Rightarrow> QueueWorld \<Rightarrow> QueueWorld \<times> (unit + unit)" where
  "queue_enqueue ok entry w =
     (let (f, r) = enqueue ok entry (q_file w) in (w\<lparr>q_file := f\<rparr>, r))"

section \<open>Dispatch\<close>

record Job =
  j_id :: int
  j_type :: string
  j_payload :: json
  j_claim_token :: string
  j_lease_expires_at :: string

text \<open>What a \<open>vpn-admin\<close> run gives: it did not start, was killed on timeout or exited with an error;
  or its standard output, which may or may not be JSON.\<close>

datatype admin_output = AdminFailed string | AdminOk "json option"

datatype JobError =
    MissingField string | BadExpiry | AdminError string | BadOutput string | FetchFailed | UnknownJobType string
  | NoRecordedError

definition payload_u64 :: "Job \<Rightarrow> string \<Rightarrow> JobError + nat" where
  "payload_u64 job key = of_opt (MissingField key) (get_u64 key (j_payload job))"

definition payload_str :: "Job \<Rightarrow> string \<Rightarrow> JobError + string" where
  "payload_str job key = of_opt (MissingField key) (get_str key (j_payload job))"

definition payload_optional_expires_at_unix :: "(string \<Rightarrow> int option) \<Rightarrow> Job \<Rightarrow> JobError + int option" where
  "payload_optional_expires_at_unix prs job =
     (case jget ''expires_at'' (j_payload job) of
        None \<Rightarrow> Inr None
      | Some v \<Rightarrow>
          if v = JNull then Inr None
          else case as_str v of
                 None \<Rightarrow> Inl BadExpiry
               | Some raw \<Rightarrow> (case prs raw of None \<Rightarrow> Inl BadExpiry | Some t \<Rightarrow> Inr (Some t)))"

definition payload_expires_at_unix :: "(string \<Rightarrow> int option) \<Rightarrow> Job \<Rightarrow> JobError + int" where
  "payload_expires_at_unix prs job =
     rbind (payload_optional_expires_at_unix prs job) (\<lambda>m. of_opt (MissingField ''expires_at'') m)"

definition show_int :: "int \<Rightarrow> string" where
  "show_int i = (if i < 0 then CHR ''-'' # show_nat (nat (- i)) else show_nat (nat i))"

text \<open>Running commands: the arguments after \<open>vpn-admin --config ...\<close> of each run, in order.\<close>

type_synonym 'a adm = "string list list \<times> (JobError + 'a)"

record JobEnv =
  je_admin :: "string list \<Rightarrow> admin_output"
  je_fetch :: "nat \<Rightarrow> json option"
  je_parse :: "string \<Rightarrow> int option"

definition require_success :: "JobEnv \<Rightarrow> string list \<Rightarrow> unit adm" where
  "require_success env args =
     (case je_admin env args of AdminFailed e \<Rightarrow> ([args], Inl (AdminError e)) | AdminOk _ \<Rightarrow> ([args], Inr ()))"

definition parse_json_output :: "JobEnv \<Rightarrow> string list \<Rightarrow> json adm" where
  "parse_json_output env args =
     (case je_admin env args of
        AdminFailed e \<Rightarrow> ([args], Inl (AdminError e))
      | AdminOk None \<Rightarrow> ([args], Inl (BadOutput ''json''))
      | AdminOk (Some j) \<Rightarrow> ([args], Inr j))"

definition adm_then :: "'a adm \<Rightarrow> ('a \<Rightarrow> JobError + 'b) \<Rightarrow> 'b adm" where
  "adm_then m f = (fst m, rbind (snd m) f)"

definition adm_after :: "JobError + 'a \<Rightarrow> ('a \<Rightarrow> 'b adm) \<Rightarrow> 'b adm" where
  "adm_after r f = (case r of Inl e \<Rightarrow> ([], Inl e) | Inr x \<Rightarrow> f x)"

definition output_str :: "string \<Rightarrow> json \<Rightarrow> JobError + string" where
  "output_str key parsed = of_opt (BadOutput key) (get_str key parsed)"

definition create_user :: "JobEnv \<Rightarrow> Job \<Rightarrow> json adm" where
  "create_user env job =
     adm_after (payload_str job ''user_id'') (\<lambda>user_id.
     adm_after (payload_optional_expires_at_unix (je_parse env) job) (\<lambda>expires_at.
     adm_then
       (parse_json_output env
         ([''user'', ''create'', ''--name'', user_id]
          @ (case expires_at of None \<Rightarrow> [] | Some t \<Rightarrow> [''--expires-at'', show_int t]) @ [''--json'']))
       (\<lambda>parsed.
         rbind (output_str ''id'' parsed) (\<lambda>vpn_user_id.
         rbind (output_str ''subscription_url'' parsed) (\<lambda>subscription_url.
         rbind (output_str ''provisioning_url'' parsed) (\<lambda>provisioning_url.
           Inr (jobj [(''vpn_user_id'', JStr vpn_user_id), (''subscription_url'', JStr subscription_url),
                      (''provisioning_url'', JStr provisioning_url)])))))))"

definition set_expiry :: "JobEnv \<Rightarrow> Job \<Rightarrow> json adm" where
  "set_expiry env job =
     adm_after (payload_str job ''vpn_user_id'') (\<lambda>vpn_user_id.
     adm_after (payload_expires_at_unix (je_parse env) job) (\<lambda>expires_at.
     adm_then (require_success env [''user'', ''set-expiry'', vpn_user_id, ''--expires-at'', show_int expires_at])
       (\<lambda>_. Inr (jobj []))))"

definition clear_expiry :: "JobEnv \<Rightarrow> Job \<Rightarrow> json adm" where
  "clear_expiry env job =
     adm_after (payload_str job ''vpn_user_id'') (\<lambda>vpn_user_id.
     adm_then (require_success env [''user'', ''clear-expiry'', vpn_user_id]) (\<lambda>_. Inr (jobj [])))"

definition rotate_credentials :: "JobEnv \<Rightarrow> Job \<Rightarrow> json adm" where
  "rotate_credentials env job =
     adm_after (payload_str job ''vpn_user_id'') (\<lambda>vpn_user_id.
     adm_then (require_success env [''user'', ''rotate-credentials'', vpn_user_id]) (\<lambda>_. Inr (jobj [])))"

definition enable_or_disable :: "JobEnv \<Rightarrow> Job \<Rightarrow> string \<Rightarrow> json adm" where
  "enable_or_disable env job subcommand =
     adm_after (payload_str job ''vpn_user_id'') (\<lambda>vpn_user_id.
     adm_then (require_success env [''user'', subcommand, vpn_user_id]) (\<lambda>_. Inr (jobj [])))"

definition rotate_token :: "JobEnv \<Rightarrow> Job \<Rightarrow> json adm" where
  "rotate_token env job =
     adm_after (payload_str job ''vpn_user_id'') (\<lambda>vpn_user_id.
     adm_then (parse_json_output env [''user'', ''rotate-token'', vpn_user_id, ''--json''])
       (\<lambda>parsed.
         rbind (output_str ''subscription_url'' parsed) (\<lambda>subscription_url.
         rbind (output_str ''provisioning_url'' parsed) (\<lambda>provisioning_url.
           Inr (jobj [(''subscription_url'', JStr subscription_url), (''provisioning_url'', JStr provisioning_url)])))))"

text \<open>The temporary file that carries the fetched document is named by its role.\<close>

definition apply_node_revision :: "JobEnv \<Rightarrow> Job \<Rightarrow> json adm" where
  "apply_node_revision env job =
     adm_after (payload_u64 job ''revision'') (\<lambda>revision.
     adm_after (of_opt FetchFailed (je_fetch env revision)) (\<lambda>_.
     adm_then
       (require_success env [''apply-revision'', ''--revision'', show_nat revision, ''--input'', ''revision.json''])
       (\<lambda>_. Inr (jobj [(''revision'', jnat revision)]))))"

definition run_job_once :: "JobEnv \<Rightarrow> Job \<Rightarrow> json adm" where
  "run_job_once env job =
     (let t = j_type job in
      if t = ''CREATE_USER'' then create_user env job
      else if t = ''SET_EXPIRY'' then set_expiry env job
      else if t = ''CLEAR_EXPIRY'' then clear_expiry env job
      else if t = ''ENABLE_USER'' then enable_or_disable env job ''enable''
      else if t = ''DISABLE_USER'' then enable_or_disable env job ''disable''
      else if t = ''ROTATE_SUBSCRIPTION_TOKEN'' then rotate_token env job
      else if t = ''ROTATE_CREDENTIALS'' then rotate_credentials env job
      else if t = ''APPLY_NODE_REVISION'' then apply_node_revision env job
      else ([], Inl (UnknownJobType t)))"

definition DISPATCH_MAX_ATTEMPTS :: nat where "DISPATCH_MAX_ATTEMPTS = 3"

text \<open>The retry loop; each attempt meets its own environment.\<close>

fun run_attempts :: "(nat \<Rightarrow> JobEnv) \<Rightarrow> Job \<Rightarrow> nat \<Rightarrow> nat \<Rightarrow> json adm" where
  "run_attempts envs job attempt 0 = ([], Inl NoRecordedError)"
| "run_attempts envs job attempt (Suc left) =
     (case run_job_once (envs attempt) job of
        (cmds, Inr result) \<Rightarrow> (cmds, Inr result)
      | (cmds, Inl e) \<Rightarrow>
          if left = 0 then (cmds, Inl e)
          else (let (cmds', r) = run_attempts envs job (attempt + 1) left in (cmds @ cmds', r)))"

definition run_job :: "(nat \<Rightarrow> JobEnv) \<Rightarrow> Job \<Rightarrow> json adm" where
  "run_job envs job = run_attempts envs job 1 DISPATCH_MAX_ATTEMPTS"

section \<open>The pipeline\<close>

record JobWorld =
  jw_dedup :: "DedupEntry stored"
  jw_queue :: "ReportEntry stored"
  jw_runs :: "(int \<times> string list list) list"

text \<open>What one delivery of a job meets: the environment of each attempt, the clock before and after,
  and whether the writes succeed.  \<open>p_message\<close> prints an error.\<close>

record PipelineEnv =
  p_jobs :: "nat \<Rightarrow> JobEnv"
  p_parse :: "string \<Rightarrow> int option"
  p_unix :: nat
  p_clock_before :: int
  p_clock_after :: int
  p_dedup_save :: save_outcome
  p_queue_save :: save_outcome
  p_message :: "JobError \<Rightarrow> string"

datatype PipelineError = ClaimFailed | BadLease

definition lease_is_live :: "(string \<Rightarrow> int option) \<Rightarrow> int \<Rightarrow> Job \<Rightarrow> PipelineError + bool" where
  "lease_is_live prs now job =
     rbind (of_opt BadLease (prs (j_lease_expires_at job))) (\<lambda>deadline. Inr (deadline > now))"

definition apply_job :: "PipelineEnv \<Rightarrow> Job \<Rightarrow> JobWorld \<Rightarrow> JobWorld \<times> (PipelineError + unit)" where
  "apply_job env job w =
     (case dedup_lookup (j_id job) (jw_dedup w) of
        Inr (Some (Complete result)) \<Rightarrow>
          (w\<lparr>jw_queue := fst (enqueue_complete (p_queue_save env) (j_id job) (j_claim_token job)
                                (j_lease_expires_at job) result (jw_queue w))\<rparr>, Inr ())
      | _ \<Rightarrow>
          (case run_job (p_jobs env) job of
             (cmds, Inr result) \<Rightarrow>
               (let w1 = w\<lparr>jw_runs := jw_runs w @ [(j_id job, cmds)],
                           jw_dedup := fst (dedup_record (p_dedup_save env) (p_unix env) (j_id job) (Complete result)
                                              (jw_dedup w))\<rparr>
                in case lease_is_live (p_parse env) (p_clock_after env) job of
                     Inl e \<Rightarrow> (w1, Inl e)
                   | Inr live \<Rightarrow>
                       if \<not> live then (w1, Inr ())
                       else (w1\<lparr>jw_queue := fst (enqueue_complete (p_queue_save env) (j_id job) (j_claim_token job)
                                                  (j_lease_expires_at job) result (jw_queue w1))\<rparr>, Inr ()))
           | (cmds, Inl err) \<Rightarrow>
               (w\<lparr>jw_runs := jw_runs w @ [(j_id job, cmds)],
                  jw_queue := fst (enqueue_fail (p_queue_save env) (j_id job) (j_claim_token job)
                                     (j_lease_expires_at job) (p_message env err) (jw_queue w))\<rparr>, Inr ())))"

definition poll_once :: "PipelineEnv \<Rightarrow> unit + Job option \<Rightarrow> JobWorld \<Rightarrow> JobWorld \<times> (PipelineError + bool)" where
  "poll_once env claimed w =
     (case claimed of
        Inl _ \<Rightarrow> (w, Inl ClaimFailed)
      | Inr None \<Rightarrow> (w, Inr False)
      | Inr (Some job) \<Rightarrow>
          (case lease_is_live (p_parse env) (p_clock_before env) job of
             Inl e \<Rightarrow> (w, Inl e)
           | Inr live \<Rightarrow>
               if \<not> live then (w, Inr True)
               else (case apply_job env job w of (w', Inl e) \<Rightarrow> (w', Inl e) | (w', Inr _) \<Rightarrow> (w', Inr True))))"

section \<open>The log remembers\<close>

text \<open>A log written by a clock that did not go back: ordered by time, nothing in the future.\<close>

definition log_ok :: "nat \<Rightarrow> DedupEntry list \<Rightarrow> bool" where
  "log_ok now es \<longleftrightarrow> sorted (map de_recorded_at es) \<and> (\<forall>e\<in>set es. de_recorded_at e \<le> now)"

lemma log_ok_filter: "log_ok now es \<Longrightarrow> log_ok now (filter P es)"
  by (auto simp: log_ok_def sorted_filter)

lemma log_ok_drop: "log_ok now es \<Longrightarrow> log_ok now (drop n es)"
  by (auto simp: log_ok_def drop_map [symmetric] sorted_wrt_drop dest: in_set_dropD)

lemma log_ok_snoc: "log_ok now es \<Longrightarrow> now \<le> t \<Longrightarrow> de_recorded_at e = t \<Longrightarrow> log_ok t (es @ [e])"
  by (fastforce simp: log_ok_def sorted_append)

lemma prune_log_ok:
  assumes "log_ok now es"
  shows "prune now es = (let fs = filter (\<lambda>e. de_recorded_at e \<ge> now - RETENTION_SECS) es
      in drop (length fs - MAX_ENTRIES) fs)" "log_ok now (prune now es)"
proof -
  have "sort_key de_recorded_at (filter P es) = filter P es" for P
    using log_ok_filter [OF assms, of P] by (simp add: log_ok_def sort_key_id_if_sorted)
  then show p: "prune now es = (let fs = filter (\<lambda>e. de_recorded_at e \<ge> now - RETENTION_SECS) es
      in drop (length fs - MAX_ENTRIES) fs)"
    by (simp add: prune_def Let_def)
  show "log_ok now (prune now es)"
    unfolding p Let_def by (intro log_ok_drop log_ok_filter assms)
qed

lemma prune_length: "length (prune now es) \<le> MAX_ENTRIES"
  by (simp add: prune_def Let_def)

text \<open>An entry is safe while fewer than the capacity are behind it.\<close>

definition safe_at :: "int \<Rightarrow> Outcome \<Rightarrow> nat \<Rightarrow> nat \<Rightarrow> DedupEntry list \<Rightarrow> bool" where
  "safe_at job_id outcome t k es \<longleftrightarrow>
     (\<exists>pre e post. es = pre @ e # post \<and> de_job_id e = job_id \<and> de_outcome e = outcome \<and> de_recorded_at e = t
        \<and> job_id \<notin> de_job_id ` set pre \<and> length post \<le> k)"

lemma safe_lookup: "safe_at j out t k es \<Longrightarrow> find (\<lambda>e. de_job_id e = j) es = Some e \<Longrightarrow> de_outcome e = out"
  unfolding safe_at_def
proof (elim exE conjE)
  fix pre e' post assume a: "es = pre @ e' # post" "de_job_id e' = j" "de_outcome e' = out"
    "j \<notin> de_job_id ` set pre" "find (\<lambda>e. de_job_id e = j) es = Some e"
  have "find (\<lambda>e. de_job_id e = j) pre = None" using a(4) by (auto simp: find_None_iff)
  then have "find (\<lambda>e. de_job_id e = j) (pre @ e' # post) = Some e'"
    using a(2) by (induction pre) (auto split: if_splits)
  then show "de_outcome e = out" using a by simp
qed

lemma safe_find: "safe_at j out t k es \<Longrightarrow> map_option de_outcome (find (\<lambda>e. de_job_id e = j) es) = Some out"
proof -
  assume s: "safe_at j out t k es"
  then have "find (\<lambda>e. de_job_id e = j) es \<noteq> None" by (auto simp: safe_at_def find_None_iff)
  then obtain e where "find (\<lambda>e. de_job_id e = j) es = Some e" by blast
  then show ?thesis using safe_lookup [OF s] by simp
qed

lemma safe_filter:
  assumes "safe_at j out t k es" "\<And>e. de_job_id e = j \<Longrightarrow> de_recorded_at e = t \<Longrightarrow> P e"
  shows "safe_at j out t k (filter P es)"
proof -
  obtain pre e post where e: "es = pre @ e # post" "de_job_id e = j" "de_outcome e = out" "de_recorded_at e = t"
    "j \<notin> de_job_id ` set pre" "length post \<le> k" using assms(1) by (auto simp: safe_at_def)
  have "filter P es = filter P pre @ e # filter P post" using e assms(2) by simp
  moreover have "j \<notin> de_job_id ` set (filter P pre)" using e(5) by auto
  moreover have "length (filter P post) \<le> k" using e(6) length_filter_le [of P post] by linarith
  ultimately show ?thesis unfolding safe_at_def using e(2-4) by blast
qed

lemma safe_snoc: "safe_at j out t k es \<Longrightarrow> safe_at j out t (Suc k) (es @ [x])"
proof -
  assume "safe_at j out t k es"
  then obtain pre e post where e: "es = pre @ e # post" "de_job_id e = j" "de_outcome e = out" "de_recorded_at e = t"
    "j \<notin> de_job_id ` set pre" "length post \<le> k" by (auto simp: safe_at_def)
  then have "es @ [x] = pre @ e # (post @ [x])" "length (post @ [x]) \<le> Suc k" by simp_all
  then show ?thesis unfolding safe_at_def using e(2-5) by blast
qed

lemma safe_drop: "safe_at j out t k es \<Longrightarrow> length es - n > k \<Longrightarrow> safe_at j out t k (drop n es)"
proof -
  assume "safe_at j out t k es" and n: "length es - n > k"
  then obtain pre e post where e: "es = pre @ e # post" "de_job_id e = j" "de_outcome e = out" "de_recorded_at e = t"
    "j \<notin> de_job_id ` set pre" "length post \<le> k" by (auto simp: safe_at_def)
  then have "n \<le> length pre" using n by simp
  then have "drop n es = drop n pre @ e # post" using e(1) by simp
  moreover have "j \<notin> de_job_id ` set (drop n pre)" using e(5) by (auto dest: in_set_dropD)
  ultimately show ?thesis unfolding safe_at_def using e(2-4,6) by blast
qed

lemma prune_keeps:
  assumes "log_ok now es" "safe_at j out t k es" "k < MAX_ENTRIES" "now \<le> t + RETENTION_SECS"
  shows "safe_at j out t k (prune now es)"
proof -
  let ?fs = "filter (\<lambda>e. de_recorded_at e \<ge> now - RETENTION_SECS) es"
  have f: "safe_at j out t k ?fs" using assms(4) by (intro safe_filter [OF assms(2)]) simp
  show ?thesis
  proof (cases "length ?fs \<le> MAX_ENTRIES")
    case True
    then show ?thesis using f by (simp add: prune_log_ok(1) [OF assms(1)] Let_def)
  next
    case False
    then have "k < length ?fs - (length ?fs - MAX_ENTRIES)" using assms(3) by simp
    from safe_drop [OF f this] show ?thesis by (simp add: prune_log_ok(1) [OF assms(1)] Let_def)
  qed
qed

lemma record_other_keeps:
  assumes "log_ok now0 es" "safe_at j out t k es" "Suc k < MAX_ENTRIES" "i \<noteq> j" "now0 \<le> now" "now \<le> t + RETENTION_SECS"
  shows "\<exists>es'. fst (dedup_record ok now i o' (Stored es)) = Stored es' \<and> log_ok now es' \<and> safe_at j out t (Suc k) es'"
proof (cases "ok = SaveRefused")
  case False
  let ?e = "\<lparr>de_job_id = i, de_outcome = o', de_recorded_at = now\<rparr>"
  let ?es = "filter (\<lambda>e. de_job_id e \<noteq> i) es @ [?e]"
  have l: "log_ok now ?es" using log_ok_snoc [OF log_ok_filter [OF assms(1)] assms(5), of ?e] by simp
  have "safe_at j out t k (filter (\<lambda>e. de_job_id e \<noteq> i) es)" using assms(4) by (intro safe_filter [OF assms(2)]) simp
  then have "safe_at j out t (Suc k) ?es" by (rule safe_snoc)
  then have "safe_at j out t (Suc k) (prune now ?es)" using assms(3,6) l by (intro prune_keeps) simp_all
  then show ?thesis
    using False prune_log_ok(2) [OF l] by (cases ok) (simp_all add: dedup_record_def load_file_def save_file_def)
next
  case True
  have "log_ok now es" using assms(1,5) by (auto simp: log_ok_def)
  moreover have "safe_at j out t (Suc k) es" using assms(2) by (auto simp: safe_at_def intro: le_SucI)
  ultimately show ?thesis using True by (simp add: dedup_record_def load_file_def save_file_def)
qed

lemma record_self:
  assumes "load_file f = Inr es" "log_ok now0 es" "now0 \<le> now" "ok \<noteq> SaveRefused"
  shows "\<exists>es'. fst (dedup_record ok now j out f) = Stored es' \<and> log_ok now es' \<and> safe_at j out now 0 es'"
proof -
  let ?e = "\<lparr>de_job_id = j, de_outcome = out, de_recorded_at = now\<rparr>"
  let ?es = "filter (\<lambda>e. de_job_id e \<noteq> j) es @ [?e]"
  have l: "log_ok now ?es" using log_ok_snoc [OF log_ok_filter [OF assms(2)] assms(3), of ?e] by simp
  have "safe_at j out now 0 ?es" unfolding safe_at_def by (intro exI [of _ "filter (\<lambda>e. de_job_id e \<noteq> j) es"] exI) auto
  then have "safe_at j out now 0 (prune now ?es)" using l by (intro prune_keeps) (simp_all add: MAX_ENTRIES_def)
  then show ?thesis
    using prune_log_ok(2) [OF l] assms(1,4) by (cases ok) (simp_all add: dedup_record_def save_file_def)
qed

text \<open>What other deliveries do to the log of the operations.\<close>

lemma apply_job_dedup:
  "jw_dedup (fst (apply_job env job w)) = jw_dedup w
   \<or> (\<exists>ok out. jw_dedup (fst (apply_job env job w)) = fst (dedup_record ok (p_unix env) (j_id job) out (jw_dedup w)))"
  by (auto simp: apply_job_def Let_def split: sum.splits option.splits Outcome.splits prod.splits if_splits)

inductive job_history :: "int \<Rightarrow> nat \<Rightarrow> JobWorld \<Rightarrow> nat \<Rightarrow> JobWorld \<Rightarrow> nat \<Rightarrow> bool" for j where
  hist_start: "job_history j t w t w 0"
| hist_job: "job_history j t w t' w' n \<Longrightarrow> j_id job \<noteq> j \<Longrightarrow> t' \<le> p_unix env \<Longrightarrow>
    job_history j t w (p_unix env) (fst (apply_job env job w')) (Suc n)"
| hist_queue: "job_history j t w t' w' n \<Longrightarrow> job_history j t w t' (w'\<lparr>jw_queue := q\<rparr>) n"

lemma history_keeps:
  assumes "job_history j t w t' w' n" "jw_dedup w = Stored es" "log_ok t es" "safe_at j out t 0 es"
    "n < MAX_ENTRIES" "t' \<le> t + RETENTION_SECS"
  shows "\<exists>es'. jw_dedup w' = Stored es' \<and> log_ok t' es' \<and> safe_at j out t n es'"
  using assms
proof (induction rule: job_history.induct)
  case (hist_start t w)
  then show ?case by auto
next
  case (hist_job t w t' w' n job env)
  then obtain es' where e: "jw_dedup w' = Stored es'" "log_ok t' es'" "safe_at j out t n es'" by auto
  have keep: "\<exists>es''. fst (dedup_record ok (p_unix env) (j_id job) o' (Stored es')) = Stored es''
      \<and> log_ok (p_unix env) es'' \<and> safe_at j out t (Suc n) es''" for ok o'
    using e hist_job by (intro record_other_keeps) auto
  consider "jw_dedup (fst (apply_job env job w')) = jw_dedup w'"
    | ok o' where "jw_dedup (fst (apply_job env job w')) = fst (dedup_record ok (p_unix env) (j_id job) o' (jw_dedup w'))"
    using apply_job_dedup [of env job w'] by blast
  then show ?case
  proof cases
    case 1
    have "log_ok (p_unix env) es'" using e(2) hist_job.hyps(3) by (auto simp: log_ok_def)
    moreover have "safe_at j out t (Suc n) es'" using e(3) by (auto simp: safe_at_def intro: le_SucI)
    ultimately show ?thesis using 1 e(1) by simp
  next
    case 2
    then show ?thesis using keep e(1) by simp
  qed
next
  case (hist_queue t w t' w' n q)
  then show ?case by simp
qed

section \<open>What a delivery pass does\<close>

lemma deliver_Cons_cases:
  obtains (expired) "report_expired env i e" "deliver env i (e # es) m = deliver env (i + 1) es m"
  | (settled) r where "\<not> report_expired env i e" "d_call env i e = Inr r"
    "deliver env i (e # es) m = (e # fst (deliver env (i + 1) es m), snd (deliver env (i + 1) es m))"
  | (exhausted) x where "\<not> report_expired env i e" "d_call env i e = Inl x" "re_attempts e + 1 \<ge> 8"
    "deliver env i (e # es) m = (e # fst (deliver env (i + 1) es m), snd (deliver env (i + 1) es m))"
  | (kept) x where "\<not> report_expired env i e" "d_call env i e = Inl x" "re_attempts e + 1 < 8"
    "fst (deliver env i (e # es) m) = e # fst (deliver env (i + 1) es (max m (re_attempts e + 1)))"
    "fst (snd (deliver env i (e # es) m)) =
       e\<lparr>re_attempts := re_attempts e + 1\<rparr> # fst (snd (deliver env (i + 1) es (max m (re_attempts e + 1))))"
proof (cases "report_expired env i e")
  case True
  then show ?thesis using expired by simp
next
  case l: False
  show ?thesis
  proof (cases "d_call env i e")
    case (Inr r)
    then show ?thesis using settled l by (simp add: case_prod_beta)
  next
    case (Inl x)
    show ?thesis
    proof (cases "re_attempts e + 1 \<ge> 8")
      case True
      have "min (re_attempts e + 1) U32_MAX \<ge> REPORT_MAX_ATTEMPTS" using True by (simp add: U32_MAX_def REPORT_MAX_ATTEMPTS_def)
      then show ?thesis using exhausted [OF l Inl True] Inl l by (simp add: case_prod_beta)
    next
      case False
      have "min (re_attempts e + 1) U32_MAX = re_attempts e + 1" "\<not> re_attempts e + 1 \<ge> REPORT_MAX_ATTEMPTS"
        using False by (simp_all add: U32_MAX_def REPORT_MAX_ATTEMPTS_def)
      then show ?thesis using kept [OF l Inl] False Inl l by (simp add: case_prod_beta)
    qed
  qed
qed

lemma deliver_sent:
  "e \<in> set (fst (deliver env i es m)) \<Longrightarrow> \<exists>k<length es. es ! k = e \<and> \<not> report_expired env (i + k) e"
proof (induction es arbitrary: i m)
  case (Cons x xs)
  have shift: "\<exists>k<length (x # xs). (x # xs) ! k = e \<and> \<not> report_expired env (i + k) e"
    if mem: "e \<in> set (fst (deliver env (i + 1) xs m'))" for m'
  proof -
    obtain k where "k < length xs" "xs ! k = e" "\<not> report_expired env (i + 1 + k) e" using Cons.IH [OF mem] by blast
    then show ?thesis by (intro exI [of _ "Suc k"]) simp
  qed
  have here: "\<exists>k<length (x # xs). (x # xs) ! k = e \<and> \<not> report_expired env (i + k) e"
    if "e = x" "\<not> report_expired env i x" using that by (intro exI [of _ 0]) simp
  show ?case
    using Cons.prems shift here by (cases rule: deliver_Cons_cases [of env i x xs m]) auto
qed simp

lemma deliver_kept:
  "r \<in> set (fst (snd (deliver env i es m))) \<Longrightarrow>
     \<exists>e\<in>set es. r = e\<lparr>re_attempts := re_attempts e + 1\<rparr> \<and> re_attempts r < 8"
proof (induction es arbitrary: i m)
  case (Cons x xs)
  then show ?case by (cases rule: deliver_Cons_cases [of env i x xs m]) fastforce+
qed simp

text \<open>Every entry of a pass is accounted for.\<close>

lemma deliver_accounts:
  "e \<in> set es \<Longrightarrow>
     (\<exists>k<length es. es ! k = e \<and> report_expired env (i + k) e)
     \<or> e \<in> set (fst (deliver env i es m))"
proof (induction es arbitrary: i m)
  case (Cons x xs)
  show ?case
  proof (cases "e = x")
    case True
    show ?thesis
    proof (cases "report_expired env i x")
      case False
      then show ?thesis using True by (cases rule: deliver_Cons_cases [of env i x xs m]) auto
    qed (use True in auto)
  next
    case False
    then have mem: "e \<in> set xs" using Cons.prems by simp
    show ?thesis
    proof (cases "\<exists>k<length xs. xs ! k = e \<and> report_expired env (i + 1 + k) e")
      case True
      then obtain k where "k < length xs" "xs ! k = e" "report_expired env (i + 1 + k) e" by blast
      then show ?thesis by (intro disjI1 exI [of _ "Suc k"]) simp
    next
      case False
      then have "e \<in> set (fst (deliver env (i + 1) xs m'))" for m' using Cons.IH [OF mem] by blast
      then show ?thesis by (cases rule: deliver_Cons_cases [of env i x xs m]) auto
    qed
  qed
qed simp

section \<open>Properties\<close>

text \<open>C21: A job runs once.  After a delivery has run a job and its success was logged, a later
  redelivery of the same job, across restarts, any answers of the control plane and up to 4095 other
  deliveries within the retention period on a clock that does not go back, runs no \<open>vpn-admin\<close> command at all: it only queues the
  recorded result again, under the claim token of the new delivery.\<close>

theorem redelivery_runs_once:
  assumes "load_file (jw_dedup w) = Inr es" "log_ok now0 es" "now0 \<le> p_unix env"
    and miss: "\<forall>r. dedup_lookup (j_id job) (jw_dedup w) \<noteq> Inr (Some (Complete r))"
    and ran: "run_job (p_jobs env) job = (cmds, Inr result)" "p_dedup_save env \<noteq> SaveRefused"
    and hist: "job_history (j_id job) (p_unix env) (fst (apply_job env job w)) t' w' n"
      "n < 4096" "t' \<le> p_unix env + 86400"
    and again: "j_id job' = j_id job"
  shows "apply_job env' job' w' =
    (w'\<lparr>jw_queue := fst (enqueue_complete (p_queue_save env') (j_id job) (j_claim_token job')
                           (j_lease_expires_at job') result (jw_queue w'))\<rparr>, Inr ())"
proof -
  have "jw_dedup (fst (apply_job env job w)) =
      fst (dedup_record (p_dedup_save env) (p_unix env) (j_id job) (Complete result) (jw_dedup w))"
    using miss ran
    by (auto simp: apply_job_def Let_def split: sum.splits option.splits Outcome.splits)
  then obtain es1 where e1: "jw_dedup (fst (apply_job env job w)) = Stored es1" "log_ok (p_unix env) es1"
      "safe_at (j_id job) (Complete result) (p_unix env) 0 es1"
    using record_self [OF assms(1-3) ran(2)] by metis
  obtain es2 where e2: "jw_dedup w' = Stored es2" "safe_at (j_id job) (Complete result) (p_unix env) n es2"
    using history_keeps [OF hist(1) e1] hist(2,3) by (auto simp: MAX_ENTRIES_def RETENTION_SECS_def)
  have "dedup_lookup (j_id job') (jw_dedup w') = Inr (Some (Complete result))"
    using safe_find [OF e2(2)] by (simp add: dedup_lookup_def e2(1) load_file_def again)
  then show ?thesis by (simp add: apply_job_def again)
qed

definition example_job :: Job where
  "example_job = \<lparr>j_id = 7, j_type = ''CLEAR_EXPIRY'', j_payload = jobj [(''vpn_user_id'', JStr ''u1'')],
     j_claim_token = ''claim-1'', j_lease_expires_at = ''later''\<rparr>"

definition example_pipeline :: PipelineEnv where
  "example_pipeline =
     \<lparr>p_jobs = (\<lambda>_. \<lparr>je_admin = (\<lambda>_. AdminOk None), je_fetch = (\<lambda>_. None), je_parse = (\<lambda>_. None)\<rparr>),
      p_parse = (\<lambda>_. Some 100), p_unix = 1000, p_clock_before = 1, p_clock_after = 2, p_dedup_save = SaveOk,
      p_queue_save = SaveOk, p_message = (\<lambda>_. [])\<rparr>"

lemma example_job_runs:
  "run_job (p_jobs example_pipeline) example_job = ([[''user'', ''clear-expiry'', ''u1'']], Inr (jobj []))"
  by (simp add: run_job_def DISPATCH_MAX_ATTEMPTS_def numeral_3_eq_3 run_job_once_def example_job_def
      example_pipeline_def clear_expiry_def payload_str_def get_readers_jobj adm_after_def adm_then_def
      require_success_def)

theorem redelivery_runs_once_witness:
  "let w = fst (apply_job example_pipeline example_job \<lparr>jw_dedup = NoFile, jw_queue = NoFile, jw_runs = []\<rparr>) in
   jw_runs (fst (apply_job example_pipeline (example_job\<lparr>j_claim_token := ''claim-2''\<rparr>) w)) = jw_runs w"
proof -
  let ?start = "\<lparr>jw_dedup = NoFile, jw_queue = NoFile, jw_runs = []\<rparr>"
  let ?w = "fst (apply_job example_pipeline example_job ?start)"
  have u: "p_unix example_pipeline = 1000" "p_dedup_save example_pipeline \<noteq> SaveRefused" by (simp_all add: example_pipeline_def)
  have "apply_job example_pipeline (example_job\<lparr>j_claim_token := ''claim-2''\<rparr>) ?w =
    (?w\<lparr>jw_queue := fst (enqueue_complete (p_queue_save example_pipeline) (j_id example_job)
        (j_claim_token (example_job\<lparr>j_claim_token := ''claim-2''\<rparr>))
        (j_lease_expires_at (example_job\<lparr>j_claim_token := ''claim-2''\<rparr>)) (jobj []) (jw_queue ?w))\<rparr>, Inr ())"
    by (rule redelivery_runs_once [of ?start "[]" 0, OF _ _ _ _ example_job_runs u(2)
        hist_start [of "j_id example_job" "p_unix example_pipeline" ?w]])
      (simp_all add: load_file_def log_ok_def dedup_lookup_def)
  then show ?thesis by (simp add: Let_def)
qed

text \<open>Reports are sent only under a live claim.  A delivery pass sends a report for exactly the
  entries whose lease deadline parses and lies in the future when their turn comes, each with its
  own claim token and outcome; an entry it keeps for a retry differs only by one more attempt, and
  has been tried fewer than eight times.\<close>

theorem reports_only_under_live_lease:
  assumes "deliver env 0 es 0 = (sent, kept, m)"
  shows "(\<forall>e\<in>set sent. \<exists>k<length es. es ! k = e
      \<and> (\<exists>deadline. d_parse env (re_lease_expires_at e) = Some deadline \<and> d_clock env k < deadline))
    \<and> (\<forall>e\<in>set es. e \<in> set sent \<or> (\<exists>k<length es. es ! k = e
      \<and> (\<forall>deadline. d_parse env (re_lease_expires_at e) = Some deadline \<longrightarrow> deadline \<le> d_clock env k)))
    \<and> (\<forall>r\<in>set kept. \<exists>e\<in>set es. r = e\<lparr>re_attempts := re_attempts e + 1\<rparr> \<and> re_attempts r < 8)"
proof -
  have s: "\<exists>k<length es. es ! k = e
      \<and> (\<exists>deadline. d_parse env (re_lease_expires_at e) = Some deadline \<and> d_clock env k < deadline)"
    if mem: "e \<in> set sent" for e
  proof -
    obtain k where "k < length es" "es ! k = e" "\<not> report_expired env (0 + k) e"
      using deliver_sent [of e env 0 es 0] mem assms by auto
    then show ?thesis by (auto simp: report_expired_def split: option.splits)
  qed
  have a: "e \<in> set sent \<or> (\<exists>k<length es. es ! k = e
      \<and> (\<forall>deadline. d_parse env (re_lease_expires_at e) = Some deadline \<longrightarrow> deadline \<le> d_clock env k))"
    if "e \<in> set es" for e
    using deliver_accounts [OF that, of env 0 0] assms by (fastforce simp: report_expired_def split: option.splits)
  show ?thesis using s a deliver_kept [of _ env 0 es 0] assms by auto
qed

definition example_report :: "string \<Rightarrow> ReportEntry" where
  "example_report token = \<lparr>re_job_id = 7, re_claim_token = token, re_lease_expires_at = ''later'',
     re_outcome = Fail ''no'', re_attempts = 0\<rparr>"

definition example_delivery :: "unit + ReportDisposition \<Rightarrow> DeliveryEnv" where
  "example_delivery answer = \<lparr>d_parse = (\<lambda>_. Some 100), d_clock = (\<lambda>_. 5), d_call = (\<lambda>_ _. answer)\<rparr>"

theorem reports_only_under_live_lease_witness:
  "deliver (example_delivery (Inl ())) 0 [example_report ''a''] 0
     = ([example_report ''a''], [(example_report ''a'')\<lparr>re_attempts := 1\<rparr>], 1)
   \<and> (\<exists>deadline. d_parse (example_delivery (Inl ())) (re_lease_expires_at (example_report ''a'')) = Some deadline
        \<and> d_clock (example_delivery (Inl ())) 0 < deadline)"
proof -
  have d: "deliver (example_delivery (Inl ())) 0 [example_report ''a''] 0
     = ([example_report ''a''], [(example_report ''a'')\<lparr>re_attempts := 1\<rparr>], 1)"
    by (simp add: example_delivery_def example_report_def report_expired_def U32_MAX_def REPORT_MAX_ATTEMPTS_def)
  from reports_only_under_live_lease [OF d] d show ?thesis by simp
qed

text \<open>C34: Delivery terminates.  Whatever the control plane answers, and however long it is
  unreachable, eight passes over a queue of new reports, the result of each written back before the
  next, leave it empty: every report has been delivered, refused for good, found expired or given
  up.\<close>

theorem report_queue_drains:
  assumes "length envs = 8" "\<forall>e\<in>set es. re_attempts e = 0"
  shows "fold (\<lambda>env es. fst (snd (deliver env 0 es 0))) envs es = []"
proof -
  have "r \<in> set (fold (\<lambda>env es. fst (snd (deliver env 0 es 0))) envs es) \<Longrightarrow> n + length envs \<le> re_attempts r"
    if "\<forall>e\<in>set es. n \<le> re_attempts e" for r n envs es
    using that
  proof (induction envs arbitrary: es n)
    case (Cons env envs)
    have "\<forall>e\<in>set (fst (snd (deliver env 0 es 0))). Suc n \<le> re_attempts e"
      using Cons.prems(2) deliver_kept by fastforce
    then show ?case using Cons.IH [of "fst (snd (deliver env 0 es 0))" "Suc n"] Cons.prems(1) by simp
  qed simp
  then have ge: "r \<in> set (fold (\<lambda>env es. fst (snd (deliver env 0 es 0))) envs es) \<Longrightarrow> 8 \<le> re_attempts r" for r
    using assms by fastforce
  obtain env envs' where e: "envs = envs' @ [env]" using assms(1) by (metis append_butlast_last_id length_0_conv zero_neq_numeral)
  have "r \<in> set (fold (\<lambda>env es. fst (snd (deliver env 0 es 0))) envs es) \<Longrightarrow> re_attempts r < 8" for r
    unfolding e using deliver_kept by fastforce
  then show ?thesis using ge by (metis leD list.set_intros(1) neq_Nil_conv)
qed

theorem report_queue_drains_witness:
  "fold (\<lambda>env es. fst (snd (deliver env 0 es 0))) (replicate 8 (example_delivery (Inl ()))) [example_report ''a''] = []"
  using report_queue_drains [of "replicate 8 (example_delivery (Inl ()))" "[example_report ''a'']"]
  by (simp add: example_report_def)

text \<open>C22: The queue file is not protected against the two tasks that share it.  A report that the
  main task queues, successfully, while the delivery task is waiting for an answer is overwritten
  when the delivery task writes back what it had loaded: it is never sent, and no longer on disk.\<close>

theorem report_lost_during_delivery:
  "\<exists>w r env. q_file w = Stored [example_report ''a''] \<and>
     (let w1 = queue_load w; w2 = fst (queue_enqueue SaveOk r w1); w3 = queue_finish env SaveOk w2 in
      snd (queue_enqueue SaveOk r w1) = Inr () \<and> q_file w2 = Stored [example_report ''a'', r]
      \<and> r \<notin> set (snd w3) \<and> q_file (fst w3) = Stored [])"
proof -
  let ?w = "\<lparr>q_file = Stored [example_report ''a''], q_loaded = None\<rparr>"
  have "deliver (example_delivery (Inr Accepted)) 0 [example_report ''a''] 0 = ([example_report ''a''], [], 0)"
    by (simp add: example_delivery_def example_report_def report_expired_def)
  moreover have "example_report ''b'' \<noteq> example_report ''a''" by (simp add: example_report_def)
  ultimately show ?thesis
    by (intro exI [of _ ?w] exI [of _ "example_report ''b''"] exI [of _ "example_delivery (Inr Accepted)"])
      (simp add: Let_def queue_load_def queue_enqueue_def queue_finish_def enqueue_def load_file_def save_file_def
        MAX_PENDING_def)
qed

text \<open>A job that fails has been tried exactly three times, and a job that succeeds was not tried
  again after its first success: the commands run are those of the failed attempts and then of the
  successful one.\<close>

theorem run_job_attempts:
  "let once = (\<lambda>k. run_job_once (envs k) job); failed = (\<lambda>k. \<exists>e. snd (once k) = Inl e) in
   case run_job envs job of
     (cmds, Inl e) \<Rightarrow> failed 1 \<and> failed 2 \<and> snd (once 3) = Inl e \<and> cmds = fst (once 1) @ fst (once 2) @ fst (once 3)
   | (cmds, Inr r) \<Rightarrow>
       snd (once 1) = Inr r \<and> cmds = fst (once 1)
       \<or> failed 1 \<and> snd (once 2) = Inr r \<and> cmds = fst (once 1) @ fst (once 2)
       \<or> failed 1 \<and> failed 2 \<and> snd (once 3) = Inr r \<and> cmds = fst (once 1) @ fst (once 2) @ fst (once 3)"
proof -
  obtain c1 r1 where 1: "run_job_once (envs 1) job = (c1, r1)" by (cases "run_job_once (envs 1) job")
  obtain c2 r2 where 2: "run_job_once (envs 2) job = (c2, r2)" by (cases "run_job_once (envs 2) job")
  obtain c3 r3 where 3: "run_job_once (envs 3) job = (c3, r3)" by (cases "run_job_once (envs 3) job")
  have R: "run_job envs job = (case r1 of Inr x \<Rightarrow> (c1, Inr x) | Inl _ \<Rightarrow>
      (case r2 of Inr x \<Rightarrow> (c1 @ c2, Inr x) | Inl _ \<Rightarrow> (c1 @ c2 @ c3, r3)))"
    using 1 2 3
    by (simp add: run_job_def DISPATCH_MAX_ATTEMPTS_def numeral_3_eq_3 numeral_2_eq_2 split: sum.split)
  show ?thesis
    unfolding R Let_def 1 2 3 by (simp split: sum.split)
qed

end
