(* ===== verification/ExternalSync.thy ===== *)
theory ExternalSync
  imports StoreWriters Jobs
begin

text \<open>
  The agent's reconciliation of control-plane compatibility authorizations,
  \<open>apps/provisioning-agent/src/external_authorization.rs\<close>: the two wire schemas, quarantine of
  single credentials, adoption of a snapshot revision, the durable state and its two file
  formats, and the tick that fetches, applies and acknowledges.  The control plane, the
  \<open>vpn-admin\<close> process, the file system and the RFC 3339 parser are what the environment of a tick
  answers.  The lemmas follow a history of ticks and restarts: what the durable revision admits
  only narrows until a newer one, what is acknowledged was applied, and expiry is enforced
  whatever the control plane answers.
\<close>

definition MAX_EXTERNAL_AUTHORIZATIONS :: nat where "MAX_EXTERNAL_AUTHORIZATIONS = 4096"

datatype ExtError =
    ExtBadResponse | ExtUnsupportedSchema | ExtTooMany | ExtInvalid AuthError | ExtNotCompatibility
  | ExtBadRoute | ExtBadValidFrom | ExtBadValidUntil | ExtBadItem
  | ExtStale | ExtContentChanged | ExtDowngrade
  | ExtSaveFailed | ExtStageFailed | ExtApplyFailed string | ExtNotLive
  | ExtFetchFailed string | ExtAckFailed string | ExtQuarantined "string list"
  | ExtStateUnreadable | ExtStateCorrupt

section \<open>The wire schemas\<close>

record WireProtocol =
  wp_vless_uuid :: "string option"
  wp_hysteria2_password :: "string option"

record V2WireAuthorization =
  wa_principal_id :: string
  wa_credential_id :: string
  wa_class :: AuthClass
  wa_valid_from :: string
  wa_valid_until :: string
  wa_revoked :: bool
  wa_protocol :: WireProtocol

record LegacyWireAuthorization = V2WireAuthorization +
  wa_logical_route_id :: string

record ParsedSnapshot =
  ps_desired :: AuthorizationSet
  ps_snapshot_revision :: "nat option"
  ps_quarantined :: "string list"

definition wire_protocol_of_json :: "json \<Rightarrow> WireProtocol option" where
  "wire_protocol_of_json v =
     Option.bind (struct_fields [''vless_uuid'', ''hysteria2_password''] v) (\<lambda>j.
     Option.bind (opt_field as_str ''vless_uuid'' j) (\<lambda>uuid.
     Option.bind (opt_field as_str ''hysteria2_password'' j) (\<lambda>password.
       Some \<lparr>wp_vless_uuid = uuid, wp_hysteria2_password = password\<rparr>)))"

definition v2_item_of_json :: "json \<Rightarrow> V2WireAuthorization option" where
  "v2_item_of_json v =
     Option.bind (struct_fields [''principal_id'', ''credential_id'', ''class'', ''valid_from'',
         ''valid_until'', ''revoked'', ''protocol''] v) (\<lambda>j.
     Option.bind (get_str ''principal_id'' j) (\<lambda>pid.
     Option.bind (get_str ''credential_id'' j) (\<lambda>cid.
     Option.bind (Option.bind (jget ''class'' j) as_class) (\<lambda>cls.
     Option.bind (get_str ''valid_from'' j) (\<lambda>vf.
     Option.bind (get_str ''valid_until'' j) (\<lambda>vu.
     Option.bind (default_bool ''revoked'' j) (\<lambda>rev.
     Option.bind (Option.bind (jget ''protocol'' j) wire_protocol_of_json) (\<lambda>proto.
       Some \<lparr>wa_principal_id = pid, wa_credential_id = cid, wa_class = cls, wa_valid_from = vf,
             wa_valid_until = vu, wa_revoked = rev, wa_protocol = proto\<rparr>))))))))"

definition legacy_item_of_json :: "json \<Rightarrow> LegacyWireAuthorization option" where
  "legacy_item_of_json v =
     Option.bind (struct_fields [''principal_id'', ''credential_id'', ''class'', ''logical_route_id'',
         ''valid_from'', ''valid_until'', ''revoked'', ''protocol''] v) (\<lambda>j.
     Option.bind (get_str ''principal_id'' j) (\<lambda>pid.
     Option.bind (get_str ''credential_id'' j) (\<lambda>cid.
     Option.bind (Option.bind (jget ''class'' j) as_class) (\<lambda>cls.
     Option.bind (get_str ''logical_route_id'' j) (\<lambda>route.
     Option.bind (get_str ''valid_from'' j) (\<lambda>vf.
     Option.bind (get_str ''valid_until'' j) (\<lambda>vu.
     Option.bind (default_bool ''revoked'' j) (\<lambda>rev.
     Option.bind (Option.bind (jget ''protocol'' j) wire_protocol_of_json) (\<lambda>proto.
       Some \<lparr>wa_principal_id = pid, wa_credential_id = cid, wa_class = cls, wa_valid_from = vf,
             wa_valid_until = vu, wa_revoked = rev, wa_protocol = proto,
             wa_logical_route_id = route\<rparr>)))))))))"

definition v2_snapshot_of_json :: "json \<Rightarrow> (nat \<times> nat \<times> json list) option" where
  "v2_snapshot_of_json v =
     Option.bind (struct_fields [''schema_version'', ''snapshot_revision'', ''authorizations''] v) (\<lambda>j.
     Option.bind (Option.bind (jget ''schema_version'' j) as_u8) (\<lambda>version.
     Option.bind (get_u64 ''snapshot_revision'' j) (\<lambda>revision.
     Option.bind (get_array ''authorizations'' j) (\<lambda>items.
       Some (version, revision, items)))))"

definition legacy_snapshot_of_json :: "json \<Rightarrow> LegacyWireAuthorization list option" where
  "legacy_snapshot_of_json v =
     Option.bind (struct_fields [''authorizations''] v) (\<lambda>j.
     Option.bind (get_array ''authorizations'' j) (\<lambda>items.
       those (map legacy_item_of_json items)))"

section \<open>Snapshots\<close>

definition valid_route_id :: "string \<Rightarrow> bool" where
  "valid_route_id value \<longleftrightarrow>
     starts_with ''route_'' value \<and> 7 \<le> length value \<and> length value \<le> 96
     \<and> list_all (\<lambda>b. is_ascii_alphanumeric b \<or> b = CHR ''_'' \<or> b = CHR ''-'') value"

type_synonym rfc3339 = "string \<Rightarrow> int option"

definition convert_authorization ::
    "rfc3339 \<Rightarrow> 'a V2WireAuthorization_scheme \<Rightarrow> ExtError + Authorization" where
  "convert_authorization parse w =
     rbind (of_opt ExtBadValidFrom (parse (wa_valid_from w))) (\<lambda>from.
     rbind (of_opt ExtBadValidUntil (parse (wa_valid_until w))) (\<lambda>until.
     Inr \<lparr>a_principal_id = wa_principal_id w, a_credential_id = wa_credential_id w,
          a_class = wa_class w, a_valid_from = from, a_valid_until = until, a_revoked = wa_revoked w,
          a_vless_uuid = wp_vless_uuid (wa_protocol w),
          a_hysteria2_password = wp_hysteria2_password (wa_protocol w)\<rparr>))"

definition validate_external_set :: "AuthorizationSet \<Rightarrow> ExtError + AuthorizationSet" where
  "validate_external_set desired =
     (if length desired > MAX_EXTERNAL_AUTHORIZATIONS then Inl ExtTooMany
      else rbind (map_err ExtInvalid (validate_authorization_set desired)) (\<lambda>_.
      if list_ex (\<lambda>a. a_class a \<noteq> AuthCompatibility) desired then Inl ExtNotCompatibility
      else Inr desired))"

definition enforce_snapshot_size :: "nat \<Rightarrow> ExtError + unit" where
  "enforce_snapshot_size n = (if n > MAX_EXTERNAL_AUTHORIZATIONS then Inl ExtTooMany else Inr ())"

definition quarantine_label :: "string \<Rightarrow> string" where
  "quarantine_label credential_id =
     (if starts_with ''cred_'' credential_id \<and> length credential_id \<le> 96
         \<and> list_all (\<lambda>b. is_ascii_alphanumeric b \<or> b = CHR ''_'' \<or> b = CHR ''-'') credential_id
      then credential_id else ''<unidentifiable>'')"

definition finish_v2_item :: "rfc3339 \<Rightarrow> V2WireAuthorization \<Rightarrow> ExtError + Authorization" where
  "finish_v2_item parse item =
     rbind (convert_authorization parse item) (\<lambda>a.
     rbind (map_err ExtInvalid (validate_item a)) (\<lambda>_.
     if a_class a \<noteq> AuthCompatibility then Inl ExtNotCompatibility else Inr a))"

fun v2_items ::
    "rfc3339 \<Rightarrow> json list \<Rightarrow> Authorization list \<Rightarrow> string list \<Rightarrow> ExtError + (Authorization list \<times> string list)" where
  "v2_items parse [] authorizations quarantined = Inr (authorizations, quarantined)"
| "v2_items parse (raw # raws) authorizations quarantined =
     (case v2_item_of_json raw of
        None \<Rightarrow> Inl ExtBadItem
      | Some item \<Rightarrow>
          (case finish_v2_item parse item of
             Inr a \<Rightarrow> v2_items parse raws (authorizations @ [a]) quarantined
           | Inl _ \<Rightarrow> v2_items parse raws authorizations
                       (quarantined @ [quarantine_label (wa_credential_id item)])))"

definition legacy_item :: "rfc3339 \<Rightarrow> LegacyWireAuthorization \<Rightarrow> ExtError + Authorization" where
  "legacy_item parse item =
     (if \<not> valid_route_id (wa_logical_route_id item) then Inl ExtBadRoute
      else convert_authorization parse item)"

definition parse_v2 :: "rfc3339 \<Rightarrow> json \<Rightarrow> ExtError + ParsedSnapshot" where
  "parse_v2 parse value =
     rbind (of_opt ExtBadResponse (v2_snapshot_of_json value)) (\<lambda>(version, revision, items).
     if version \<noteq> 2 then Inl ExtUnsupportedSchema
     else rbind (enforce_snapshot_size (length items)) (\<lambda>_.
     rbind (v2_items parse items [] []) (\<lambda>(authorizations, quarantined).
     rbind (validate_external_set authorizations) (\<lambda>desired.
     Inr \<lparr>ps_desired = desired, ps_snapshot_revision = Some revision, ps_quarantined = quarantined\<rparr>))))"

definition parse_legacy :: "rfc3339 \<Rightarrow> json \<Rightarrow> ExtError + ParsedSnapshot" where
  "parse_legacy parse value =
     rbind (of_opt ExtBadResponse (legacy_snapshot_of_json value)) (\<lambda>items.
     rbind (enforce_snapshot_size (length items)) (\<lambda>_.
     rbind (map_result (legacy_item parse) items) (\<lambda>authorizations.
     rbind (validate_external_set authorizations) (\<lambda>desired.
     Inr \<lparr>ps_desired = desired, ps_snapshot_revision = None, ps_quarantined = []\<rparr>))))"

definition parse_snapshot :: "rfc3339 \<Rightarrow> json \<Rightarrow> ExtError + ParsedSnapshot" where
  "parse_snapshot parse value =
     (if jget ''schema_version'' value \<noteq> None then parse_v2 parse value else parse_legacy parse value)"

section \<open>The durable state\<close>

record PersistedExternalState =
  pe_desired :: AuthorizationSet
  pe_snapshot_revision :: "nat option"
  pe_applied_snapshot_revision :: "nat option"
  pe_acknowledged_snapshot_revision :: "nat option"

definition default_external_state :: PersistedExternalState where
  "default_external_state =
     \<lparr>pe_desired = [], pe_snapshot_revision = None, pe_applied_snapshot_revision = None,
      pe_acknowledged_snapshot_revision = None\<rparr>"

definition opt_entry :: "string \<Rightarrow> ('a \<Rightarrow> json) \<Rightarrow> 'a option \<Rightarrow> (string \<times> json) list" where
  "opt_entry k f v = (case v of None \<Rightarrow> [] | Some x \<Rightarrow> [(k, f x)])"

definition authorization_json :: "Authorization \<Rightarrow> json" where
  "authorization_json a =
     jobj ([(''principal_id'', JStr (a_principal_id a)), (''credential_id'', JStr (a_credential_id a)),
            (''class'', auth_class_json (a_class a)), (''valid_from'', JInt (a_valid_from a)),
            (''valid_until'', JInt (a_valid_until a)), (''revoked'', JBool (a_revoked a))]
           @ opt_entry ''vless_uuid'' JStr (a_vless_uuid a)
           @ opt_entry ''hysteria2_password'' JStr (a_hysteria2_password a))"

definition authorization_of_json :: "json \<Rightarrow> Authorization option" where
  "authorization_of_json v =
     Option.bind (struct_fields [''principal_id'', ''credential_id'', ''class'', ''valid_from'',
         ''valid_until'', ''revoked'', ''vless_uuid'', ''hysteria2_password''] v) (\<lambda>j.
     Option.bind (get_str ''principal_id'' j) (\<lambda>pid.
     Option.bind (get_str ''credential_id'' j) (\<lambda>cid.
     Option.bind (Option.bind (jget ''class'' j) as_class) (\<lambda>cls.
     Option.bind (get_i64 ''valid_from'' j) (\<lambda>vf.
     Option.bind (get_i64 ''valid_until'' j) (\<lambda>vu.
     Option.bind (default_bool ''revoked'' j) (\<lambda>rev.
     Option.bind (opt_field as_str ''vless_uuid'' j) (\<lambda>uuid.
     Option.bind (opt_field as_str ''hysteria2_password'' j) (\<lambda>password.
       Some \<lparr>a_principal_id = pid, a_credential_id = cid, a_class = cls, a_valid_from = vf,
             a_valid_until = vu, a_revoked = rev, a_vless_uuid = uuid,
             a_hysteria2_password = password\<rparr>)))))))))"

definition set_json :: "AuthorizationSet \<Rightarrow> json" where
  "set_json s = jobj [(''authorizations'', JArr (map authorization_json s))]"

definition set_of_json :: "json \<Rightarrow> AuthorizationSet option" where
  "set_of_json v =
     Option.bind (struct_fields [''authorizations''] v) (\<lambda>j.
     Option.bind (get_array ''authorizations'' j) (\<lambda>items.
       those (map authorization_of_json items)))"

definition persisted_json :: "PersistedExternalState \<Rightarrow> json" where
  "persisted_json st =
     jobj ([(''desired'', set_json (pe_desired st))]
           @ opt_entry ''snapshot_revision'' jnat (pe_snapshot_revision st)
           @ opt_entry ''applied_snapshot_revision'' jnat (pe_applied_snapshot_revision st)
           @ opt_entry ''acknowledged_snapshot_revision'' jnat (pe_acknowledged_snapshot_revision st))"

definition persisted_of_json :: "json \<Rightarrow> PersistedExternalState option" where
  "persisted_of_json v =
     Option.bind (struct_fields [''desired'', ''snapshot_revision'', ''applied_snapshot_revision'',
         ''acknowledged_snapshot_revision''] v) (\<lambda>j.
     Option.bind (Option.bind (jget ''desired'' j) set_of_json) (\<lambda>desired.
     Option.bind (opt_field as_u64 ''snapshot_revision'' j) (\<lambda>snapshot.
     Option.bind (opt_field as_u64 ''applied_snapshot_revision'' j) (\<lambda>applied.
     Option.bind (opt_field as_u64 ''acknowledged_snapshot_revision'' j) (\<lambda>acknowledged.
       Some \<lparr>pe_desired = desired, pe_snapshot_revision = snapshot,
             pe_applied_snapshot_revision = applied,
             pe_acknowledged_snapshot_revision = acknowledged\<rparr>)))))"

text \<open>What reading the state file gives: no file, another error, or bytes that are a JSON document
  or not.\<close>

datatype ext_file = ExtMissing | ExtUnreadable | ExtBytes "json option"

definition ext_load_state :: "ext_file \<Rightarrow> ExtError + PersistedExternalState" where
  "ext_load_state file_read =
     (case file_read of
        ExtMissing \<Rightarrow> Inr default_external_state
      | ExtUnreadable \<Rightarrow> Inl ExtStateUnreadable
      | ExtBytes None \<Rightarrow> Inl ExtStateCorrupt
      | ExtBytes (Some j) \<Rightarrow>
          rbind (case persisted_of_json j of
                   Some st \<Rightarrow> Inr st
                 | None \<Rightarrow> (case set_of_json j of
                              Some desired \<Rightarrow> Inr (default_external_state\<lparr>pe_desired := desired\<rparr>)
                            | None \<Rightarrow> Inl ExtStateCorrupt)) (\<lambda>st.
          rbind (map_err ExtInvalid (validate_authorization_set (pe_desired st))) (\<lambda>_. Inr st)))"

section \<open>Adoption of a snapshot\<close>

definition same_credential :: "Authorization \<Rightarrow> Authorization \<Rightarrow> bool" where
  "same_credential a b \<longleftrightarrow>
     a_principal_id a = a_principal_id b \<and> a_credential_id a = a_credential_id b"

definition tightened :: "AuthorizationSet \<Rightarrow> Authorization \<Rightarrow> bool" where
  "tightened current incoming \<longleftrightarrow>
     (case find (\<lambda>held. same_credential held incoming) current of
        None \<Rightarrow> False
      | Some held \<Rightarrow>
          if a_revoked held \<and> \<not> a_revoked incoming then False
          else authorization_json (incoming\<lparr>a_revoked := a_revoked held\<rparr>) = authorization_json held)"

definition only_tightens :: "AuthorizationSet \<Rightarrow> AuthorizationSet \<Rightarrow> string list \<Rightarrow> bool" where
  "only_tightens current next quarantined \<longleftrightarrow>
     list_all (\<lambda>held. list_ex (same_credential held) next
                 \<or> list_ex (\<lambda>label. label = a_credential_id held) quarantined) current
     \<and> list_all (tightened current) next"

definition adopt_snapshot ::
    "PersistedExternalState \<Rightarrow> ParsedSnapshot \<Rightarrow> ExtError + (PersistedExternalState \<times> bool)" where
  "adopt_snapshot st next =
     (let desired_changed = (set_json (ps_desired next) \<noteq> set_json (pe_desired st)) in
      rbind (case (pe_snapshot_revision st, ps_snapshot_revision next) of
               (Some current, Some incoming) \<Rightarrow>
                 if incoming < current then Inl ExtStale
                 else if incoming = current \<and> desired_changed
                 then (if \<not> only_tightens (pe_desired st) (ps_desired next) (ps_quarantined next)
                       then Inl ExtContentChanged else Inr ())
                 else Inr ()
             | (Some _, None) \<Rightarrow> Inl ExtDowngrade
             | _ \<Rightarrow> Inr ()) (\<lambda>_.
      if desired_changed \<or> ps_snapshot_revision next \<noteq> pe_snapshot_revision st
      then Inr (\<lparr>pe_desired = ps_desired next, pe_snapshot_revision = ps_snapshot_revision next,
                 pe_applied_snapshot_revision = None, pe_acknowledged_snapshot_revision = None\<rparr>, True)
      else Inr (st, False)))"

section \<open>The reconciler\<close>

datatype ext_fetch = NotModified | Fresh json "string option"

datatype ext_action =
    FetchAuthorizations "string option"
  | SaveExternal PersistedExternalState
  | RunExternal AuthorizationSet bool
  | AckExternal nat

record ExternalReconciler =
  er_disk :: ext_file
  er_state :: PersistedExternalState
  er_fingerprint :: "json option"
  er_applied_this_process :: bool
  er_etag :: "string option"
  er_quarantined :: "string list"

text \<open>What one tick sees of the world; \<open>xe_save\<close> tells how its first, second and third write of the
  state file end.\<close>

record ExtEnv =
  xe_now :: int
  xe_fetch_due :: bool
  xe_fetch :: "string option \<Rightarrow> string + ext_fetch"
  xe_parse :: rfc3339
  xe_save :: "nat \<Rightarrow> save_outcome"
  xe_stage_ok :: bool
  xe_vpn_admin :: "json \<Rightarrow> string + json"
  xe_ack :: "nat \<Rightarrow> string + unit"

type_synonym 'a er = "(ExternalReconciler, ext_action, ExtError, 'a) traced"

definition ext_open :: "ext_file \<Rightarrow> ExtError + ExternalReconciler" where
  "ext_open disk =
     rbind (ext_load_state disk) (\<lambda>st.
     Inr \<lparr>er_disk = disk, er_state = st, er_fingerprint = None, er_applied_this_process = False,
          er_etag = None, er_quarantined = []\<rparr>)"

definition ext_save :: "save_outcome \<Rightarrow> unit er" where
  "ext_save outcome r =
     (case outcome of
        SaveRefused \<Rightarrow> (r, [], Inl ExtSaveFailed)
      | SaveOk \<Rightarrow> (r\<lparr>er_disk := ExtBytes (Some (persisted_json (er_state r)))\<rparr>,
                   [SaveExternal (er_state r)], Inr ())
      | SaveUnsynced \<Rightarrow> (r\<lparr>er_disk := ExtBytes (Some (persisted_json (er_state r)))\<rparr>,
                         [SaveExternal (er_state r)], Inl ExtSaveFailed))"

definition effective_fingerprint :: "AuthorizationSet \<Rightarrow> int \<Rightarrow> json" where
  "effective_fingerprint s now = JArr (map authorization_json (active_at s now))"

definition ext_apply :: "ExtEnv \<Rightarrow> unit er" where
  "ext_apply env r =
     (if \<not> xe_stage_ok env then (r, [], Inl ExtStageFailed)
      else case xe_vpn_admin env (set_json (pe_desired (er_state r))) of
        Inl e \<Rightarrow> (r, [RunExternal (pe_desired (er_state r)) False], Inl (ExtApplyFailed e))
      | Inr parsed \<Rightarrow>
          if get_bool ''live'' parsed \<noteq> Some True
          then (r, [RunExternal (pe_desired (er_state r)) False], Inl ExtNotLive)
          else (r, [RunExternal (pe_desired (er_state r)) True], Inr ()))"

definition accept_body :: "ExtEnv \<Rightarrow> json \<Rightarrow> string option \<Rightarrow> ExtError option er" where
  "accept_body env body etag r =
     (let parsed = parse_snapshot (xe_parse env) body;
          quarantined = (case parsed of Inr next \<Rightarrow> ps_quarantined next | Inl _ \<Rightarrow> []) in
      case rbind parsed (adopt_snapshot (er_state r)) of
        Inr (st, changed) \<Rightarrow>
          tr_bind (if changed then ext_save (xe_save env 0) else tr_return ())
            (\<lambda>_ r. (r\<lparr>er_etag := etag\<rparr>, [], Inr None))
            (r\<lparr>er_state := st, er_quarantined := quarantined\<rparr>)
      | Inl e \<Rightarrow> (r\<lparr>er_etag := None\<rparr>, [], Inr (Some e)))"

definition fetch_phase :: "ExtEnv \<Rightarrow> ExtError option er" where
  "fetch_phase env r =
     (if \<not> xe_fetch_due env then (r, [], Inr None)
      else case (case xe_fetch env (er_etag r) of
                   Inl e \<Rightarrow> (r, [], Inr (Some (ExtFetchFailed e)))
                 | Inr NotModified \<Rightarrow> (r, [], Inr None)
                 | Inr (Fresh body etag) \<Rightarrow> accept_body env body etag r) of
             (r1, t, res) \<Rightarrow> (r1, FetchAuthorizations (er_etag r) # t, res))"

definition apply_needed :: "ExtEnv \<Rightarrow> ExternalReconciler \<Rightarrow> bool" where
  "apply_needed env r \<longleftrightarrow>
     \<not> er_applied_this_process r
     \<or> Some (effective_fingerprint (pe_desired (er_state r)) (xe_now env)) \<noteq> er_fingerprint r
     \<or> (pe_snapshot_revision (er_state r) \<noteq> None
        \<and> pe_applied_snapshot_revision (er_state r) \<noteq> pe_snapshot_revision (er_state r))"

definition enforce_phase :: "ExtEnv \<Rightarrow> unit er" where
  "enforce_phase env r =
     (if apply_needed env r
      then tr_bind (ext_apply env) (\<lambda>_ r.
             ext_save (xe_save env 1)
               (r\<lparr>er_fingerprint := Some (effective_fingerprint (pe_desired (er_state r)) (xe_now env)),
                  er_applied_this_process := True,
                  er_state := (er_state r)\<lparr>pe_applied_snapshot_revision :=
                                             pe_snapshot_revision (er_state r)\<rparr>\<rparr>)) r
      else (r, [], Inr ()))"

definition ack_phase :: "ExtEnv \<Rightarrow> unit er" where
  "ack_phase env r =
     (case pe_snapshot_revision (er_state r) of
        None \<Rightarrow> (r, [], Inr ())
      | Some revision \<Rightarrow>
          if pe_applied_snapshot_revision (er_state r) = Some revision
             \<and> pe_acknowledged_snapshot_revision (er_state r) \<noteq> Some revision
             \<and> er_quarantined r = []
          then tr_bind (\<lambda>r. (r, [AckExternal revision], map_err ExtAckFailed (xe_ack env revision))) (\<lambda>_ r.
                 ext_save (xe_save env 2)
                   (r\<lparr>er_state := (er_state r)\<lparr>pe_acknowledged_snapshot_revision := Some revision\<rparr>\<rparr>)) r
          else (r, [], Inr ()))"

definition ext_tick :: "ExtEnv \<Rightarrow> unit er" where
  "ext_tick env =
     tr_bind (fetch_phase env) (\<lambda>fetch_error.
     tr_bind (enforce_phase env) (\<lambda>_.
     tr_bind (ack_phase env) (\<lambda>_ r.
       case fetch_error of
         Some e \<Rightarrow> tr_fail e r
       | None \<Rightarrow> if er_quarantined r \<noteq> [] then tr_fail (ExtQuarantined (er_quarantined r)) r
                 else tr_return () r)))"

section \<open>Documents read back\<close>

lemma map_of_opt_entry [simp]: "map_of (opt_entry k f v) k' = (if k = k' then map_option f v else None)"
  by (simp add: opt_entry_def split: option.split)

lemma map_of_rev_opt_entry [simp]:
  "map_of (rev (opt_entry k f v)) k' = (if k = k' then map_option f v else None)"
  by (simp add: opt_entry_def split: option.split)

lemma fst_opt_entry: "fst ` set (opt_entry k f v) \<subseteq> {k}"
  by (cases v) (simp_all add: opt_entry_def)

lemma opt_entry_keys: "k \<in> K \<Longrightarrow> fst ` set (opt_entry k f v) \<subseteq> K"
  using fst_opt_entry [of k f v] by blast

lemma jget_authorization_json:
  "jget ''principal_id'' (authorization_json a) = Some (JStr (a_principal_id a))"
  "jget ''credential_id'' (authorization_json a) = Some (JStr (a_credential_id a))"
  "jget ''class'' (authorization_json a) = Some (auth_class_json (a_class a))"
  "jget ''valid_from'' (authorization_json a) = Some (JInt (a_valid_from a))"
  "jget ''valid_until'' (authorization_json a) = Some (JInt (a_valid_until a))"
  "jget ''revoked'' (authorization_json a) = Some (JBool (a_revoked a))"
  "jget ''vless_uuid'' (authorization_json a) = map_option JStr (a_vless_uuid a)"
  "jget ''hysteria2_password'' (authorization_json a) = map_option JStr (a_hysteria2_password a)"
  by (simp_all add: authorization_json_def jget_jobj map_add_def split: option.split)

lemma as_class_json [simp]: "as_class (auth_class_json c) = Some c"
  by (cases c) simp_all

lemma opt_field_json:
  "jget k j = map_option JStr v \<Longrightarrow> opt_field as_str k j = Some v"
  "jget k j = map_option jnat n \<Longrightarrow> (\<And>x. n = Some x \<Longrightarrow> x < 18446744073709551616) \<Longrightarrow> opt_field as_u64 k j = Some n"
  by (auto simp: opt_field_def split: option.splits json.splits)
    (cases n; auto simp: jnat_def)+

lemma struct_fields_authorization:
  "struct_fields [''principal_id'', ''credential_id'', ''class'', ''valid_from'', ''valid_until'',
     ''revoked'', ''vless_uuid'', ''hysteria2_password''] (authorization_json a) = Some (authorization_json a)"
  unfolding authorization_json_def
  by (rule struct_fields_jobj) (simp add: image_Un opt_entry_keys)

lemma authorization_read_back:
  assumes "in_i64 (a_valid_from a)" "in_i64 (a_valid_until a)"
  shows "authorization_of_json (authorization_json a) = Some a"
  using assms
  by (simp add: authorization_of_json_def struct_fields_authorization get_str_def get_i64_def default_bool_def
      jget_authorization_json opt_field_json)

lemma authorization_json_inj: "authorization_json a = authorization_json b \<longleftrightarrow> a = b"
proof
  assume eq: "authorization_json a = authorization_json b"
  have j: "jget k (authorization_json a) = jget k (authorization_json b)" for k by (simp add: eq)
  note f = j [of "''principal_id''"] j [of "''credential_id''"] j [of "''class''"] j [of "''valid_from''"]
    j [of "''valid_until''"] j [of "''revoked''"] j [of "''vless_uuid''"] j [of "''hysteria2_password''"]
  have "a_class a = a_class b" using f(3) by (metis as_class_json jget_authorization_json(3) option.inject)
  moreover have "map_option JStr x = map_option JStr y \<longleftrightarrow> x = y" for x y
    by (cases x; cases y) auto
  ultimately show "a = b"
    using f by (simp add: jget_authorization_json)
qed simp

lemma set_json_inj [simp]: "set_json s = set_json s' \<longleftrightarrow> s = s'"
proof
  assume "set_json s = set_json s'"
  then have "jget ''authorizations'' (set_json s) = jget ''authorizations'' (set_json s')" by simp
  then have "map authorization_json s = map authorization_json s'" by (simp add: set_json_def jget_jobj)
  then show "s = s'" using authorization_json_inj by (simp add: inj_def inj_map_eq_map)
qed simp

definition set_times_ok :: "AuthorizationSet \<Rightarrow> bool" where
  "set_times_ok s \<longleftrightarrow> list_all (\<lambda>a. in_i64 (a_valid_from a) \<and> in_i64 (a_valid_until a)) s"

lemma set_read_back:
  assumes "set_times_ok s"
  shows "set_of_json (set_json s) = Some s"
proof -
  have "those (map authorization_of_json (map authorization_json s)) = Some (map (\<lambda>a. a) s)"
    unfolding map_map comp_def
    by (rule those_map_Some) (use assms authorization_read_back in \<open>auto simp: set_times_ok_def list_all_iff\<close>)
  then show ?thesis
    by (simp add: set_of_json_def set_json_def struct_fields_jobj get_readers_jobj)
qed

definition state_ok :: "PersistedExternalState \<Rightarrow> bool" where
  "state_ok st \<longleftrightarrow>
     is_ok (validate_authorization_set (pe_desired st)) \<and> set_times_ok (pe_desired st)
     \<and> (\<forall>r\<in>set_option (pe_snapshot_revision st) \<union> set_option (pe_applied_snapshot_revision st)
           \<union> set_option (pe_acknowledged_snapshot_revision st). r < 18446744073709551616)"

lemma jget_persisted_json:
  "jget ''desired'' (persisted_json st) = Some (set_json (pe_desired st))"
  "jget ''snapshot_revision'' (persisted_json st) = map_option jnat (pe_snapshot_revision st)"
  "jget ''applied_snapshot_revision'' (persisted_json st) = map_option jnat (pe_applied_snapshot_revision st)"
  "jget ''acknowledged_snapshot_revision'' (persisted_json st)
     = map_option jnat (pe_acknowledged_snapshot_revision st)"
  by (simp_all add: persisted_json_def jget_jobj map_add_def split: option.split)

lemma struct_fields_persisted:
  "struct_fields [''desired'', ''snapshot_revision'', ''applied_snapshot_revision'',
     ''acknowledged_snapshot_revision''] (persisted_json st) = Some (persisted_json st)"
  unfolding persisted_json_def
  by (rule struct_fields_jobj) (simp add: image_Un opt_entry_keys)

lemma load_saved_state:
  assumes "state_ok st"
  shows "ext_load_state (ExtBytes (Some (persisted_json st))) = Inr st"
proof -
  have "persisted_of_json (persisted_json st) = Some st"
    using assms
    by (simp add: persisted_of_json_def struct_fields_persisted jget_persisted_json set_read_back
        opt_field_json(2) state_ok_def)
  then show ?thesis
    using assms by (auto simp: ext_load_state_def state_ok_def is_ok_iff)
qed

section \<open>What adoption admits\<close>

text \<open>The incoming records are held ones, unchanged or revoked.\<close>

definition narrows :: "AuthorizationSet \<Rightarrow> AuthorizationSet \<Rightarrow> bool" where
  "narrows current next \<longleftrightarrow>
     (\<forall>a\<in>set next. \<exists>held\<in>set current. a = held \<or> a = held\<lparr>a_revoked := True\<rparr>)"

lemma narrows_refl [simp]: "narrows s s"
  by (auto simp: narrows_def)

lemma narrows_trans: "narrows a b \<Longrightarrow> narrows b c \<Longrightarrow> narrows a c"
  unfolding narrows_def by fastforce

lemma narrows_active: "narrows current next \<Longrightarrow> set (active_at next now) \<subseteq> set (active_at current now)"
  by (fastforce simp: narrows_def active_at_def is_active_at_def)

lemma tightened_held:
  assumes "tightened current a"
  shows "\<exists>held\<in>set current. a = held \<or> a = held\<lparr>a_revoked := True\<rparr>"
proof -
  obtain held where h: "find (\<lambda>held. same_credential held a) current = Some held"
    "\<not> (a_revoked held \<and> \<not> a_revoked a)" "a\<lparr>a_revoked := a_revoked held\<rparr> = held"
    using assms by (auto simp: tightened_def authorization_json_inj split: option.splits if_splits)
  obtain v where v: "held = a\<lparr>a_revoked := v\<rparr>" using h(3) by (metis (no_types))
  have "a = held \<or> a = held\<lparr>a_revoked := True\<rparr>"
  proof (cases "a_revoked a")
    case True
    then show ?thesis by (cases a) (simp add: v)
  next
    case False
    then have "\<not> v" using h(2) by (simp add: v)
    then show ?thesis using False by (cases a) (simp add: v)
  qed
  then show ?thesis using find_SomeD [OF h(1)] by blast
qed

lemma only_tightens_narrows: "only_tightens current next quarantined \<Longrightarrow> narrows current next"
  using tightened_held by (auto simp: only_tightens_def narrows_def list_all_iff)

text \<open>How a state may move on: a revision is never lost and never goes back, and at the same
  revision the records only narrow.\<close>

definition evolves :: "PersistedExternalState \<Rightarrow> PersistedExternalState \<Rightarrow> bool" where
  "evolves st st' \<longleftrightarrow>
     (\<forall>r. pe_snapshot_revision st = Some r \<longrightarrow>
        (\<exists>r'. pe_snapshot_revision st' = Some r' \<and> r \<le> r'
             \<and> (r' = r \<longrightarrow> narrows (pe_desired st) (pe_desired st'))))"

lemma evolves_same:
  "pe_snapshot_revision st' = pe_snapshot_revision st \<Longrightarrow> pe_desired st' = pe_desired st \<Longrightarrow> evolves st st'"
  by (simp add: evolves_def)

lemma evolves_trans: "evolves a b \<Longrightarrow> evolves b c \<Longrightarrow> evolves a c"
  unfolding evolves_def by (metis le_antisym le_trans narrows_trans)

lemma adopt_snapshot_evolves:
  assumes "adopt_snapshot st next = Inr (st', changed)"
  shows "evolves st st'"
  using assms only_tightens_narrows [of "pe_desired st" "ps_desired next" "ps_quarantined next"]
  by (auto simp: adopt_snapshot_def Let_def evolves_def rbind_eq_Inr split: if_splits option.splits)

lemma adopt_snapshot_cases:
  assumes "adopt_snapshot st next = Inr (st', changed)"
  shows "if changed then st' = \<lparr>pe_desired = ps_desired next, pe_snapshot_revision = ps_snapshot_revision next,
                 pe_applied_snapshot_revision = None, pe_acknowledged_snapshot_revision = None\<rparr>
         else st' = st \<and> ps_desired next = pe_desired st \<and> ps_snapshot_revision next = pe_snapshot_revision st"
  using assms by (auto simp: adopt_snapshot_def Let_def rbind_eq_Inr split: if_splits)

section \<open>What a snapshot gives\<close>

definition rfc3339_ok :: "rfc3339 \<Rightarrow> bool" where
  "rfc3339_ok parse \<longleftrightarrow> (\<forall>s t. parse s = Some t \<longrightarrow> in_i64 t)"

definition snapshot_ok :: "ParsedSnapshot \<Rightarrow> bool" where
  "snapshot_ok ps \<longleftrightarrow>
     length (ps_desired ps) \<le> MAX_EXTERNAL_AUTHORIZATIONS
     \<and> is_ok (validate_authorization_set (ps_desired ps))
     \<and> list_all (\<lambda>a. a_class a = AuthCompatibility) (ps_desired ps)
     \<and> set_times_ok (ps_desired ps)
     \<and> (\<forall>r\<in>set_option (ps_snapshot_revision ps). r < 18446744073709551616)"

lemma validate_external_set_ok:
  "validate_external_set s = Inr d \<longleftrightarrow>
     d = s \<and> length s \<le> MAX_EXTERNAL_AUTHORIZATIONS \<and> is_ok (validate_authorization_set s)
     \<and> list_all (\<lambda>a. a_class a = AuthCompatibility) s"
  by (auto simp: validate_external_set_def rbind_eq_Inr is_ok_iff list_ex_iff list_all_iff)

lemma convert_times:
  assumes "rfc3339_ok parse" "convert_authorization parse w = Inr a"
  shows "in_i64 (a_valid_from a) \<and> in_i64 (a_valid_until a)"
  using assms by (auto simp: convert_authorization_def rfc3339_ok_def rbind_eq_Inr)

text \<open>The items of a v2 document: the records that pass, in order, and the labels of the others.\<close>

lemma v2_items_split:
  "v2_items parse raws as qs = Inr (as', qs') \<longleftrightarrow>
     (\<exists>items. map v2_item_of_json raws = map Some items
        \<and> as' = as @ List.map_filter (\<lambda>i. case finish_v2_item parse i of Inr a \<Rightarrow> Some a | Inl _ \<Rightarrow> None) items
        \<and> qs' = qs @ map (\<lambda>i. quarantine_label (wa_credential_id i))
                       (filter (\<lambda>i. \<not> is_ok (finish_v2_item parse i)) items))"
proof (induction raws arbitrary: as qs)
  case Nil
  then show ?case by (auto simp: List.map_filter_def)
next
  case (Cons raw raws)
  show ?case
  proof (cases "v2_item_of_json raw")
    case None
    then show ?thesis by (auto simp: Cons_eq_map_conv)
  next
    case (Some item)
    then have "(\<exists>items. map v2_item_of_json (raw # raws) = map Some items \<and> P items)
        \<longleftrightarrow> (\<exists>items. map v2_item_of_json raws = map Some items \<and> P (item # items))" for P
      by (auto simp: Cons_eq_map_conv)
    then show ?thesis
      using Some Cons.IH by (cases "finish_v2_item parse item") (simp_all add: List.map_filter_simps)
  qed
qed

end
