(* ===== verification/ExternalHistory.thy ===== *)
theory ExternalHistory
  imports ExternalSync
begin

text \<open>
  Histories of the agent's external authorizations: ticks of
  \<open>apps/provisioning-agent/src/external_authorization.rs\<close> in any environment, with crashes after
  any prefix of a tick's effects and restarts from the file.  The lemmas first describe each phase
  of a tick, then what every history keeps.
\<close>

section \<open>Snapshots and files\<close>

lemma map_filter_set: "y \<in> set (List.map_filter f xs) \<longleftrightarrow> (\<exists>x\<in>set xs. f x = Some y)"
  by (simp add: set_map_filter)

lemma case_sum_Some: "(case r of Inr a \<Rightarrow> Some a | Inl _ \<Rightarrow> None) = Some a \<longleftrightarrow> r = Inr a"
  by (cases r) simp_all

lemma v2_items_undecodable:
  "list_ex (\<lambda>raw. v2_item_of_json raw = None) raws \<Longrightarrow> v2_items parse raws as qs = Inl ExtBadItem"
  by (induction parse raws as qs rule: v2_items.induct) (auto split: option.splits sum.splits)

lemma map_filter_decoded:
  "\<not> list_ex (\<lambda>x. f x = None) xs \<Longrightarrow> map f xs = map Some (List.map_filter f xs)"
  by (induction xs) (auto simp: List.map_filter_simps)

lemma length_map_filter_le: "length (List.map_filter f xs) \<le> length xs"
  by (simp add: List.map_filter_def)

lemma parse_v2_ok:
  assumes "rfc3339_ok parse" "parse_v2 parse body = Inr ps"
  shows "snapshot_ok ps"
proof -
  obtain revision raws as qs where
    v: "v2_snapshot_of_json body = Some (2, revision, raws)" "v2_items parse raws [] [] = Inr (as, qs)"
      "validate_external_set as = Inr (ps_desired ps)" "ps_snapshot_revision ps = Some revision"
    using assms(2) by (auto simp: parse_v2_def rbind_eq_Inr split: if_splits)
  obtain items where "as = List.map_filter (\<lambda>i. case finish_v2_item parse i of Inr a \<Rightarrow> Some a | Inl _ \<Rightarrow> None) items"
    using v(2) by (auto simp: v2_items_split)
  then have "a \<in> set as \<Longrightarrow> \<exists>i. finish_v2_item parse i = Inr a" for a
    by (auto simp: map_filter_set case_sum_Some)
  then have "a \<in> set as \<Longrightarrow> \<exists>w :: V2WireAuthorization. convert_authorization parse w = Inr a" for a
    by (fastforce simp: finish_v2_item_def rbind_eq_Inr split: if_splits)
  then have "set_times_ok as"
    using convert_times [OF assms(1)] by (fastforce simp: set_times_ok_def list_all_iff)
  moreover have "revision < 18446744073709551616"
    using v(1) by (auto simp: v2_snapshot_of_json_def get_u64_def bind_eq_Some_conv elim!: as_u64.elims split: if_splits)
  ultimately show ?thesis using v by (simp add: snapshot_ok_def validate_external_set_ok)
qed

lemma parse_legacy_ok:
  assumes "rfc3339_ok parse" "parse_legacy parse body = Inr ps"
  shows "snapshot_ok ps"
proof -
  obtain items as where
    v: "map_result (legacy_item parse) items = Inr as" "validate_external_set as = Inr (ps_desired ps)"
      "ps_snapshot_revision ps = None"
    using assms(2) by (auto simp: parse_legacy_def rbind_eq_Inr)
  have "a \<in> set as \<Longrightarrow> \<exists>w. legacy_item parse w = Inr a" for a
    using v(1) list_all2_in_set2 by (fastforce simp: map_result_list_all2)
  then have "a \<in> set as \<Longrightarrow> \<exists>w :: LegacyWireAuthorization. convert_authorization parse w = Inr a" for a
    by (fastforce simp: legacy_item_def split: if_splits)
  then have "set_times_ok as"
    using convert_times [OF assms(1)] by (fastforce simp: set_times_ok_def list_all_iff)
  then show ?thesis using v by (simp add: snapshot_ok_def validate_external_set_ok)
qed

lemma parse_snapshot_ok:
  assumes "rfc3339_ok parse" "parse_snapshot parse body = Inr ps"
  shows "snapshot_ok ps"
  using assms parse_v2_ok parse_legacy_ok by (auto simp: parse_snapshot_def split: if_splits)

lemma adopted_ok:
  assumes "state_ok st" "snapshot_ok ps" "adopt_snapshot st ps = Inr (st', changed)"
  shows "state_ok st'"
  using assms adopt_snapshot_cases [OF assms(3)]
  by (cases changed) (simp_all add: state_ok_def snapshot_ok_def)

lemma authorization_of_json_times:
  assumes "authorization_of_json j = Some a"
  shows "in_i64 (a_valid_from a) \<and> in_i64 (a_valid_until a)"
  using assms
  by (auto simp: authorization_of_json_def get_i64_def bind_eq_Some_conv elim!: as_i64.elims split: if_splits)

lemma those_Some_set: "those xs = Some ys \<Longrightarrow> y \<in> set ys \<Longrightarrow> Some y \<in> set xs"
  by (induction xs arbitrary: ys) (auto split: option.splits)

lemma set_of_json_times:
  assumes "set_of_json j = Some s"
  shows "set_times_ok s"
proof -
  obtain items where "those (map authorization_of_json items) = Some s"
    using assms by (auto simp: set_of_json_def bind_eq_Some_conv)
  then have "a \<in> set s \<Longrightarrow> \<exists>j. authorization_of_json j = Some a" for a
    using those_Some_set by fastforce
  then show ?thesis
    using authorization_of_json_times by (auto simp: set_times_ok_def list_all_iff)
qed

lemma as_u64_bound: "as_u64 j = Some n \<Longrightarrow> n < 18446744073709551616"
  by (auto elim!: as_u64.elims split: if_splits)

lemma opt_field_bound: "opt_field as_u64 k j = Some (Some n) \<Longrightarrow> n < 18446744073709551616"
  by (auto simp: opt_field_def split: option.splits json.splits if_splits)

lemma persisted_of_json_bounds:
  assumes "persisted_of_json j = Some st"
  shows "set_times_ok (pe_desired st)
    \<and> (\<forall>r\<in>set_option (pe_snapshot_revision st) \<union> set_option (pe_applied_snapshot_revision st)
          \<union> set_option (pe_acknowledged_snapshot_revision st). r < 18446744073709551616)"
  using assms set_of_json_times opt_field_bound
  by (auto simp: persisted_of_json_def bind_eq_Some_conv)

lemma loaded_state_ok:
  assumes "ext_load_state disk = Inr st"
  shows "state_ok st"
proof (cases disk)
  case ExtMissing
  have "validate_authorization_set [] = Inr ()"
    by (rule validate_authorization_setI) simp_all
  with ExtMissing assms show ?thesis
    by (auto simp: ext_load_state_def state_ok_def default_external_state_def set_times_ok_def)
next
  case ExtUnreadable
  with assms show ?thesis by (simp add: ext_load_state_def)
next
  case (ExtBytes bytes)
  then obtain j where j: "bytes = Some j" using assms by (auto simp: ext_load_state_def split: option.splits)
  have v: "is_ok (validate_authorization_set (pe_desired st))"
    using assms ExtBytes j by (auto simp: ext_load_state_def rbind_eq_Inr is_ok_iff)
  have "persisted_of_json j = Some st
      \<or> (\<exists>s. set_of_json j = Some s \<and> st = default_external_state\<lparr>pe_desired := s\<rparr>)"
    using assms ExtBytes j by (auto simp: ext_load_state_def rbind_eq_Inr split: option.splits)
  then show ?thesis
    using v persisted_of_json_bounds [of j st] set_of_json_times [of j]
    by (auto simp: state_ok_def default_external_state_def)
qed

section \<open>Effects\<close>

text \<open>What a trace of effects leaves in the file, and the last set that was applied live with the time
  of the tick that applied it.\<close>

fun disk_after :: "ext_file \<Rightarrow> ext_action list \<Rightarrow> ext_file" where
  "disk_after disk [] = disk"
| "disk_after disk (SaveExternal st # t) = disk_after (ExtBytes (Some (persisted_json st))) t"
| "disk_after disk (_ # t) = disk_after disk t"

type_synonym live = "(AuthorizationSet \<times> int) option"

fun last_applied :: "int \<Rightarrow> live \<Rightarrow> ext_action list \<Rightarrow> live" where
  "last_applied now live [] = live"
| "last_applied now live (RunExternal s True # t) = last_applied now (Some (s, now)) t"
| "last_applied now live (_ # t) = last_applied now live t"

lemma disk_after_append: "disk_after d (t1 @ t2) = disk_after (disk_after d t1) t2"
  by (induction d t1 rule: disk_after.induct) simp_all

lemma last_applied_append: "last_applied now l (t1 @ t2) = last_applied now (last_applied now l t1) t2"
  by (induction now l t1 rule: last_applied.induct) simp_all

lemma disk_after_cases:
  "disk_after d t = d \<or> (\<exists>st. SaveExternal st \<in> set t \<and> disk_after d t = ExtBytes (Some (persisted_json st)))"
  by (induction d t rule: disk_after.induct) auto

lemma ext_save_shape:
  assumes "ext_save outcome r = (r', t, res)"
  shows "er_state r' = er_state r" "er_fingerprint r' = er_fingerprint r"
    "er_applied_this_process r' = er_applied_this_process r" "er_etag r' = er_etag r"
    "er_quarantined r' = er_quarantined r" "er_disk r' = disk_after (er_disk r) t"
    "set t \<subseteq> {SaveExternal (er_state r)}" "last_applied now l t = l"
  using assms by (auto simp: ext_save_def split: save_outcome.splits)

lemma ext_apply_shape:
  assumes "ext_apply env r = (r', t, res)"
  shows "r' = r" "disk_after d t = d" "set t \<subseteq> range (RunExternal (pe_desired (er_state r)))"
    "last_applied now l t = (if is_ok res then Some (pe_desired (er_state r), now) else l)"
  using assms by (auto simp: ext_apply_def split: if_splits sum.splits)

lemma accept_body_cases:
  assumes "accept_body env body etag r = (r', t, res)"
  obtains (refused) e where "r' = r\<lparr>er_etag := None\<rparr>" "t = []" "res = Inr (Some e)"
  | (kept) ps where "parse_snapshot (xe_parse env) body = Inr ps" "adopt_snapshot (er_state r) ps = Inr (er_state r, False)"
      "r' = r\<lparr>er_quarantined := ps_quarantined ps, er_etag := etag\<rparr>" "t = []" "res = Inr None"
  | (adopted) ps st r1 u where "parse_snapshot (xe_parse env) body = Inr ps"
      "adopt_snapshot (er_state r) ps = Inr (st, True)"
      "ext_save (xe_save env 0) (r\<lparr>er_state := st, er_quarantined := ps_quarantined ps\<rparr>) = (r1, t, Inr u)"
      "r' = r1\<lparr>er_etag := etag\<rparr>" "res = Inr None"
  | (unsaved) ps st e where "parse_snapshot (xe_parse env) body = Inr ps"
      "adopt_snapshot (er_state r) ps = Inr (st, True)"
      "ext_save (xe_save env 0) (r\<lparr>er_state := st, er_quarantined := ps_quarantined ps\<rparr>) = (r', t, Inl e)"
      "res = Inl e"
proof (cases "parse_snapshot (xe_parse env) body")
  case (Inl e)
  then show ?thesis using assms refused [of e] by (simp add: accept_body_def)
next
  case (Inr ps)
  show ?thesis
  proof (cases "adopt_snapshot (er_state r) ps")
    case (Inl e)
    then show ?thesis using assms Inr refused [of e] by (simp add: accept_body_def)
  next
    case adopt: (Inr c)
    obtain st changed where c: "c = (st, changed)" by (cases c)
    show ?thesis
    proof (cases changed)
      case False
      then have "st = er_state r" using adopt_snapshot_cases adopt c by fastforce
      then show ?thesis
        using assms Inr adopt c False kept by (simp add: accept_body_def tr_bind_def tr_return_def)
    next
      case True
      then have a: "adopt_snapshot (er_state r) ps = Inr (st, True)" using adopt c by simp
      show ?thesis
        using assms adopted [OF Inr a] unsaved [OF Inr a]
        by (cases "ext_save (xe_save env 0) (r\<lparr>er_state := st, er_quarantined := ps_quarantined ps\<rparr>)")
          (auto simp: accept_body_def Inr a tr_bind_def split: sum.splits)
    qed
  qed
qed

text \<open>What the fetch leaves: nothing but the tag, or the state of an accepted snapshot.\<close>

definition accepted_from :: "ExtEnv \<Rightarrow> ExternalReconciler \<Rightarrow> ExternalReconciler \<Rightarrow> bool" where
  "accepted_from env r r' \<longleftrightarrow>
     er_state r' = er_state r
     \<or> (\<exists>body ps. parse_snapshot (xe_parse env) body = Inr ps
           \<and> adopt_snapshot (er_state r) ps = Inr (er_state r', True))"

lemma accept_body_shape:
  assumes "accept_body env body etag r = (r', t, res)"
  shows "er_fingerprint r' = er_fingerprint r \<and> er_applied_this_process r' = er_applied_this_process r
    \<and> er_disk r' = disk_after (er_disk r) t \<and> set t \<subseteq> {SaveExternal (er_state r')}
    \<and> last_applied now l t = l \<and> accepted_from env r r'"
  using assms
proof (cases rule: accept_body_cases)
  case (adopted ps st r1 u)
  then show ?thesis using ext_save_shape [OF adopted(3)] by (auto simp: accepted_from_def)
next
  case (unsaved ps st e)
  then show ?thesis using ext_save_shape [OF unsaved(3)] by (auto simp: accepted_from_def)
qed (simp_all add: accepted_from_def)

lemma fetch_phase_shape:
  assumes "fetch_phase env r = (r', t, res)"
  shows "er_fingerprint r' = er_fingerprint r \<and> er_applied_this_process r' = er_applied_this_process r
    \<and> er_disk r' = disk_after (er_disk r) t \<and> set t \<subseteq> range FetchAuthorizations \<union> {SaveExternal (er_state r')}
    \<and> last_applied now l t = l \<and> accepted_from env r r'"
proof -
  have plain: ?thesis if "er_state r' = er_state r" "er_fingerprint r' = er_fingerprint r"
    "er_applied_this_process r' = er_applied_this_process r" "er_disk r' = er_disk r"
    "t = [] \<or> t = [FetchAuthorizations (er_etag r)]"
    using that by (auto simp: accepted_from_def)
  show ?thesis
  proof (cases "xe_fetch_due env \<and> (\<exists>body etag. xe_fetch env (er_etag r) = Inr (Fresh body etag))")
    case False
    then show ?thesis
      using assms by (intro plain) (auto simp: fetch_phase_def split: if_splits sum.splits ext_fetch.splits)
  next
    case True
    then obtain body etag t1 where b: "accept_body env body etag r = (r', t1, res)"
      "t = FetchAuthorizations (er_etag r) # t1"
      using assms by (auto simp: fetch_phase_def split: prod.splits)
    then show ?thesis using accept_body_shape [OF b(1)] by auto
  qed
qed

definition applied_now :: "ExtEnv \<Rightarrow> ExternalReconciler \<Rightarrow> ExternalReconciler" where
  "applied_now env r =
     r\<lparr>er_fingerprint := Some (effective_fingerprint (pe_desired (er_state r)) (xe_now env)),
       er_applied_this_process := True,
       er_state := (er_state r)\<lparr>pe_applied_snapshot_revision := pe_snapshot_revision (er_state r)\<rparr>\<rparr>"

lemma enforce_phase_cases:
  assumes "enforce_phase env r = (r', t, res)"
  obtains (idle) "\<not> apply_needed env r" "r' = r" "t = []" "res = Inr ()"
  | (failed) e where "apply_needed env r" "ext_apply env r = (r, t, Inl e)" "r' = r" "res = Inl e"
  | (applied) t1 t2 where "apply_needed env r" "ext_apply env r = (r, t1, Inr ())"
      "ext_save (xe_save env 1) (applied_now env r) = (r', t2, res)" "t = t1 @ t2"
proof (cases "apply_needed env r")
  case False
  then have "(r', t, res) = (r, [], Inr ())" using assms unfolding enforce_phase_def by simp
  with False show ?thesis by (intro idle) simp_all
next
  case True
  obtain t1 res1 where a: "ext_apply env r = (r, t1, res1)"
    using ext_apply_shape(1) by (cases "ext_apply env r") auto
  show ?thesis
  proof (cases res1)
    case (Inl e)
    have "(r', t, res) = (r, t1, Inl e)"
      unfolding assms [symmetric] using True a Inl by (simp add: enforce_phase_def tr_bind_def)
    with True a Inl show ?thesis by (intro failed) simp_all
  next
    case (Inr u)
    obtain r2 t2 res2 where s: "ext_save (xe_save env 1) (applied_now env r) = (r2, t2, res2)"
      by (cases "ext_save (xe_save env 1) (applied_now env r)")
    then have "enforce_phase env r = (r2, t1 @ t2, res2)"
      using True a Inr by (simp add: enforce_phase_def tr_bind_def applied_now_def)
    then have "(r', t, res) = (r2, t1 @ t2, res2)" using assms by simp
    with True a Inr s show ?thesis by (intro applied) simp_all
  qed
qed

definition ack_due :: "ExternalReconciler \<Rightarrow> nat \<Rightarrow> bool" where
  "ack_due r revision \<longleftrightarrow>
     pe_snapshot_revision (er_state r) = Some revision
     \<and> pe_applied_snapshot_revision (er_state r) = Some revision
     \<and> pe_acknowledged_snapshot_revision (er_state r) \<noteq> Some revision
     \<and> er_quarantined r = []"

lemma ack_phase_cases:
  assumes "ack_phase env r = (r', t, res)"
  obtains (idle) "\<And>v. \<not> ack_due r v" "r' = r" "t = []" "res = Inr ()"
  | (failed) v e where "ack_due r v" "xe_ack env v = Inl e" "r' = r" "t = [AckExternal v]" "res = Inl (ExtAckFailed e)"
  | (acked) v t1 where "ack_due r v" "xe_ack env v = Inr ()"
      "ext_save (xe_save env 2)
         (r\<lparr>er_state := (er_state r)\<lparr>pe_acknowledged_snapshot_revision := Some v\<rparr>\<rparr>) = (r', t1, res)"
      "t = AckExternal v # t1"
proof (cases "\<exists>v. ack_due r v")
  case False
  then show ?thesis
    using assms idle by (auto simp: ack_phase_def ack_due_def split: option.splits if_splits)
next
  case True
  then obtain v where v: "ack_due r v" by blast
  then show ?thesis
    using assms failed [OF v] acked [OF v]
    by (cases "xe_ack env v") (auto simp: ack_phase_def ack_due_def tr_bind_def split: prod.splits)
qed

definition tick_result :: "ExtError option \<Rightarrow> ExternalReconciler \<Rightarrow> ExtError + unit" where
  "tick_result fetch_error r =
     (case fetch_error of Some e \<Rightarrow> Inl e
      | None \<Rightarrow> if er_quarantined r \<noteq> [] then Inl (ExtQuarantined (er_quarantined r)) else Inr ())"

lemma ext_tick_cases:
  assumes "ext_tick env r = (r', t, res)"
  obtains (unsaved) e where "fetch_phase env r = (r', t, Inl e)" "res = Inl e"
  | (unapplied) r1 t1 fe t2 e where "fetch_phase env r = (r1, t1, Inr fe)"
      "enforce_phase env r1 = (r', t2, Inl e)" "t = t1 @ t2" "res = Inl e"
  | (unacked) r1 t1 fe r2 t2 t3 e where "fetch_phase env r = (r1, t1, Inr fe)"
      "enforce_phase env r1 = (r2, t2, Inr ())" "ack_phase env r2 = (r', t3, Inl e)" "t = t1 @ t2 @ t3" "res = Inl e"
  | (full) r1 t1 fe r2 t2 t3 where "fetch_phase env r = (r1, t1, Inr fe)"
      "enforce_phase env r1 = (r2, t2, Inr ())" "ack_phase env r2 = (r', t3, Inr ())" "t = t1 @ t2 @ t3"
      "res = tick_result fe r'"
  using assms unfolding ext_tick_def
proof (cases rule: tr_bind_cases)
  case (stop e)
  then show ?thesis by (rule that(1))
next
  case f: (step r1 t1 fe t23)
  from f(2) show ?thesis
  proof (cases rule: tr_bind_cases)
    case (stop e)
    then show ?thesis using f that(2) [of r1 t1 fe t23 e] by simp
  next
    case n: (step r2 t2 u t3)
    from n(2) show ?thesis
    proof (cases rule: tr_bind_cases)
      case (stop e)
      then show ?thesis using f n that(3) [of r1 t1 fe r2 t2 t3 e] by simp
    next
      case a: (step r3 t4 w t5)
      then have "r3 = r'" "t5 = []" "res = tick_result fe r'"
        by (auto simp: tick_result_def tr_fail_def tr_return_def split: option.splits if_splits)
      then show ?thesis using f n a that(4) [of r1 t1 fe r2 t2 t4] by simp
    qed
  qed
qed

section \<open>What every history keeps\<close>

definition applied_inv :: "ExternalReconciler \<Rightarrow> live \<Rightarrow> bool" where
  "applied_inv r l \<longleftrightarrow>
     (er_applied_this_process r \<longrightarrow>
        (\<exists>s n. l = Some (s, n) \<and> er_fingerprint r = Some (effective_fingerprint s n)
           \<and> (\<forall>v. pe_snapshot_revision (er_state r) = Some v \<and> pe_applied_snapshot_revision (er_state r) = Some v
                \<longrightarrow> s = pe_desired (er_state r))))"

definition er_inv :: "ExternalReconciler \<Rightarrow> live \<Rightarrow> bool" where
  "er_inv r l \<longleftrightarrow>
     state_ok (er_state r) \<and> (\<exists>d. ext_load_state (er_disk r) = Inr d \<and> evolves d (er_state r)) \<and> applied_inv r l"

definition keeps_step :: "int \<Rightarrow> ExternalReconciler \<Rightarrow> ext_action list \<Rightarrow> ExternalReconciler \<Rightarrow> bool" where
  "keeps_step now r t r' \<longleftrightarrow>
     (\<forall>l. er_inv r l \<longrightarrow>
        er_inv r' (last_applied now l t) \<and> evolves (er_state r) (er_state r')
        \<and> (\<forall>st. SaveExternal st \<in> set t \<longrightarrow> state_ok st \<and> evolves (er_state r) st))"

lemma keeps_step_Nil [simp]: "keeps_step now r [] r"
  by (simp add: keeps_step_def evolves_same)

lemma keeps_step_trans:
  assumes "keeps_step now r t1 r1" "keeps_step now r1 t2 r2"
  shows "keeps_step now r (t1 @ t2) r2"
  unfolding keeps_step_def
proof (intro allI impI)
  fix l assume "er_inv r l"
  then have 1: "er_inv r1 (last_applied now l t1)" "evolves (er_state r) (er_state r1)"
    "\<forall>st. SaveExternal st \<in> set t1 \<longrightarrow> state_ok st \<and> evolves (er_state r) st"
    using assms(1) by (simp_all add: keeps_step_def)
  then have 2: "er_inv r2 (last_applied now (last_applied now l t1) t2)" "evolves (er_state r1) (er_state r2)"
    "\<forall>st. SaveExternal st \<in> set t2 \<longrightarrow> state_ok st \<and> evolves (er_state r1) st"
    using assms(2) by (simp_all add: keeps_step_def)
  show "er_inv r2 (last_applied now l (t1 @ t2)) \<and> evolves (er_state r) (er_state r2)
      \<and> (\<forall>st. SaveExternal st \<in> set (t1 @ t2) \<longrightarrow> state_ok st \<and> evolves (er_state r) st)"
    using 1 2 evolves_trans [OF 1(2)] by (auto simp: last_applied_append)
qed

lemma keeps_step_applied: "keeps_step now r t r' \<Longrightarrow> er_inv r l \<Longrightarrow> applied_inv r' (last_applied now l t)"
  unfolding keeps_step_def er_inv_def by blast

text \<open>A state with the held records and revision is a step when it is written.\<close>

lemma saved_state_inv:
  assumes "er_inv r l" "er_disk r' = disk_after (er_disk r) t" "set t \<subseteq> A \<union> {SaveExternal (er_state r')}"
    "\<And>st. SaveExternal st \<notin> A" "state_ok (er_state r')" "evolves (er_state r) (er_state r')" "applied_inv r' l'"
  shows "er_inv r' l' \<and> evolves (er_state r) (er_state r')
    \<and> (\<forall>st. SaveExternal st \<in> set t \<longrightarrow> state_ok st \<and> evolves (er_state r) st)"
proof -
  have saves: "SaveExternal st \<in> set t \<Longrightarrow> st = er_state r'" for st using assms(3,4) by blast
  obtain d where d: "ext_load_state (er_disk r) = Inr d" "evolves d (er_state r)"
    using assms(1) by (auto simp: er_inv_def)
  have "\<exists>d. ext_load_state (er_disk r') = Inr d \<and> evolves d (er_state r')"
    using disk_after_cases [of "er_disk r" t]
  proof (elim disjE exE conjE)
    assume "disk_after (er_disk r) t = er_disk r"
    then show ?thesis using d assms(2) evolves_trans [OF d(2) assms(6)] by auto
  next
    fix st assume "SaveExternal st \<in> set t" "disk_after (er_disk r) t = ExtBytes (Some (persisted_json st))"
    then show ?thesis using saves assms(2) load_saved_state [OF assms(5)] by (auto intro: evolves_same)
  qed
  then show ?thesis using assms(5-7) saves by (auto simp: er_inv_def)
qed

lemma fetch_phase_keeps:
  assumes "rfc3339_ok (xe_parse env)" "fetch_phase env r = (r', t, res)"
  shows "keeps_step (xe_now env) r t r'"
  unfolding keeps_step_def
proof (intro allI impI)
  fix l assume inv: "er_inv r l"
  note s = fetch_phase_shape [OF assms(2), of "xe_now env" l]
  have "state_ok (er_state r') \<and> evolves (er_state r) (er_state r') \<and> applied_inv r' l"
  proof (cases "er_state r' = er_state r")
    case True
    then show ?thesis using inv s by (auto simp: er_inv_def applied_inv_def evolves_same)
  next
    case False
    then obtain body ps where ps: "parse_snapshot (xe_parse env) body = Inr ps"
      "adopt_snapshot (er_state r) ps = Inr (er_state r', True)"
      using s by (auto simp: accepted_from_def)
    have "pe_applied_snapshot_revision (er_state r') = None" using adopt_snapshot_cases [OF ps(2)] by simp
    then show ?thesis
      using inv s adopted_ok [OF _ parse_snapshot_ok [OF assms(1) ps(1)] ps(2)] adopt_snapshot_evolves [OF ps(2)]
      by (auto simp: er_inv_def applied_inv_def)
  qed
  then show "er_inv r' (last_applied (xe_now env) l t) \<and> evolves (er_state r) (er_state r')
      \<and> (\<forall>st. SaveExternal st \<in> set t \<longrightarrow> state_ok st \<and> evolves (er_state r) st)"
    using s inv by (intro saved_state_inv [where A = "range FetchAuthorizations"]) auto
qed

lemma applied_now_simps [simp]:
  "pe_desired (er_state (applied_now env r)) = pe_desired (er_state r)"
  "pe_snapshot_revision (er_state (applied_now env r)) = pe_snapshot_revision (er_state r)"
  "pe_applied_snapshot_revision (er_state (applied_now env r)) = pe_snapshot_revision (er_state r)"
  "pe_acknowledged_snapshot_revision (er_state (applied_now env r)) = pe_acknowledged_snapshot_revision (er_state r)"
  "er_disk (applied_now env r) = er_disk r" "er_quarantined (applied_now env r) = er_quarantined r"
  "er_etag (applied_now env r) = er_etag r" "er_applied_this_process (applied_now env r)"
  "er_fingerprint (applied_now env r) = Some (effective_fingerprint (pe_desired (er_state r)) (xe_now env))"
  by (simp_all add: applied_now_def)

lemma enforce_phase_keeps:
  assumes "enforce_phase env r = (r', t, res)"
  shows "keeps_step (xe_now env) r t r'"
  using assms
proof (cases rule: enforce_phase_cases)
  case (failed e)
  then show ?thesis
    using ext_apply_shape(3,4) [OF failed(2)] by (auto simp: keeps_step_def evolves_same)
next
  case (applied t1 t2)
  note a = ext_apply_shape [OF applied(2)] and s = ext_save_shape [OF applied(3)]
  show ?thesis
    unfolding keeps_step_def
  proof (intro allI impI)
    fix l assume inv: "er_inv r l"
    have l: "last_applied (xe_now env) l t = Some (pe_desired (er_state r), xe_now env)"
      using a s applied(4) by (simp add: last_applied_append)
    show "er_inv r' (last_applied (xe_now env) l t) \<and> evolves (er_state r) (er_state r')
      \<and> (\<forall>st. SaveExternal st \<in> set t \<longrightarrow> state_ok st \<and> evolves (er_state r) st)"
    proof (rule saved_state_inv [where A = "range (RunExternal (pe_desired (er_state r)))"])
      show "applied_inv r' (last_applied (xe_now env) l t)"
        unfolding applied_inv_def l using s by simp
      show "state_ok (er_state r')" using inv s(1) by (auto simp: er_inv_def state_ok_def)
      show "evolves (er_state r) (er_state r')" using s(1) by (simp add: evolves_same)
      show "er_disk r' = disk_after (er_disk r) t" using s(6) a(2) applied(4) by (simp add: disk_after_append)
      show "set t \<subseteq> range (RunExternal (pe_desired (er_state r))) \<union> {SaveExternal (er_state r')}"
        using a(3) s(1,7) applied(4) by auto
    qed (use inv in auto)
  qed
qed simp_all

lemma ack_phase_keeps:
  assumes "ack_phase env r = (r', t, res)"
  shows "keeps_step (xe_now env) r t r'"
  using assms
proof (cases rule: ack_phase_cases)
  case (acked v t1)
  note s = ext_save_shape [OF acked(3)]
  show ?thesis
    unfolding keeps_step_def
  proof (intro allI impI)
    fix l assume inv: "er_inv r l"
    then have v: "v < 18446744073709551616" using acked(1) by (auto simp: er_inv_def state_ok_def ack_due_def)
    show "er_inv r' (last_applied (xe_now env) l t) \<and> evolves (er_state r) (er_state r')
      \<and> (\<forall>st. SaveExternal st \<in> set t \<longrightarrow> state_ok st \<and> evolves (er_state r) st)"
    proof (rule saved_state_inv [where A = "range AckExternal"])
      have "last_applied (xe_now env) l t = l" using s(8) acked(4) by simp
      then show "applied_inv r' (last_applied (xe_now env) l t)"
        using inv s(1-3) by (simp add: er_inv_def applied_inv_def)
      show "state_ok (er_state r')" using inv v s(1) by (auto simp: er_inv_def state_ok_def)
      show "evolves (er_state r) (er_state r')" using s(1) by (simp add: evolves_same)
      show "er_disk r' = disk_after (er_disk r) t" using s(6) acked(4) by simp
      show "set t \<subseteq> range AckExternal \<union> {SaveExternal (er_state r')}" using s(1,7) acked(4) by auto
    qed (use inv in auto)
  qed
qed (auto simp: keeps_step_def evolves_same)

lemma ext_tick_keeps:
  assumes "rfc3339_ok (xe_parse env)" "ext_tick env r = (r', t, res)"
  shows "keeps_step (xe_now env) r t r'"
  using assms(2)
proof (cases rule: ext_tick_cases)
  case (unsaved e)
  then show ?thesis using fetch_phase_keeps assms(1) by blast
next
  case (unapplied r1 t1 fe t2 e)
  then show ?thesis using fetch_phase_keeps [OF assms(1)] enforce_phase_keeps keeps_step_trans by blast
next
  case (unacked r1 t1 fe r2 t2 t3 e)
  then show ?thesis
    using fetch_phase_keeps [OF assms(1)] enforce_phase_keeps ack_phase_keeps keeps_step_trans by metis
next
  case (full r1 t1 fe r2 t2 t3)
  then show ?thesis
    using fetch_phase_keeps [OF assms(1)] enforce_phase_keeps ack_phase_keeps keeps_step_trans by metis
qed

text \<open>A history of one file: ticks, and crashes that keep a prefix of a tick's effects and restart.\<close>

inductive ext_run :: "ExternalReconciler \<Rightarrow> live \<Rightarrow> ExternalReconciler \<Rightarrow> live \<Rightarrow> bool" for r0 l0 where
  here: "ext_run r0 l0 r0 l0"
| tick: "ext_run r0 l0 r l \<Longrightarrow> rfc3339_ok (xe_parse env) \<Longrightarrow> ext_tick env r = (r', t, res)
    \<Longrightarrow> ext_run r0 l0 r' (last_applied (xe_now env) l t)"
| crash: "ext_run r0 l0 r l \<Longrightarrow> rfc3339_ok (xe_parse env) \<Longrightarrow> ext_tick env r = (r', t1 @ t2, res)
    \<Longrightarrow> ext_open (disk_after (er_disk r) t1) = Inr r''
    \<Longrightarrow> ext_run r0 l0 r'' (last_applied (xe_now env) l t1)"

lemma ext_open_inv:
  assumes "ext_open disk = Inr r"
  shows "er_inv r l" "er_disk r = disk"
  using assms loaded_state_ok
  by (auto simp: ext_open_def rbind_eq_Inr er_inv_def applied_inv_def intro: evolves_same)

lemma ack_phase_disk: "ack_phase env r = (r', t, res) \<Longrightarrow> er_disk r' = disk_after (er_disk r) t"
  by (erule ack_phase_cases) (simp_all add: ext_save_shape(6))

lemma enforce_phase_disk: "enforce_phase env r = (r', t, res) \<Longrightarrow> er_disk r' = disk_after (er_disk r) t"
  by (erule enforce_phase_cases) (simp_all add: ext_save_shape(6) ext_apply_shape(2) disk_after_append)

lemma ext_tick_disk:
  assumes "ext_tick env r = (r', t, res)"
  shows "er_disk r' = disk_after (er_disk r) t"
  using assms
  by (cases rule: ext_tick_cases)
    (simp_all add: fetch_phase_shape enforce_phase_disk ack_phase_disk disk_after_append)

text \<open>Whatever prefix of a tick's effects reaches the file, it can be read and only moved on.\<close>

lemma prefix_durable:
  assumes "rfc3339_ok (xe_parse env)" "er_inv r l" "ext_load_state (er_disk r) = Inr d"
    "ext_tick env r = (r', t1 @ t2, res)"
  shows "\<exists>d1. ext_load_state (disk_after (er_disk r) t1) = Inr d1 \<and> evolves d d1"
proof -
  have saves: "SaveExternal st \<in> set t1 \<Longrightarrow> state_ok st \<and> evolves (er_state r) st" for st
    using ext_tick_keeps [OF assms(1,4)] assms(2) by (auto simp: keeps_step_def)
  have "evolves d (er_state r)" using assms(2,3) by (auto simp: er_inv_def)
  then show ?thesis
    using disk_after_cases [of "er_disk r" t1] saves load_saved_state evolves_trans assms(3)
    by (metis evolves_same)
qed

lemma ext_run_durable:
  assumes "ext_run r0 l0 r l" "er_inv r0 l0"
  shows "er_inv r l \<and> (\<exists>d0 d. ext_load_state (er_disk r0) = Inr d0 \<and> ext_load_state (er_disk r) = Inr d \<and> evolves d0 d)"
  using assms
proof (induction rule: ext_run.induct)
  case here
  then show ?case by (auto simp: er_inv_def intro: evolves_same)
next
  case (tick r l env r' t res)
  then obtain d0 d where d: "ext_load_state (er_disk r0) = Inr d0" "ext_load_state (er_disk r) = Inr d" "evolves d0 d"
    by blast
  have "\<exists>d1. ext_load_state (er_disk r') = Inr d1 \<and> evolves d d1"
    using prefix_durable [of env r l d r' t "[]" res] tick d ext_tick_disk [OF tick.hyps(3)] by simp
  then show ?case
    using ext_tick_keeps [OF tick.hyps(2,3)] tick.IH [OF tick.prems] d evolves_trans
    by (fastforce simp: keeps_step_def)
next
  case (crash r l env r' t1 t2 res r'')
  then obtain d0 d where d: "ext_load_state (er_disk r0) = Inr d0" "ext_load_state (er_disk r) = Inr d" "evolves d0 d"
    by blast
  have "\<exists>d1. ext_load_state (er_disk r'') = Inr d1 \<and> evolves d d1"
    using prefix_durable [of env r l d r' t1 t2 res] crash d ext_open_inv(2) [OF crash.hyps(4)] by simp
  then show ?case
    using ext_open_inv(1) [OF crash.hyps(4)] d evolves_trans by blast
qed

lemmas opened_run_inv = ext_run_durable [OF _ ext_open_inv(1), THEN conjunct1]

section \<open>The order of effects in a tick\<close>

lemma enforced_applied:
  assumes "enforce_phase env r = (r', t, Inr ())"
  shows "er_applied_this_process r'"
  using assms
proof (cases rule: enforce_phase_cases)
  case (applied t1 t2)
  then show ?thesis using ext_save_shape(3) [OF applied(3)] by simp
qed (auto simp: apply_needed_def)

lemma no_ack_in_fetch: "fetch_phase env r = (r', t, res) \<Longrightarrow> AckExternal v \<notin> set t"
  using fetch_phase_shape [of env r r' t res] by blast

lemma no_ack_in_enforce: "enforce_phase env r = (r', t, res) \<Longrightarrow> AckExternal v \<notin> set t"
  by (erule enforce_phase_cases) (use ext_apply_shape(3) ext_save_shape(7) in fastforce)+

lemma split_first:
  assumes "u @ w = t1 @ x # t2" "x \<notin> set u"
  shows "\<exists>w1. t1 = u @ w1 \<and> w = w1 @ x # t2"
proof -
  consider us where "u = t1 @ us" "us @ w = x # t2" | us where "t1 = u @ us" "w = us @ x # t2"
    using assms(1) by (auto simp: append_eq_append_conv2)
  then show ?thesis
  proof cases
    case 1
    then show ?thesis using assms(2) by (cases us) auto
  qed blast
qed

lemma ack_in_tick:
  assumes "ext_tick env r = (r', t1 @ AckExternal v # t2, res)"
    and step: "\<And>r1 u1 fe r2 u2. fetch_phase env r = (r1, u1, Inr fe) \<Longrightarrow> enforce_phase env r1 = (r2, u2, Inr ())
      \<Longrightarrow> t1 = u1 @ u2 \<Longrightarrow> ack_due r2 v \<Longrightarrow> pe_desired (er_state r') = pe_desired (er_state r2)
      \<Longrightarrow> pe_snapshot_revision (er_state r') = pe_snapshot_revision (er_state r2)
      \<Longrightarrow> er_quarantined r' = er_quarantined r2 \<Longrightarrow> P"
  shows P
proof -
  have reach: P if p: "fetch_phase env r = (r1, u1, Inr fe)" "enforce_phase env r1 = (r2, u2, Inr ())"
    "ack_phase env r2 = (r', u3, res3)" "t1 @ AckExternal v # t2 = u1 @ u2 @ u3" for r1 u1 fe r2 u2 u3 res3
  proof -
    obtain w where w: "t1 = (u1 @ u2) @ w" "u3 = w @ AckExternal v # t2"
      using split_first [of "u1 @ u2" u3 t1 "AckExternal v" t2] p(4)
        no_ack_in_fetch [OF p(1)] no_ack_in_enforce [OF p(2)] by auto
    from p(3) show P
    proof (cases rule: ack_phase_cases)
      case (acked v' t4)
      note s = ext_save_shape [OF acked(3)]
      have "w = []" "v' = v" using w(2) acked(4) s(7) by (auto simp: Cons_eq_append_conv)
      then show P using step [OF p(1,2)] w acked(1) s by simp
    next
      case (failed v' e)
      then have "w = []" "v' = v" using w(2) by (auto simp: Cons_eq_append_conv append_eq_Cons_conv)
      then show P using step [OF p(1,2)] w failed by simp
    qed (use w in simp)
  qed
  from assms(1) show P
  proof (cases rule: ext_tick_cases)
    case (unsaved e)
    then show P using no_ack_in_fetch [OF unsaved(1), of v] by simp
  next
    case (unapplied r1 u1 fe u2 e)
    then have "AckExternal v \<in> set (u1 @ u2)" by (metis in_set_conv_decomp)
    then show P using no_ack_in_fetch [OF unapplied(1)] no_ack_in_enforce [OF unapplied(2)] by auto
  qed (use reach in blast)+
qed

lemma fingerprint_inj:
  "effective_fingerprint s n = effective_fingerprint s' n' \<longleftrightarrow> active_at s n = active_at s' n'"
proof -
  have "inj authorization_json" by (simp add: inj_def authorization_json_inj)
  then show ?thesis by (simp add: effective_fingerprint_def inj_map_eq_map)
qed

lemma saved_accept_ends:
  assumes "xe_save env 0 = SaveOk" "accept_body env body etag r = (r', t, res)"
  shows "\<exists>fe. res = Inr fe"
  using assms(2) by (cases rule: accept_body_cases) (use assms(1) in \<open>auto simp: ext_save_def\<close>)

lemma saved_fetch_ends:
  assumes "xe_save env 0 = SaveOk"
  shows "\<exists>r' t fe. fetch_phase env r = (r', t, Inr fe)"
proof (cases "xe_fetch_due env \<and> (\<exists>body etag. xe_fetch env (er_etag r) = Inr (Fresh body etag))")
  case False
  then show ?thesis by (auto simp: fetch_phase_def split: sum.split ext_fetch.split)
next
  case True
  then obtain body etag where b: "xe_fetch_due env" "xe_fetch env (er_etag r) = Inr (Fresh body etag)" by blast
  obtain r' t res where a: "accept_body env body etag r = (r', t, res)" by (cases "accept_body env body etag r")
  then show ?thesis using saved_accept_ends [OF assms a] b by (auto simp: fetch_phase_def)
qed

lemma enforced_fingerprint:
  assumes "enforce_phase env r = (r', t, res)" "xe_stage_ok env"
    "\<And>j. \<exists>p. xe_vpn_admin env j = Inr p \<and> get_bool ''live'' p = Some True"
  shows "er_applied_this_process r'
    \<and> er_fingerprint r' = Some (effective_fingerprint (pe_desired (er_state r')) (xe_now env))"
  using assms(1)
proof (cases rule: enforce_phase_cases)
  case idle
  then show ?thesis by (auto simp: apply_needed_def)
next
  case (failed e)
  then show ?thesis using assms(2) assms(3) [of "set_json (pe_desired (er_state r))"] by (auto simp: ext_apply_def)
next
  case (applied t1 t2)
  then show ?thesis using ext_save_shape [OF applied(3)] by simp
qed

lemma ack_phase_frame:
  assumes "ack_phase env r = (r', t, res)"
  shows "pe_desired (er_state r') = pe_desired (er_state r) \<and> last_applied now l t = l"
  using assms
proof (cases rule: ack_phase_cases)
  case (acked v t1)
  then show ?thesis using ext_save_shape [OF acked(3)] by simp
qed simp_all

lemma after_enforcement:
  assumes "ext_tick env r = (r', t, res)" "fetch_phase env r = (r1, t1, Inr fe)" "enforce_phase env r1 = (r2, t2, res2)"
  shows "pe_desired (er_state r') = pe_desired (er_state r2) \<and> last_applied now l t = last_applied now l (t1 @ t2)"
  using assms(1)
proof (cases rule: ext_tick_cases)
  case (unacked r1' u1 fe' r2' u2 u3 e)
  then show ?thesis using assms(2,3) ack_phase_frame [OF unacked(3)] by (simp add: last_applied_append)
next
  case (full r1' u1 fe' r2' u2 u3)
  then show ?thesis using assms(2,3) ack_phase_frame [OF full(3)] by (simp add: last_applied_append)
qed (use assms(2,3) in simp_all)

section \<open>An example node\<close>

definition example_clock :: rfc3339 where
  "example_clock s = (if s = ''t0'' then Some 0 else if s = ''t1'' then Some 3600 else None)"

definition example_wire_item :: "string \<Rightarrow> string \<Rightarrow> bool \<Rightarrow> json" where
  "example_wire_item credential uuid revoked =
     jobj [(''principal_id'', JStr ''ext_principal01''), (''credential_id'', JStr credential),
           (''class'', JStr ''compatibility''), (''valid_from'', JStr ''t0''), (''valid_until'', JStr ''t1''),
           (''revoked'', JBool revoked), (''protocol'', jobj [(''vless_uuid'', JStr uuid)])]"

definition example_body :: "nat \<Rightarrow> json list \<Rightarrow> json" where
  "example_body revision items =
     jobj [(''schema_version'', JInt 2), (''snapshot_revision'', jnat revision), (''authorizations'', JArr items)]"

definition example_good :: "bool \<Rightarrow> json" where
  "example_good revoked =
     example_wire_item ''cred_external01'' ''00000000-0000-4000-8000-000000000001'' revoked"

definition example_bad :: json where
  "example_bad = example_wire_item ''cred_external02'' ''not-a-uuid'' False"

definition example_ext_env :: "string + ext_fetch \<Rightarrow> int \<Rightarrow> ExtEnv" where
  "example_ext_env fetched now =
     \<lparr>xe_now = now, xe_fetch_due = True, xe_fetch = (\<lambda>_. fetched), xe_parse = example_clock,
      xe_save = (\<lambda>_. SaveOk), xe_stage_ok = True,
      xe_vpn_admin = (\<lambda>_. Inr (jobj [(''live'', JBool True)])), xe_ack = (\<lambda>_. Inr ())\<rparr>"

definition example_authorization_of :: "bool \<Rightarrow> Authorization" where
  "example_authorization_of revoked =
     \<lparr>a_principal_id = ''ext_principal01'', a_credential_id = ''cred_external01'', a_class = AuthCompatibility,
      a_valid_from = 0, a_valid_until = 3600, a_revoked = revoked,
      a_vless_uuid = Some ''00000000-0000-4000-8000-000000000001'', a_hysteria2_password = None\<rparr>"

definition example_start :: ExternalReconciler where
  "example_start =
     \<lparr>er_disk = ExtMissing, er_state = default_external_state, er_fingerprint = None,
      er_applied_this_process = False, er_etag = None, er_quarantined = []\<rparr>"

definition example_state :: "bool \<Rightarrow> nat option \<Rightarrow> PersistedExternalState" where
  "example_state revoked ack =
     \<lparr>pe_desired = [example_authorization_of revoked], pe_snapshot_revision = Some 10,
      pe_applied_snapshot_revision = Some 10, pe_acknowledged_snapshot_revision = ack\<rparr>"

definition example_after :: "bool \<Rightarrow> nat option \<Rightarrow> string list \<Rightarrow> ExternalReconciler" where
  "example_after revoked ack quarantined =
     \<lparr>er_disk = ExtBytes (Some (persisted_json (example_state revoked ack))),
      er_state = example_state revoked ack,
      er_fingerprint = Some (effective_fingerprint [example_authorization_of revoked] 100),
      er_applied_this_process = True, er_etag = None, er_quarantined = quarantined\<rparr>"

definition example_fetch :: "json list \<Rightarrow> ExtEnv" where
  "example_fetch items = example_ext_env (Inr (Fresh (example_body 10 items) None)) 100"

lemma example_clock_ok: "rfc3339_ok (xe_parse (example_ext_env f now))"
  by (auto simp: rfc3339_ok_def example_ext_env_def example_clock_def in_i64_def I64_MIN_def I64_MAX_def split: if_splits)

lemma example_fetch_clock: "rfc3339_ok (xe_parse (example_fetch items))"
  by (simp add: example_fetch_def example_clock_ok)

lemma example_opens: "ext_open ExtMissing = Inr example_start"
  by code_simp

text \<open>The first fetch applies and acknowledges; the second revokes at the same revision.\<close>

definition example_adopted :: PersistedExternalState where
  "example_adopted =
     \<lparr>pe_desired = [example_authorization_of False], pe_snapshot_revision = Some 10,
      pe_applied_snapshot_revision = None, pe_acknowledged_snapshot_revision = None\<rparr>"

lemma example_first_tick:
  "ext_tick (example_fetch [example_good False]) example_start
     = (example_after False (Some 10) [],
        [FetchAuthorizations None, SaveExternal example_adopted, RunExternal [example_authorization_of False] True,
         SaveExternal (example_state False None)] @ AckExternal 10 # [SaveExternal (example_state False (Some 10))],
        Inr ())"
  by code_simp

lemma example_second_tick:
  "fst (ext_tick (example_fetch [example_good True]) (example_after False (Some 10) [])) = example_after True (Some 10) []"
  by code_simp

section \<open>Properties of histories\<close>

text \<open>C10: Across every history of ticks and crashes, in any environment, the state file stays
  readable and its revision never goes back or is lost; and as long as the revision is the same, no
  credential is active that was not active before, so a revoked or quarantined credential does not
  come back without a newer revision.\<close>

theorem external_never_regrants:
  assumes "ext_open disk = Inr r0" "ext_run r0 None r1 l1" "ext_run r1 l1 r2 l2"
  shows "\<exists>d1 d2. ext_load_state (er_disk r1) = Inr d1 \<and> ext_load_state (er_disk r2) = Inr d2
    \<and> (\<forall>v. pe_snapshot_revision d1 = Some v \<longrightarrow>
          (\<exists>w. pe_snapshot_revision d2 = Some w \<and> v \<le> w
             \<and> (w = v \<longrightarrow> (\<forall>now. set (active_at (pe_desired d2) now) \<subseteq> set (active_at (pe_desired d1) now)))))"
proof -
  have "er_inv r1 l1" using opened_run_inv assms(1,2) by blast
  then obtain d1 d2 where "ext_load_state (er_disk r1) = Inr d1" "ext_load_state (er_disk r2) = Inr d2" "evolves d1 d2"
    using ext_run_durable [OF assms(3)] by blast
  then show ?thesis using narrows_active unfolding evolves_def by metis
qed

lemma example_runs:
  "\<exists>l. ext_run example_start None (example_after False (Some 10) []) l"
  "\<exists>l'. ext_run (example_after False (Some 10) []) l (example_after True (Some 10) []) l'"
  using ext_run.tick [OF ext_run.here example_fetch_clock, of "[example_good False]" example_start]
    ext_run.tick [OF ext_run.here example_fetch_clock, of "[example_good True]" "example_after False (Some 10) []"]
    example_first_tick example_second_tick prod.collapse by metis+

theorem external_never_regrants_witness:
  "\<exists>l1 l2. ext_open ExtMissing = Inr example_start
     \<and> ext_run example_start None (example_after False (Some 10) []) l1
     \<and> ext_run (example_after False (Some 10) []) l1 (example_after True (Some 10) []) l2
     \<and> (\<exists>d1 d2. ext_load_state (er_disk (example_after False (Some 10) [])) = Inr d1
          \<and> ext_load_state (er_disk (example_after True (Some 10) [])) = Inr d2)"
proof -
  obtain l1 where l1: "ext_run example_start None (example_after False (Some 10) []) l1"
    using example_runs(1) by blast
  obtain l2 where l2: "ext_run (example_after False (Some 10) []) l1 (example_after True (Some 10) []) l2"
    using example_runs(2) by blast
  show ?thesis
    using external_never_regrants [OF example_opens l1 l2] example_opens l1 l2 by blast
qed

text \<open>C11: A revision is acknowledged to the control plane only when the records held under it are the
  last ones that were applied and proven live, and when no credential of the snapshot is known to be
  quarantined.\<close>

theorem ack_only_applied:
  assumes "ext_open disk = Inr r0" "ext_run r0 None r l" "rfc3339_ok (xe_parse env)"
    "ext_tick env r = (r', t1 @ AckExternal v # t2, res)"
  shows "pe_snapshot_revision (er_state r') = Some v \<and> er_quarantined r' = []
    \<and> (\<exists>n. last_applied (xe_now env) l t1 = Some (pe_desired (er_state r'), n))"
proof -
  have inv: "er_inv r l" using opened_run_inv assms(1,2) by blast
  show ?thesis
  proof (rule ack_in_tick [OF assms(4)])
    fix r1 u1 fe r2 u2
    assume p: "fetch_phase env r = (r1, u1, Inr fe)" "enforce_phase env r1 = (r2, u2, Inr ())" "t1 = u1 @ u2"
      "ack_due r2 v" "pe_desired (er_state r') = pe_desired (er_state r2)"
      "pe_snapshot_revision (er_state r') = pe_snapshot_revision (er_state r2)"
      "er_quarantined r' = er_quarantined r2"
    have "keeps_step (xe_now env) r t1 r2"
      using p fetch_phase_keeps [OF assms(3)] enforce_phase_keeps keeps_step_trans by blast
    then have "applied_inv r2 (last_applied (xe_now env) l t1)" using inv by (rule keeps_step_applied)
    moreover have "er_applied_this_process r2" by (rule enforced_applied [OF p(2)])
    ultimately show ?thesis using p(4-7) by (auto simp: applied_inv_def ack_due_def)
  qed
qed

theorem ack_only_applied_witness:
  "pe_snapshot_revision (er_state (example_after False (Some 10) [])) = Some 10
    \<and> (\<exists>n. last_applied (xe_now (example_fetch [example_good False])) None
            [FetchAuthorizations None, SaveExternal example_adopted, RunExternal [example_authorization_of False] True,
             SaveExternal (example_state False None)]
          = Some (pe_desired (er_state (example_after False (Some 10) [])), n))"
  using ack_only_applied [OF example_opens ext_run.here example_fetch_clock example_first_tick] by blast

text \<open>C12: Local enforcement does not depend on the control plane: whatever the fetch answers, or if none
  is due, and whether or not the acknowledgement succeeds, after a tick whose \<open>vpn-admin\<close> runs succeed
  and whose first write succeeds, the set that was last applied has, at the time it was applied, the
  same active credentials as the held records have now.\<close>

theorem expiry_enforced:
  assumes "ext_open disk = Inr r0" "ext_run r0 None r l" "rfc3339_ok (xe_parse env)"
    "ext_tick env r = (r', t, res)" "xe_save env 0 = SaveOk" "xe_stage_ok env"
    "\<And>j. \<exists>p. xe_vpn_admin env j = Inr p \<and> get_bool ''live'' p = Some True"
  shows "\<exists>s n. last_applied (xe_now env) l t = Some (s, n)
    \<and> active_at s n = active_at (pe_desired (er_state r')) (xe_now env)"
proof -
  have inv: "er_inv r l" using opened_run_inv assms(1,2) by blast
  obtain r1 t1 fe where f: "fetch_phase env r = (r1, t1, Inr fe)" using saved_fetch_ends [OF assms(5)] by blast
  obtain r2 t2 res2 where n: "enforce_phase env r1 = (r2, t2, res2)" by (cases "enforce_phase env r1")
  have "keeps_step (xe_now env) r (t1 @ t2) r2"
    using f n fetch_phase_keeps [OF assms(3)] enforce_phase_keeps keeps_step_trans by blast
  then have "applied_inv r2 (last_applied (xe_now env) l (t1 @ t2))" using inv by (rule keeps_step_applied)
  moreover have e: "er_applied_this_process r2
      \<and> er_fingerprint r2 = Some (effective_fingerprint (pe_desired (er_state r2)) (xe_now env))"
    by (rule enforced_fingerprint [OF n assms(6,7)])
  ultimately obtain s m where s: "last_applied (xe_now env) l (t1 @ t2) = Some (s, m)"
    "effective_fingerprint s m = effective_fingerprint (pe_desired (er_state r2)) (xe_now env)"
    unfolding applied_inv_def by (metis option.inject)
  note same = after_enforcement [OF assms(4) f n, of "xe_now env" l]
  have "last_applied (xe_now env) l t = Some (s, m)" using same s(1) by simp
  moreover have "active_at s m = active_at (pe_desired (er_state r')) (xe_now env)"
    using s(2) same unfolding fingerprint_inj by simp
  ultimately show ?thesis by blast
qed

theorem expiry_enforced_witness:
  "\<exists>l. ext_run example_start None (example_after False (Some 10) []) l
     \<and> (\<exists>s n. last_applied 4000 l (fst (snd (ext_tick (example_ext_env (Inl ''unreachable'') 4000)
                  (example_after False (Some 10) [])))) = Some (s, n)
          \<and> active_at s n = active_at (pe_desired (er_state (fst (ext_tick (example_ext_env (Inl ''unreachable'') 4000)
                  (example_after False (Some 10) []))))) 4000)"
proof -
  let ?env = "example_ext_env (Inl ''unreachable'') 4000"
  obtain l where l: "ext_run example_start None (example_after False (Some 10) []) l"
    using example_runs(1) by blast
  obtain r' t res where x: "ext_tick ?env (example_after False (Some 10) []) = (r', t, res)"
    by (cases "ext_tick ?env (example_after False (Some 10) [])")
  have "\<exists>s n. last_applied (xe_now ?env) l t = Some (s, n)
      \<and> active_at s n = active_at (pe_desired (er_state r')) (xe_now ?env)"
    by (rule expiry_enforced [OF example_opens l example_clock_ok x])
      (simp_all add: example_ext_env_def get_readers_jobj)
  then show ?thesis using l x by (auto simp: example_ext_env_def)
qed

text \<open>C13: Convergence: when the control plane answers with a snapshot without quarantined credentials
  that is new for the node (no revision held, a newer one, or a tightening of the held one) and the
  file system, \<open>vpn-admin\<close> and the acknowledgement succeed, one tick ends without error with
  exactly these records applied live, durable, and the revision acknowledged.\<close>

theorem snapshot_converges:
  assumes "xe_fetch_due env" "xe_fetch env (er_etag r) = Inr (Fresh body etag)"
    "parse_snapshot (xe_parse env) body = Inr ps" "ps_snapshot_revision ps = Some v" "ps_quarantined ps = []"
    "pe_snapshot_revision (er_state r) = None
     \<or> (\<exists>w<v. pe_snapshot_revision (er_state r) = Some w)
     \<or> pe_snapshot_revision (er_state r) = Some v \<and> ps_desired ps \<noteq> pe_desired (er_state r)
       \<and> only_tightens (pe_desired (er_state r)) (ps_desired ps) []"
    "\<And>k. xe_save env k = SaveOk" "xe_stage_ok env" "xe_ack env v = Inr ()"
    "xe_vpn_admin env (set_json (ps_desired ps)) = Inr p" "get_bool ''live'' p = Some True"
  shows "\<exists>r' t. ext_tick env r = (r', t, Inr ())
    \<and> er_state r' = \<lparr>pe_desired = ps_desired ps, pe_snapshot_revision = Some v,
                     pe_applied_snapshot_revision = Some v, pe_acknowledged_snapshot_revision = Some v\<rparr>
    \<and> er_disk r' = ExtBytes (Some (persisted_json (er_state r'))) \<and> er_etag r' = etag
    \<and> RunExternal (ps_desired ps) True \<in> set t \<and> AckExternal v \<in> set t"
proof -
  define st where "st = \<lparr>pe_desired = ps_desired ps, pe_snapshot_revision = Some v,
      pe_applied_snapshot_revision = None, pe_acknowledged_snapshot_revision = None\<rparr>"
  have adopt: "adopt_snapshot (er_state r) ps = Inr (st, True)"
    using assms(4,5,6) by (auto simp: adopt_snapshot_def Let_def st_def)
  define r1 where "r1 = r\<lparr>er_state := st, er_quarantined := [], er_disk := ExtBytes (Some (persisted_json st)), er_etag := etag\<rparr>"
  have "accept_body env body etag r = (r1, [SaveExternal st], Inr None)"
    using assms(3,5,7) adopt by (simp add: accept_body_def tr_bind_def ext_save_def r1_def)
  then have f: "fetch_phase env r = (r1, [FetchAuthorizations (er_etag r), SaveExternal st], Inr None)"
    using assms(1,2) by (simp add: fetch_phase_def)
  have need: "apply_needed env r1" by (simp add: apply_needed_def r1_def st_def)
  have "ext_apply env r1 = (r1, [RunExternal (ps_desired ps) True], Inr ())"
    using assms(8,10,11) by (simp add: ext_apply_def r1_def st_def)
  then have n: "enforce_phase env r1 = ((applied_now env r1)\<lparr>er_disk := ExtBytes (Some (persisted_json (er_state (applied_now env r1))))\<rparr>,
      [RunExternal (ps_desired ps) True, SaveExternal (er_state (applied_now env r1))], Inr ())"
    using need assms(7) by (simp add: enforce_phase_def tr_bind_def ext_save_def applied_now_def)
  have "er_state (applied_now env r1) = st\<lparr>pe_applied_snapshot_revision := Some v\<rparr>"
    "er_quarantined (applied_now env r1) = []" "er_etag (applied_now env r1) = etag"
    by (simp_all add: applied_now_def r1_def st_def)
  then show ?thesis
    using assms(7,9) f n
    by (simp add: ext_tick_def tr_bind_def ack_phase_def ext_save_def st_def tr_return_def)
qed

lemma example_parsed:
  "parse_snapshot example_clock (example_body 10 [example_good False, example_bad])
     = Inr \<lparr>ps_desired = [example_authorization_of False], ps_snapshot_revision = Some 10,
            ps_quarantined = [''cred_external02'']\<rparr>"
  "parse_snapshot example_clock (example_body 10 [example_good False])
     = Inr \<lparr>ps_desired = [example_authorization_of False], ps_snapshot_revision = Some 10, ps_quarantined = []\<rparr>"
  by code_simp+

theorem snapshot_converges_witness:
  "\<exists>r' t. ext_tick (example_fetch [example_good False]) example_start = (r', t, Inr ())
     \<and> AckExternal 10 \<in> set t \<and> RunExternal [example_authorization_of False] True \<in> set t"
proof -
  have "\<exists>r' t. ext_tick (example_fetch [example_good False]) example_start = (r', t, Inr ())
    \<and> er_state r' = \<lparr>pe_desired = [example_authorization_of False], pe_snapshot_revision = Some 10,
                     pe_applied_snapshot_revision = Some 10, pe_acknowledged_snapshot_revision = Some 10\<rparr>
    \<and> er_disk r' = ExtBytes (Some (persisted_json (er_state r'))) \<and> er_etag r' = None
    \<and> RunExternal [example_authorization_of False] True \<in> set t \<and> AckExternal 10 \<in> set t"
    using snapshot_converges [of "example_fetch [example_good False]" example_start
        "example_body 10 [example_good False]" None
        "\<lparr>ps_desired = [example_authorization_of False], ps_snapshot_revision = Some 10, ps_quarantined = []\<rparr>"
        10 "jobj [(''live'', JBool True)]"]
    by (simp add: example_fetch_def example_ext_env_def example_parsed example_start_def default_external_state_def
        get_readers_jobj)
  then show ?thesis by blast
qed

text \<open>A version 2 snapshot is judged credential by credential: an item that does not decode refuses
  the response, and otherwise the records that pass their own checks are kept in order, the labels
  of the others are quarantined, and the snapshot is refused only when the kept records violate the
  rules of the set.  The class is never the reason at that point.\<close>

theorem snapshot_judged_by_credential:
  assumes "v2_snapshot_of_json body = Some (2, v, raws)" "jget ''schema_version'' body \<noteq> None"
    "length raws \<le> MAX_EXTERNAL_AUTHORIZATIONS"
  shows "parse_snapshot parse body =
    (if list_ex (\<lambda>raw. v2_item_of_json raw = None) raws then Inl ExtBadItem
     else let items = List.map_filter v2_item_of_json raws;
              kept = List.map_filter (\<lambda>i. case finish_v2_item parse i of Inr a \<Rightarrow> Some a | Inl _ \<Rightarrow> None) items
          in rbind (map_err ExtInvalid (validate_authorization_set kept)) (\<lambda>_.
             Inr \<lparr>ps_desired = kept, ps_snapshot_revision = Some v,
                  ps_quarantined = map (\<lambda>i. quarantine_label (wa_credential_id i))
                                     (filter (\<lambda>i. \<not> is_ok (finish_v2_item parse i)) items)\<rparr>))"
proof (cases "list_ex (\<lambda>raw. v2_item_of_json raw = None) raws")
  case True
  then have "v2_items parse raws [] [] = Inl ExtBadItem" by (rule v2_items_undecodable)
  with True assms show ?thesis by (simp add: parse_snapshot_def parse_v2_def enforce_snapshot_size_def)
next
  case False
  define items where "items = List.map_filter v2_item_of_json raws"
  define kept where "kept = List.map_filter (\<lambda>i. case finish_v2_item parse i of Inr a \<Rightarrow> Some a | Inl _ \<Rightarrow> None) items"
  have decoded: "map v2_item_of_json raws = map Some items" using False by (simp add: items_def map_filter_decoded)
  have n: "length kept \<le> MAX_EXTERNAL_AUTHORIZATIONS"
    using length_map_filter_le [of _ items] length_map_filter_le [of v2_item_of_json raws] assms(3)
    unfolding kept_def items_def by (meson order_trans)
  have "a \<in> set kept \<Longrightarrow> a_class a = AuthCompatibility" for a
    by (auto simp: kept_def map_filter_set case_sum_Some finish_v2_item_def rbind_eq_Inr split: if_splits)
  then have "\<not> list_ex (\<lambda>a. a_class a \<noteq> AuthCompatibility) kept" by (auto simp: list_ex_iff)
  then have "validate_external_set kept = rbind (map_err ExtInvalid (validate_authorization_set kept)) (\<lambda>_. Inr kept)"
    using n by (simp add: validate_external_set_def)
  moreover have "v2_items parse raws [] []
      = Inr (kept, map (\<lambda>i. quarantine_label (wa_credential_id i)) (filter (\<lambda>i. \<not> is_ok (finish_v2_item parse i)) items))"
    using decoded by (subst v2_items_split) (auto simp: kept_def)
  ultimately show ?thesis
    using False assms unfolding items_def [symmetric] Let_def kept_def [symmetric]
    by (cases "validate_authorization_set kept") (simp_all add: parse_snapshot_def parse_v2_def enforce_snapshot_size_def)
qed

lemma example_wire:
  "v2_snapshot_of_json (example_body 10 [example_good False, example_bad])
     = Some (2, 10, [example_good False, example_bad])"
  "jget ''schema_version'' (example_body 10 [example_good False, example_bad]) \<noteq> None"
  by code_simp+

theorem snapshot_judged_by_credential_witness:
  "(if list_ex (\<lambda>raw. v2_item_of_json raw = None) [example_good False, example_bad] then Inl ExtBadItem
     else let items = List.map_filter v2_item_of_json [example_good False, example_bad];
              kept = List.map_filter (\<lambda>i. case finish_v2_item example_clock i of Inr a \<Rightarrow> Some a | Inl _ \<Rightarrow> None) items
          in rbind (map_err ExtInvalid (validate_authorization_set kept)) (\<lambda>_.
             Inr \<lparr>ps_desired = kept, ps_snapshot_revision = Some 10,
                  ps_quarantined = map (\<lambda>i. quarantine_label (wa_credential_id i))
                                     (filter (\<lambda>i. \<not> is_ok (finish_v2_item example_clock i)) items)\<rparr>))
   = Inr \<lparr>ps_desired = [example_authorization_of False], ps_snapshot_revision = Some 10,
          ps_quarantined = [''cred_external02'']\<rparr>"
  using snapshot_judged_by_credential [OF example_wire, of example_clock] example_parsed(1)
  by (simp add: MAX_EXTERNAL_AUTHORIZATIONS_def)




end
