(* ===== verification/IpAddr.thy ===== *)
theory IpAddr
  imports Prelude
begin

text \<open>
  The part of \<open>std::net\<close> the node software relies on: IPv4 and IPv6 addresses as words,
  their octets and segments, the address-class predicates of the standard library, the
  standard parser of address literals (\<open>str::parse::<IpAddr>\<close>), and CIDR prefixes with their
  membership (the printer is in the theory \<open>IpText\<close>).  The lemmas turn every predicate into
  arithmetic on the address value, which is how the address policies are compared.
\<close>

unbundle bit_operations_syntax

type_synonym Ipv4Addr = "32 word"
type_synonym Ipv6Addr = "128 word"

datatype IpAddr = V4 Ipv4Addr | V6 Ipv6Addr

section \<open>Octets, segments and the library predicates\<close>

definition octet :: "nat \<Rightarrow> Ipv4Addr \<Rightarrow> 8 word" where
  "octet i a = ucast (drop_bit (24 - 8 * i) a)"

definition ipv4 :: "8 word \<Rightarrow> 8 word \<Rightarrow> 8 word \<Rightarrow> 8 word \<Rightarrow> Ipv4Addr" where
  "ipv4 a b c d = push_bit 24 (ucast a) OR push_bit 16 (ucast b) OR push_bit 8 (ucast c) OR ucast d"

definition segment :: "nat \<Rightarrow> Ipv6Addr \<Rightarrow> 16 word" where
  "segment i a = ucast (drop_bit (112 - 16 * i) a)"

definition is_loopback_v4 :: "Ipv4Addr \<Rightarrow> bool" where
  "is_loopback_v4 a \<longleftrightarrow> octet 0 a = 127"

definition is_unspecified_v4 :: "Ipv4Addr \<Rightarrow> bool" where
  "is_unspecified_v4 a \<longleftrightarrow> a = 0"

definition is_broadcast_v4 :: "Ipv4Addr \<Rightarrow> bool" where
  "is_broadcast_v4 a \<longleftrightarrow> a = - 1"

definition is_private_v4 :: "Ipv4Addr \<Rightarrow> bool" where
  "is_private_v4 a \<longleftrightarrow>
     octet 0 a = 10
     \<or> (octet 0 a = 172 \<and> 16 \<le> octet 1 a \<and> octet 1 a \<le> 31)
     \<or> (octet 0 a = 192 \<and> octet 1 a = 168)"

definition is_link_local_v4 :: "Ipv4Addr \<Rightarrow> bool" where
  "is_link_local_v4 a \<longleftrightarrow> octet 0 a = 169 \<and> octet 1 a = 254"

definition is_multicast_v4 :: "Ipv4Addr \<Rightarrow> bool" where
  "is_multicast_v4 a \<longleftrightarrow> 224 \<le> octet 0 a \<and> octet 0 a \<le> 239"

definition is_documentation_v4 :: "Ipv4Addr \<Rightarrow> bool" where
  "is_documentation_v4 a \<longleftrightarrow>
     (octet 0 a = 192 \<and> octet 1 a = 0 \<and> octet 2 a = 2)
     \<or> (octet 0 a = 198 \<and> octet 1 a = 51 \<and> octet 2 a = 100)
     \<or> (octet 0 a = 203 \<and> octet 1 a = 0 \<and> octet 2 a = 113)"

definition is_loopback_v6 :: "Ipv6Addr \<Rightarrow> bool" where
  "is_loopback_v6 a \<longleftrightarrow> a = 1"

definition is_unspecified_v6 :: "Ipv6Addr \<Rightarrow> bool" where
  "is_unspecified_v6 a \<longleftrightarrow> a = 0"

definition is_multicast_v6 :: "Ipv6Addr \<Rightarrow> bool" where
  "is_multicast_v6 a \<longleftrightarrow> segment 0 a AND 0xff00 = 0xff00"

definition to_ipv4_mapped :: "Ipv6Addr \<Rightarrow> Ipv4Addr option" where
  "to_ipv4_mapped a = (if drop_bit 32 a = 0xffff then Some (ucast a) else None)"

section \<open>CIDR prefixes\<close>

type_synonym 'a cidr = "'a word \<times> nat"

definition in_cidr :: "'a::len cidr \<Rightarrow> 'a word \<Rightarrow> bool" where
  "in_cidr c a \<longleftrightarrow>
     drop_bit (LENGTH('a) - snd c) a = drop_bit (LENGTH('a) - snd c) (fst c)"

section \<open>Parsing literals\<close>

definition to_digit :: "nat \<Rightarrow> char \<Rightarrow> nat option" where
  "to_digit radix c =
     (let n = of_char c :: nat;
          d = (if 48 \<le> n \<and> n \<le> 57 then Some (n - 48)
               else if 97 \<le> n \<and> n \<le> 122 then Some (n - 87)
               else if 65 \<le> n \<and> n \<le> 90 then Some (n - 55)
               else None)
      in case d of None \<Rightarrow> None | Some k \<Rightarrow> if k < radix then Some k else None)"

fun read_digits :: "nat \<Rightarrow> string \<Rightarrow> nat list \<times> string" where
  "read_digits radix [] = ([], [])"
| "read_digits radix (c # s) =
     (case to_digit radix c of
        None \<Rightarrow> ([], c # s)
      | Some d \<Rightarrow> let (ds, r) = read_digits radix s in (d # ds, r))"

definition read_number :: "nat \<Rightarrow> nat \<Rightarrow> bool \<Rightarrow> nat \<Rightarrow> string \<Rightarrow> (nat \<times> string) option" where
  "read_number radix max_digits allow_zero_prefix bound s =
     (let (ds, r) = read_digits radix s;
          v = foldl (\<lambda>acc d. acc * radix + d) 0 ds
      in if ds = [] \<or> length ds > max_digits then None
         else if \<not> allow_zero_prefix \<and> hd ds = 0 \<and> length ds > 1 then None
         else if v < bound then Some (v, r) else None)"

definition read_sep :: "char \<Rightarrow> nat \<Rightarrow> string \<Rightarrow> string option" where
  "read_sep sep i s =
     (if i = 0 then Some s
      else case s of c # r \<Rightarrow> if c = sep then Some r else None | [] \<Rightarrow> None)"

fun read_octets :: "nat \<Rightarrow> nat \<Rightarrow> string \<Rightarrow> (nat list \<times> string) option" where
  "read_octets 0 i s = Some ([], s)"
| "read_octets (Suc n) i s =
     (case read_sep (CHR ''.'') i s of
        None \<Rightarrow> None
      | Some s1 \<Rightarrow>
          (case read_number 10 3 False 256 s1 of
             None \<Rightarrow> None
           | Some (v, s2) \<Rightarrow>
               (case read_octets n (Suc i) s2 of
                  None \<Rightarrow> None
                | Some (vs, s3) \<Rightarrow> Some (v # vs, s3))))"

definition read_ipv4_addr :: "string \<Rightarrow> (nat list \<times> string) option" where
  "read_ipv4_addr s = read_octets 4 0 s"

text \<open>
  \<open>read_groups limit i s\<close> is the loop over the remaining group slots: it returns the groups
  read, whether the last two came from an embedded IPv4 literal, and the unread input.
\<close>

fun read_groups :: "nat \<Rightarrow> nat \<Rightarrow> string \<Rightarrow> nat list \<times> bool \<times> string" where
  "read_groups 0 i s = ([], False, s)"
| "read_groups (Suc n) i s =
     (let embedded =
        (if n = 0 then None
         else case read_sep (CHR '':'') i s of None \<Rightarrow> None | Some s1 \<Rightarrow> read_ipv4_addr s1)
      in case embedded of
           Some (os, r) \<Rightarrow> ([os ! 0 * 256 + os ! 1, os ! 2 * 256 + os ! 3], True, r)
         | None \<Rightarrow>
             (case (case read_sep (CHR '':'') i s of
                      None \<Rightarrow> None | Some s1 \<Rightarrow> read_number 16 4 True 65536 s1) of
                None \<Rightarrow> ([], False, s)
              | Some (g, r) \<Rightarrow>
                  (let (gs, v4, r') = read_groups n (Suc i) r in (g # gs, v4, r'))))"

definition read_ipv6_addr :: "string \<Rightarrow> (nat list \<times> string) option" where
  "read_ipv6_addr s =
     (let (head_groups, head_ipv4, r) = read_groups 8 0 s in
      if length head_groups = 8 then Some (head_groups, r)
      else if head_ipv4 then None
      else if take 2 r = ''::'' then
        (let (tail_groups, _, r') = read_groups (8 - (length head_groups + 1)) 0 (drop 2 r)
         in Some (head_groups @ replicate (8 - length head_groups - length tail_groups) 0
                    @ tail_groups, r'))
      else None)"

definition parse_ip :: "string \<Rightarrow> IpAddr option" where
  "parse_ip s =
     (case read_ipv4_addr s of
        Some (os, r) \<Rightarrow>
          if r = [] then Some (V4 (word_of_nat (foldl (\<lambda>acc d. acc * 256 + d) 0 os))) else None
      | None \<Rightarrow>
          (case read_ipv6_addr s of
             Some (gs, r) \<Rightarrow>
               if r = [] then Some (V6 (word_of_nat (foldl (\<lambda>acc d. acc * 65536 + d) 0 gs)))
               else None
           | None \<Rightarrow> None))"

section \<open>Lemmas\<close>

lemma read_octets_numeral [simp]:
  "read_octets (numeral k) i s =
     (case read_sep (CHR ''.'') i s of
        None \<Rightarrow> None
      | Some s1 \<Rightarrow>
          (case read_number 10 3 False 256 s1 of
             None \<Rightarrow> None
           | Some (v, s2) \<Rightarrow>
               (case read_octets (pred_numeral k) (Suc i) s2 of
                  None \<Rightarrow> None
                | Some (vs, s3) \<Rightarrow> Some (v # vs, s3))))"
  by (simp add: numeral_eq_Suc)

lemma read_groups_numeral [simp]:
  "read_groups (numeral k) i s =
     (let embedded =
        (if pred_numeral k = 0 then None
         else case read_sep (CHR '':'') i s of None \<Rightarrow> None | Some s1 \<Rightarrow> read_ipv4_addr s1)
      in case embedded of
           Some (os, r) \<Rightarrow> ([os ! 0 * 256 + os ! 1, os ! 2 * 256 + os ! 3], True, r)
         | None \<Rightarrow>
             (case (case read_sep (CHR '':'') i s of
                      None \<Rightarrow> None | Some s1 \<Rightarrow> read_number 16 4 True 65536 s1) of
                None \<Rightarrow> ([], False, s)
              | Some (g, r) \<Rightarrow>
                  (let (gs, v4, r') = read_groups (pred_numeral k) (Suc i) r in (g # gs, v4, r'))))"
  by (simp only: numeral_eq_Suc [of k] read_groups.simps)

lemmas parse_eval =
  parse_ip_def read_ipv4_addr_def read_ipv6_addr_def read_sep_def read_number_def to_digit_def Let_def

lemma unat_drop_bit_div: "unat (drop_bit k (a :: 'a::len word)) = unat a div 2 ^ k"
proof -
  have "unat (drop_bit k a) = drop_bit k (unat a)"
    by (simp add: unsigned_drop_bit_eq take_bit_nat_eq_self)
  then show ?thesis by (simp only: drop_bit_eq_div)
qed

lemma unat_octet: "i \<le> 3 \<Longrightarrow> unat (octet i a) = unat a div 2 ^ (24 - 8 * i) mod 256"
  by (simp add: octet_def unsigned_ucast_eq unat_drop_bit_div take_bit_eq_mod)

lemma unat_v4_bound: "unat (a :: Ipv4Addr) < 4294967296"
  using unsigned_less [of a, where 'a = nat] by simp

lemma unat_v6_bound: "unat (a :: Ipv6Addr) < 2 ^ 128"
  using unsigned_less [of a, where 'a = nat] by simp

lemma unat_octet0: "unat (octet 0 a) = unat a div 16777216"
  using unat_octet [of 0 a] unat_v4_bound [of a] by simp

lemma unat_octet1: "unat (octet 1 a) = unat a div 65536 mod 256"
  using unat_octet [of 1 a] by simp

lemma unat_octet2: "unat (octet 2 a) = unat a div 256 mod 256"
  using unat_octet [of 2 a] by simp

lemma unat_segment: "i \<le> 7 \<Longrightarrow> unat (segment i a) = unat a div 2 ^ (112 - 16 * i) mod 65536"
  by (simp add: segment_def unsigned_ucast_eq unat_drop_bit_div take_bit_eq_mod)

lemma unat_segment0: "unat (segment 0 a) = unat a div 2 ^ 112"
  using unat_segment [of 0 a] unat_v6_bound [of a] by simp

lemma unat_segment1: "unat (segment 1 a) = unat a div 2 ^ 96 mod 65536"
  using unat_segment [of 1 a] by simp

lemma in_cidr_iff:
  "in_cidr c (a :: 'a::len word) \<longleftrightarrow>
     unat a div 2 ^ (LENGTH('a) - snd c) = unat (fst c) div 2 ^ (LENGTH('a) - snd c)"
  by (simp add: in_cidr_def word_unat_eq_iff unat_drop_bit_div)

lemma word_eq_unat: "(x :: 'a::len word) = y \<longleftrightarrow> unat x = unat y"
  by (simp add: word_unat_eq_iff)

lemma to_ipv4_mapped_iff:
  "to_ipv4_mapped a = Some v \<longleftrightarrow> unat a div 2 ^ 32 = 0xffff \<and> unat v = unat a mod 2 ^ 32"
  by (auto simp: to_ipv4_mapped_def word_eq_unat unat_drop_bit_div
      unsigned_ucast_eq take_bit_eq_mod)

lemmas ipv4_arith =
  is_loopback_v4_def is_unspecified_v4_def is_broadcast_v4_def is_private_v4_def
  is_link_local_v4_def is_multicast_v4_def is_documentation_v4_def
  word_eq_unat word_le_nat_alt unat_octet0 unat_octet1 unat_octet2

lemma high_mask_eq:
  fixes w :: "16 word"
  assumes "m = push_bit k (mask (16 - k))" "k \<le> 16"
  shows "w AND m = push_bit k (drop_bit k w)"
  unfolding assms(1) by (rule bit_word_eqI) (use assms(2) in \<open>auto simp: bit_simps\<close>)

lemma unat_high_mask:
  fixes w :: "16 word"
  shows "unat (push_bit k (drop_bit k w)) = unat w div 2 ^ k * 2 ^ k"
proof -
  have "unat w < 65536" using unsigned_less [of w, where 'a = nat] by simp
  with div_times_less_eq_dividend [of "unat w" "2 ^ k"]
  have "unat w div 2 ^ k * 2 ^ k < 65536" by (rule le_less_trans)
  moreover have "unat (push_bit k (drop_bit k w)) = take_bit 16 (push_bit k (unat (drop_bit k w)))"
    by (simp add: unsigned_push_bit_eq)
  then have "unat (push_bit k (drop_bit k w)) = take_bit 16 (unat w div 2 ^ k * 2 ^ k)"
    by (simp only: unat_drop_bit_div push_bit_eq_mult)
  ultimately show ?thesis by (simp add: take_bit_nat_eq_self)
qed

lemma seg_mask_ff00: "(w :: 16 word) AND 0xff00 = 0xff00 \<longleftrightarrow> unat w div 256 = 255"
proof -
  have "w AND 0xff00 = push_bit 8 (drop_bit 8 w)" by (rule high_mask_eq) (simp_all add: mask_eq_exp_minus_1)
  then show ?thesis by (simp add: word_eq_unat unat_high_mask)
qed

lemma seg_mask_ffc0: "(w :: 16 word) AND 0xffc0 = 0xfe80 \<longleftrightarrow> unat w div 64 = 1018"
proof -
  have "w AND 0xffc0 = push_bit 6 (drop_bit 6 w)" by (rule high_mask_eq) (simp_all add: mask_eq_exp_minus_1)
  then show ?thesis by (simp add: word_eq_unat unat_high_mask)
qed

lemma seg_mask_fe00: "(w :: 16 word) AND 0xfe00 = 0xfc00 \<longleftrightarrow> unat w div 512 = 126"
proof -
  have "w AND 0xfe00 = push_bit 9 (drop_bit 9 w)" by (rule high_mask_eq) (simp_all add: mask_eq_exp_minus_1)
  then show ?thesis by (simp add: word_eq_unat unat_high_mask)
qed

end
