(* ===== verification/SsrfGuard.thy ===== *)
theory SsrfGuard
  imports IpAddr
begin

text \<open>
  The three address classifiers of the node software and the prober's resolution guard:
  \<open>apps/provisioning-agent/src/ssrf_guard.rs\<close>, the relay-target classifier of
  \<open>crates/compat-config/src/deployment.rs\<close> and the resolver-address check of
  \<open>crates/compat-config/src/static_revision.rs\<close>.  The classifiers are compared with one
  table of CIDR prefixes and with each other; the guard is shown to pin only addresses that
  the classifier accepts, whatever the name resolver answers.
\<close>

unbundle bit_operations_syntax

section \<open>The probe guard\<close>

datatype DenyReason =
    Loopback | LinkLocal | PrivateUseIpv4 | CarrierGradeNat | UniqueLocalIpv6 | Multicast
  | Unspecified | Broadcast | Documentation | Benchmarking | MetadataService
  | Ipv4MappedDenied | Reserved

fun deny_reason_str :: "DenyReason \<Rightarrow> string" where
  "deny_reason_str Loopback = ''loopback''"
| "deny_reason_str LinkLocal = ''link_local''"
| "deny_reason_str PrivateUseIpv4 = ''private_use_ipv4''"
| "deny_reason_str CarrierGradeNat = ''carrier_grade_nat''"
| "deny_reason_str UniqueLocalIpv6 = ''unique_local_ipv6''"
| "deny_reason_str Multicast = ''multicast''"
| "deny_reason_str Unspecified = ''unspecified''"
| "deny_reason_str Broadcast = ''broadcast''"
| "deny_reason_str Documentation = ''documentation''"
| "deny_reason_str Benchmarking = ''benchmarking''"
| "deny_reason_str MetadataService = ''metadata_service''"
| "deny_reason_str Ipv4MappedDenied = ''ipv4_mapped_denied''"
| "deny_reason_str Reserved = ''reserved''"

definition METADATA_V4 :: Ipv4Addr where
  "METADATA_V4 = ipv4 169 254 169 254"

definition classify_v4 :: "Ipv4Addr \<Rightarrow> DenyReason option" where
  "classify_v4 v4 =
     (if v4 = METADATA_V4 then Some MetadataService
      else if is_loopback_v4 v4 then Some Loopback
      else if is_unspecified_v4 v4 then Some Unspecified
      else if is_broadcast_v4 v4 then Some Broadcast
      else if is_private_v4 v4 then Some PrivateUseIpv4
      else if is_link_local_v4 v4 then Some LinkLocal
      else if is_multicast_v4 v4 then Some Multicast
      else if is_documentation_v4 v4 then Some Documentation
      else if octet 0 v4 = 100 \<and> 64 \<le> octet 1 v4 \<and> octet 1 v4 \<le> 127 then Some CarrierGradeNat
      else if octet 0 v4 = 198 \<and> (octet 1 v4 = 18 \<or> octet 1 v4 = 19) then Some Benchmarking
      else if octet 0 v4 = 0 then Some Reserved
      else None)"

definition classify_v6 :: "Ipv6Addr \<Rightarrow> DenyReason option" where
  "classify_v6 v6 =
     (if is_loopback_v6 v6 then Some Loopback
      else if is_unspecified_v6 v6 then Some Unspecified
      else if is_multicast_v6 v6 then Some Multicast
      else if segment 0 v6 AND 0xffc0 = 0xfe80 then Some LinkLocal
      else if segment 0 v6 AND 0xfe00 = 0xfc00 then Some UniqueLocalIpv6
      else if segment 0 v6 = 0x2001 \<and> segment 1 v6 = 0x0db8 then Some Documentation
      else None)"

fun classify_denied :: "IpAddr \<Rightarrow> DenyReason option" where
  "classify_denied (V4 v4) = classify_v4 v4"
| "classify_denied (V6 v6) =
     (case to_ipv4_mapped v6 of
        Some mapped \<Rightarrow> map_option (\<lambda>_. Ipv4MappedDenied) (classify_v4 mapped)
      | None \<Rightarrow> classify_v6 v6)"

record ResolvedTarget =
  rt_ip :: IpAddr
  rt_port :: "16 word"

datatype GuardError =
    EmptyHost | DeniedLiteral DenyReason | ResolutionFailed string | NoAddresses
  | DeniedResolved IpAddr DenyReason

fun first_denied :: "IpAddr list \<Rightarrow> (IpAddr \<times> DenyReason) option" where
  "first_denied [] = None"
| "first_denied (ip # ips) =
     (case classify_denied ip of Some r \<Rightarrow> Some (ip, r) | None \<Rightarrow> first_denied ips)"

text \<open>The system resolver is the parameter \<open>to_socket_addrs\<close>: any answer, any failure.\<close>

definition resolve_and_validate ::
    "(string \<Rightarrow> 16 word \<Rightarrow> string + IpAddr list) \<Rightarrow> string \<Rightarrow> 16 word \<Rightarrow> GuardError + ResolvedTarget" where
  "resolve_and_validate to_socket_addrs host port =
     (if host = [] then Inl EmptyHost
      else case parse_ip host of
        Some ip \<Rightarrow>
          (case classify_denied ip of
             Some reason \<Rightarrow> Inl (DeniedLiteral reason)
           | None \<Rightarrow> Inr \<lparr>rt_ip = ip, rt_port = port\<rparr>)
      | None \<Rightarrow>
          (case to_socket_addrs host port of
             Inl e \<Rightarrow> Inl (ResolutionFailed e)
           | Inr addrs \<Rightarrow>
               if addrs = [] then Inl NoAddresses
               else case first_denied addrs of
                      Some (ip, r) \<Rightarrow> Inl (DeniedResolved ip r)
                    | None \<Rightarrow> Inr \<lparr>rt_ip = hd addrs, rt_port = port\<rparr>))"

section \<open>The relay-target classifier\<close>

definition relay_v4_denied :: "Ipv4Addr \<Rightarrow> string option" where
  "relay_v4_denied addr =
     (if addr = METADATA_V4 then Some ''metadata service''
      else if is_unspecified_v4 addr then Some ''unspecified''
      else if is_broadcast_v4 addr then Some ''broadcast''
      else if is_loopback_v4 addr then Some ''loopback''
      else if is_private_v4 addr then Some ''private-use (RFC1918)''
      else if is_link_local_v4 addr then Some ''link-local''
      else if is_multicast_v4 addr then Some ''multicast''
      else if is_documentation_v4 addr then Some ''documentation''
      else if octet 0 addr = 100 \<and> 64 \<le> octet 1 addr \<and> octet 1 addr \<le> 127
        then Some ''carrier-grade NAT (RFC6598)''
      else if octet 0 addr = 198 \<and> (octet 1 addr = 18 \<or> octet 1 addr = 19)
        then Some ''benchmarking (RFC2544)''
      else if octet 0 addr = 0 then Some ''reserved''
      else None)"

definition relay_v6_denied :: "Ipv6Addr \<Rightarrow> string option" where
  "relay_v6_denied addr =
     (if is_unspecified_v6 addr then Some ''unspecified''
      else if is_loopback_v6 addr then Some ''loopback''
      else if is_multicast_v6 addr then Some ''multicast''
      else if segment 0 addr AND 0xffc0 = 0xfe80 then Some ''link-local''
      else if segment 0 addr AND 0xfe00 = 0xfc00 then Some ''unique-local (ULA)''
      else if segment 0 addr = 0x2001 \<and> segment 1 addr = 0x0db8 then Some ''documentation''
      else None)"

fun classify_relay_target_denied :: "IpAddr \<Rightarrow> string option" where
  "classify_relay_target_denied (V4 addr) = relay_v4_denied addr"
| "classify_relay_target_denied (V6 addr) =
     (case Option.bind (to_ipv4_mapped addr) relay_v4_denied of
        Some r \<Rightarrow> Some r
      | None \<Rightarrow> relay_v6_denied addr)"

section \<open>The resolver-address check\<close>

definition public_resolver_v4 :: "Ipv4Addr \<Rightarrow> bool" where
  "public_resolver_v4 v4 \<longleftrightarrow>
     \<not> (is_loopback_v4 v4 \<or> is_private_v4 v4 \<or> is_link_local_v4 v4 \<or> is_unspecified_v4 v4
        \<or> is_broadcast_v4 v4 \<or> is_multicast_v4 v4 \<or> is_documentation_v4 v4
        \<or> octet 0 v4 = 0
        \<or> (octet 0 v4 = 100 \<and> 64 \<le> octet 1 v4 \<and> octet 1 v4 \<le> 127)
        \<or> (octet 0 v4 = 198 \<and> (octet 1 v4 = 18 \<or> octet 1 v4 = 19))
        \<or> 240 \<le> octet 0 v4)"

fun is_public_resolver_address :: "IpAddr \<Rightarrow> bool" where
  "is_public_resolver_address (V4 v4) = public_resolver_v4 v4"
| "is_public_resolver_address (V6 v6) =
     (case to_ipv4_mapped v6 of
        Some mapped \<Rightarrow> public_resolver_v4 mapped
      | None \<Rightarrow>
          \<not> (is_loopback_v6 v6 \<or> is_unspecified_v6 v6 \<or> is_multicast_v6 v6
             \<or> segment 0 v6 AND 0xfe00 = 0xfc00 \<or> segment 0 v6 AND 0xffc0 = 0xfe80
             \<or> (segment 0 v6 = 0x2001 \<and> segment 1 v6 = 0x0db8)))"

section \<open>The reference table\<close>

definition deny_table_v4 :: "32 cidr list" where
  "deny_table_v4 =
     [(0x00000000, 8), (0x0A000000, 8), (0x64400000, 10), (0x7F000000, 8), (0xA9FE0000, 16),
      (0xAC100000, 12), (0xC0000200, 24), (0xC0A80000, 16), (0xC6120000, 15), (0xC6336400, 24),
      (0xCB007100, 24), (0xE0000000, 4), (0xFFFFFFFF, 32)]"

definition deny_table_v6 :: "128 cidr list" where
  "deny_table_v6 =
     [(0, 128), (1, 128), (0x20010db8000000000000000000000000, 32),
      (0xfc000000000000000000000000000000, 7), (0xfe800000000000000000000000000000, 10),
      (0xff000000000000000000000000000000, 8)]"

fun table_denied :: "IpAddr \<Rightarrow> bool" where
  "table_denied (V4 a) = list_ex (\<lambda>c. in_cidr c a) deny_table_v4"
| "table_denied (V6 a) =
     (list_ex (\<lambda>c. in_cidr c a) deny_table_v6
      \<or> (in_cidr (0xffff00000000, 96) a \<and> list_ex (\<lambda>c. in_cidr c (ucast a :: Ipv4Addr)) deny_table_v4))"

section \<open>Lemmas\<close>


lemma if_Some_neq_None: "(if c then Some x else m) \<noteq> None \<longleftrightarrow> c \<or> m \<noteq> None"
  by simp

lemma in_cidr_v4_iff:
  "in_cidr (b, n) (a :: Ipv4Addr) \<longleftrightarrow> unat a div 2 ^ (32 - n) = unat b div 2 ^ (32 - n)"
  by (simp add: in_cidr_iff)

lemma octet0_cidr: "octet 0 a = x \<longleftrightarrow> unat a div 65536 div 256 = unat x"
  by (simp add: word_eq_unat unat_octet0 div_mult2_eq [symmetric])

lemma q_div_eq:
  assumes "0 < d"
  shows "(q :: nat) div d = x \<longleftrightarrow> d * x \<le> q \<and> q < d * x + d"
proof -
  have "q div d = x \<longleftrightarrow> x \<le> q div d \<and> q div d < Suc x" by auto
  also have "\<dots> \<longleftrightarrow> x * d \<le> q \<and> q < Suc x * d"
    using assms by (simp only: less_eq_div_iff_mult_less_eq div_less_iff_less_mult)
  finally show ?thesis by (simp add: ac_simps)
qed

lemma q_range:
  assumes "y < 256"
  shows "(q :: nat) div 256 = x \<and> lo \<le> q mod 256 \<and> q mod 256 \<le> y \<longleftrightarrow>
    256 * x + lo \<le> q \<and> q \<le> 256 * x + y \<and> lo \<le> y"
proof
  assume "q div 256 = x \<and> lo \<le> q mod 256 \<and> q mod 256 \<le> y"
  then show "256 * x + lo \<le> q \<and> q \<le> 256 * x + y \<and> lo \<le> y"
    using mult_div_mod_eq [of 256 q] by auto
next
  assume r: "256 * x + lo \<le> q \<and> q \<le> 256 * x + y \<and> lo \<le> y"
  with assms have "q div 256 = x" by (subst q_div_eq) auto
  with r show "q div 256 = x \<and> lo \<le> q mod 256 \<and> q mod 256 \<le> y"
    using mult_div_mod_eq [of 256 q] by auto
qed

lemma octet01_range:
  "octet 0 a = x \<and> lo \<le> octet 1 a \<and> octet 1 a \<le> hi \<longleftrightarrow>
     256 * unat x + unat lo \<le> unat a div 65536 \<and> unat a div 65536 \<le> 256 * unat x + unat hi
     \<and> unat lo \<le> unat hi"
proof -
  have "unat hi < 256" using unsigned_less [of hi, where 'a = nat] by simp
  then show ?thesis
    unfolding octet0_cidr word_le_nat_alt unat_octet1 by (rule q_range)
qed

lemma octet01_eq: "octet 0 a = x \<and> octet 1 a = y \<longleftrightarrow> unat a div 65536 = 256 * unat x + unat y"
  using octet01_range [of a x y y] by auto

lemma octet012_eq:
  "octet 0 a = x \<and> octet 1 a = y \<and> octet 2 a = z \<longleftrightarrow>
     unat a div 256 = 65536 * unat x + 256 * unat y + unat z"
proof -
  have z: "unat z < 256" using unsigned_less [of z, where 'a = nat] by simp
  have q: "unat a div 65536 = unat a div 256 div 256" by (simp add: div_mult2_eq [symmetric])
  have "octet 0 a = x \<and> octet 1 a = y \<and> octet 2 a = z \<longleftrightarrow>
      unat a div 256 div 256 = 256 * unat x + unat y
      \<and> unat z \<le> unat a div 256 mod 256 \<and> unat a div 256 mod 256 \<le> unat z"
    unfolding conj_assoc [symmetric] octet01_eq q
    unfolding word_eq_unat [of "octet 2 a"] unat_octet2 by auto
  also have "\<dots> \<longleftrightarrow> unat a div 256 = 65536 * unat x + 256 * unat y + unat z"
    unfolding q_range [OF z] by auto
  finally show ?thesis .
qed

lemma unat_METADATA_V4: "unat METADATA_V4 = 2852039166"
  by (simp add: METADATA_V4_def ipv4_def)

lemma metadata_link_local: "is_link_local_v4 METADATA_V4"
  unfolding is_link_local_v4_def octet01_eq by (simp add: unat_METADATA_V4)

lemma loopback_cidr: "is_loopback_v4 a \<longleftrightarrow> in_cidr (0x7F000000, 8) a"
  by (simp add: is_loopback_v4_def in_cidr_v4_iff word_eq_unat unat_octet0)

lemma zero_net_cidr: "octet 0 a = 0 \<longleftrightarrow> in_cidr (0x00000000, 8) a"
  by (simp add: in_cidr_v4_iff word_eq_unat unat_octet0)

lemma broadcast_cidr: "is_broadcast_v4 a \<longleftrightarrow> in_cidr (0xFFFFFFFF, 32) a"
proof -
  have "(- 1 :: Ipv4Addr) = 0xFFFFFFFF" by simp
  then show ?thesis
    by (simp only: is_broadcast_v4_def) (simp add: in_cidr_v4_iff word_eq_unat)
qed

lemma div_div_16: "(n :: nat) div 1048576 = n div 65536 div 16"
  "n div 268435456 = n div 16777216 div 16"
  "n div 4194304 = n div 65536 div 64"
  "n div 131072 = n div 65536 div 2"
  by (simp_all add: div_mult2_eq [symmetric])

lemma octet172_cidr:
  "octet 0 a = 172 \<and> 16 \<le> octet 1 a \<and> octet 1 a \<le> 31 \<longleftrightarrow> in_cidr (0xAC100000, 12) a"
  unfolding octet01_range in_cidr_v4_iff by (simp add: div_div_16 q_div_eq [of 16]) linarith

lemma private_cidr:
  "is_private_v4 a \<longleftrightarrow>
     in_cidr (0x0A000000, 8) a \<or> in_cidr (0xAC100000, 12) a \<or> in_cidr (0xC0A80000, 16) a"
proof -
  have "octet 0 a = 10 \<longleftrightarrow> in_cidr (0x0A000000, 8) a"
    by (simp add: in_cidr_v4_iff word_eq_unat unat_octet0)
  moreover have "octet 0 a = 192 \<and> octet 1 a = 168 \<longleftrightarrow> in_cidr (0xC0A80000, 16) a"
    unfolding octet01_eq by (simp add: in_cidr_v4_iff)
  ultimately show ?thesis unfolding is_private_v4_def octet172_cidr by simp
qed

lemma link_local_cidr: "is_link_local_v4 a \<longleftrightarrow> in_cidr (0xA9FE0000, 16) a"
  unfolding is_link_local_v4_def octet01_eq by (simp add: in_cidr_v4_iff)

lemma multicast_cidr: "is_multicast_v4 a \<longleftrightarrow> in_cidr (0xE0000000, 4) a"
  unfolding is_multicast_v4_def in_cidr_v4_iff word_le_nat_alt unat_octet0
  by (simp add: div_div_16 q_div_eq [of 16]) linarith

lemma documentation_cidr:
  "is_documentation_v4 a \<longleftrightarrow>
     in_cidr (0xC0000200, 24) a \<or> in_cidr (0xC6336400, 24) a \<or> in_cidr (0xCB007100, 24) a"
  unfolding is_documentation_v4_def octet012_eq by (simp add: in_cidr_v4_iff)

lemma cgnat_cidr:
  "octet 0 a = 100 \<and> 64 \<le> octet 1 a \<and> octet 1 a \<le> 127 \<longleftrightarrow> in_cidr (0x64400000, 10) a"
  unfolding octet01_range in_cidr_v4_iff by (simp add: div_div_16 q_div_eq [of 64]) linarith

lemma benchmark_cidr:
  "octet 0 a = 198 \<and> (octet 1 a = 18 \<or> octet 1 a = 19) \<longleftrightarrow> in_cidr (0xC6120000, 15) a"
  unfolding conj_disj_distribL octet01_eq
  by (simp add: in_cidr_v4_iff div_div_16 q_div_eq [of 2]) linarith

lemma class_e_cidr: "240 \<le> octet 0 a \<longleftrightarrow> in_cidr (0xF0000000, 4) a"
proof -
  have "unat a div 16777216 < 256" using unat_v4_bound [of a] by (simp add: less_mult_imp_div_less)
  then show ?thesis
    unfolding in_cidr_v4_iff word_le_nat_alt unat_octet0
    by (simp add: div_div_16 q_div_eq [of 16])
qed

lemmas v4_cidrs =
  loopback_cidr zero_net_cidr broadcast_cidr private_cidr link_local_cidr multicast_cidr
  documentation_cidr cgnat_cidr benchmark_cidr class_e_cidr

lemma unspecified_zero_net: "is_unspecified_v4 a \<Longrightarrow> octet 0 a = 0"
  by (simp add: is_unspecified_v4_def octet_def)

lemma classify_v4_table: "classify_v4 a \<noteq> None \<longleftrightarrow> list_ex (\<lambda>c. in_cidr c a) deny_table_v4"
proof -
  have "classify_v4 a \<noteq> None \<longleftrightarrow>
     is_loopback_v4 a \<or> is_broadcast_v4 a \<or> is_private_v4 a \<or> is_link_local_v4 a
     \<or> is_multicast_v4 a \<or> is_documentation_v4 a
     \<or> (octet 0 a = 100 \<and> 64 \<le> octet 1 a \<and> octet 1 a \<le> 127)
     \<or> (octet 0 a = 198 \<and> (octet 1 a = 18 \<or> octet 1 a = 19)) \<or> octet 0 a = 0"
    unfolding classify_v4_def if_Some_neq_None
    using metadata_link_local unspecified_zero_net [of a] by auto
  then show ?thesis
    unfolding v4_cidrs deny_table_v4_def by (simp, blast)
qed

lemma in_cidr_v6_iff:
  "in_cidr (b, n) (a :: Ipv6Addr) \<longleftrightarrow> unat a div 2 ^ (128 - n) = unat b div 2 ^ (128 - n)"
  by (simp add: in_cidr_iff)

lemma multicast6_cidr: "is_multicast_v6 a \<longleftrightarrow> in_cidr (0xff000000000000000000000000000000, 8) a"
  unfolding is_multicast_v6_def seg_mask_ff00 unat_segment0 in_cidr_v6_iff
  by (simp add: div_mult2_eq [symmetric])

lemma link_local6_cidr:
  "segment 0 a AND 0xffc0 = 0xfe80 \<longleftrightarrow> in_cidr (0xfe800000000000000000000000000000, 10) a"
  unfolding seg_mask_ffc0 unat_segment0 in_cidr_v6_iff
  by (simp add: div_mult2_eq [symmetric])

lemma ula_cidr:
  "segment 0 a AND 0xfe00 = 0xfc00 \<longleftrightarrow> in_cidr (0xfc000000000000000000000000000000, 7) a"
  unfolding seg_mask_fe00 unat_segment0 in_cidr_v6_iff
  by (simp add: div_mult2_eq [symmetric])

lemma documentation6_cidr:
  "segment 0 a = 0x2001 \<and> segment 1 a = 0x0db8 \<longleftrightarrow>
     in_cidr (0x20010db8000000000000000000000000, 32) a"
proof -
  have q: "unat a div 2 ^ 112 = unat a div 2 ^ 96 div 65536"
    by (simp add: div_mult2_eq [symmetric])
  have "(q :: nat) div 65536 = 8193 \<and> q mod 65536 = 3512 \<longleftrightarrow> q = 536939960" for q
    by (auto intro: trans [OF mult_div_mod_eq [of 65536 q, symmetric]])
  then show ?thesis
    unfolding word_eq_unat unat_segment0 unat_segment1 in_cidr_v6_iff q by simp
qed

lemma loopback6_cidr: "is_loopback_v6 a \<longleftrightarrow> in_cidr (1, 128) a"
  by (simp add: is_loopback_v6_def in_cidr_v6_iff word_eq_unat)

lemma unspecified6_cidr: "is_unspecified_v6 a \<longleftrightarrow> in_cidr (0, 128) a"
  by (simp add: is_unspecified_v6_def in_cidr_v6_iff word_eq_unat)

lemma mapped_cidr: "to_ipv4_mapped a =
    (if in_cidr (0xffff00000000, 96) a then Some (ucast a) else None)"
  by (simp add: to_ipv4_mapped_def in_cidr_v6_iff word_eq_unat unat_drop_bit_div)

lemmas v6_cidrs =
  multicast6_cidr link_local6_cidr ula_cidr documentation6_cidr loopback6_cidr unspecified6_cidr

lemma mapped_not_v6_denied:
  assumes "in_cidr (0xffff00000000, 96) (a :: Ipv6Addr)"
  shows "\<not> list_ex (\<lambda>c. in_cidr c a) deny_table_v6"
proof -
  have "unat a div 4294967296 = 65535" using assms by (simp add: in_cidr_v6_iff)
  then have b: "281470681743360 \<le> unat a" "unat a < 281474976710656"
    by (simp_all add: q_div_eq)
  then have "unat a div 2 ^ k = 0" if "48 \<le> k" for k
    using power_increasing [OF that, of "2 :: nat"] by simp
  with b show ?thesis by (simp add: deny_table_v6_def in_cidr_v6_iff)
qed

lemma classify_v6_table: "classify_v6 a \<noteq> None \<longleftrightarrow> list_ex (\<lambda>c. in_cidr c a) deny_table_v6"
  unfolding classify_v6_def if_Some_neq_None v6_cidrs deny_table_v6_def by (simp, blast)

lemma classify_denied_table: "classify_denied ip \<noteq> None \<longleftrightarrow> table_denied ip"
proof (cases ip)
  case (V4 a)
  then show ?thesis using classify_v4_table by simp
next
  case (V6 a)
  then show ?thesis
    using classify_v4_table [of "ucast a"] classify_v6_table [of a] mapped_not_v6_denied [of a]
    by (auto simp: mapped_cidr)
qed

lemma relay_v4_same: "relay_v4_denied a = None \<longleftrightarrow> classify_v4 a = None"
  by (auto simp: relay_v4_denied_def classify_v4_def)

lemma relay_v6_same: "relay_v6_denied a = None \<longleftrightarrow> classify_v6 a = None"
  by (auto simp: relay_v6_denied_def classify_v6_def)

lemma relay_denied_iff: "classify_relay_target_denied ip = None \<longleftrightarrow> classify_denied ip = None"
proof (cases ip)
  case (V4 a)
  then show ?thesis by (simp add: relay_v4_same)
next
  case (V6 a)
  then show ?thesis
    using classify_v6_table [of a] mapped_not_v6_denied [of a]
      relay_v4_same [of "ucast a"]
    by (cases "classify_v4 (ucast a)") (auto simp: mapped_cidr relay_v6_same split: option.split)
qed

lemma resolver_v4_iff:
  "public_resolver_v4 a \<longleftrightarrow> classify_v4 a = None \<and> \<not> in_cidr (0xF0000000, 4) a"
proof -
  have "public_resolver_v4 a \<longleftrightarrow>
    \<not> list_ex (\<lambda>c. in_cidr c a) deny_table_v4 \<and> \<not> in_cidr (0xF0000000, 4) a"
    using unspecified_zero_net [of a]
    unfolding public_resolver_v4_def v4_cidrs deny_table_v4_def by (simp, blast)
  then show ?thesis using classify_v4_table [of a] by (cases "classify_v4 a") auto
qed

lemma first_denied_None: "first_denied ips = None \<longleftrightarrow> (\<forall>ip\<in>set ips. classify_denied ip = None)"
  by (induction ips) (auto split: option.split)

section \<open>Properties\<close>

text \<open>The probe guard refuses exactly the addresses of its deny table: an IPv4 address is
  refused if and only if it lies in one of the thirteen prefixes of the table, and an IPv6
  address if and only if it lies in one of the six IPv6 prefixes or is an IPv4-mapped address
  whose embedded IPv4 address is refused.\<close>

theorem classify_denied_exact: "classify_denied ip \<noteq> None \<longleftrightarrow> table_denied ip"
  by (rule classify_denied_table)

text \<open>The relay-target classifier of the deployment file and the probe guard's classifier,
  two hand-synchronised copies, refuse exactly the same addresses, although they test in a
  different order and treat IPv4-mapped IPv6 addresses by different code.\<close>

theorem relay_and_probe_classifiers_agree:
  "(classify_relay_target_denied ip = None) = (classify_denied ip = None)"
  by (rule relay_denied_iff)

text \<open>C32: Whatever the name resolver answers, a target that the guard returns carries an address
  outside the deny table and the requested port; the address is the literal itself when the
  host is an IP literal, and otherwise the first of the resolver's answers, every one of which
  is outside the table.\<close>

theorem resolve_and_validate_pins_public:
  assumes "resolve_and_validate to_socket_addrs host port = Inr t"
  shows "\<not> table_denied (rt_ip t) \<and> rt_port t = port \<and>
    (case parse_ip host of
       Some ip \<Rightarrow> rt_ip t = ip
     | None \<Rightarrow> (\<exists>addrs. to_socket_addrs host port = Inr addrs \<and> addrs \<noteq> [] \<and> rt_ip t = hd addrs
                 \<and> (\<forall>ip\<in>set addrs. \<not> table_denied ip)))"
  using assms
  by (auto simp: resolve_and_validate_def first_denied_None classify_denied_table [symmetric]
      split: if_splits option.splits sum.splits)

theorem resolve_and_validate_pins_public_witness:
  "resolve_and_validate (\<lambda>_ _. Inr [V4 0x08080808, V4 0x01010101]) ''dns.test'' 443
     = Inr \<lparr>rt_ip = V4 0x08080808, rt_port = 443\<rparr>
   \<and> \<not> table_denied (V4 0x08080808)"
proof -
  have r: "resolve_and_validate (\<lambda>_ _. Inr [V4 0x08080808, V4 0x01010101]) ''dns.test'' 443
     = Inr \<lparr>rt_ip = V4 0x08080808, rt_port = 443\<rparr>"
  proof -
    have "parse_ip ''dns.test'' = None" by (simp add: parse_eval)
    moreover have "first_denied [V4 0x08080808, V4 0x01010101] = None" by code_simp
    ultimately show ?thesis by (simp add: resolve_and_validate_def)
  qed
  from resolve_and_validate_pins_public [OF r] r show ?thesis by simp
qed

text \<open>The resolver-address check is the probe guard's classifier plus the reserved block
  240.0.0.0/4: an address is acceptable as a resolver if and only if the guard accepts it and
  neither it nor, for an IPv4-mapped address, its embedded IPv4 address lies in that block. In
  particular every acceptable resolver is an acceptable probe destination, and the only
  addresses the probe guard accepts beyond it are those of the reserved block.\<close>

theorem resolver_check_is_guard_plus_reserved_block:
  "is_public_resolver_address ip \<longleftrightarrow>
     classify_denied ip = None \<and>
     (case ip of
        V4 a \<Rightarrow> \<not> in_cidr (0xF0000000, 4) a
      | V6 a \<Rightarrow> (case to_ipv4_mapped a of None \<Rightarrow> True | Some m \<Rightarrow> \<not> in_cidr (0xF0000000, 4) m))"
  by (cases ip) (auto simp: resolver_v4_iff classify_v6_def split: option.split)

end
