(* ===== verification/Deployment.thy ===== *)
theory Deployment
  imports SsrfGuard Model
begin

text \<open>
  The deployment description of \<open>crates/compat-config/src/deployment.rs\<close>: the sections of
  \<open>deployment.toml\<close>, their validation, the relay targets derived from them, the default
  node identity, and the migration and patching of the file.  The TOML reader, the base64
  decoder and the file system are parameters.  A key-value section that the source keeps only
  to refuse it (\<open>extra\<close>) is the list of its keys.
\<close>

section \<open>Sections\<close>

definition DEPLOYMENT_SCHEMA_VERSION :: nat where "DEPLOYMENT_SCHEMA_VERSION = 2"
definition LOCAL_REALITY_ENDPOINT_ID :: string where "LOCAL_REALITY_ENDPOINT_ID = ''reality-1''"
definition LOCAL_HYSTERIA2_ENDPOINT_ID :: string where "LOCAL_HYSTERIA2_ENDPOINT_ID = ''hysteria2-1''"
definition RELAY_ACCESS_PATH_KIND :: string where "RELAY_ACCESS_PATH_KIND = ''relay''"
definition NODE_ID_MAX_LEN :: nat where "NODE_ID_MAX_LEN = 63"
definition RESERVED_ENDPOINT_TAGS :: "string list" where
  "RESERVED_ENDPOINT_TAGS = [''Reality'', ''Hysteria2'', ''auto'', ''select'', ''direct'']"
definition LOCAL_ENDPOINT_IDS :: "string list" where
  "LOCAL_ENDPOINT_IDS = [''reality-1'', ''hysteria2-1'']"
definition MAX_PROFILE_TITLE_CHARS :: nat where "MAX_PROFILE_TITLE_CHARS = 64"

datatype NodeRole = Exit | Relay

fun role_str :: "NodeRole \<Rightarrow> string" where
  "role_str Exit = ''exit''"
| "role_str Relay = ''relay''"

definition role_parse :: "string \<Rightarrow> NodeRole option" where
  "role_parse value =
     (if value = ''exit'' then Some Exit else if value = ''relay'' then Some Relay else None)"

record RelayTarget =
  rt_host :: string
  rt_target_port :: nat

datatype Ipv6LiteralPolicy = Allow | RejectGoogle | RejectAll

fun ipv6_policy_str :: "Ipv6LiteralPolicy \<Rightarrow> string" where
  "ipv6_policy_str Allow = ''allow''"
| "ipv6_policy_str RejectGoogle = ''reject_google''"
| "ipv6_policy_str RejectAll = ''reject_all''"

definition ipv6_policy_parse :: "string \<Rightarrow> Ipv6LiteralPolicy option" where
  "ipv6_policy_parse value =
     (if value = ''allow'' then Some Allow
      else if value = ''reject_google'' then Some RejectGoogle
      else if value = ''reject_all'' then Some RejectAll else None)"

datatype TlsSpoofMethod = WrongSequence | WrongChecksum | WrongAck | WrongMd5 | WrongTimestamp

fun spoof_method_str :: "TlsSpoofMethod \<Rightarrow> string" where
  "spoof_method_str WrongSequence = ''wrong-sequence''"
| "spoof_method_str WrongChecksum = ''wrong-checksum''"
| "spoof_method_str WrongAck = ''wrong-ack''"
| "spoof_method_str WrongMd5 = ''wrong-md5''"
| "spoof_method_str WrongTimestamp = ''wrong-timestamp''"

record TlsSpoofSection =
  ts_sni :: string
  ts_method :: TlsSpoofMethod

record GoogleEgressHairpinSection =
  gh_relay_host :: string
  gh_relay_port :: nat
  gh_relay_server_name :: string
  gh_relay_reality_public_key :: string
  gh_relay_reality_short_id :: string

record AccessPathSection =
  ap_id :: string
  ap_kind :: string
  ap_via_endpoint_id :: "string option"
  ap_failure_domain :: "string option"
  ap_region :: "string option"
  ap_provider :: "string option"
  ap_capabilities :: "string list"
  ap_extra :: "string list"

record PeerEndpointSection =
  pe_id :: string
  pe_tag :: string
  pe_host :: string
  pe_port :: nat
  pe_transport :: CompatTransport
  pe_server_name :: "string option"
  pe_reality_public_key :: "string option"
  pe_reality_short_id :: "string option"
  pe_reality_fingerprint :: string
  pe_obfs_password :: "string option"
  pe_failure_domain :: string
  pe_region :: "string option"
  pe_provider :: "string option"
  pe_asn :: "string option"
  pe_path :: string
  pe_credential_ref :: "string option"
  pe_vless_flow :: EndpointVlessFlow
  pe_extra :: "string list"

record UdpProbeSection =
  us_ipv4_resolvers :: "string list"
  us_ipv6_resolvers :: "string list"
  us_retries :: nat
  us_timeout_ms :: nat
  us_delay_ms :: nat

definition default_udp_probe :: UdpProbeSection where
  "default_udp_probe =
     \<lparr>us_ipv4_resolvers = [''1.1.1.1'', ''8.8.8.8''],
      us_ipv6_resolvers = [''2606:4700:4700::1111'', ''2001:4860:4860::8888''],
      us_retries = 2, us_timeout_ms = 2000, us_delay_ms = 250\<rparr>"

record RealitySection =
  rl_listen_port :: nat
  rl_handshake_server :: string
  rl_handshake_port :: nat

record Hysteria2Section =
  hy_listen_port :: nat
  hy_up_mbps :: "nat option"
  hy_down_mbps :: "nat option"

record SubscriptionSection =
  ss_listen_port :: nat
  ss_public_port :: nat
  ss_profile_title :: string

record DeploymentConfig =
  dc_schema_version :: nat
  dc_node_id :: string
  dc_role :: NodeRole
  dc_public_host :: string
  dc_subscription_host :: string
  dc_reality :: RealitySection
  dc_hysteria2 :: Hysteria2Section
  dc_subscription :: SubscriptionSection
  dc_udp_probe :: "UdpProbeSection option"
  dc_state_dir :: string
  dc_singbox_binary :: string
  dc_access_paths :: "AccessPathSection list"
  dc_peer_endpoints :: "PeerEndpointSection list"
  dc_google_egress_hairpin :: "GoogleEgressHairpinSection option"
  dc_egress :: "Ipv6LiteralPolicy option"
  dc_google_egress_tls_spoof :: "TlsSpoofSection option"
  dc_exit_principals :: "bool option"
  dc_public_ipv4 :: "string option"
  dc_public_ipv6 :: "string option"

definition exit_principals_enabled :: "DeploymentConfig \<Rightarrow> bool" where
  "exit_principals_enabled d \<longleftrightarrow> dc_role d = Relay \<and> dc_exit_principals d = Some True"

definition udp_probe_config :: "DeploymentConfig \<Rightarrow> UdpProbeSection" where
  "udp_probe_config d = (case dc_udp_probe d of None \<Rightarrow> default_udp_probe | Some s \<Rightarrow> s)"

section \<open>Validation\<close>

text \<open>One constructor per refusal; the errors of one entry carry its id.\<close>

datatype KeyShapeError = KeyEmpty | KeyNotBase64 | KeyLength nat

datatype NodeIdError = NodeIdEmpty | NodeIdTooLong | NodeIdStart | NodeIdCharacters

datatype TitleError = TitleBlank | TitleTooLong | TitleControl

datatype PathError =
    PathCredentialKey string | PathUnknownKey string | PathIdEmpty | PathKindEmpty | PathViaEmpty
  | PathFieldEmpty string | PathNoCapability | PathCapabilityEmpty | PathCapabilityTwice string
  | PathIdTwice

datatype PeerError =
    PeerPrivateKey string | PeerUnknownKey string | PeerIdEmpty | PeerTagEmpty
  | PeerFailureDomainEmpty | PeerPathEmpty | PeerCredentialRefEmpty | PeerHostNotDialable
  | PeerPortZero | PeerFlowTransport | PeerFlowDirect | PeerPublicKey KeyShapeError | PeerShortId
  | PeerRealityOnHysteria | PeerIdLocal | PeerIdTwice | PeerTagTaken | PeerPathUndeclared

datatype HopError =
    HopNotRelayPath | HopHysteria | HopNeedsRelayRole | HopUndeclared | HopNotVless | HopNotDirect
  | HopCapability string

datatype RefError = RefSelf | RefUndeclared | RefTransport | RefAlias | RefFlow | RefOtherServer

datatype RouteError = RouteNotVless | RouteNoHop | RouteSelf | RouteTarget

datatype SectionError =
    EgressExitOnly | EgressHairpinAllow | RelayWithoutListener | ExitPrincipalsOnExit
  | SpoofWithHairpin | SpoofSni | SpoofGoogle | HairpinFieldEmpty string | HairpinPortZero
  | MbpsTogether | PublicIpv4 | PublicIpv6

datatype DeploymentError =
    UnsupportedSchema nat nat | NodeIdRequired | NodeIdBad NodeIdError | TitleBad TitleError
  | PathBad string PathError | PeerBad string PeerError | HopBad string HopError
  | RefBad string RefError | RouteBad string RouteError | SectionBad SectionError

definition validate_node_id :: "string \<Rightarrow> NodeIdError + unit" where
  "validate_node_id node_id =
     (if node_id = [] then Inl NodeIdEmpty
      else if length node_id > NODE_ID_MAX_LEN then Inl NodeIdTooLong
      else if \<not> is_ascii_alphanumeric (hd node_id) then Inl NodeIdStart
      else if \<not> list_all (\<lambda>c. is_ascii_alphanumeric c \<or> c \<in> set ''-_.'') node_id
        then Inl NodeIdCharacters
      else Inr ())"

definition default_node_id_for_host :: "string \<Rightarrow> string" where
  "default_node_id_for_host public_host =
     (let first = hd (split_on (CHR ''.'') public_host);
          mapped = map (\<lambda>ch. case ch of
                               [c] \<Rightarrow> if is_ascii_alphanumeric c \<or> c \<in> set ''-_'' then c else CHR ''-''
                             | _ \<Rightarrow> CHR ''-'') (utf8_split first);
          id' = trim_end_by (\<lambda>c. c \<in> set ''-_'')
                  (take NODE_ID_MAX_LEN (trim_matches (\<lambda>c. \<not> is_ascii_alphanumeric c) mapped))
      in if id' = [] then ''legacy-node'' else id')"

definition dns_label :: "string \<Rightarrow> bool" where
  "dns_label l \<longleftrightarrow>
     l \<noteq> [] \<and> length l \<le> 63 \<and> \<not> starts_with ''-'' l \<and> \<not> ends_with ''-'' l
     \<and> list_all (\<lambda>c. is_ascii_lowercase c \<or> is_ascii_digit c \<or> c = CHR ''-'') l"

definition validate_relay_target_host :: "string \<Rightarrow> bool" where
  "validate_relay_target_host host =
     (case parse_ip host of
        Some ip \<Rightarrow> classify_relay_target_denied ip = None
      | None \<Rightarrow>
          \<not> (length host > 253 \<or> ends_with ''.'' host)
          \<and> list_all dns_label (split_on (CHR ''.'') host))"

definition validate_profile_title :: "string \<Rightarrow> TitleError + unit" where
  "validate_profile_title title =
     (if trim title = [] \<or> trim title \<noteq> title then Inl TitleBlank
      else if length (utf8_split title) > MAX_PROFILE_TITLE_CHARS then Inl TitleTooLong
      else if list_ex is_control (utf8_split title) then Inl TitleControl
      else Inr ())"

text \<open>The shape of a REALITY public key; \<open>b64\<close> decodes base64url without padding.\<close>

definition validate_reality_public_key_shape ::
    "(string \<Rightarrow> 8 word list option) \<Rightarrow> string \<Rightarrow> KeyShapeError + unit" where
  "validate_reality_public_key_shape b64 public_key =
     (if trim public_key = [] then Inl KeyEmpty
      else case b64 (trim public_key) of
             None \<Rightarrow> Inl KeyNotBase64
           | Some decoded \<Rightarrow> if length decoded \<noteq> 32 then Inl (KeyLength (length decoded)) else Inr ())"

definition spoof_label :: "string \<Rightarrow> bool" where
  "spoof_label l \<longleftrightarrow>
     l \<noteq> [] \<and> length l \<le> 63 \<and> \<not> starts_with ''-'' l \<and> \<not> ends_with ''-'' l
     \<and> list_all (\<lambda>c. is_ascii_alphanumeric c \<or> c = CHR ''-'') l"

definition validate_tls_spoof :: "TlsSpoofSection \<Rightarrow> SectionError + unit" where
  "validate_tls_spoof s =
     (let sni = ts_sni s; lower = to_ascii_lowercase sni in
      if length sni > 253 \<or> CHR ''.'' \<notin> set sni \<or> \<not> list_all spoof_label (split_on (CHR ''.'') sni)
        then Inl SpoofSni
      else if list_ex (\<lambda>d. lower = d \<or> ends_with (''.'' @ d) lower) GOOGLE_EGRESS_DOMAINS
        then Inl SpoofGoogle
      else Inr ())"

definition validate_hairpin :: "GoogleEgressHairpinSection \<Rightarrow> SectionError + unit" where
  "validate_hairpin h =
     rbind (check_all (\<lambda>(name, value). if trim value = [] then Inl (HairpinFieldEmpty name) else Inr ())
              [(''relay_host'', gh_relay_host h), (''relay_server_name'', gh_relay_server_name h),
               (''relay_reality_public_key'', gh_relay_reality_public_key h),
               (''relay_reality_short_id'', gh_relay_reality_short_id h)])
       (\<lambda>_. ensure (gh_relay_port h \<noteq> 0) HairpinPortZero)"

fun check_capabilities :: "string list \<Rightarrow> string list \<Rightarrow> PathError + unit" where
  "check_capabilities seen [] = Inr ()"
| "check_capabilities seen (c # cs) =
     (if trim c = [] then Inl PathCapabilityEmpty
      else if c \<in> set seen then Inl (PathCapabilityTwice c)
      else check_capabilities (c # seen) cs)"

definition is_blank_opt :: "string option \<Rightarrow> bool" where
  "is_blank_opt v \<longleftrightarrow> (case v of None \<Rightarrow> False | Some s \<Rightarrow> trim s = [])"

definition validate_access_path :: "AccessPathSection \<Rightarrow> PathError + unit" where
  "validate_access_path p =
     (case find (\<lambda>key. list_ex (\<lambda>needle. str_contains needle (to_ascii_lowercase key))
                         [''private'', ''secret'', ''password'', ''token'', ''credential'', ''key''])
             (ap_extra p) of
        Some key \<Rightarrow> Inl (PathCredentialKey key)
      | None \<Rightarrow>
     (case ap_extra p of
        key # _ \<Rightarrow> Inl (PathUnknownKey key)
      | [] \<Rightarrow>
      if trim (ap_id p) = [] then Inl PathIdEmpty
      else if trim (ap_kind p) = [] then Inl PathKindEmpty
      else if is_blank_opt (ap_via_endpoint_id p) then Inl PathViaEmpty
      else rbind (check_all (\<lambda>(name, value). ensure (\<not> is_blank_opt value) (PathFieldEmpty name))
                    [(''failure_domain'', ap_failure_domain p), (''region'', ap_region p),
                     (''provider'', ap_provider p)]) (\<lambda>_.
           if ap_capabilities p = [] then Inl PathNoCapability
           else check_capabilities [] (ap_capabilities p))))"

definition validate_short_id_shape :: "string \<Rightarrow> bool" where
  "validate_short_id_shape sid \<longleftrightarrow>
     \<not> (sid = [] \<or> length sid mod 2 \<noteq> 0 \<or> length sid > 16 \<or> \<not> list_all is_ascii_hexdigit sid)"

definition opt_str :: "string option \<Rightarrow> string" where
  "opt_str v = (case v of None \<Rightarrow> [] | Some s \<Rightarrow> s)"

definition validate_peer_transport ::
    "(string \<Rightarrow> 8 word list option) \<Rightarrow> PeerEndpointSection \<Rightarrow> PeerError + unit" where
  "validate_peer_transport b64 p =
     (case pe_transport p of
        VlessReality \<Rightarrow>
          rbind (map_err PeerPublicKey
                   (validate_reality_public_key_shape b64 (opt_str (pe_reality_public_key p)))) (\<lambda>_.
          ensure (validate_short_id_shape (opt_str (pe_reality_short_id p))) PeerShortId)
      | Hysteria2 \<Rightarrow>
          ensure (pe_reality_public_key p = None \<and> pe_reality_short_id p = None)
            PeerRealityOnHysteria)"

definition validate_peer ::
    "(string \<Rightarrow> 8 word list option) \<Rightarrow> PeerEndpointSection \<Rightarrow> PeerError + unit" where
  "validate_peer b64 p =
     (case find (\<lambda>key. let l = to_ascii_lowercase key in
                   str_contains ''private'' l \<or> str_contains ''secret'' l) (pe_extra p) of
        Some key \<Rightarrow> Inl (PeerPrivateKey key)
      | None \<Rightarrow>
     (case pe_extra p of
        key # _ \<Rightarrow> Inl (PeerUnknownKey key)
      | [] \<Rightarrow>
      if trim (pe_id p) = [] then Inl PeerIdEmpty
      else if trim (pe_tag p) = [] then Inl PeerTagEmpty
      else if trim (pe_failure_domain p) = [] then Inl PeerFailureDomainEmpty
      else if trim (pe_path p) = [] then Inl PeerPathEmpty
      else if is_blank_opt (pe_credential_ref p) then Inl PeerCredentialRefEmpty
      else if trim (pe_host p) = []
          \<or> list_ex (\<lambda>ch. is_whitespace ch \<or> ch = ''/'') (utf8_split (pe_host p))
        then Inl PeerHostNotDialable
      else if pe_port p = 0 then Inl PeerPortZero
      else if pe_vless_flow p = NoFlow \<and> pe_transport p \<noteq> VlessReality then Inl PeerFlowTransport
      else if pe_vless_flow p = NoFlow \<and> pe_path p = ''direct'' then Inl PeerFlowDirect
      else validate_peer_transport b64 p))"

definition to_compat_endpoint ::
    "(string \<Rightarrow> 8 word list option) \<Rightarrow> PeerEndpointSection \<Rightarrow> PeerError + CompatEndpoint" where
  "to_compat_endpoint b64 p =
     rbind (validate_peer b64 p) (\<lambda>_.
       Inr \<lparr>ep_id = pe_id p, ep_transport = pe_transport p, ep_host = pe_host p, ep_port = pe_port p,
            ep_server_name = Some (case pe_server_name p of None \<Rightarrow> pe_host p | Some n \<Rightarrow> n),
            ep_label = pe_tag p,
            ep_public_parameters =
              (case pe_transport p of
                 VlessReality \<Rightarrow> RealityParams (opt_str (pe_reality_public_key p))
                                   (opt_str (pe_reality_short_id p)) (pe_reality_fingerprint p)
               | Hysteria2 \<Rightarrow> Hysteria2Params (pe_obfs_password p)),
            ep_origin = Peer, ep_failure_domain = Some (pe_failure_domain p), ep_region = pe_region p,
            ep_provider = pe_provider p, ep_asn = pe_asn p, ep_path = Some (pe_path p),
            ep_credential_ref = pe_credential_ref p, ep_vless_flow = pe_vless_flow p\<rparr>)"

fun check_paths :: "string list \<Rightarrow> AccessPathSection list \<Rightarrow> DeploymentError + unit" where
  "check_paths seen [] = Inr ()"
| "check_paths seen (p # ps) =
     rbind (map_err (PathBad (ap_id p)) (validate_access_path p)) (\<lambda>_.
       if ap_id p \<in> set seen then Inl (PathBad (ap_id p) PathIdTwice)
       else check_paths (ap_id p # seen) ps)"

fun check_peers ::
    "(string \<Rightarrow> 8 word list option) \<Rightarrow> AccessPathSection list \<Rightarrow> string list \<Rightarrow> string list
       \<Rightarrow> PeerEndpointSection list \<Rightarrow> DeploymentError + unit" where
  "check_peers b64 paths ids tags [] = Inr ()"
| "check_peers b64 paths ids tags (p # ps) =
     rbind (map_err (PeerBad (pe_id p)) (validate_peer b64 p)) (\<lambda>_.
       if pe_id p \<in> set LOCAL_ENDPOINT_IDS then Inl (PeerBad (pe_id p) PeerIdLocal)
       else if pe_id p \<in> set ids then Inl (PeerBad (pe_id p) PeerIdTwice)
       else if pe_tag p \<in> set RESERVED_ENDPOINT_TAGS \<or> pe_tag p \<in> set tags
         then Inl (PeerBad (pe_id p) PeerTagTaken)
       else if paths \<noteq> [] \<and> pe_path p \<noteq> ''direct'' \<and> \<not> list_ex (\<lambda>q. ap_id q = pe_path p) paths
         then Inl (PeerBad (pe_id p) PeerPathUndeclared)
       else check_peers b64 paths (pe_id p # ids) (pe_tag p # tags) ps)"

definition relay_path :: "DeploymentConfig \<Rightarrow> string \<Rightarrow> AccessPathSection option" where
  "relay_path d id' =
     find (\<lambda>p. ap_id p = id' \<and> ap_kind p = RELAY_ACCESS_PATH_KIND) (dc_access_paths d)"

definition validate_first_hop :: "DeploymentConfig \<Rightarrow> AccessPathSection \<Rightarrow> HopError + unit" where
  "validate_first_hop d p =
     (case ap_via_endpoint_id p of
        None \<Rightarrow> Inr ()
      | Some via \<Rightarrow>
          if ap_kind p \<noteq> RELAY_ACCESS_PATH_KIND then Inl HopNotRelayPath
          else if via = LOCAL_HYSTERIA2_ENDPOINT_ID then Inl HopHysteria
          else rbind
            (if via = LOCAL_REALITY_ENDPOINT_ID
             then ensure (dc_role d = Relay) HopNeedsRelayRole
             else case find (\<lambda>c. pe_id c = via) (dc_peer_endpoints d) of
                    None \<Rightarrow> Inl HopUndeclared
                  | Some hop \<Rightarrow>
                      if pe_transport hop \<noteq> VlessReality then Inl HopNotVless
                      else if pe_path hop \<noteq> ''direct'' \<or> pe_credential_ref hop \<noteq> None
                        then Inl HopNotDirect
                      else Inr ())
            (\<lambda>_. case find (\<lambda>c. c \<noteq> ''tcp'') (ap_capabilities p) of
                    Some c \<Rightarrow> Inl (HopCapability c)
                  | None \<Rightarrow> Inr ()))"

definition validate_access_path_first_hops :: "DeploymentConfig \<Rightarrow> DeploymentError + unit" where
  "validate_access_path_first_hops d =
     check_all (\<lambda>p. map_err (HopBad (ap_id p)) (validate_first_hop d p)) (dc_access_paths d)"

definition validate_credential_ref :: "DeploymentConfig \<Rightarrow> PeerEndpointSection \<Rightarrow> RefError + unit" where
  "validate_credential_ref d p =
     (case pe_credential_ref p of
        None \<Rightarrow> Inr ()
      | Some cr \<Rightarrow>
          if cr = pe_id p then Inl RefSelf
          else case find (\<lambda>c. pe_id c = cr) (dc_peer_endpoints d) of
                 None \<Rightarrow> Inl RefUndeclared
               | Some target \<Rightarrow>
                   if pe_transport target \<noteq> pe_transport p then Inl RefTransport
                   else if pe_credential_ref target \<noteq> None \<or> pe_path target \<noteq> ''direct''
                     then Inl RefAlias
                   else if pe_vless_flow target \<noteq> pe_vless_flow p then Inl RefFlow
                   else if pe_host target \<noteq> pe_host p \<or> pe_port target \<noteq> pe_port p
                       \<or> pe_reality_public_key target \<noteq> pe_reality_public_key p
                     then Inl RefOtherServer
                   else Inr ())"

definition validate_credential_refs :: "DeploymentConfig \<Rightarrow> DeploymentError + unit" where
  "validate_credential_refs d =
     check_all (\<lambda>p. map_err (RefBad (pe_id p)) (validate_credential_ref d p)) (dc_peer_endpoints d)"

definition validate_relay_route :: "DeploymentConfig \<Rightarrow> PeerEndpointSection \<Rightarrow> RouteError + unit" where
  "validate_relay_route d p =
     (if pe_path p = ''direct'' then Inr ()
      else case relay_path d (pe_path p) of
             None \<Rightarrow> Inr ()
           | Some path \<Rightarrow>
               if pe_transport p \<noteq> VlessReality then Inl RouteNotVless
               else case ap_via_endpoint_id path of
                      None \<Rightarrow> Inl RouteNoHop
                    | Some via \<Rightarrow>
                        if via = pe_id p then Inl RouteSelf
                        else if via = LOCAL_REALITY_ENDPOINT_ID \<and> \<not> validate_relay_target_host (pe_host p)
                          then Inl RouteTarget
                        else Inr ())"

definition validate_relay_routes :: "DeploymentConfig \<Rightarrow> DeploymentError + unit" where
  "validate_relay_routes d =
     check_all (\<lambda>p. map_err (RouteBad (pe_id p)) (validate_relay_route d p)) (dc_peer_endpoints d)"

definition validate_role :: "DeploymentConfig \<Rightarrow> SectionError + unit" where
  "validate_role d =
     ensure (\<not> (dc_role d = Relay
               \<and> \<not> list_ex (\<lambda>p. ap_kind p = RELAY_ACCESS_PATH_KIND
                               \<and> ap_via_endpoint_id p = Some LOCAL_REALITY_ENDPOINT_ID)
                     (dc_access_paths d)))
       RelayWithoutListener"

definition validate_egress :: "DeploymentConfig \<Rightarrow> SectionError + unit" where
  "validate_egress d =
     (case dc_egress d of
        None \<Rightarrow> Inr ()
      | Some policy \<Rightarrow>
          if dc_role d \<noteq> Exit then Inl EgressExitOnly
          else if dc_google_egress_hairpin d \<noteq> None \<and> policy = Allow then Inl EgressHairpinAllow
          else Inr ())"

definition validate_spoof :: "DeploymentConfig \<Rightarrow> SectionError + unit" where
  "validate_spoof d =
     (case dc_google_egress_tls_spoof d of
        None \<Rightarrow> Inr ()
      | Some spoof \<Rightarrow>
          if dc_google_egress_hairpin d \<noteq> None then Inl SpoofWithHairpin
          else validate_tls_spoof spoof)"

text \<open>An address literal of the wanted family; an absent or empty value is not checked.\<close>

definition validate_public_ip :: "(IpAddr \<Rightarrow> bool) \<Rightarrow> SectionError \<Rightarrow> string option \<Rightarrow> SectionError + unit" where
  "validate_public_ip family e v =
     (case v of
        None \<Rightarrow> Inr ()
      | Some s \<Rightarrow>
          if s = [] then Inr ()
          else case parse_ip s of
                 Some ip \<Rightarrow> ensure (family ip) e
               | None \<Rightarrow> Inl e)"

fun is_v4 :: "IpAddr \<Rightarrow> bool" where
  "is_v4 (V4 _) = True"
| "is_v4 (V6 _) = False"

definition validate_deployment ::
    "(string \<Rightarrow> 8 word list option) \<Rightarrow> DeploymentConfig \<Rightarrow> DeploymentError + unit" where
  "validate_deployment b64 d =
     rbind (ensure (dc_schema_version d \<le> DEPLOYMENT_SCHEMA_VERSION)
              (UnsupportedSchema (dc_schema_version d) DEPLOYMENT_SCHEMA_VERSION)) (\<lambda>_.
     rbind (ensure (\<not> (2 \<le> dc_schema_version d \<and> trim (dc_node_id d) = [])) NodeIdRequired) (\<lambda>_.
     rbind (if dc_node_id d = [] then Inr ()
            else map_err NodeIdBad (validate_node_id (dc_node_id d))) (\<lambda>_.
     rbind (map_err TitleBad (validate_profile_title (ss_profile_title (dc_subscription d)))) (\<lambda>_.
     rbind (check_paths [] (dc_access_paths d)) (\<lambda>_.
     rbind (check_peers b64 (dc_access_paths d) [] [] (dc_peer_endpoints d)) (\<lambda>_.
     rbind (validate_access_path_first_hops d) (\<lambda>_.
     rbind (validate_credential_refs d) (\<lambda>_.
     rbind (validate_relay_routes d) (\<lambda>_.
     map_err SectionBad (
       rbind (validate_egress d) (\<lambda>_.
       rbind (validate_role d) (\<lambda>_.
       rbind (ensure (\<not> (dc_exit_principals d \<noteq> None \<and> dc_role d \<noteq> Relay)) ExitPrincipalsOnExit) (\<lambda>_.
       rbind (validate_spoof d) (\<lambda>_.
       rbind (case dc_google_egress_hairpin d of None \<Rightarrow> Inr () | Some h \<Rightarrow> validate_hairpin h) (\<lambda>_.
       rbind (ensure ((hy_up_mbps (dc_hysteria2 d) = None) = (hy_down_mbps (dc_hysteria2 d) = None))
                MbpsTogether) (\<lambda>_.
       rbind (validate_public_ip is_v4 PublicIpv4 (dc_public_ipv4 d)) (\<lambda>_.
       validate_public_ip (\<lambda>ip. \<not> is_v4 ip) PublicIpv6 (dc_public_ipv6 d))))))))))))))))))"

section \<open>What a deployment declares\<close>

definition relay_target_key :: "RelayTarget \<Rightarrow> string \<times> nat" where
  "relay_target_key t = (rt_host t, rt_target_port t)"

definition relay_targets :: "DeploymentConfig \<Rightarrow> RelayTarget list" where
  "relay_targets d =
     (if dc_role d \<noteq> Relay then []
      else map (\<lambda>(h, p). \<lparr>rt_host = h, rt_target_port = p\<rparr>)
             (remdups_adj (sort (map (\<lambda>p. (pe_host p, pe_port p))
                (filter (\<lambda>p. case relay_path d (pe_path p) of
                               None \<Rightarrow> False
                             | Some path \<Rightarrow> ap_via_endpoint_id path = Some LOCAL_REALITY_ENDPOINT_ID)
                   (dc_peer_endpoints d))))))"

definition standard_endpoints ::
    "string \<Rightarrow> nat \<Rightarrow> nat \<Rightarrow> string \<Rightarrow> string \<Rightarrow> string \<Rightarrow> string option \<Rightarrow> CompatEndpoint list" where
  "standard_endpoints public_host reality_port hysteria_port public_key short_id handshake obfs =
     [default_endpoint\<lparr>ep_id := ''reality-1'', ep_transport := VlessReality, ep_host := public_host,
        ep_port := reality_port, ep_server_name := Some handshake, ep_label := ''Reality'',
        ep_public_parameters := RealityParams public_key short_id ''chrome''\<rparr>,
      default_endpoint\<lparr>ep_id := ''hysteria2-1'', ep_transport := Hysteria2, ep_host := public_host,
        ep_port := hysteria_port, ep_server_name := Some public_host, ep_label := ''Hysteria2'',
        ep_public_parameters := Hysteria2Params obfs\<rparr>]"

definition served_endpoints ::
    "(string \<Rightarrow> 8 word list option) \<Rightarrow> DeploymentConfig \<Rightarrow> string \<Rightarrow> string \<Rightarrow> string option
       \<Rightarrow> DeploymentError + CompatEndpoint list" where
  "served_endpoints b64 d public_key short_id obfs =
     (let standard = standard_endpoints (dc_public_host d) (rl_listen_port (dc_reality d))
                       (hy_listen_port (dc_hysteria2 d)) public_key short_id
                       (rl_handshake_server (dc_reality d)) obfs;
          own = (if dc_role d = Relay
                 then filter (\<lambda>e. ep_id e = LOCAL_REALITY_ENDPOINT_ID) standard else standard)
      in rbind (map_result (\<lambda>p. map_err (PeerBad (pe_id p)) (to_compat_endpoint b64 p))
                  (dc_peer_endpoints d)) (\<lambda>peers. Inr (own @ peers)))"

section \<open>Lemmas\<close>

lemma find_SomeI: "x \<in> set xs \<Longrightarrow> P x \<Longrightarrow> \<exists>y. find P xs = Some y"
  by (induction xs) auto

lemma find_None_iff_all: "find P xs = None \<longleftrightarrow> (\<forall>x\<in>set xs. \<not> P x)"
  by (auto simp: find_None_iff)

lemma check_paths_ok:
  "check_paths seen ps = Inr u \<longleftrightarrow>
     (\<forall>p\<in>set ps. is_ok (validate_access_path p)) \<and> distinct (map ap_id ps)
     \<and> ap_id ` set ps \<inter> set seen = {}"
  by (induction ps arbitrary: seen) (auto simp: rbind_eq_Inr is_ok_iff)

lemma check_peers_ok:
  "check_peers b64 paths ids tags ps = Inr u \<longleftrightarrow>
     (\<forall>p\<in>set ps. is_ok (validate_peer b64 p) \<and> pe_id p \<notin> set LOCAL_ENDPOINT_IDS
        \<and> pe_tag p \<notin> set RESERVED_ENDPOINT_TAGS
        \<and> (paths = [] \<or> pe_path p = ''direct'' \<or> (\<exists>q\<in>set paths. ap_id q = pe_path p)))
     \<and> distinct (map pe_id ps) \<and> distinct (map pe_tag ps)
     \<and> pe_id ` set ps \<inter> set ids = {} \<and> pe_tag ` set ps \<inter> set tags = {}"
proof (induction ps arbitrary: ids tags)
  case Nil
  then show ?case by simp
next
  case (Cons p ps)
  show ?case
    by (simp only: check_peers.simps rbind_eq_Inr map_err_simps if_Inl_eq_Inr Cons.IH list_ex_iff
        list.simps(15) list.map distinct.simps ball_simps insert_iff)
      (auto simp: is_ok_iff)
qed

lemma validate_deployment_ok:
  "validate_deployment b64 d = Inr u \<longleftrightarrow>
     dc_schema_version d \<le> DEPLOYMENT_SCHEMA_VERSION
     \<and> \<not> (2 \<le> dc_schema_version d \<and> trim (dc_node_id d) = [])
     \<and> (dc_node_id d = [] \<or> is_ok (validate_node_id (dc_node_id d)))
     \<and> is_ok (validate_profile_title (ss_profile_title (dc_subscription d)))
     \<and> is_ok (check_paths [] (dc_access_paths d))
     \<and> is_ok (check_peers b64 (dc_access_paths d) [] [] (dc_peer_endpoints d))
     \<and> (\<forall>p\<in>set (dc_access_paths d). is_ok (validate_first_hop d p))
     \<and> (\<forall>p\<in>set (dc_peer_endpoints d). is_ok (validate_credential_ref d p))
     \<and> (\<forall>p\<in>set (dc_peer_endpoints d). is_ok (validate_relay_route d p))
     \<and> is_ok (validate_egress d) \<and> is_ok (validate_role d)
     \<and> \<not> (dc_exit_principals d \<noteq> None \<and> dc_role d \<noteq> Relay)
     \<and> is_ok (validate_spoof d)
     \<and> (case dc_google_egress_hairpin d of None \<Rightarrow> True | Some h \<Rightarrow> is_ok (validate_hairpin h))
     \<and> (hy_up_mbps (dc_hysteria2 d) = None) = (hy_down_mbps (dc_hysteria2 d) = None)
     \<and> is_ok (validate_public_ip is_v4 PublicIpv4 (dc_public_ipv4 d))
     \<and> is_ok (validate_public_ip (\<lambda>ip. \<not> is_v4 ip) PublicIpv6 (dc_public_ipv6 d))"
  unfolding validate_deployment_def validate_access_path_first_hops_def validate_credential_refs_def
    validate_relay_routes_def
  by (simp only: rbind_eq_Inr ensure_eq_Inr map_err_simps check_all_iff is_ok_iff split: option.splits)
    (auto simp: is_ok_iff)

lemma is_ok_ensure_unit: "is_ok r \<longleftrightarrow> r = Inr ()" for r :: "'e + unit"
  by (cases r) simp_all

lemma validated_peer:
  assumes "validate_deployment b64 d = Inr u" "p \<in> set (dc_peer_endpoints d)"
  shows "is_ok (validate_peer b64 p)" "pe_id p \<notin> set LOCAL_ENDPOINT_IDS"
    "is_ok (validate_credential_ref d p)" "is_ok (validate_relay_route d p)"
  using assms by (auto simp: validate_deployment_ok check_peers_ok is_ok_ensure_unit)

lemma validated_path:
  assumes "validate_deployment b64 d = Inr u" "q \<in> set (dc_access_paths d)"
  shows "is_ok (validate_first_hop d q)" "is_ok (validate_access_path q)"
  using assms by (auto simp: validate_deployment_ok check_paths_ok is_ok_ensure_unit)

lemma validate_peer_port: "is_ok (validate_peer b64 p) \<Longrightarrow> pe_port p \<noteq> 0"
  by (auto simp: validate_peer_def split: option.splits list.splits if_splits)

lemma validate_peer_host: "is_ok (validate_peer b64 p) \<Longrightarrow> trim (pe_host p) \<noteq> []"
  by (auto simp: validate_peer_def split: option.splits list.splits if_splits)

lemma relay_path_SomeD:
  "relay_path d i = Some q \<Longrightarrow>
     q \<in> set (dc_access_paths d) \<and> ap_id q = i \<and> ap_kind q = RELAY_ACCESS_PATH_KIND"
  unfolding relay_path_def by (auto dest: find_SomeD)

lemma validate_relay_route_ok:
  assumes "is_ok (validate_relay_route d p)" "pe_path p \<noteq> ''direct''"
    "relay_path d (pe_path p) = Some q"
  shows "pe_transport p = VlessReality"
    "\<exists>via. ap_via_endpoint_id q = Some via \<and> via \<noteq> pe_id p"
    "ap_via_endpoint_id q = Some LOCAL_REALITY_ENDPOINT_ID \<Longrightarrow> validate_relay_target_host (pe_host p)"
  using assms by (auto simp: validate_relay_route_def split: if_splits option.splits)

lemma validate_first_hop_ok:
  assumes "is_ok (validate_first_hop d q)" "ap_via_endpoint_id q = Some via"
  shows "set (ap_capabilities q) \<subseteq> {''tcp''}" "ap_kind q = RELAY_ACCESS_PATH_KIND"
    "via = LOCAL_REALITY_ENDPOINT_ID \<and> dc_role d = Relay
     \<or> (\<exists>hop\<in>set (dc_peer_endpoints d). pe_id hop = via \<and> pe_transport hop = VlessReality
          \<and> pe_path hop = ''direct'' \<and> pe_credential_ref hop = None)"
  using assms
  by (auto simp: validate_first_hop_def is_ok_rbind find_None_iff split: if_splits option.splits
      dest!: find_SomeD)

lemma validate_credential_ref_ok:
  assumes "is_ok (validate_credential_ref d p)" "pe_credential_ref p = Some cr"
  shows "\<exists>owner\<in>set (dc_peer_endpoints d). pe_id owner = cr \<and> cr \<noteq> pe_id p
    \<and> pe_credential_ref owner = None \<and> pe_path owner = ''direct''
    \<and> pe_transport owner = pe_transport p \<and> pe_host owner = pe_host p \<and> pe_port owner = pe_port p
    \<and> pe_reality_public_key owner = pe_reality_public_key p \<and> pe_vless_flow owner = pe_vless_flow p"
  using assms
  by (auto simp: validate_credential_ref_def split: if_splits option.splits dest!: find_SomeD)

lemma set_relay_targets:
  "t \<in> set (relay_targets d) \<longleftrightarrow>
     dc_role d = Relay \<and> (\<exists>p\<in>set (dc_peer_endpoints d). \<exists>q.
        relay_path d (pe_path p) = Some q \<and> ap_via_endpoint_id q = Some LOCAL_REALITY_ENDPOINT_ID
        \<and> rt_host t = pe_host p \<and> rt_target_port t = pe_port p)"
  by (cases t) (force simp: relay_targets_def image_iff split: option.splits)

lemma relay_path_not_direct:
  "relay_path d (pe_path p) = Some q \<Longrightarrow> \<forall>q\<in>set (dc_access_paths d). ap_id q \<noteq> ''direct''
     \<Longrightarrow> pe_path p \<noteq> ''direct''"
  by (auto dest!: relay_path_SomeD)

lemma relay_path_self:
  assumes "distinct (map ap_id (dc_access_paths d))" "q \<in> set (dc_access_paths d)"
    "ap_kind q = RELAY_ACCESS_PATH_KIND"
  shows "relay_path d (ap_id q) = Some q"
proof -
  have "\<exists>q'. relay_path d (ap_id q) = Some q'"
    unfolding relay_path_def by (rule find_SomeI [OF assms(2)]) (simp add: assms(3))
  then obtain q' where q': "relay_path d (ap_id q) = Some q'" ..
  then have "q' = q" using assms(1,2) relay_path_SomeD [OF q'] by (auto simp: distinct_map inj_on_def)
  with q' show ?thesis by simp
qed

lemma distinct_remdups_adj_sorted: "sorted xs \<Longrightarrow> distinct (remdups_adj xs)"
  by (induction xs rule: remdups_adj.induct) (auto dest: antisym)

lemma relay_targets_order:
  "sorted (map relay_target_key (relay_targets d))" "distinct (map relay_target_key (relay_targets d))"
proof -
  define ks where "ks = sort (map (\<lambda>p. (pe_host p, pe_port p))
    (filter (\<lambda>p. case relay_path d (pe_path p) of
        None \<Rightarrow> False
      | Some path \<Rightarrow> ap_via_endpoint_id path = Some LOCAL_REALITY_ENDPOINT_ID) (dc_peer_endpoints d)))"
  have k: "map relay_target_key (relay_targets d) = (if dc_role d = Relay then remdups_adj ks else [])"
    by (simp add: relay_targets_def ks_def relay_target_key_def comp_def case_prod_beta)
  have "sorted ks" by (simp add: ks_def)
  then have "sorted (remdups_adj ks)" "distinct (remdups_adj ks)"
    by (simp_all add: sorted_remdups_adj distinct_remdups_adj_sorted)
  then show "sorted (map relay_target_key (relay_targets d))"
    "distinct (map relay_target_key (relay_targets d))" by (simp_all add: k)
qed

section \<open>A concrete relay\<close>

definition example_relay :: DeploymentConfig where
  "example_relay =
     \<lparr>dc_schema_version = 2, dc_node_id = ''ru-1'', dc_role = Relay, dc_public_host = ''ru.example.net'',
      dc_subscription_host = ''ru.example.net'',
      dc_reality = \<lparr>rl_listen_port = 443, rl_handshake_server = ''www.example.com'', rl_handshake_port = 443\<rparr>,
      dc_hysteria2 = \<lparr>hy_listen_port = 8443, hy_up_mbps = None, hy_down_mbps = None\<rparr>,
      dc_subscription = \<lparr>ss_listen_port = 9000, ss_public_port = 8443, ss_profile_title = ''VPN''\<rparr>,
      dc_udp_probe = None, dc_state_dir = ''/etc/vpn'', dc_singbox_binary = ''/usr/bin/sing-box'',
      dc_access_paths =
        [\<lparr>ap_id = ''ru'', ap_kind = ''relay'', ap_via_endpoint_id = Some ''reality-1'',
          ap_failure_domain = None, ap_region = None, ap_provider = None,
          ap_capabilities = [''tcp''], ap_extra = []\<rparr>],
      dc_peer_endpoints =
        [\<lparr>pe_id = ''de-ru'', pe_tag = ''DE'', pe_host = ''de.example.net'', pe_port = 443,
          pe_transport = VlessReality, pe_server_name = None, pe_reality_public_key = Some ''key'',
          pe_reality_short_id = Some ''ab'', pe_reality_fingerprint = ''chrome'',
          pe_obfs_password = None, pe_failure_domain = ''de'', pe_region = None, pe_provider = None,
          pe_asn = None, pe_path = ''ru'', pe_credential_ref = None, pe_vless_flow = Vision,
          pe_extra = []\<rparr>],
      dc_google_egress_hairpin = None, dc_egress = None, dc_google_egress_tls_spoof = None,
      dc_exit_principals = None, dc_public_ipv4 = None, dc_public_ipv6 = None\<rparr>"
definition example_b64 :: "string \<Rightarrow> 8 word list option" where
  "example_b64 s = Some (replicate 32 0)"

text \<open>The same relay with its access path called \<open>direct\<close> and its exit at a given host.\<close>

definition direct_named_relay :: "string \<Rightarrow> DeploymentConfig" where
  "direct_named_relay host = example_relay
     \<lparr>dc_access_paths := map (\<lambda>q. q\<lparr>ap_id := ''direct''\<rparr>) (dc_access_paths example_relay),
      dc_peer_endpoints := map (\<lambda>p. p\<lparr>pe_path := ''direct'', pe_host := host\<rparr>)
        (dc_peer_endpoints example_relay)\<rparr>"

lemmas text_eval =
  trim_def trim_end_by_def utf8_len_def is_whitespace_def code_point_def is_control_def Let_def

lemmas peer_eval =
  validate_peer_def is_blank_opt_def validate_peer_transport_def validate_reality_public_key_shape_def
  example_b64_def opt_str_def validate_short_id_shape_def is_ascii_hexdigit_def is_ascii_digit_def
  is_ok_rbind

lemmas section_eval =
  is_ok_ensure_unit check_paths_ok check_peers_ok validate_access_path_def is_blank_opt_def
  validate_first_hop_def validate_credential_ref_def validate_relay_route_def validate_egress_def
  validate_role_def validate_spoof_def validate_public_ip_def relay_path_def
  DEPLOYMENT_SCHEMA_VERSION_def LOCAL_ENDPOINT_IDS_def RESERVED_ENDPOINT_TAGS_def
  RELAY_ACCESS_PATH_KIND_def LOCAL_REALITY_ENDPOINT_ID_def LOCAL_HYSTERIA2_ENDPOINT_ID_def

lemma example_relay_texts:
  "trim ''ru-1'' = ''ru-1''" "is_ok (validate_profile_title ''VPN'')" "is_ok (validate_node_id ''ru-1'')"
  "validate_relay_target_host ''de.example.net''"
  by (simp_all add: text_eval validate_profile_title_def MAX_PROFILE_TITLE_CHARS_def validate_node_id_def
      NODE_ID_MAX_LEN_def ascii_classes validate_relay_target_host_def parse_eval dns_label_def
      starts_with_def ends_with_def)

lemma example_relay_peer: "is_ok (validate_peer example_b64 (hd (dc_peer_endpoints example_relay)))"
  by (simp add: example_relay_def text_eval peer_eval)

lemma example_relay_valid: "validate_deployment example_b64 example_relay = Inr ()"
  unfolding validate_deployment_ok
  using example_relay_texts example_relay_peer
  by (simp add: example_relay_def text_eval section_eval)

lemma direct_named_relay_peer:
  assumes "trim host \<noteq> []" "\<not> list_ex (\<lambda>ch. is_whitespace ch \<or> ch = ''/'') (utf8_split host)"
  shows "is_ok (validate_peer example_b64 (hd (dc_peer_endpoints (direct_named_relay host))))"
proof -
  have t: "trim ''de-ru'' \<noteq> []" "trim ''DE'' \<noteq> []" "trim ''de'' \<noteq> []" "trim ''direct'' \<noteq> []"
    "trim ''key'' \<noteq> []"
    by (simp_all add: text_eval)
  show ?thesis
    using assms t by (simp add: direct_named_relay_def example_relay_def peer_eval)
qed

section \<open>Properties\<close>

text \<open>On a validated deployment in which no access path is called \<open>direct\<close>, every
  destination a relay may dial is a VLESS exit with a nonzero port whose host is either an
  address literal outside every denied range or a lowercase DNS name of valid labels; the
  destinations are exactly those of the peers routed through this node's own listener, sorted
  and without duplicates, and an exit has none.\<close>

theorem relay_targets_dialable:
  assumes "validate_deployment b64 d = Inr ()"
    and "\<forall>q\<in>set (dc_access_paths d). ap_id q \<noteq> ''direct''"
  shows "(\<forall>t\<in>set (relay_targets d). rt_target_port t \<noteq> 0
      \<and> (case parse_ip (rt_host t) of
           Some ip \<Rightarrow> \<not> table_denied ip
         | None \<Rightarrow> length (rt_host t) \<le> 253 \<and> (\<forall>l\<in>set (split_on (CHR ''.'') (rt_host t)). dns_label l)))
    \<and> (\<forall>t. t \<in> set (relay_targets d) \<longleftrightarrow>
         dc_role d = Relay \<and> (\<exists>p\<in>set (dc_peer_endpoints d). \<exists>q\<in>set (dc_access_paths d).
           pe_transport p = VlessReality \<and> pe_path p = ap_id q \<and> ap_kind q = RELAY_ACCESS_PATH_KIND
           \<and> ap_via_endpoint_id q = Some LOCAL_REALITY_ENDPOINT_ID
           \<and> rt_host t = pe_host p \<and> rt_target_port t = pe_port p))
    \<and> sorted (map relay_target_key (relay_targets d))
    \<and> distinct (map relay_target_key (relay_targets d))"
proof (intro conjI ballI allI)
  fix t assume "t \<in> set (relay_targets d)"
  then obtain p q where pq: "p \<in> set (dc_peer_endpoints d)" "relay_path d (pe_path p) = Some q"
    "ap_via_endpoint_id q = Some LOCAL_REALITY_ENDPOINT_ID" "rt_host t = pe_host p"
    "rt_target_port t = pe_port p"
    unfolding set_relay_targets by blast
  then have nd: "pe_path p \<noteq> ''direct''" using assms(2) relay_path_not_direct by blast
  show "rt_target_port t \<noteq> 0" using validated_peer(1) [OF assms(1) pq(1)] pq(5) validate_peer_port by simp
  have "validate_relay_target_host (rt_host t)"
    using validate_relay_route_ok(3) [OF validated_peer(4) [OF assms(1) pq(1)] nd pq(2,3)] pq(4) by simp
  then show "case parse_ip (rt_host t) of
        Some ip \<Rightarrow> \<not> table_denied ip
      | None \<Rightarrow> length (rt_host t) \<le> 253 \<and> (\<forall>l\<in>set (split_on (CHR ''.'') (rt_host t)). dns_label l)"
    by (auto simp: validate_relay_target_host_def relay_denied_iff classify_denied_table [symmetric]
        list_all_iff split: option.splits)
next
  fix t
  have ids: "distinct (map ap_id (dc_access_paths d))"
    using assms(1) by (auto simp: validate_deployment_ok check_paths_ok is_ok_ensure_unit)
  have vless: "pe_transport p = VlessReality"
    if "p \<in> set (dc_peer_endpoints d)" "relay_path d (pe_path p) = Some q" for p q
    using validate_relay_route_ok(1) [OF validated_peer(4) [OF assms(1) that(1)]
        relay_path_not_direct [OF that(2) assms(2)] that(2)] .
  show "t \<in> set (relay_targets d) \<longleftrightarrow>
         dc_role d = Relay \<and> (\<exists>p\<in>set (dc_peer_endpoints d). \<exists>q\<in>set (dc_access_paths d).
           pe_transport p = VlessReality \<and> pe_path p = ap_id q \<and> ap_kind q = RELAY_ACCESS_PATH_KIND
           \<and> ap_via_endpoint_id q = Some LOCAL_REALITY_ENDPOINT_ID
           \<and> rt_host t = pe_host p \<and> rt_target_port t = pe_port p)" (is "_ \<longleftrightarrow> ?R")
  proof
    assume "t \<in> set (relay_targets d)"
    then show ?R unfolding set_relay_targets using vless relay_path_SomeD by metis
  next
    assume ?R
    then show "t \<in> set (relay_targets d)"
      unfolding set_relay_targets using relay_path_self [OF ids] by metis
  qed
qed (rule relay_targets_order)+

theorem relay_targets_dialable_witness:
  "relay_targets example_relay = [\<lparr>rt_host = ''de.example.net'', rt_target_port = 443\<rparr>]
   \<and> list_all dns_label (split_on (CHR ''.'') ''de.example.net'')"
proof -
  have t: "relay_targets example_relay = [\<lparr>rt_host = ''de.example.net'', rt_target_port = 443\<rparr>]"
    by (simp add: relay_targets_def example_relay_def section_eval)
  have "parse_ip ''de.example.net'' = None" by (simp add: parse_eval)
  moreover have "\<forall>q\<in>set (dc_access_paths example_relay). ap_id q \<noteq> ''direct''"
    by (simp add: example_relay_def)
  ultimately show ?thesis
    using relay_targets_dialable [OF example_relay_valid] t by (simp add: list_all_iff)
qed

text \<open>C36: The name \<open>direct\<close> defeats the check of relay destinations: a relay whose access path
  is called \<open>direct\<close> passes validation with any nonblank peer host free of white space and
  slashes, and that host becomes a destination the relay may dial, although the route check
  never looked at it.\<close>

theorem direct_named_path_skips_target_check:
  assumes "trim host \<noteq> []" "\<not> list_ex (\<lambda>ch. is_whitespace ch \<or> ch = ''/'') (utf8_split host)"
  shows "validate_deployment example_b64 (direct_named_relay host) = Inr ()
    \<and> relay_targets (direct_named_relay host) = [\<lparr>rt_host = host, rt_target_port = 443\<rparr>]"
proof
  show "validate_deployment example_b64 (direct_named_relay host) = Inr ()"
    unfolding validate_deployment_ok
    using example_relay_texts direct_named_relay_peer [OF assms]
    by (simp add: direct_named_relay_def example_relay_def text_eval section_eval)
  show "relay_targets (direct_named_relay host) = [\<lparr>rt_host = host, rt_target_port = 443\<rparr>]"
    by (simp add: relay_targets_def direct_named_relay_def example_relay_def section_eval)
qed

theorem direct_named_path_skips_target_check_witness:
  "validate_deployment example_b64 (direct_named_relay ''169.254.169.254'') = Inr ()
   \<and> relay_targets (direct_named_relay ''169.254.169.254'')
       = [\<lparr>rt_host = ''169.254.169.254'', rt_target_port = 443\<rparr>]
   \<and> \<not> validate_relay_target_host ''169.254.169.254''"
proof -
  have "trim ''169.254.169.254'' \<noteq> []"
    "\<not> list_ex (\<lambda>ch. is_whitespace ch \<or> ch = ''/'') (utf8_split ''169.254.169.254'')"
    by (simp_all add: text_eval)
  moreover have "parse_ip ''169.254.169.254'' = Some (V4 METADATA_V4)"
    by (simp add: parse_eval METADATA_V4_def ipv4_def)
  then have "\<not> validate_relay_target_host ''169.254.169.254''"
    by (simp add: validate_relay_target_host_def relay_v4_denied_def)
  ultimately show ?thesis using direct_named_path_skips_target_check by blast
qed

text \<open>A validated deployment has at most two hops and no credential that crosses servers.
  Peer ids and tags are unique and distinct from the local listeners' ids. A route alias reuses
  the credential of another declared peer that owns it, is direct, and is the same server with
  the same transport and flow. A route over a relay path is VLESS, advertises TCP only, and its
  first hop is either this node's own listener, on a relay, or another declared, direct VLESS
  peer with its own credential.\<close>

theorem validated_routes_two_hops:
  assumes "validate_deployment b64 d = Inr ()"
  shows "distinct (map pe_id (dc_peer_endpoints d)) \<and> distinct (map pe_tag (dc_peer_endpoints d))
    \<and> (\<forall>p\<in>set (dc_peer_endpoints d).
         pe_id p \<noteq> LOCAL_REALITY_ENDPOINT_ID \<and> pe_id p \<noteq> LOCAL_HYSTERIA2_ENDPOINT_ID
       \<and> (\<forall>cr. pe_credential_ref p = Some cr \<longrightarrow>
            (\<exists>owner\<in>set (dc_peer_endpoints d). pe_id owner = cr \<and> cr \<noteq> pe_id p
               \<and> pe_credential_ref owner = None \<and> pe_path owner = ''direct''
               \<and> pe_transport owner = pe_transport p \<and> pe_host owner = pe_host p
               \<and> pe_port owner = pe_port p \<and> pe_reality_public_key owner = pe_reality_public_key p
               \<and> pe_vless_flow owner = pe_vless_flow p))
       \<and> (\<forall>q. pe_path p \<noteq> ''direct'' \<and> relay_path d (pe_path p) = Some q \<longrightarrow>
            pe_transport p = VlessReality \<and> set (ap_capabilities q) \<subseteq> {''tcp''}
            \<and> (\<exists>via. ap_via_endpoint_id q = Some via \<and> via \<noteq> pe_id p
                \<and> (via = LOCAL_REALITY_ENDPOINT_ID \<and> dc_role d = Relay
                   \<or> (\<exists>hop\<in>set (dc_peer_endpoints d). pe_id hop = via \<and> pe_transport hop = VlessReality
                        \<and> pe_path hop = ''direct'' \<and> pe_credential_ref hop = None)))))"
proof (intro conjI ballI allI impI)
  show "distinct (map pe_id (dc_peer_endpoints d))" "distinct (map pe_tag (dc_peer_endpoints d))"
    using assms by (auto simp: validate_deployment_ok check_peers_ok is_ok_ensure_unit)
next
  fix p assume p: "p \<in> set (dc_peer_endpoints d)"
  show "pe_id p \<noteq> LOCAL_REALITY_ENDPOINT_ID" "pe_id p \<noteq> LOCAL_HYSTERIA2_ENDPOINT_ID"
    using validated_peer(2) [OF assms p]
    by (auto simp: LOCAL_ENDPOINT_IDS_def LOCAL_REALITY_ENDPOINT_ID_def LOCAL_HYSTERIA2_ENDPOINT_ID_def)
  show "\<exists>owner\<in>set (dc_peer_endpoints d). pe_id owner = cr \<and> cr \<noteq> pe_id p
      \<and> pe_credential_ref owner = None \<and> pe_path owner = ''direct''
      \<and> pe_transport owner = pe_transport p \<and> pe_host owner = pe_host p
      \<and> pe_port owner = pe_port p \<and> pe_reality_public_key owner = pe_reality_public_key p
      \<and> pe_vless_flow owner = pe_vless_flow p" if "pe_credential_ref p = Some cr" for cr
    by (rule validate_credential_ref_ok [OF validated_peer(3) [OF assms p] that])
  fix q assume "pe_path p \<noteq> ''direct'' \<and> relay_path d (pe_path p) = Some q"
  then have q: "pe_path p \<noteq> ''direct''" "relay_path d (pe_path p) = Some q" by simp_all
  note route = validate_relay_route_ok [OF validated_peer(4) [OF assms p] q]
  have hop: "is_ok (validate_first_hop d q)"
    using validated_path(1) [OF assms] relay_path_SomeD [OF q(2)] by blast
  obtain via where via: "ap_via_endpoint_id q = Some via" "via \<noteq> pe_id p" using route(2) by blast
  show "pe_transport p = VlessReality" by (rule route(1))
  show "set (ap_capabilities q) \<subseteq> {''tcp''}" by (rule validate_first_hop_ok(1) [OF hop via(1)])
  show "\<exists>via. ap_via_endpoint_id q = Some via \<and> via \<noteq> pe_id p
      \<and> (via = LOCAL_REALITY_ENDPOINT_ID \<and> dc_role d = Relay
         \<or> (\<exists>hop\<in>set (dc_peer_endpoints d). pe_id hop = via \<and> pe_transport hop = VlessReality
              \<and> pe_path hop = ''direct'' \<and> pe_credential_ref hop = None))"
    using via validate_first_hop_ok(3) [OF hop via(1)] by blast
qed

theorem validated_routes_two_hops_witness:
  "\<exists>p q via. dc_peer_endpoints example_relay = [p] \<and> relay_path example_relay (pe_path p) = Some q
     \<and> ap_via_endpoint_id q = Some via \<and> via \<noteq> pe_id p \<and> pe_transport p = VlessReality"
proof -
  define p where "p = hd (dc_peer_endpoints example_relay)"
  define q where "q = hd (dc_access_paths example_relay)"
  have p: "dc_peer_endpoints example_relay = [p]" "pe_path p \<noteq> ''direct''"
    "relay_path example_relay (pe_path p) = Some q"
    by (simp_all add: p_def q_def example_relay_def relay_path_def RELAY_ACCESS_PATH_KIND_def)
  with validated_routes_two_hops [OF example_relay_valid] show ?thesis by fastforce
qed

end
