(* ===== verification/FileStore.thy ===== *)
theory FileStore
  imports Json
begin

text \<open>
  How the node software replaces its state files: \<open>crates/compat-config/src/migrate.rs\<close>,
  \<open>ownership.rs\<close> and the write-validate-swap of \<open>server.rs\<close>.  A file system maps paths
  (directory and file name) to nodes with contents, mode and owner; every system call may
  fail, as a script of outcomes says, and a failing write may leave any prefix.  The world
  keeps every state the file system went through, so a statement about all states of the
  trace is a statement about a crash at any point.  Durability of unsynchronized writes is
  not modelled.
\<close>

unbundle bit_operations_syntax

section \<open>The file system\<close>

type_synonym path = "string \<times> string"

record node =
  nd_bytes :: string
  nd_mode :: nat
  nd_uid :: nat
  nd_gid :: nat

record filesys =
  fs_files :: "path \<Rightarrow> node option"
  fs_dirs :: "string \<Rightarrow> nat option"

record process =
  pr_uid :: nat
  pr_gid :: nat
  pr_umask :: nat
  pr_pid :: nat

record world =
  w_fs :: filesys
  w_script :: "nat option list"
  w_trace :: "filesys list"

datatype FsError = Io | Unparsable | Rejected string | FutureSchema nat

type_synonym 'a io = "world \<Rightarrow> world \<times> (FsError + 'a)"

definition io_ret :: "'a \<Rightarrow> 'a io" where
  "io_ret x w = (w, Inr x)"

definition io_fail :: "FsError \<Rightarrow> 'a io" where
  "io_fail e w = (w, Inl e)"

definition io_bind :: "'a io \<Rightarrow> ('a \<Rightarrow> 'b io) \<Rightarrow> 'b io" where
  "io_bind m f w = (case m w of (w', Inl e) \<Rightarrow> (w', Inl e) | (w', Inr x) \<Rightarrow> f x w')"

text \<open>A handler that runs when an action fails; the error stays.\<close>

definition io_on_error :: "'a io \<Rightarrow> 'b io \<Rightarrow> 'a io" where
  "io_on_error m h w = (case m w of (w', Inl e) \<Rightarrow> (fst (h w'), Inl e) | (w', Inr x) \<Rightarrow> (w', Inr x))"

definition next_fault :: "world \<Rightarrow> nat option \<times> world" where
  "next_fault w = (case w_script w of [] \<Rightarrow> (None, w) | f # fs \<Rightarrow> (f, w\<lparr>w_script := fs\<rparr>))"

definition commit :: "filesys \<Rightarrow> world \<Rightarrow> world" where
  "commit fs w = w\<lparr>w_fs := fs, w_trace := w_trace w @ [fs]\<rparr>"

definition sys_call :: "(filesys \<Rightarrow> filesys option) \<Rightarrow> unit io" where
  "sys_call f w =
     (case next_fault w of
        (Some _, w') \<Rightarrow> (w', Inl Io)
      | (None, w') \<Rightarrow>
          (case f (w_fs w') of None \<Rightarrow> (w', Inl Io) | Some fs \<Rightarrow> (commit fs w', Inr ())))"

text \<open>A query answers \<open>None\<close> when the call fails.\<close>

definition sys_query :: "(filesys \<Rightarrow> 'a option) \<Rightarrow> 'a option io" where
  "sys_query f w =
     (case next_fault w of
        (Some _, w') \<Rightarrow> (w', Inr None)
      | (None, w') \<Rightarrow> (w', Inr (f (w_fs w'))))"

section \<open>System calls\<close>

definition put :: "path \<Rightarrow> node option \<Rightarrow> filesys \<Rightarrow> filesys" where
  "put p n fs = fs\<lparr>fs_files := (fs_files fs)(p := n)\<rparr>"

definition create_dir_all :: "process \<Rightarrow> string \<Rightarrow> unit io" where
  "create_dir_all pr d =
     sys_call (\<lambda>fs. Some (if fs_dirs fs d = None then fs\<lparr>fs_dirs := (fs_dirs fs)(d \<mapsto> pr_gid pr)\<rparr> else fs))"

definition open_truncate :: "process \<Rightarrow> nat \<Rightarrow> path \<Rightarrow> unit io" where
  "open_truncate pr mode p =
     sys_call (\<lambda>fs. case fs_dirs fs (fst p) of
        None \<Rightarrow> None
      | Some _ \<Rightarrow>
          Some (put p (Some (case fs_files fs p of
                               Some n \<Rightarrow> n\<lparr>nd_bytes := []\<rparr>
                             | None \<Rightarrow> \<lparr>nd_bytes = [], nd_mode = mode - (mode AND pr_umask pr),
                                         nd_uid = pr_uid pr, nd_gid = pr_gid pr\<rparr>)) fs))"

definition update_node :: "path \<Rightarrow> (node \<Rightarrow> node) \<Rightarrow> unit io" where
  "update_node p f = sys_call (\<lambda>fs. map_option (\<lambda>n. put p (Some (f n)) fs) (fs_files fs p))"

definition set_permissions :: "path \<Rightarrow> nat \<Rightarrow> unit io" where
  "set_permissions p mode = update_node p (\<lambda>n. n\<lparr>nd_mode := mode\<rparr>)"

definition chown :: "path \<Rightarrow> nat \<Rightarrow> nat \<Rightarrow> unit io" where
  "chown p uid gid = update_node p (\<lambda>n. n\<lparr>nd_uid := uid, nd_gid := gid\<rparr>)"

definition write_all :: "path \<Rightarrow> string \<Rightarrow> unit io" where
  "write_all p bytes w =
     (case next_fault w of
        (fault, w') \<Rightarrow>
          (case fs_files (w_fs w') p of
             None \<Rightarrow> (w', Inl Io)
           | Some n \<Rightarrow>
               (let stage = (\<lambda>j. put p (Some (n\<lparr>nd_bytes := take j bytes\<rparr>)) (w_fs w'));
                    upto = (case fault of None \<Rightarrow> length bytes | Some k \<Rightarrow> min k (length bytes));
                    w'' = w'\<lparr>w_fs := stage upto, w_trace := w_trace w' @ map stage [0..<Suc upto]\<rparr>
                in (w'', if fault = None then Inr () else Inl Io))))"

definition sync_all :: "unit io" where
  "sync_all = sys_call Some"

definition rename :: "path \<Rightarrow> path \<Rightarrow> unit io" where
  "rename src dst =
     sys_call (\<lambda>fs. case fs_files fs src of
        None \<Rightarrow> None
      | Some n \<Rightarrow> Some (put dst (Some n) (put src None fs)))"

definition remove_file :: "path \<Rightarrow> unit io" where
  "remove_file p =
     sys_call (\<lambda>fs. if fs_files fs p = None then None else Some (put p None fs))"

definition metadata :: "path \<Rightarrow> (nat \<times> nat) option io" where
  "metadata p = sys_query (\<lambda>fs. map_option (\<lambda>n. (nd_uid n, nd_gid n)) (fs_files fs p))"

definition dir_gid :: "string \<Rightarrow> nat option io" where
  "dir_gid d = sys_query (\<lambda>fs. fs_dirs fs d)"

definition exists_file :: "path \<Rightarrow> bool io" where
  "exists_file p = io_bind (metadata p) (\<lambda>m. io_ret (m \<noteq> None))"

definition read_file :: "path \<Rightarrow> string io" where
  "read_file p = io_bind (sys_query (\<lambda>fs. map_option nd_bytes (fs_files fs p)))
     (\<lambda>m. case m of None \<Rightarrow> io_fail Io | Some b \<Rightarrow> io_ret b)"

text \<open>\<open>std::fs::copy\<close>: contents and permission bits.\<close>

definition copy_file :: "process \<Rightarrow> path \<Rightarrow> path \<Rightarrow> unit io" where
  "copy_file pr src dst =
     io_bind (sys_query (\<lambda>fs. fs_files fs src)) (\<lambda>m. case m of
       None \<Rightarrow> io_fail Io
     | Some n \<Rightarrow>
         io_bind (open_truncate pr (nd_mode n) dst) (\<lambda>_.
         io_bind (set_permissions dst (nd_mode n)) (\<lambda>_.
         write_all dst (nd_bytes n))))"

section \<open>Replacement of a file\<close>

definition tmp_path :: "process \<Rightarrow> path \<Rightarrow> path" where
  "tmp_path pr p = (fst p, snd p @ ''.tmp.'' @ show_nat (pr_pid pr))"

definition write_file_mode :: "process \<Rightarrow> path \<Rightarrow> string \<Rightarrow> nat \<Rightarrow> unit io" where
  "write_file_mode pr p bytes mode =
     io_bind (open_truncate pr mode p) (\<lambda>_.
     io_bind (set_permissions p mode) (\<lambda>_.
     io_bind (write_all p bytes) (\<lambda>_.
     sync_all)))"

definition preserve_ownership_before_rename :: "path \<Rightarrow> path \<Rightarrow> unit io" where
  "preserve_ownership_before_rename tmp target =
     io_bind (metadata target) (\<lambda>m. case m of
       Some (uid, gid) \<Rightarrow> chown tmp uid gid
     | None \<Rightarrow>
         io_bind (metadata tmp) (\<lambda>t. case t of
           None \<Rightarrow> io_fail Io
         | Some (uid, _) \<Rightarrow>
             io_bind (dir_gid (fst target)) (\<lambda>g. case g of
               None \<Rightarrow> io_fail Io
             | Some gid \<Rightarrow> chown tmp uid gid)))"

definition atomic_write :: "process \<Rightarrow> path \<Rightarrow> string \<Rightarrow> nat \<Rightarrow> unit io" where
  "atomic_write pr p bytes mode =
     io_bind (create_dir_all pr (fst p)) (\<lambda>_.
     io_bind (write_file_mode pr (tmp_path pr p) bytes mode) (\<lambda>_.
     io_bind (preserve_ownership_before_rename (tmp_path pr p) p) (\<lambda>_.
     rename (tmp_path pr p) p)))"

definition backup_path :: "nat \<Rightarrow> path \<Rightarrow> path" where
  "backup_path ts p = (fst p, snd p @ ''.pre-migration-'' @ show_nat ts @ ''.bak'')"

definition backup_before_mutate :: "process \<Rightarrow> nat \<Rightarrow> path \<Rightarrow> path io" where
  "backup_before_mutate pr ts p =
     io_bind (read_file p) (\<lambda>bytes.
     io_bind (write_file_mode pr (backup_path ts p) bytes 0x180) (\<lambda>_.
     io_ret (backup_path ts p)))"

definition config_backup_path :: "path \<Rightarrow> path" where
  "config_backup_path p = (fst p, snd p @ ''.bak'')"

text \<open>The check of a candidate file, a run of the external core on its contents, is the
  parameter \<open>check\<close>; \<open>ser\<close> prints the document.\<close>

definition validate_file :: "(string \<Rightarrow> FsError + unit) \<Rightarrow> path \<Rightarrow> unit io" where
  "validate_file check p =
     io_bind (read_file p) (\<lambda>bytes w. (w, check bytes))"

definition apply_config_atomically ::
    "(json \<Rightarrow> string) \<Rightarrow> (string \<Rightarrow> FsError + unit) \<Rightarrow> process \<Rightarrow> json \<Rightarrow> path \<Rightarrow> unit io" where
  "apply_config_atomically ser check pr config p =
     io_bind (create_dir_all pr (fst p)) (\<lambda>_.
     io_bind (write_file_mode pr (tmp_path pr p) (ser config) 0x1A0) (\<lambda>_.
     io_bind (io_on_error (validate_file check (tmp_path pr p)) (remove_file (tmp_path pr p))) (\<lambda>_.
     io_bind (exists_file p) (\<lambda>there.
     io_bind (if there
              then io_bind (copy_file pr p (config_backup_path p)) (\<lambda>_.
                     set_permissions (config_backup_path p) 0x1A0)
              else io_ret ()) (\<lambda>_.
     io_bind (preserve_ownership_before_rename (tmp_path pr p) p) (\<lambda>_.
     rename (tmp_path pr p) p))))))"

section \<open>Lemmas\<close>

lemma tmp_path_neq [simp]: "tmp_path pr p \<noteq> p" "p \<noteq> tmp_path pr p"
  by (cases p; simp add: tmp_path_def)+

lemma config_backup_path_neq [simp]: "config_backup_path p \<noteq> p" "p \<noteq> config_backup_path p"
  by (cases p; simp add: config_backup_path_def)+

lemma backup_path_neq [simp]: "backup_path ts p \<noteq> p" "p \<noteq> backup_path ts p"
  by (cases p; simp add: backup_path_def)+

lemma put_apply [simp]:
  "fs_files (put p n fs) q = (if q = p then n else fs_files fs q)" "fs_dirs (put p n fs) = fs_dirs fs"
  by (simp_all add: put_def)

lemma commit_simps [simp]:
  "w_fs (commit fs w) = fs" "w_trace (commit fs w) = w_trace w @ [fs]" "w_script (commit fs w) = w_script w"
  by (simp_all add: commit_def)

text \<open>A run extends the trace by states that all have a property; an action keeps a property
  when every run from a state that has it extends the trace so, whatever fails on the way.\<close>

definition extends :: "(filesys \<Rightarrow> bool) \<Rightarrow> world \<Rightarrow> world \<Rightarrow> bool" where
  "extends Q w w' \<longleftrightarrow> Q (w_fs w') \<and> (\<exists>ss. w_trace w' = w_trace w @ ss \<and> list_all Q ss)"

definition keeps :: "(filesys \<Rightarrow> bool) \<Rightarrow> 'a io \<Rightarrow> bool" where
  "keeps Q m \<longleftrightarrow> (\<forall>w. Q (w_fs w) \<longrightarrow> extends Q w (fst (m w)))"

named_theorems keeps_intros \<open>preservation of state properties by actions\<close>

lemma extends_trans: "extends Q w w1 \<Longrightarrow> extends Q w1 w2 \<Longrightarrow> extends Q w w2"
  by (auto simp: extends_def)

lemma extends_refl [simp]: "extends Q w w \<longleftrightarrow> Q (w_fs w)"
  by (simp add: extends_def)

lemma extends_mono: "extends Q w w' \<Longrightarrow> (\<And>s. Q s \<Longrightarrow> R s) \<Longrightarrow> extends R w w'"
  by (auto simp: extends_def list_all_iff)

lemma keepsD: "keeps Q m \<Longrightarrow> m w = (w', r) \<Longrightarrow> Q (w_fs w) \<Longrightarrow> extends Q w w'"
  unfolding keeps_def by (metis fst_conv)

lemma keeps_now: "keeps Q m \<Longrightarrow> m w = (w', r) \<Longrightarrow> Q (w_fs w) \<Longrightarrow> Q (w_fs w')"
  using keepsD by (fastforce simp: extends_def)

lemma keeps_ret [keeps_intros]: "keeps Q (io_ret x)" "keeps Q (io_fail e)"
  by (simp_all add: keeps_def io_ret_def io_fail_def)

lemma keeps_bind [keeps_intros]:
  assumes "keeps Q m" "\<And>x. keeps Q (f x)"
  shows "keeps Q (io_bind m f)"
  unfolding keeps_def
proof (intro allI impI)
  fix w :: world assume a: "Q (w_fs w)"
  obtain w1 r where m: "m w = (w1, r)" by (cases "m w")
  have e: "extends Q w w1" by (rule keepsD [OF assms(1) m a])
  then have "Q (w_fs w1)" by (simp add: extends_def)
  with assms(2) have "extends Q w1 (fst (f x w1))" for x by (simp add: keeps_def)
  with e show "extends Q w (fst (io_bind m f w))"
    by (cases r) (auto simp: io_bind_def m intro: extends_trans)
qed

lemma keeps_on_error [keeps_intros]:
  assumes "keeps Q m" "keeps Q h"
  shows "keeps Q (io_on_error m h)"
  unfolding keeps_def
proof (intro allI impI)
  fix w :: world assume a: "Q (w_fs w)"
  obtain w1 r where m: "m w = (w1, r)" by (cases "m w")
  have e: "extends Q w w1" by (rule keepsD [OF assms(1) m a])
  then have "Q (w_fs w1)" by (simp add: extends_def)
  with assms(2) have "extends Q w1 (fst (h w1))" by (simp add: keeps_def)
  with e show "extends Q w (fst (io_on_error m h w))"
    by (cases r) (auto simp: io_on_error_def m intro: extends_trans)
qed

lemma next_fault_states: "next_fault w = (f, w') \<Longrightarrow> w_fs w' = w_fs w \<and> w_trace w' = w_trace w"
  by (auto simp: next_fault_def split: list.splits)

lemma keeps_sys_call [keeps_intros]:
  assumes "\<And>fs fs'. Q fs \<Longrightarrow> f fs = Some fs' \<Longrightarrow> Q fs'"
  shows "keeps Q (sys_call f)"
  unfolding keeps_def
proof (intro allI impI)
  fix w :: world assume a: "Q (w_fs w)"
  obtain f0 w1 where n: "next_fault w = (f0, w1)" by (cases "next_fault w")
  from next_fault_states [OF n] a assms show "extends Q w (fst (sys_call f w))"
    by (auto simp: sys_call_def n extends_def split: option.splits)
qed

lemma keeps_sys_query [keeps_intros]: "keeps Q (sys_query f)"
  unfolding keeps_def
proof (intro allI impI)
  fix w :: world assume a: "Q (w_fs w)"
  obtain f0 w1 where n: "next_fault w = (f0, w1)" by (cases "next_fault w")
  from next_fault_states [OF n] a show "extends Q w (fst (sys_query f w))"
    by (auto simp: sys_query_def n extends_def split: option.splits)
qed

lemma keeps_write_all:
  assumes "\<And>fs n b. Q fs \<Longrightarrow> fs_files fs p = Some n \<Longrightarrow> Q (put p (Some (n\<lparr>nd_bytes := b\<rparr>)) fs)"
  shows "keeps Q (write_all p bytes)"
  unfolding keeps_def
proof (intro allI impI)
  fix w :: world assume a: "Q (w_fs w)"
  obtain f0 w1 where n: "next_fault w = (f0, w1)" by (cases "next_fault w")
  note st = next_fault_states [OF n]
  show "extends Q w (fst (write_all p bytes w))"
  proof (cases "fs_files (w_fs w1) p")
    case None
    with n st a show ?thesis by (simp add: write_all_def extends_def)
  next
    case (Some nd)
    have "Q (put p (Some (nd\<lparr>nd_bytes := take j bytes\<rparr>)) (w_fs w1))" for j
      using assms [of "w_fs w1" nd] st a Some by simp
    with n Some st show ?thesis by (auto simp: write_all_def extends_def Let_def list_all_iff)
  qed
qed

text \<open>The contents of one path are kept by every action on another path.\<close>

definition file_is :: "path \<Rightarrow> node option \<Rightarrow> filesys \<Rightarrow> bool" where
  "file_is p n fs \<longleftrightarrow> fs_files fs p = n"

lemma keeps_other_path [keeps_intros]:
  assumes "q \<noteq> p"
  shows "keeps (file_is q n) (open_truncate pr mode p)" "keeps (file_is q n) (update_node p g)"
    "keeps (file_is q n) (write_all p bytes)" "keeps (file_is q n) (remove_file p)"
  unfolding open_truncate_def update_node_def remove_file_def
  using assms
  by (auto intro!: keeps_sys_call keeps_write_all simp: file_is_def split: option.splits if_splits)

lemma keeps_no_file [keeps_intros]:
  "keeps (file_is q n) (create_dir_all pr d)" "keeps (file_is q n) sync_all"
  unfolding create_dir_all_def sync_all_def
  by (auto intro!: keeps_sys_call simp: file_is_def split: if_splits)

lemma keeps_other_ops [keeps_intros]:
  assumes "q \<noteq> p"
  shows "keeps (file_is q n) (set_permissions p mode)" "keeps (file_is q n) (chown p uid gid)"
    "keeps (file_is q n) (write_file_mode pr p bytes mode)"
    "keeps (file_is q n) (preserve_ownership_before_rename p t)"
  unfolding set_permissions_def chown_def write_file_mode_def preserve_ownership_before_rename_def
    metadata_def dir_gid_def
  using assms by (auto intro!: keeps_intros split: option.splits)

lemma keeps_queries [keeps_intros]:
  "keeps Q (metadata p)" "keeps Q (exists_file p)" "keeps Q (read_file p)" "keeps Q (dir_gid d)"
  unfolding metadata_def exists_file_def read_file_def dir_gid_def
  by (auto intro!: keeps_intros split: option.splits)

lemma keeps_copy_file [keeps_intros]: "q \<noteq> dst \<Longrightarrow> keeps (file_is q n) (copy_file pr src dst)"
  unfolding copy_file_def by (auto intro!: keeps_intros split: option.splits)

lemma keeps_validate_file [keeps_intros]: "keeps Q (validate_file check p)"
  unfolding validate_file_def by (auto intro!: keeps_intros) (simp add: keeps_def)

text \<open>What a successful run of the calls establishes.\<close>

lemma io_bind_Inr:
  "io_bind m f w = (w', Inr y) \<longleftrightarrow> (\<exists>w1 x. m w = (w1, Inr x) \<and> f x w1 = (w', Inr y))"
  by (auto simp: io_bind_def split: prod.splits sum.splits)

lemma io_bind_Inl:
  "io_bind m f w = (w', Inl e) \<longleftrightarrow>
     m w = (w', Inl e) \<or> (\<exists>w1 x. m w = (w1, Inr x) \<and> f x w1 = (w', Inl e))"
  by (auto simp: io_bind_def split: prod.splits sum.splits)

lemma sys_call_Inr:
  "sys_call f w = (w', Inr u) \<Longrightarrow>
     f (w_fs w) = Some (w_fs w') \<and> w_trace w' = w_trace w @ [w_fs w']"
  by (cases "next_fault w") (auto simp: sys_call_def dest!: next_fault_states split: option.splits)

lemma sys_call_Inl:
  "sys_call f w = (w', Inl e) \<Longrightarrow> e = Io \<and> w_fs w' = w_fs w \<and> w_trace w' = w_trace w"
  by (cases "next_fault w") (auto simp: sys_call_def dest!: next_fault_states split: option.splits)

lemma sys_query_Inr: "sys_query f w = (w', r) \<Longrightarrow> w_fs w' = w_fs w \<and> w_trace w' = w_trace w"
  by (cases "next_fault w") (auto simp: sys_query_def dest!: next_fault_states split: option.splits)

lemma sys_query_result: "sys_query f w = (w', r) \<Longrightarrow> r = Inr None \<or> r = Inr (f (w_fs w))"
  by (cases "next_fault w") (auto simp: sys_query_def dest!: next_fault_states split: option.splits)

lemma write_all_Inr:
  "write_all p bytes w = (w', Inr u) \<Longrightarrow>
     \<exists>n. fs_files (w_fs w) p = Some n \<and> w_fs w' = put p (Some (n\<lparr>nd_bytes := bytes\<rparr>)) (w_fs w)"
  by (cases "next_fault w")
    (auto simp: write_all_def Let_def dest!: next_fault_states split: option.splits if_splits)

definition ready :: "path \<Rightarrow> string \<Rightarrow> nat \<Rightarrow> filesys \<Rightarrow> bool" where
  "ready p bytes mode fs \<longleftrightarrow> (\<exists>n. fs_files fs p = Some n \<and> nd_bytes n = bytes \<and> nd_mode n = mode)"

lemma update_node_Inr:
  "update_node p f w = (w', Inr u) \<Longrightarrow>
     \<exists>n. fs_files (w_fs w) p = Some n \<and> w_fs w' = put p (Some (f n)) (w_fs w)"
  unfolding update_node_def by (auto dest!: sys_call_Inr)

lemma write_file_mode_ready:
  assumes "write_file_mode pr p bytes mode w = (w', Inr u)"
  shows "ready p bytes mode (w_fs w')"
proof -
  obtain w1 w2 w3 where w: "set_permissions p mode w1 = (w2, Inr ())" "write_all p bytes w2 = (w3, Inr ())"
    "sync_all w3 = (w', Inr ())"
    using assms by (auto simp: write_file_mode_def io_bind_Inr)
  from w(3) have "w_fs w' = w_fs w3" unfolding sync_all_def by (auto dest: sys_call_Inr)
  moreover from update_node_Inr [OF w(1) [unfolded set_permissions_def]] write_all_Inr [OF w(2)]
  have "ready p bytes mode (w_fs w3)" by (auto simp: ready_def)
  ultimately show ?thesis by simp
qed

lemma keeps_ready_chown: "keeps (ready p b m) (chown p uid gid)"
  unfolding chown_def update_node_def by (rule keeps_sys_call) (auto simp: ready_def)

lemma keeps_ready_ownership: "keeps (ready tmp b m) (preserve_ownership_before_rename tmp t)"
  unfolding preserve_ownership_before_rename_def
  by (auto intro!: keeps_intros keeps_ready_chown split: option.splits)

lemma rename_cases:
  assumes "rename src dst w = (w', r)"
  obtains (failed) "r = Inl Io" "w_fs w' = w_fs w" "w_trace w' = w_trace w"
    | (renamed) n where "r = Inr ()" "fs_files (w_fs w) src = Some n"
      "w_fs w' = put dst (Some n) (put src None (w_fs w))" "w_trace w' = w_trace w @ [w_fs w']"
proof (cases r)
  case (Inl e)
  with assms have "sys_call (\<lambda>fs. case fs_files fs src of
      None \<Rightarrow> None | Some n \<Rightarrow> Some (put dst (Some n) (put src None fs))) w = (w', Inl e)"
    unfolding rename_def by simp
  from sys_call_Inl [OF this] Inl show thesis by (intro failed) simp_all
next
  case (Inr u)
  with assms have s: "sys_call (\<lambda>fs. case fs_files fs src of
      None \<Rightarrow> None | Some n \<Rightarrow> Some (put dst (Some n) (put src None fs))) w = (w', Inr u)"
    unfolding rename_def by simp
  from sys_call_Inr [OF this]
  have c: "(case fs_files (w_fs w) src of
        None \<Rightarrow> None | Some n \<Rightarrow> Some (put dst (Some n) (put src None (w_fs w)))) = Some (w_fs w')"
    "w_trace w' = w_trace w @ [w_fs w']"
    by simp_all
  show thesis
  proof (cases "fs_files (w_fs w) src")
    case (Some n)
    with c Inr show thesis by (intro renamed [of n]) simp_all
  qed (use c in simp)
qed

lemma io_bind_assoc: "io_bind (io_bind m f) g = io_bind m (\<lambda>x. io_bind (f x) g)"
  by (rule ext) (simp add: io_bind_def split: prod.splits sum.splits)

section \<open>The contract of a replacement\<close>

locale replacer =
  fixes replace :: "world \<Rightarrow> world \<times> (FsError + unit)"
    and target :: path
    and payload :: "node \<Rightarrow> bool"
  assumes all_or_nothing: "replace w = (w', r) \<Longrightarrow>
      extends (\<lambda>s. fs_files s target = fs_files (w_fs w) target
                 \<or> (\<exists>n. fs_files s target = Some n \<and> payload n)) w w'"
    and success: "replace w = (w', Inr u) \<Longrightarrow> \<exists>n. fs_files (w_fs w') target = Some n \<and> payload n"
    and failure: "replace w = (w', Inl e) \<Longrightarrow> fs_files (w_fs w') target = fs_files (w_fs w) target"
begin

lemma reader_never_torn:
  assumes "replace w = (w', r)" "w_trace w' = w_trace w @ ss" "s \<in> set ss"
  shows "view (fs_files s target) = view (fs_files (w_fs w) target)
    \<or> (\<exists>n. payload n \<and> view (fs_files s target) = view (Some n))"
proof -
  have "list_all (\<lambda>s. fs_files s target = fs_files (w_fs w) target
      \<or> (\<exists>n. fs_files s target = Some n \<and> payload n)) ss"
    using all_or_nothing [OF assms(1)] assms(2) by (auto simp: extends_def)
  with assms(3) have "fs_files s target = fs_files (w_fs w) target
      \<or> (\<exists>n. fs_files s target = Some n \<and> payload n)" by (simp add: list_all_iff)
  then show ?thesis by (elim disjE exE conjE) auto
qed

lemma outcome_decides:
  assumes "replace w = (w', r)"
  shows "if is_ok r then \<exists>n. fs_files (w_fs w') target = Some n \<and> payload n
    else fs_files (w_fs w') target = fs_files (w_fs w) target"
  using assms success [of w w'] failure [of w w'] by (cases r) simp_all

end

lemma replacer_by_rename:
  assumes prep: "\<And>old. keeps (file_is p old) prep"
    and ok: "\<And>w w'. prep w = (w', Inr ()) \<Longrightarrow> \<exists>n. fs_files (w_fs w') tmp = Some n \<and> payload n"
    and neq: "tmp \<noteq> p"
  shows "replacer (io_bind prep (\<lambda>_. rename tmp p)) p payload"
proof -
  have run: "extends (\<lambda>s. fs_files s p = fs_files (w_fs w) p \<or> (\<exists>n. fs_files s p = Some n \<and> payload n)) w w'
      \<and> (if is_ok r then \<exists>n. fs_files (w_fs w') p = Some n \<and> payload n
         else fs_files (w_fs w') p = fs_files (w_fs w) p)"
    if op: "io_bind prep (\<lambda>_. rename tmp p) w = (w', r)" for w w' r
  proof -
    let ?P = "\<lambda>s. fs_files s p = fs_files (w_fs w) p \<or> (\<exists>n. fs_files s p = Some n \<and> payload n)"
    obtain w1 r1 where w1: "prep w = (w1, r1)" by (cases "prep w")
    have e: "extends (file_is p (fs_files (w_fs w) p)) w w1"
      by (rule keepsD [OF prep w1]) (simp add: file_is_def)
    then have same: "fs_files (w_fs w1) p = fs_files (w_fs w) p" by (simp add: extends_def file_is_def)
    from e have e1: "extends ?P w w1" by (rule extends_mono) (simp add: file_is_def)
    show ?thesis
    proof (cases r1)
      case (Inl x)
      with op w1 e1 same show ?thesis by (auto simp: io_bind_def)
    next
      case (Inr u)
      with op w1 have rn: "rename tmp p w1 = (w', r)" by (simp add: io_bind_def)
      from rn show ?thesis
      proof (cases rule: rename_cases)
        case failed
        with e1 same show ?thesis by (simp add: extends_def)
      next
        case (renamed n)
        from ok [of w w1] w1 Inr renamed(2) have pay: "payload n" by auto
        from e1 obtain ss where ss: "w_trace w1 = w_trace w @ ss" "list_all ?P ss"
          unfolding extends_def by blast
        have "fs_files (w_fs w') p = Some n" using renamed(3) by simp
        with pay ss renamed(1,4) show ?thesis by (simp add: extends_def)
      qed
    qed
  qed
  show ?thesis
  proof (rule replacer.intro)
    show "extends (\<lambda>s. fs_files s p = fs_files (w_fs w) p \<or> (\<exists>n. fs_files s p = Some n \<and> payload n)) w w'"
      if "io_bind prep (\<lambda>_. rename tmp p) w = (w', r)" for w w' r
      by (rule conjunct1 [OF run [OF that]])
    show "\<exists>n. fs_files (w_fs w') p = Some n \<and> payload n"
      if "io_bind prep (\<lambda>_. rename tmp p) w = (w', Inr u)" for w w' and u :: unit
      using conjunct2 [OF run [OF that]] by (simp only: is_ok_simps if_True)
    show "fs_files (w_fs w') p = fs_files (w_fs w) p"
      if "io_bind prep (\<lambda>_. rename tmp p) w = (w', Inl e)" for w w' e
      using conjunct2 [OF run [OF that]] by (simp only: is_ok_simps if_False)
  qed
qed

lemma backup_neq_tmp [simp]: "config_backup_path p \<noteq> tmp_path pr p" "tmp_path pr p \<noteq> config_backup_path p"
  by (cases p; simp add: config_backup_path_def tmp_path_def)+

lemma keeps_ready_other:
  assumes "q \<noteq> p"
  shows "keeps (ready q b m) (set_permissions p mode)" "keeps (ready q b m) (copy_file pr src p)"
proof -
  have stay: "keeps (file_is q n) c \<Longrightarrow> extends (ready q b m) w (fst (c w))"
    if "fs_files (w_fs w) q = n" "ready q b m (w_fs w)" for n w and c :: "unit io"
    using that keepsD [of "file_is q n" c w] by (cases "c w") (auto simp: file_is_def ready_def intro: extends_mono)
  show "keeps (ready q b m) (set_permissions p mode)" "keeps (ready q b m) (copy_file pr src p)"
    using stay assms keeps_other_ops(1) keeps_copy_file by (metis keeps_def)+
qed

interpretation aw: replacer "atomic_write pr p bytes mode" p "\<lambda>n. nd_bytes n = bytes \<and> nd_mode n = mode"
  for pr p bytes mode
proof -
  define prep where "prep = io_bind (create_dir_all pr (fst p)) (\<lambda>_.
    io_bind (write_file_mode pr (tmp_path pr p) bytes mode) (\<lambda>_.
    preserve_ownership_before_rename (tmp_path pr p) p))"
  have "replacer (io_bind prep (\<lambda>_. rename (tmp_path pr p) p)) p (\<lambda>n. nd_bytes n = bytes \<and> nd_mode n = mode)"
  proof (rule replacer_by_rename)
    show "keeps (file_is p old) prep" for old
      unfolding prep_def by (auto intro!: keeps_intros)
    fix w w' assume "prep w = (w', Inr ())"
    then obtain w1 w2 where "write_file_mode pr (tmp_path pr p) bytes mode w1 = (w2, Inr ())"
      "preserve_ownership_before_rename (tmp_path pr p) p w2 = (w', Inr ())"
      unfolding prep_def by (auto simp: io_bind_Inr)
    then have "ready (tmp_path pr p) bytes mode (w_fs w')"
      using write_file_mode_ready keeps_now [OF keeps_ready_ownership] by blast
    then show "\<exists>n. fs_files (w_fs w') (tmp_path pr p) = Some n \<and> nd_bytes n = bytes \<and> nd_mode n = mode"
      by (simp add: ready_def)
  qed simp
  then show "replacer (atomic_write pr p bytes mode) p (\<lambda>n. nd_bytes n = bytes \<and> nd_mode n = mode)"
    by (simp add: atomic_write_def prep_def io_bind_assoc)
qed

lemma validate_file_Inr:
  assumes "validate_file check p w = (w', Inr u)" "ready p b m (w_fs w)"
  shows "check b = Inr ()"
  using assms
  by (auto simp: validate_file_def read_file_def io_bind_def io_ret_def io_fail_def sys_query_def ready_def
      split: prod.splits option.splits sum.splits dest!: next_fault_states)

interpretation cfg: replacer "apply_config_atomically ser check pr config p" p
    "\<lambda>n. nd_bytes n = ser config \<and> nd_mode n = 0x1A0 \<and> check (ser config) = Inr ()"
  for ser check pr config p
proof -
  let ?t = "tmp_path pr p" and ?b = "config_backup_path p"
  define prep where "prep = io_bind (create_dir_all pr (fst p)) (\<lambda>_.
    io_bind (write_file_mode pr ?t (ser config) 0x1A0) (\<lambda>_.
    io_bind (io_on_error (validate_file check ?t) (remove_file ?t)) (\<lambda>_.
    io_bind (exists_file p) (\<lambda>there.
    io_bind (if there then io_bind (copy_file pr p ?b) (\<lambda>_. set_permissions ?b 0x1A0) else io_ret ()) (\<lambda>_.
    preserve_ownership_before_rename ?t p)))))"
  let ?pay = "\<lambda>n. nd_bytes n = ser config \<and> nd_mode n = 0x1A0 \<and> check (ser config) = Inr ()"
  have "replacer (io_bind prep (\<lambda>_. rename ?t p)) p ?pay"
  proof (rule replacer_by_rename)
    show "keeps (file_is p old) prep" for old
      unfolding prep_def by (auto intro!: keeps_intros split: if_splits)
    fix w w' assume "prep w = (w', Inr ())"
    then obtain w1 w2 w3 w4 w5 there where
      w: "write_file_mode pr ?t (ser config) 0x1A0 w1 = (w2, Inr ())"
      "io_on_error (validate_file check ?t) (remove_file ?t) w2 = (w3, Inr ())"
      "exists_file p w3 = (w4, Inr there)"
      "(if there then io_bind (copy_file pr p ?b) (\<lambda>_. set_permissions ?b 0x1A0) else io_ret ()) w4
         = (w5, Inr ())"
      "preserve_ownership_before_rename ?t p w5 = (w', Inr ())"
      unfolding prep_def by (auto simp: io_bind_Inr)
    let ?R = "ready ?t (ser config) 0x1A0"
    have r2: "?R (w_fs w2)" by (rule write_file_mode_ready [OF w(1)])
    have v: "validate_file check ?t w2 = (w3, Inr ())"
      using w(2) by (auto simp: io_on_error_def split: prod.splits sum.splits)
    have "?R (w_fs w3)" using keeps_now [OF keeps_validate_file v, of ?R] r2 .
    then have "?R (w_fs w4)" using keeps_now [OF keeps_queries(2) w(3), of ?R] by blast
    moreover have "keeps ?R (if there then io_bind (copy_file pr p ?b) (\<lambda>_. set_permissions ?b 0x1A0) else io_ret ())"
      by (auto intro!: keeps_intros keeps_ready_other)
    ultimately have "?R (w_fs w5)" using w(4) keeps_now by blast
    then have "?R (w_fs w')" by (rule keeps_now [OF keeps_ready_ownership w(5)])
    with validate_file_Inr [OF v r2] show "\<exists>n. fs_files (w_fs w') ?t = Some n \<and> ?pay n"
      by (auto simp: ready_def)
  qed simp
  then show "replacer (apply_config_atomically ser check pr config p) p ?pay"
    by (simp add: apply_config_atomically_def prep_def io_bind_assoc)
qed

text \<open>The same contract for actions that do more than one replacement needs: a step that leaves
  the target alone may precede it, a pure result may follow it.\<close>

definition replaces :: "path \<Rightarrow> (node \<Rightarrow> bool) \<Rightarrow> 'a io \<Rightarrow> bool" where
  "replaces p pay m \<longleftrightarrow> (\<forall>w. extends (\<lambda>s. fs_files s p = fs_files (w_fs w) p
      \<or> (\<exists>n. fs_files s p = Some n \<and> pay n)) w (fst (m w)))"

lemma replaces_keeps: "(\<And>old. keeps (file_is p old) m) \<Longrightarrow> replaces p pay m"
  unfolding replaces_def
proof
  fix w :: world
  assume k: "\<And>old. keeps (file_is p old) m"
  have "extends (file_is p (fs_files (w_fs w) p)) w (fst (m w))"
    using k [of "fs_files (w_fs w) p"] unfolding keeps_def by (simp add: file_is_def)
  then show "extends (\<lambda>s. fs_files s p = fs_files (w_fs w) p \<or> (\<exists>n. fs_files s p = Some n \<and> pay n)) w (fst (m w))"
    by (rule extends_mono) (simp add: file_is_def)
qed

lemma replaces_bind:
  assumes "\<And>old. keeps (file_is p old) m" "\<And>x. replaces p pay (f x)"
  shows "replaces p pay (io_bind m f)"
  unfolding replaces_def
proof
  fix w :: world
  let ?P = "\<lambda>s. fs_files s p = fs_files (w_fs w) p \<or> (\<exists>n. fs_files s p = Some n \<and> pay n)"
  obtain w1 r where m: "m w = (w1, r)" by (cases "m w")
  have e: "extends (file_is p (fs_files (w_fs w) p)) w w1"
    by (rule keepsD [OF assms(1) m]) (simp add: file_is_def)
  then have same: "fs_files (w_fs w1) p = fs_files (w_fs w) p" by (simp add: extends_def file_is_def)
  from e have e1: "extends ?P w w1" by (rule extends_mono) (simp add: file_is_def)
  have "extends ?P w1 (fst (f x w1))" for x
    using assms(2) [of x, unfolded replaces_def, rule_format, of w1] unfolding same .
  with e1 show "extends ?P w (fst (io_bind m f w))"
    by (cases r) (auto simp: io_bind_def m intro: extends_trans)
qed

lemma replaces_then_ret: "replaces p pay m \<Longrightarrow> replaces p pay (io_bind m (\<lambda>_. io_ret y))"
proof -
  have "fst (io_bind m (\<lambda>_. io_ret y) w) = fst (m w)" for w
    by (simp add: io_bind_def io_ret_def split: prod.split sum.split)
  then show "replaces p pay m \<Longrightarrow> replaces p pay (io_bind m (\<lambda>_. io_ret y))"
    by (simp add: replaces_def)
qed

lemma replaces_mono:
  assumes "replaces p pay m" "\<And>n. pay n \<Longrightarrow> pay' n"
  shows "replaces p pay' m"
  unfolding replaces_def
proof
  fix w :: world
  from assms(1) have "extends (\<lambda>s. fs_files s p = fs_files (w_fs w) p \<or> (\<exists>n. fs_files s p = Some n \<and> pay n)) w (fst (m w))"
    by (simp add: replaces_def)
  then show "extends (\<lambda>s. fs_files s p = fs_files (w_fs w) p \<or> (\<exists>n. fs_files s p = Some n \<and> pay' n)) w (fst (m w))"
    by (rule extends_mono) (use assms(2) in blast)
qed

lemma replaces_atomic_write:
  "replaces p (\<lambda>n. nd_bytes n = bytes \<and> nd_mode n = mode) (atomic_write pr p bytes mode)"
  unfolding replaces_def by (intro allI aw.all_or_nothing [OF prod.collapse [symmetric]])

lemma keeps_backup [keeps_intros]: "keeps (file_is p n) (backup_before_mutate pr ts p)"
  unfolding backup_before_mutate_def by (auto intro!: keeps_intros)

lemma backup_path_neq_tmp [simp]: "backup_path ts p \<noteq> tmp_path pr p" "tmp_path pr p \<noteq> backup_path ts p"
  by (cases p; simp add: backup_path_def tmp_path_def)+

lemma keeps_atomic_write [keeps_intros]:
  assumes "q \<noteq> p" "q \<noteq> tmp_path pr p"
  shows "keeps (file_is q n) (atomic_write pr p bytes mode)"
proof -
  have "keeps (file_is q n) (rename (tmp_path pr p) p)"
    unfolding rename_def using assms by (auto intro!: keeps_sys_call simp: file_is_def split: option.splits)
  with assms show ?thesis unfolding atomic_write_def by (auto intro!: keeps_intros)
qed

lemma exists_file_result:
  assumes "exists_file p w = (w', r)"
  shows "w_fs w' = w_fs w" "\<exists>there. r = Inr there"
proof -
  obtain w1 m where q: "metadata p w = (w1, m)" by (cases "metadata p w")
  have "w_fs w1 = w_fs w" "\<exists>x. m = Inr x"
    using sys_query_Inr [OF q [unfolded metadata_def]] sys_query_result [OF q [unfolded metadata_def]] by auto
  with assms q show "w_fs w' = w_fs w" "\<exists>there. r = Inr there"
    by (auto simp: exists_file_def io_bind_def io_ret_def)
qed

lemma read_file_Inr:
  "read_file p w = (w', Inr b) \<Longrightarrow>
     w_fs w' = w_fs w \<and> (\<exists>n. fs_files (w_fs w) p = Some n \<and> nd_bytes n = b)"
  by (auto simp: read_file_def io_bind_Inr io_ret_def io_fail_def sys_query_def
      split: option.splits prod.splits dest!: next_fault_states)

lemma backup_Inr:
  assumes "backup_before_mutate pr ts p w = (w', Inr b)"
  shows "b = backup_path ts p" "\<exists>old. fs_files (w_fs w) p = Some old \<and> ready b (nd_bytes old) 0x180 (w_fs w')"
  using assms
  by (auto simp: backup_before_mutate_def io_bind_Inr io_ret_def dest!: read_file_Inr write_file_mode_ready)

text \<open>A backup followed by an atomic replacement, as every migration ends.\<close>

lemma backup_then_write:
  assumes "io_bind (backup_before_mutate pr ts p) (\<lambda>b. io_bind (atomic_write pr p bytes mode) (\<lambda>_. io_ret (f b))) w
      = (w', r)"
  shows "(\<exists>old n. r = Inr (f (backup_path ts p)) \<and> fs_files (w_fs w) p = Some old
        \<and> fs_files (w_fs w') p = Some n \<and> nd_bytes n = bytes \<and> nd_mode n = mode
        \<and> ready (backup_path ts p) (nd_bytes old) 0x180 (w_fs w'))
    \<or> (\<exists>e. r = Inl e \<and> fs_files (w_fs w') p = fs_files (w_fs w) p)"
proof -
  obtain w1 r1 where b: "backup_before_mutate pr ts p w = (w1, r1)"
    by (cases "backup_before_mutate pr ts p w")
  have same: "fs_files (w_fs w1) p = fs_files (w_fs w) p"
    using keeps_now [OF keeps_backup b, of "fs_files (w_fs w) p"] by (simp add: file_is_def)
  show ?thesis
  proof (cases r1)
    case (Inl e)
    with b same assms show ?thesis by (auto simp: io_bind_def)
  next
    case (Inr bp)
    note bk = backup_Inr [OF b [unfolded Inr]]
    obtain w2 r2 where a: "atomic_write pr p bytes mode w1 = (w2, r2)" by (cases "atomic_write pr p bytes mode w1")
    have run: "(w', r) = (w2, case r2 of Inl e \<Rightarrow> Inl e | Inr _ \<Rightarrow> Inr (f bp))"
      using assms b Inr a by (simp add: io_bind_def io_ret_def split: sum.splits)
    show ?thesis
    proof (cases r2)
      case (Inl e)
      with run aw.failure [of pr p bytes mode w1 w2 e] a same show ?thesis by simp
    next
      case (Inr u)
      obtain old where old: "fs_files (w_fs w) p = Some old" "ready bp (nd_bytes old) 0x180 (w_fs w1)"
        using bk(2) by blast
      then obtain bn where bn: "fs_files (w_fs w1) bp = Some bn" "nd_bytes bn = nd_bytes old" "nd_mode bn = 0x180"
        by (auto simp: ready_def)
      have "keeps (file_is bp (Some bn)) (atomic_write pr p bytes mode)"
        unfolding bk(1) by (rule keeps_atomic_write) simp_all
      from keeps_now [OF this a] bn have "ready bp (nd_bytes old) 0x180 (w_fs w2)"
        by (simp add: file_is_def ready_def)
      with run Inr old aw.success [of pr p bytes mode w1 w2 u] a bk(1) show ?thesis by auto
    qed
  qed
qed

lemma replaces_backup_then_write:
  "replaces p (\<lambda>n. nd_bytes n = bytes \<and> nd_mode n = mode)
     (io_bind (backup_before_mutate pr ts p) (\<lambda>b. io_bind (atomic_write pr p bytes mode) (\<lambda>_. io_ret (f b))))"
  by (intro replaces_bind [OF keeps_backup] replaces_then_ret replaces_atomic_write)

text \<open>Runs in which no system call fails.\<close>

lemma no_fault: "w_script w = [] \<Longrightarrow> next_fault w = (None, w)"
  by (simp add: next_fault_def)

lemma no_fault_calls:
  assumes "w_script w = []"
  shows "sys_call f w = (case f (w_fs w) of None \<Rightarrow> (w, Inl Io) | Some fs \<Rightarrow> (commit fs w, Inr ()))"
    "sys_query g w = (w, Inr (g (w_fs w)))"
  by (simp_all add: sys_call_def sys_query_def no_fault [OF assms])

lemma run_write_file_mode:
  assumes "w_script w = []" "fs_dirs (w_fs w) (fst p) \<noteq> None"
  obtains w' n where "write_file_mode pr p bytes mode w = (w', Inr ())" "w_script w' = []"
    "w_fs w' = put p (Some n) (w_fs w)" "nd_bytes n = bytes" "nd_mode n = mode"
proof -
  obtain g where g: "fs_dirs (w_fs w) (fst p) = Some g" using assms(2) by auto
  define n0 where "n0 = (case fs_files (w_fs w) p of
      Some n \<Rightarrow> n\<lparr>nd_bytes := []\<rparr>
    | None \<Rightarrow> \<lparr>nd_bytes = [], nd_mode = mode - (mode AND pr_umask pr), nd_uid = pr_uid pr, nd_gid = pr_gid pr\<rparr>)"
  define w1 where "w1 = commit (put p (Some n0) (w_fs w)) w"
  define w2 where "w2 = commit (put p (Some (n0\<lparr>nd_mode := mode\<rparr>)) (w_fs w1)) w1"
  have 1: "open_truncate pr mode p w = (w1, Inr ())"
    using assms(1) g by (simp add: open_truncate_def no_fault_calls w1_def n0_def)
  have 2: "set_permissions p mode w1 = (w2, Inr ())" "w_script w2 = []"
    using assms(1) by (simp_all add: set_permissions_def update_node_def no_fault_calls w1_def w2_def)
  obtain w3 where 3: "write_all p bytes w2 = (w3, Inr ())" "w_script w3 = []"
    "w_fs w3 = put p (Some (n0\<lparr>nd_mode := mode, nd_bytes := bytes\<rparr>)) (w_fs w2)"
    using 2(2) by (simp add: write_all_def no_fault w2_def Let_def)
  have 4: "sync_all w3 = (commit (w_fs w3) w3, Inr ())"
    using 3(2) by (simp add: sync_all_def no_fault_calls)
  show thesis
  proof (rule that)
    show "write_file_mode pr p bytes mode w = (commit (w_fs w3) w3, Inr ())"
      using 1 2(1) 3(1) 4 by (simp add: write_file_mode_def io_bind_def)
    show "w_fs (commit (w_fs w3) w3) = put p (Some (n0\<lparr>nd_mode := mode, nd_bytes := bytes\<rparr>)) (w_fs w)"
      by (simp add: 3(3) w2_def w1_def put_def)
  qed (simp_all add: 3(2))
qed

lemma run_preserve_ownership:
  assumes "w_script w = []" "fs_files (w_fs w) t = Some n" "fs_files (w_fs w) p = Some old"
  shows "preserve_ownership_before_rename t p w
    = (commit (put t (Some (n\<lparr>nd_uid := nd_uid old, nd_gid := nd_gid old\<rparr>)) (w_fs w)) w, Inr ())"
  using assms
  by (simp add: preserve_ownership_before_rename_def io_bind_def metadata_def chown_def update_node_def
      no_fault_calls)

section \<open>Properties\<close>

text \<open>Applying a configuration never installs one that the core has not accepted and never
  leaves a torn file: in every state the file system goes through, whatever call fails, the live
  configuration is the previous file or the complete new document with mode 0640 which the check
  accepted. It is the new one if and only if the call reports success, and when the check
  rejects the document the call fails and every state has the previous file.\<close>

theorem apply_config_checked_and_whole:
  assumes "apply_config_atomically ser check pr config p w = (w', r)"
  shows "(\<exists>ss. w_trace w' = w_trace w @ ss \<and> (\<forall>s\<in>set ss.
      fs_files s p = fs_files (w_fs w) p
      \<or> check (ser config) = Inr ()
        \<and> (\<exists>n. fs_files s p = Some n \<and> nd_bytes n = ser config \<and> nd_mode n = 0x1A0)))
    \<and> (if is_ok r
       then check (ser config) = Inr ()
         \<and> (\<exists>n. fs_files (w_fs w') p = Some n \<and> nd_bytes n = ser config \<and> nd_mode n = 0x1A0)
       else fs_files (w_fs w') p = fs_files (w_fs w) p)
    \<and> (check (ser config) \<noteq> Inr () \<longrightarrow>
        \<not> is_ok r \<and> (\<exists>ss. w_trace w' = w_trace w @ ss \<and> (\<forall>s\<in>set ss. fs_files s p = fs_files (w_fs w) p)))"
proof -
  obtain ss where ss: "w_trace w' = w_trace w @ ss"
    "list_all (\<lambda>s. fs_files s p = fs_files (w_fs w) p
       \<or> (\<exists>n. fs_files s p = Some n \<and> nd_bytes n = ser config \<and> nd_mode n = 0x1A0 \<and> check (ser config) = Inr ())) ss"
    using cfg.all_or_nothing [OF assms] unfolding extends_def by blast
  note out = cfg.outcome_decides [OF assms]
  show ?thesis
  proof (intro conjI)
    show "\<exists>ss. w_trace w' = w_trace w @ ss \<and> (\<forall>s\<in>set ss. fs_files s p = fs_files (w_fs w) p
      \<or> check (ser config) = Inr ()
        \<and> (\<exists>n. fs_files s p = Some n \<and> nd_bytes n = ser config \<and> nd_mode n = 0x1A0))"
      using ss by (auto simp: list_all_iff)
    show "if is_ok r
       then check (ser config) = Inr ()
         \<and> (\<exists>n. fs_files (w_fs w') p = Some n \<and> nd_bytes n = ser config \<and> nd_mode n = 0x1A0)
       else fs_files (w_fs w') p = fs_files (w_fs w) p"
      using out by auto
    show "check (ser config) \<noteq> Inr () \<longrightarrow>
        \<not> is_ok r \<and> (\<exists>ss. w_trace w' = w_trace w @ ss \<and> (\<forall>s\<in>set ss. fs_files s p = fs_files (w_fs w) p))"
      using out ss by (auto simp: list_all_iff)
  qed
qed

definition example_proc :: process where
  "example_proc = \<lparr>pr_uid = 0, pr_gid = 0, pr_umask = 0x3F, pr_pid = 7\<rparr>"

definition example_path :: path where
  "example_path = (''/etc/vpn'', ''config.json'')"

definition example_node :: node where
  "example_node = \<lparr>nd_bytes = ''old'', nd_mode = 0x1A0, nd_uid = 0, nd_gid = 990\<rparr>"

definition example_world :: world where
  "example_world =
     \<lparr>w_fs = \<lparr>fs_files = [example_path \<mapsto> example_node], fs_dirs = [''/etc/vpn'' \<mapsto> 990]\<rparr>,
      w_script = [], w_trace = []\<rparr>"

theorem apply_config_checked_and_whole_witness:
  "\<not> is_ok (snd (apply_config_atomically (\<lambda>_. ''new'') (\<lambda>_. Inl (Rejected ''bad'')) example_proc JNull
       example_path example_world))
   \<and> fs_files (w_fs (fst (apply_config_atomically (\<lambda>_. ''new'') (\<lambda>_. Inl (Rejected ''bad'')) example_proc
       JNull example_path example_world))) example_path = Some example_node"
proof -
  have "fs_files (w_fs example_world) example_path = Some example_node"
    by (simp add: example_world_def)
  then show ?thesis
    using apply_config_checked_and_whole [of "\<lambda>_. ''new''" "\<lambda>_. Inl (Rejected ''bad'')" example_proc JNull
        example_path example_world, OF prod.collapse [symmetric]]
    by (simp split: if_splits)
qed

text \<open>When no call fails, replacing an existing file succeeds: the target then has exactly the
  new contents and mode and the owner and group of the file it replaces, the temporary file is
  gone, and no other file has changed.\<close>

theorem atomic_write_succeeds:
  assumes "w_script w = []" "fs_dirs (w_fs w) (fst p) \<noteq> None" "fs_files (w_fs w) p = Some old"
  shows "\<exists>w'. atomic_write pr p bytes mode w = (w', Inr ())
    \<and> fs_files (w_fs w') p = Some \<lparr>nd_bytes = bytes, nd_mode = mode, nd_uid = nd_uid old, nd_gid = nd_gid old\<rparr>
    \<and> fs_files (w_fs w') (tmp_path pr p) = None
    \<and> (\<forall>q. q \<noteq> p \<and> q \<noteq> tmp_path pr p \<longrightarrow> fs_files (w_fs w') q = fs_files (w_fs w) q)"
proof -
  let ?t = "tmp_path pr p"
  have d: "create_dir_all pr (fst p) w = (commit (w_fs w) w, Inr ())"
    using assms(1,2) by (auto simp: create_dir_all_def no_fault_calls)
  obtain w1 n where w1: "write_file_mode pr ?t bytes mode (commit (w_fs w) w) = (w1, Inr ())"
    "w_script w1 = []" "w_fs w1 = put ?t (Some n) (w_fs w)" "nd_bytes n = bytes" "nd_mode n = mode"
    using run_write_file_mode [of "commit (w_fs w) w" ?t pr bytes mode] assms(1,2)
    by (auto simp: tmp_path_def)
  define fs2 where "fs2 = put ?t (Some (n\<lparr>nd_uid := nd_uid old, nd_gid := nd_gid old\<rparr>)) (w_fs w1)"
  have pr: "preserve_ownership_before_rename ?t p w1 = (commit fs2 w1, Inr ())"
    unfolding fs2_def by (rule run_preserve_ownership) (use w1 assms(3) in simp_all)
  define fs3 where "fs3 = put p (Some (n\<lparr>nd_uid := nd_uid old, nd_gid := nd_gid old\<rparr>)) (put ?t None fs2)"
  have rn: "rename ?t p (commit fs2 w1) = (commit fs3 (commit fs2 w1), Inr ())"
    using w1(2) by (simp add: rename_def no_fault_calls fs3_def fs2_def)
  have "atomic_write pr p bytes mode w = (commit fs3 (commit fs2 w1), Inr ())"
    by (simp add: atomic_write_def io_bind_def d w1(1) pr rn)
  moreover have "n\<lparr>nd_uid := nd_uid old, nd_gid := nd_gid old\<rparr>
      = \<lparr>nd_bytes = bytes, nd_mode = mode, nd_uid = nd_uid old, nd_gid = nd_gid old\<rparr>"
    using w1(4,5) by (cases n) simp
  ultimately show ?thesis by (auto simp: fs3_def fs2_def w1(3))
qed

theorem atomic_write_succeeds_witness:
  "\<exists>w'. atomic_write example_proc example_path ''new'' 0x1A0 example_world = (w', Inr ())
     \<and> fs_files (w_fs w') example_path
       = Some \<lparr>nd_bytes = ''new'', nd_mode = 0x1A0, nd_uid = 0, nd_gid = 990\<rparr>"
proof -
  have "w_script example_world = []" "fs_dirs (w_fs example_world) (fst example_path) \<noteq> None"
    "fs_files (w_fs example_world) example_path = Some example_node"
    by (simp_all add: example_world_def example_path_def)
  from atomic_write_succeeds [OF this, of example_proc "''new''" "0x1A0"] show ?thesis
    by (auto simp: example_node_def)
qed

end
