(* ===== verification/DeploymentFile.thy ===== *)
theory DeploymentFile
  imports Deployment FileStore
begin

text \<open>
  Changes to \<open>deployment.toml\<close> itself (\<open>deployment.rs\<close>): the textual migration to the current
  schema version, the patches of single sections, and how both reach the disk.  The TOML reader
  is the parameter \<open>toml\<close>.  Refusals of the validation are reported as \<open>Rejected\<close>; files that
  do not parse or that a patch would change elsewhere are \<open>Unparsable\<close>.
\<close>

section \<open>Migration of the file text\<close>

definition top_level_key :: "string \<Rightarrow> string option" where
  "top_level_key line =
     (let trimmed = trim_start line in
      if starts_with ''#'' trimmed \<or> starts_with ''['' trimmed then None
      else map_option (\<lambda>(key, _). trim key) (split_once (CHR ''='') trimmed))"

definition is_header :: "string \<Rightarrow> bool" where
  "is_header line \<longleftrightarrow> starts_with ''['' (trim_start line)"

definition top_level :: "string list \<Rightarrow> string list" where
  "top_level ls = takeWhile (\<lambda>l. \<not> is_header l) ls"

fun value_of :: "string list \<Rightarrow> string \<Rightarrow> string option" where
  "value_of [] wanted = None"
| "value_of (l # ls) wanted =
     (case (if top_level_key l = Some wanted
            then map_option (\<lambda>(_, value). trim value) (split_once (CHR ''='') l) else None) of
        Some v \<Rightarrow> Some v
      | None \<Rightarrow> value_of ls wanted)"

text \<open>\<open>{:?}\<close> of an identifier made of letters, digits, dashes and underscores.\<close>

definition debug_plain :: "string \<Rightarrow> string" where
  "debug_plain s = CHR 0x22 # s @ [CHR 0x22]"

definition LF :: string where "LF = [CHR 0x0A]"

definition identity_lines :: "string list \<Rightarrow> string" where
  "identity_lines tops =
     (let host = (case value_of tops ''public_host'' of
                    None \<Rightarrow> [] | Some v \<Rightarrow> trim_matches (\<lambda>c. c = CHR 0x22) v) in
      (if value_of tops ''node_id'' = None
       then ''node_id = '' @ debug_plain (default_node_id_for_host host) @ LF else [])
      @ (if value_of tops ''role'' = None then ''role = '' @ debug_plain ''exit'' @ LF else []))"

fun migrate_loop :: "string \<Rightarrow> bool \<Rightarrow> bool \<Rightarrow> string list \<Rightarrow> string \<times> bool" where
  "migrate_loop header in_top wrote [] = ([], wrote)"
| "migrate_loop header in_top wrote (l # ls) =
     (let in_top = (in_top \<and> \<not> is_header l) in
      if in_top \<and> top_level_key l = Some ''schema_version'' then
        (let (body, w) = migrate_loop header in_top True ls
         in (if wrote then body else header @ body, w))
      else
        (let (body, w) = migrate_loop header in_top wrote ls in (l @ LF @ body, w)))"

definition migrate_deployment_toml_text :: "string \<Rightarrow> string option" where
  "migrate_deployment_toml_text original =
     (let tops = top_level (str_lines original);
          explicit_version = Option.bind (value_of tops ''schema_version'') parse_u32
      in if explicit_version = Some DEPLOYMENT_SCHEMA_VERSION \<and> value_of tops ''node_id'' \<noteq> None
            \<and> value_of tops ''role'' \<noteq> None then None
         else
           (let header = ''schema_version = '' @ show_nat DEPLOYMENT_SCHEMA_VERSION @ LF @ identity_lines tops;
                (body, wrote) = migrate_loop header True False (str_lines original)
            in Some (if wrote then body else header @ body)))"

section \<open>Changing the file\<close>

definition join_lines :: "string list \<Rightarrow> string" where
  "join_lines ls = concat (case ls of [] \<Rightarrow> [] | l # ls' \<Rightarrow> l # map (\<lambda>x. LF @ x) ls')"

definition section_line_range :: "string list \<Rightarrow> string \<Rightarrow> (nat \<times> nat) option" where
  "section_line_range ls header =
     (let start = length (takeWhile (\<lambda>l. trim_end l \<noteq> header) ls) in
      if start = length ls then None
      else Some (start, start + 1 + length (takeWhile (\<lambda>l. \<not> is_header l) (drop (start + 1) ls))))"

definition without_section :: "string list \<Rightarrow> string \<Rightarrow> string list" where
  "without_section ls header =
     (case section_line_range ls header of
        Some (start, stop) \<Rightarrow> take start ls @ drop stop ls
      | None \<Rightarrow> ls)"

definition pop_blank :: "string list \<Rightarrow> string list" where
  "pop_blank ls = trim_end_by (\<lambda>l. trim l = []) ls"

definition parse_checked ::
    "(string \<Rightarrow> DeploymentConfig option) \<Rightarrow> (string \<Rightarrow> 8 word list option) \<Rightarrow> string
       \<Rightarrow> FsError + DeploymentConfig" where
  "parse_checked toml b64 s =
     (case toml s of
        None \<Rightarrow> Inl Unparsable
      | Some cfg \<Rightarrow>
          (case validate_deployment b64 cfg of
             Inl _ \<Rightarrow> Inl (Rejected ''deployment'')
           | Inr _ \<Rightarrow> Inr cfg))"

definition io_of :: "FsError + 'a \<Rightarrow> 'a io" where
  "io_of r w = (w, r)"

definition load_deployment ::
    "(string \<Rightarrow> DeploymentConfig option) \<Rightarrow> (string \<Rightarrow> 8 word list option) \<Rightarrow> path \<Rightarrow> DeploymentConfig io" where
  "load_deployment toml b64 p = io_bind (read_file p) (\<lambda>s. io_of (parse_checked toml b64 s))"

text \<open>The serialized forms of two configurations agree after the keys that may change are removed
  exactly when the configurations agree in every other field.\<close>

definition same_but_identity :: "DeploymentConfig \<Rightarrow> DeploymentConfig \<Rightarrow> bool" where
  "same_but_identity old new \<longleftrightarrow>
     (let norm = (\<lambda>c. c\<lparr>dc_schema_version := 0,
                       dc_node_id := (if dc_node_id old = [] then [] else dc_node_id c)\<rparr>)
      in norm old = norm new)"

definition migrated_config ::
    "(string \<Rightarrow> DeploymentConfig option) \<Rightarrow> (string \<Rightarrow> 8 word list option) \<Rightarrow> DeploymentConfig \<Rightarrow> string
       \<Rightarrow> FsError + DeploymentConfig" where
  "migrated_config toml b64 old patched =
     rbind (parse_checked toml b64 patched) (\<lambda>new.
     rbind (ensure (dc_schema_version new = DEPLOYMENT_SCHEMA_VERSION) Unparsable) (\<lambda>_.
     rbind (ensure (dc_role new = dc_role old) Unparsable) (\<lambda>_.
     rbind (ensure (same_but_identity old new) Unparsable) (\<lambda>_. Inr new))))"

datatype DeploymentMigrationOutcome = DMissing | DAlreadyCurrent | DMigrated path

definition migrate_deployment_toml ::
    "(string \<Rightarrow> DeploymentConfig option) \<Rightarrow> (string \<Rightarrow> 8 word list option) \<Rightarrow> process \<Rightarrow> nat \<Rightarrow> path
       \<Rightarrow> DeploymentMigrationOutcome io" where
  "migrate_deployment_toml toml b64 pr ts p =
     io_bind (exists_file p) (\<lambda>there.
       if \<not> there then io_ret DMissing
       else io_bind (read_file p) (\<lambda>original.
            io_bind (io_of (parse_checked toml b64 original)) (\<lambda>old.
            case migrate_deployment_toml_text original of
              None \<Rightarrow> io_ret DAlreadyCurrent
            | Some patched \<Rightarrow>
                io_bind (io_of (migrated_config toml b64 old patched)) (\<lambda>_.
                io_bind (backup_before_mutate pr ts p) (\<lambda>backup.
                io_bind (atomic_write pr p patched 0x1A4) (\<lambda>_.
                io_ret (DMigrated backup)))))))"

text \<open>The mode of the live file, for patches that keep it.\<close>

definition file_mode :: "path \<Rightarrow> nat io" where
  "file_mode p =
     io_bind (sys_query (\<lambda>fs. map_option nd_mode (fs_files fs p))) (\<lambda>m. case m of
       None \<Rightarrow> io_fail Io
     | Some mode \<Rightarrow> io_ret (mode mod 512))"

definition exit_egress_text :: "string \<Rightarrow> Ipv6LiteralPolicy option \<Rightarrow> string" where
  "exit_egress_text original policy =
     join_lines (pop_blank (without_section (str_lines original) ''[egress]'')
       @ (case policy of
            None \<Rightarrow> []
          | Some q \<Rightarrow> [LF @ ''[egress]'' @ LF @ ''ipv6_literal = '' @ debug_plain (ipv6_policy_str q)])) @ LF"

definition apply_exit_egress_toml ::
    "(string \<Rightarrow> DeploymentConfig option) \<Rightarrow> (string \<Rightarrow> 8 word list option) \<Rightarrow> process \<Rightarrow> nat \<Rightarrow> path
       \<Rightarrow> Ipv6LiteralPolicy option \<Rightarrow> path io" where
  "apply_exit_egress_toml toml b64 pr ts p policy =
     io_bind (read_file p) (\<lambda>original.
     io_bind (io_of (parse_checked toml b64 original)) (\<lambda>old.
     if dc_role old \<noteq> Exit then io_fail Unparsable
     else let patched = exit_egress_text original policy in
       io_bind (io_of (parse_checked toml b64 patched)) (\<lambda>new.
       if old\<lparr>dc_egress := None\<rparr> \<noteq> new\<lparr>dc_egress := None\<rparr> then io_fail Unparsable
       else io_bind (backup_before_mutate pr ts p) (\<lambda>backup.
            io_bind (file_mode p) (\<lambda>mode.
            io_bind (atomic_write pr p patched mode) (\<lambda>_. io_ret backup))))))"

definition tls_spoof_text :: "string \<Rightarrow> TlsSpoofSection option \<Rightarrow> string" where
  "tls_spoof_text original spoof =
     join_lines (pop_blank (without_section (str_lines original) ''[google_egress_tls_spoof]'')
       @ (case spoof of
            None \<Rightarrow> []
          | Some q \<Rightarrow> [LF @ ''[google_egress_tls_spoof]'' @ LF @ ''sni = '' @ debug_plain (ts_sni q)
                       @ LF @ ''method = '' @ debug_plain (spoof_method_str (ts_method q))])) @ LF"

definition apply_tls_spoof_toml ::
    "(string \<Rightarrow> DeploymentConfig option) \<Rightarrow> (string \<Rightarrow> 8 word list option) \<Rightarrow> process \<Rightarrow> nat \<Rightarrow> path
       \<Rightarrow> TlsSpoofSection option \<Rightarrow> path io" where
  "apply_tls_spoof_toml toml b64 pr ts p spoof =
     io_bind (read_file p) (\<lambda>original.
     io_bind (io_of (parse_checked toml b64 original)) (\<lambda>old.
     io_bind (io_of (case spoof of
                       None \<Rightarrow> Inr ()
                     | Some q \<Rightarrow> map_err (\<lambda>_. Unparsable) (validate_tls_spoof q))) (\<lambda>_.
     let patched = tls_spoof_text original spoof in
     io_bind (io_of (parse_checked toml b64 patched)) (\<lambda>new.
     if old\<lparr>dc_google_egress_tls_spoof := None\<rparr> \<noteq> new\<lparr>dc_google_egress_tls_spoof := None\<rparr> then io_fail Unparsable
     else io_bind (backup_before_mutate pr ts p) (\<lambda>backup.
          io_bind (file_mode p) (\<lambda>mode.
          io_bind (atomic_write pr p patched mode) (\<lambda>_. io_ret backup)))))))"

section \<open>Lemmas on the migrated text\<close>

definition unlines :: "string list \<Rightarrow> string" where
  "unlines ls = concat (map (\<lambda>l. l @ LF) ls)"

definition clean_line :: "string \<Rightarrow> bool" where
  "clean_line l \<longleftrightarrow> CHR 0x0A \<notin> set l \<and> CHR 0x0D \<notin> set l"

lemma unlines_simps [simp]: "unlines [] = []" "unlines (l # ls) = l @ LF @ unlines ls"
  "unlines (xs @ ys) = unlines xs @ unlines ys"
  by (simp_all add: unlines_def)

lemma str_lines_line: "clean_line l \<Longrightarrow> str_lines (l @ LF @ s) = l # str_lines s"
proof (induction l)
  case Nil
  then show ?case by (cases s) (simp_all add: LF_def)
next
  case (Cons c l)
  then have ih: "str_lines (l @ LF @ s) = l # str_lines s" by (simp add: clean_line_def)
  have c: "c \<noteq> CHR 0x0A" "c \<noteq> CHR 0x0D" using Cons.prems by (auto simp: clean_line_def)
  obtain x xs where x: "l @ LF @ s = x # xs" by (cases "l @ LF @ s") (auto simp: LF_def)
  show ?case using ih c by (simp add: x)
qed

lemma str_lines_unlines: "list_all clean_line ls \<Longrightarrow> str_lines (unlines ls @ s) = ls @ str_lines s"
  by (induction ls) (simp_all add: str_lines_line)

lemma str_lines_clean: "CHR 0x0D \<notin> set s \<Longrightarrow> list_all clean_line (str_lines s)"
  by (induction s rule: str_lines.induct) (auto simp: clean_line_def split: list.splits)

lemma value_of_append:
  "value_of (xs @ ys) k = (case value_of xs k of Some v \<Rightarrow> Some v | None \<Rightarrow> value_of ys k)"
  by (induction xs) (auto split: option.splits)

lemma value_of_filter:
  "k \<noteq> k' \<Longrightarrow> value_of (filter (\<lambda>l. top_level_key l \<noteq> Some k') ls) k = value_of ls k"
  by (induction ls) (auto split: option.splits)

lemma value_of_absent: "\<forall>l\<in>set ls. top_level_key l \<noteq> Some k \<Longrightarrow> value_of ls k = None"
  by (induction ls) auto

lemma value_of_other: "top_level_key l = Some k' \<Longrightarrow> k \<noteq> k' \<Longrightarrow> value_of (l # ls) k = value_of ls k"
  by simp

text \<open>What the loop does to the lines: the first top-level version line becomes the header and
  the others disappear, the rest is kept.\<close>

definition is_version_line :: "string \<Rightarrow> bool" where
  "is_version_line l \<longleftrightarrow> top_level_key l = Some ''schema_version''"

lemma migrate_loop_tables: "migrate_loop h False w ls = (unlines ls, w)"
  by (induction ls) simp_all

lemma migrate_loop_wrote:
  "migrate_loop h True True ls =
     (unlines (filter (\<lambda>l. \<not> is_version_line l) (top_level ls) @ dropWhile (\<lambda>l. \<not> is_header l) ls), True)"
  by (induction ls)
    (auto simp: top_level_def is_version_line_def migrate_loop_tables is_header_def top_level_key_def)

lemma top_level_rest: "top_level ls @ dropWhile (\<lambda>l. \<not> is_header l) ls = ls"
  by (simp add: top_level_def)

lemma migrate_loop_unwritten:
  "migrate_loop h True False ls =
     (let t = top_level ls; rest = dropWhile (\<lambda>l. \<not> is_header l) ls in
      if list_ex is_version_line t
      then (unlines (takeWhile (\<lambda>l. \<not> is_version_line l) t) @ h
              @ unlines (filter (\<lambda>l. \<not> is_version_line l) (dropWhile (\<lambda>l. \<not> is_version_line l) t) @ rest),
            True)
      else (unlines ls, False))"
proof (induction ls)
  case Nil
  then show ?case by (simp add: top_level_def)
next
  case (Cons l ls)
  consider "is_header l" | "\<not> is_header l" "is_version_line l" | "\<not> is_header l" "\<not> is_version_line l" by blast
  then show ?case
  proof cases
    case 1
    then show ?thesis by (simp add: top_level_def migrate_loop_tables)
  next
    case 2
    then show ?thesis by (simp add: top_level_def is_version_line_def migrate_loop_wrote)
  next
    case 3
    then show ?thesis using Cons.IH by (auto simp: top_level_def is_version_line_def Let_def)
  qed
qed

definition migrated_lines :: "string list \<Rightarrow> string list \<Rightarrow> string list" where
  "migrated_lines hl ls =
     (let t = top_level ls; rest = dropWhile (\<lambda>l. \<not> is_header l) ls in
      if list_ex is_version_line t
      then takeWhile (\<lambda>l. \<not> is_version_line l) t @ hl
             @ filter (\<lambda>l. \<not> is_version_line l) (dropWhile (\<lambda>l. \<not> is_version_line l) t) @ rest
      else hl @ ls)"

definition header_lines :: "string list \<Rightarrow> string list" where
  "header_lines tops =
     ''schema_version = 2''
     # (let host = (case value_of tops ''public_host'' of
                      None \<Rightarrow> [] | Some v \<Rightarrow> trim_matches (\<lambda>c. c = CHR 0x22) v) in
        (if value_of tops ''node_id'' = None
         then [''node_id = '' @ debug_plain (default_node_id_for_host host)] else [])
        @ (if value_of tops ''role'' = None then [''role = '' @ debug_plain ''exit''] else []))"

lemma show_nat_2: "show_nat 2 = ''2''"
  by code_simp

lemma unlines_header_lines:
  "unlines (header_lines tops) =
     ''schema_version = '' @ show_nat DEPLOYMENT_SCHEMA_VERSION @ LF @ identity_lines tops"
  by (simp add: header_lines_def identity_lines_def Let_def DEPLOYMENT_SCHEMA_VERSION_def show_nat_2)

lemma migrate_text_lines:
  assumes "migrate_deployment_toml_text original = Some text"
  shows "text = unlines (migrated_lines (header_lines (top_level (str_lines original))) (str_lines original))"
  using assms
  by (simp add: migrate_deployment_toml_text_def Let_def migrate_loop_unwritten migrated_lines_def
      unlines_header_lines split: if_splits)

text \<open>The default identity consists of letters, digits, dashes and underscores.\<close>

definition node_char :: "char \<Rightarrow> bool" where
  "node_char c \<longleftrightarrow> is_ascii_alphanumeric c \<or> c \<in> set ''-_''"

lemma node_char_mapped:
  "node_char (case ch of [c] \<Rightarrow> if is_ascii_alphanumeric c \<or> c \<in> set ''-_'' then c else CHR ''-''
                | _ \<Rightarrow> CHR ''-'')"
  by (auto simp: node_char_def split: list.splits)

lemma trim_end_by_hd: "trim_end_by P xs \<noteq> [] \<Longrightarrow> hd (trim_end_by P xs) = hd xs"
  using trim_end_by_prefix [of xs P] by (metis hd_append2)

lemma length_trim_end_by: "length (trim_end_by P xs) \<le> length xs"
  by (metis length_dropWhile_le length_rev trim_end_by_def)

lemma default_node_id_shape:
  assumes "s = default_node_id_for_host host"
  shows "s \<noteq> [] \<and> length s \<le> NODE_ID_MAX_LEN \<and> is_ascii_alphanumeric (hd s) \<and> list_all node_char s"
proof -
  define m where "m = map (\<lambda>ch. case ch of
      [c] \<Rightarrow> if is_ascii_alphanumeric c \<or> c \<in> set ''-_'' then c else CHR ''-''
    | _ \<Rightarrow> CHR ''-'') (utf8_split (hd (split_on (CHR ''.'') host)))"
  define t where "t = trim_matches (\<lambda>c. \<not> is_ascii_alphanumeric c) m"
  define i where "i = trim_end_by (\<lambda>c. c \<in> set ''-_'') (take NODE_ID_MAX_LEN t)"
  have s: "s = (if i = [] then ''legacy-node'' else i)"
    unfolding assms default_node_id_for_host_def Let_def i_def t_def m_def by (rule refl)
  have legacy: "is_ascii_alphanumeric (hd ''legacy-node'')" "list_all node_char ''legacy-node''"
    by (simp_all add: node_char_def ascii_classes)
  have m: "set m \<subseteq> Collect node_char" using node_char_mapped by (auto simp: m_def)
  have t: "set t \<subseteq> set m"
    using set_trim_end_by set_dropWhileD by (fastforce simp: t_def trim_matches_def)
  have i: "set i \<subseteq> set t"
    unfolding i_def using set_trim_end_by set_take_subset by (rule order_trans)
  have "is_ascii_alphanumeric (hd i)" if "i \<noteq> []"
  proof -
    have "take NODE_ID_MAX_LEN t \<noteq> []" using that unfolding i_def by (metis trim_end_by_Nil)
    then have "t \<noteq> []" by auto
    have "NODE_ID_MAX_LEN > 0" by (simp add: NODE_ID_MAX_LEN_def)
    have "hd i = hd t"
      using trim_end_by_hd that \<open>NODE_ID_MAX_LEN > 0\<close> unfolding i_def by (metis hd_take)
    also have "\<dots> = hd (dropWhile (\<lambda>c. \<not> is_ascii_alphanumeric c) m)"
      using trim_end_by_hd \<open>t \<noteq> []\<close> unfolding t_def trim_matches_def by metis
    finally have h: "hd i = hd (dropWhile (\<lambda>c. \<not> is_ascii_alphanumeric c) m)" .
    have "dropWhile (\<lambda>c. \<not> is_ascii_alphanumeric c) m \<noteq> []"
      using \<open>t \<noteq> []\<close> unfolding t_def trim_matches_def by (metis trim_end_by_Nil)
    then show ?thesis unfolding h using hd_dropWhile by blast
  qed
  moreover have "length i \<le> NODE_ID_MAX_LEN"
    unfolding i_def using length_trim_end_by [of _ "take NODE_ID_MAX_LEN t"] by (rule order_trans) simp
  moreover have "list_all node_char i" using i t m by (auto simp: list_all_iff)
  ultimately show ?thesis using legacy by (auto simp: s NODE_ID_MAX_LEN_def)
qed

lemma node_char_ascii: "node_char c \<Longrightarrow> (of_char c :: int) < 128"
proof -
  assume "node_char c"
  then have "(of_char c :: nat) < 128" by (auto simp: node_char_def ascii_classes)
  then show ?thesis by (metis of_nat_less_iff of_nat_numeral of_nat_of_char)
qed

lemma trim_start_plain:
  "(of_char c :: int) < 128 \<Longrightarrow> \<not> is_whitespace [c] \<Longrightarrow> trim_start (c # s) = c # s"
  by (simp add: trim_start_def utf8_len_def)

lemma trim_quoted:
  assumes "\<And>c. c \<in> set s \<Longrightarrow> (of_char c :: int) < 128"
  shows "trim (CHR '' '' # debug_plain s) = debug_plain s"
proof -
  let ?q = "[CHR 0x22]"
  have sp: "utf8_split (CHR '' '' # debug_plain s) = '' '' # ?q # map (\<lambda>c. [c]) s @ [?q]"
    using assms by (subst utf8_split_ascii) (auto simp: debug_plain_def)
  have w: "is_whitespace '' ''" "\<not> is_whitespace ?q"
    by (simp_all add: is_whitespace_def code_point_def Let_def)
  have "concat (map (\<lambda>c. [c]) s) = s" by (induction s) simp_all
  with w show ?thesis
    unfolding trim_def sp by (simp add: trim_end_by_def debug_plain_def)
qed

lemma header_line_keys:
  "top_level_key ''schema_version = 2'' = Some ''schema_version''"
  "top_level_key (''node_id = '' @ r) = Some ''node_id''"
  "top_level_key (''role = '' @ r) = Some ''role''"
  "\<not> is_header ''schema_version = 2''" "\<not> is_header (''node_id = '' @ r)" "\<not> is_header (''role = '' @ r)"
  by (simp_all add: top_level_key_def is_header_def trim_start_plain is_whitespace_def code_point_def
      starts_with_def trim_def trim_end_by_def utf8_len_def Let_def)

lemma header_line_values:
  assumes "list_all node_char n"
  shows "value_of (''schema_version = 2'' # ls) ''schema_version'' = Some ''2''"
    "value_of ((''node_id = '' @ debug_plain n) # ls) ''node_id'' = Some (debug_plain n)"
    "value_of ((''role = '' @ debug_plain n) # ls) ''role'' = Some (debug_plain n)"
proof -
  have "trim (CHR '' '' # debug_plain n) = debug_plain n"
    by (rule trim_quoted) (use assms node_char_ascii in \<open>auto simp: list_all_iff\<close>)
  moreover have "trim '' 2'' = ''2''"
    by (simp add: is_whitespace_def code_point_def trim_def trim_end_by_def utf8_len_def Let_def)
  ultimately show "value_of (''schema_version = 2'' # ls) ''schema_version'' = Some ''2''"
    "value_of ((''node_id = '' @ debug_plain n) # ls) ''node_id'' = Some (debug_plain n)"
    "value_of ((''role = '' @ debug_plain n) # ls) ''role'' = Some (debug_plain n)"
    using header_line_keys by simp_all
qed

lemma header_lines_no_header: "\<forall>l\<in>set (header_lines tops). \<not> is_header l"
  using header_line_keys by (auto simp: header_lines_def Let_def)

lemma node_char_exit: "list_all node_char ''exit''"
  by (simp add: node_char_def ascii_classes)

lemma debug_plain_clean: "list_all node_char n \<Longrightarrow> clean_line (debug_plain n)"
  by (auto simp: clean_line_def debug_plain_def list_all_iff node_char_def ascii_classes)

lemma header_lines_clean: "list_all clean_line (header_lines tops)"
proof -
  have "clean_line (a @ b) \<longleftrightarrow> clean_line a \<and> clean_line b" for a b by (auto simp: clean_line_def)
  moreover have "clean_line ''schema_version = 2''" "clean_line ''node_id = ''" "clean_line ''role = ''"
    by (simp_all add: clean_line_def)
  ultimately show ?thesis
    using debug_plain_clean default_node_id_shape [OF refl] debug_plain_clean [OF node_char_exit]
    by (auto simp: header_lines_def Let_def simp del: append.simps)
qed

lemma top_level_migrated:
  assumes "\<forall>l\<in>set hl. \<not> is_header l"
  shows "top_level (migrated_lines hl ls) =
     (let t = top_level ls in
      if list_ex is_version_line t
      then takeWhile (\<lambda>l. \<not> is_version_line l) t @ hl
             @ filter (\<lambda>l. \<not> is_version_line l) (dropWhile (\<lambda>l. \<not> is_version_line l) t)
      else hl @ t)"
    "dropWhile (\<lambda>l. \<not> is_header l) (migrated_lines hl ls) = dropWhile (\<lambda>l. \<not> is_header l) ls"
proof -
  define r where "r = dropWhile (\<lambda>l. \<not> is_header l) ls"
  have t: "\<forall>l\<in>set (top_level ls). \<not> is_header l"
    by (auto simp: top_level_def dest: set_takeWhileD)
  have ls: "ls = top_level ls @ r" by (simp add: r_def top_level_rest)
  have r: "takeWhile (\<lambda>l. \<not> is_header l) r = []" "dropWhile (\<lambda>l. \<not> is_header l) r = r"
    unfolding r_def by (induction ls) auto
  have s: "takeWhile (\<lambda>l. \<not> is_header l) (xs @ r) = xs \<and> dropWhile (\<lambda>l. \<not> is_header l) (xs @ r) = r"
    if "\<forall>l\<in>set xs. \<not> is_header l" for xs
    using that r by (induction xs) auto
  define xs where "xs = (if list_ex is_version_line (top_level ls)
      then takeWhile (\<lambda>l. \<not> is_version_line l) (top_level ls) @ hl
        @ filter (\<lambda>l. \<not> is_version_line l) (dropWhile (\<lambda>l. \<not> is_version_line l) (top_level ls))
      else hl @ top_level ls)"
  have "migrated_lines hl ls = xs @ r"
    using ls by (auto simp: migrated_lines_def xs_def Let_def simp flip: r_def)
  moreover have "\<forall>l\<in>set xs. \<not> is_header l"
    using t assms by (auto simp: xs_def dest: set_takeWhileD set_dropWhileD)
  ultimately have "top_level (migrated_lines hl ls) = xs"
    "dropWhile (\<lambda>l. \<not> is_header l) (migrated_lines hl ls) = r"
    using s by (simp_all add: top_level_def)
  then show "top_level (migrated_lines hl ls) =
     (let t = top_level ls in
      if list_ex is_version_line t
      then takeWhile (\<lambda>l. \<not> is_version_line l) t @ hl
             @ filter (\<lambda>l. \<not> is_version_line l) (dropWhile (\<lambda>l. \<not> is_version_line l) t)
      else hl @ t)"
    "dropWhile (\<lambda>l. \<not> is_header l) (migrated_lines hl ls) = dropWhile (\<lambda>l. \<not> is_header l) ls"
    by (simp_all add: xs_def r_def Let_def)
qed

lemma value_of_split_version:
  assumes "k \<noteq> ''schema_version''"
  shows "value_of t k = (case value_of (takeWhile (\<lambda>l. \<not> is_version_line l) t) k of
      Some v \<Rightarrow> Some v
    | None \<Rightarrow> value_of (filter (\<lambda>l. \<not> is_version_line l) (dropWhile (\<lambda>l. \<not> is_version_line l) t)) k)"
proof -
  have "value_of (filter (\<lambda>l. \<not> is_version_line l) ls) k = value_of ls k" for ls
    using value_of_filter [OF assms, of ls] by (simp add: is_version_line_def)
  then show ?thesis
    using value_of_append [of "takeWhile (\<lambda>l. \<not> is_version_line l) t" "dropWhile (\<lambda>l. \<not> is_version_line l) t" k]
    by (simp split: option.split)
qed

lemma value_of_before_version: "value_of (takeWhile (\<lambda>l. \<not> is_version_line l) t) ''schema_version'' = None"
  by (rule value_of_absent) (auto simp: is_version_line_def dest: set_takeWhileD)

lemma value_of_migrated:
  assumes "\<forall>l\<in>set hl. \<not> is_header l"
  shows "k \<noteq> ''schema_version'' \<Longrightarrow> value_of hl k = None \<or> value_of (top_level ls) k = None \<Longrightarrow>
      value_of (top_level (migrated_lines hl ls)) k =
        (case value_of (top_level ls) k of Some v \<Rightarrow> Some v | None \<Rightarrow> value_of hl k)"
    "value_of hl ''schema_version'' = Some v \<Longrightarrow>
      value_of (top_level (migrated_lines hl ls)) ''schema_version'' = Some v"
  unfolding top_level_migrated(1) [OF assms] Let_def
  by (auto simp: value_of_append value_of_before_version value_of_split_version [where t = "top_level ls" and k = k]
      split: option.splits)

lemma default_node_id_validates: "validate_node_id (default_node_id_for_host host) = Inr ()"
  using default_node_id_shape [OF refl, of host]
  by (auto simp: validate_node_id_def list_all_iff node_char_def)

lemma header_lines_cases:
  obtains n where "is_ok (validate_node_id n)" "list_all node_char n"
    "header_lines tops = ''schema_version = 2''
       # (if value_of tops ''node_id'' = None then [''node_id = '' @ debug_plain n] else [])
       @ (if value_of tops ''role'' = None then [''role = '' @ debug_plain ''exit''] else [])"
  unfolding header_lines_def Let_def using default_node_id_validates default_node_id_shape [OF refl]
  by (metis is_ok_simps(1))

lemma value_of_header_lines:
  "value_of (header_lines tops) ''schema_version'' = Some ''2''"
  "value_of (header_lines tops) ''role'' =
     (if value_of tops ''role'' = None then Some (debug_plain ''exit'') else None)"
  "k \<notin> {''schema_version'', ''node_id'', ''role''} \<Longrightarrow> value_of (header_lines tops) k = None"
  "value_of tops ''node_id'' = None \<Longrightarrow> \<exists>n. is_ok (validate_node_id n)
     \<and> value_of (header_lines tops) ''node_id'' = Some (debug_plain n)"
  "value_of tops ''node_id'' = Some v \<Longrightarrow> value_of (header_lines tops) ''node_id'' = None"
proof -
  obtain n where n: "is_ok (validate_node_id n)" "list_all node_char n"
    "header_lines tops = ''schema_version = 2''
       # (if value_of tops ''node_id'' = None then [''node_id = '' @ debug_plain n] else [])
       @ (if value_of tops ''role'' = None then [''role = '' @ debug_plain ''exit''] else [])"
    by (rule header_lines_cases)
  note v = header_line_values [OF n(2)] header_line_values [OF node_char_exit]
    value_of_other [OF header_line_keys(1)] value_of_other [OF header_line_keys(2)]
    value_of_other [OF header_line_keys(3)]
  show "value_of (header_lines tops) ''schema_version'' = Some ''2''"
    unfolding n(3) by (rule v(1))
  show "value_of (header_lines tops) ''role'' =
     (if value_of tops ''role'' = None then Some (debug_plain ''exit'') else None)"
    "k \<notin> {''schema_version'', ''node_id'', ''role''} \<Longrightarrow> value_of (header_lines tops) k = None"
    "value_of tops ''node_id'' = Some v \<Longrightarrow> value_of (header_lines tops) ''node_id'' = None"
    unfolding n(3) using v by (simp_all del: value_of.simps(2) append.simps(2) add: append_Cons)
  show "value_of tops ''node_id'' = None \<Longrightarrow> \<exists>n. is_ok (validate_node_id n)
     \<and> value_of (header_lines tops) ''node_id'' = Some (debug_plain n)"
    using n(1) v unfolding n(3) by (auto simp del: value_of.simps(2))
qed

lemma migrated_lines_clean:
  "list_all clean_line hl \<Longrightarrow> list_all clean_line ls \<Longrightarrow> list_all clean_line (migrated_lines hl ls)"
proof -
  have "set (migrated_lines hl ls) \<subseteq> set hl \<union> set ls"
    by (auto simp: migrated_lines_def top_level_def Let_def dest: set_takeWhileD set_dropWhileD)
  then show "list_all clean_line hl \<Longrightarrow> list_all clean_line ls \<Longrightarrow> list_all clean_line (migrated_lines hl ls)"
    by (auto simp: list_all_iff)
qed

section \<open>Lemmas on the changed file\<close>

lemma keeps_io_of [keeps_intros]: "keeps Q (io_of r)"
  by (simp add: keeps_def io_of_def)

lemma keeps_file_mode [keeps_intros]: "keeps Q (file_mode p)"
  unfolding file_mode_def by (auto intro!: keeps_intros split: option.splits)

lemma replaces_simple: "replaces p pay (io_fail e)" "replaces p pay (io_ret x)"
  by (rule replaces_keeps, rule keeps_ret)+

lemma replaces_pure:
  assumes "\<And>x. r = Inr x \<Longrightarrow> replaces p pay (f x)"
  shows "replaces p pay (io_bind (io_of r) f)"
proof (cases r)
  case (Inl e)
  then have "io_bind (io_of r) f = io_fail e" by (auto simp: io_bind_def io_of_def io_fail_def)
  then show ?thesis by (simp add: replaces_simple)
next
  case (Inr x)
  then have "io_bind (io_of r) f = f x" by (auto simp: io_bind_def io_of_def)
  with assms Inr show ?thesis by simp
qed

lemma io_bind_of [simp]:
  "io_bind (io_of (Inr x)) f = f x" "io_bind (io_of (Inl e)) f = io_fail e"
  by (rule ext, simp add: io_bind_def io_of_def io_fail_def)+

definition checked_migration ::
    "(string \<Rightarrow> DeploymentConfig option) \<Rightarrow> (string \<Rightarrow> 8 word list option) \<Rightarrow> string \<Rightarrow> node \<Rightarrow> bool" where
  "checked_migration toml b64 original n \<longleftrightarrow>
     (\<exists>old new. parse_checked toml b64 original = Inr old
        \<and> migrate_deployment_toml_text original = Some (nd_bytes n)
        \<and> migrated_config toml b64 old (nd_bytes n) = Inr new)"

text \<open>A run after the file was read: it writes a checked migration of what was read or leaves the
  file alone.\<close>

lemma migrate_tail:
  assumes "(io_bind (io_of (parse_checked toml b64 original)) (\<lambda>old.
            case migrate_deployment_toml_text original of
              None \<Rightarrow> io_ret DAlreadyCurrent
            | Some patched \<Rightarrow>
                io_bind (io_of (migrated_config toml b64 old patched)) (\<lambda>_.
                io_bind (backup_before_mutate pr ts p) (\<lambda>backup.
                io_bind (atomic_write pr p patched 0x1A4) (\<lambda>_. io_ret (DMigrated backup)))))) w = (w', r)"
  shows "extends (\<lambda>s. fs_files s p = fs_files (w_fs w) p
        \<or> (\<exists>n. fs_files s p = Some n \<and> checked_migration toml b64 original n)) w w'
    \<and> ((\<exists>orig n. r = Inr (DMigrated (backup_path ts p)) \<and> fs_files (w_fs w) p = Some orig
          \<and> fs_files (w_fs w') p = Some n \<and> checked_migration toml b64 original n
          \<and> ready (backup_path ts p) (nd_bytes orig) 0x180 (w_fs w'))
       \<or> (\<forall>b. r \<noteq> Inr (DMigrated b)) \<and> fs_files (w_fs w') p = fs_files (w_fs w) p)"
proof -
  consider (stay) "w' = w" "\<And>b. r \<noteq> Inr (DMigrated b)"
    | (go) old patched new where "parse_checked toml b64 original = Inr old"
      "migrate_deployment_toml_text original = Some patched" "migrated_config toml b64 old patched = Inr new"
      "io_bind (backup_before_mutate pr ts p) (\<lambda>backup.
         io_bind (atomic_write pr p patched 0x1A4) (\<lambda>_. io_ret (DMigrated backup))) w = (w', r)"
  proof (cases "parse_checked toml b64 original")
    case (Inl e)
    with assms show thesis by (intro stay) (auto simp: io_fail_def)
  next
    case (Inr old)
    show thesis
    proof (cases "migrate_deployment_toml_text original")
      case None
      with assms Inr show thesis by (intro stay) (auto simp: io_ret_def)
    next
      case (Some patched)
      show thesis
      proof (cases "migrated_config toml b64 old patched")
        case (Inl e)
        with assms Inr Some \<open>parse_checked toml b64 original = Inr old\<close> show thesis
          by (intro stay) (auto simp: io_fail_def)
      next
        case (Inr new)
        with assms Some \<open>parse_checked toml b64 original = Inr old\<close> show thesis by (intro go) simp_all
      qed
    qed
  qed
  then show ?thesis
  proof cases
    case stay
    then show ?thesis by simp
  next
    case go
    have chk: "nd_bytes n = patched \<Longrightarrow> checked_migration toml b64 original n" for n
      using go by (auto simp: checked_migration_def)
    have "extends (\<lambda>s. fs_files s p = fs_files (w_fs w) p
        \<or> (\<exists>n. fs_files s p = Some n \<and> nd_bytes n = patched \<and> nd_mode n = 0x1A4)) w w'"
      using replaces_backup_then_write [of p patched "0x1A4" pr ts DMigrated, unfolded replaces_def, rule_format, of w]
      unfolding go(4) fst_conv .
    then have "extends (\<lambda>s. fs_files s p = fs_files (w_fs w) p
        \<or> (\<exists>n. fs_files s p = Some n \<and> checked_migration toml b64 original n)) w w'"
      by (rule extends_mono) (use chk in blast)
    moreover from backup_then_write [OF go(4)]
    have "(\<exists>orig n. r = Inr (DMigrated (backup_path ts p)) \<and> fs_files (w_fs w) p = Some orig
          \<and> fs_files (w_fs w') p = Some n \<and> checked_migration toml b64 original n
          \<and> ready (backup_path ts p) (nd_bytes orig) 0x180 (w_fs w'))
       \<or> (\<forall>b. r \<noteq> Inr (DMigrated b)) \<and> fs_files (w_fs w') p = fs_files (w_fs w) p"
    proof (elim disjE exE conjE, goal_cases)
      case (1 orig n)
      with chk show ?case by simp
    next
      case (2 e)
      then show ?case by simp
    qed
    ultimately show ?thesis by (rule conjI)
  qed
qed

lemma migrate_deployment_run:
  assumes "migrate_deployment_toml toml b64 pr ts p w = (w', r)"
  shows "(\<exists>orig. fs_files (w_fs w) p = Some orig
       \<and> extends (\<lambda>s. fs_files s p = fs_files (w_fs w) p
            \<or> (\<exists>n. fs_files s p = Some n \<and> checked_migration toml b64 (nd_bytes orig) n)) w w'
       \<and> ((\<exists>n. r = Inr (DMigrated (backup_path ts p)) \<and> fs_files (w_fs w') p = Some n
             \<and> checked_migration toml b64 (nd_bytes orig) n
             \<and> ready (backup_path ts p) (nd_bytes orig) 0x180 (w_fs w'))
          \<or> (\<forall>b. r \<noteq> Inr (DMigrated b)) \<and> fs_files (w_fs w') p = fs_files (w_fs w) p))
    \<or> (\<forall>b. r \<noteq> Inr (DMigrated b)) \<and> extends (file_is p (fs_files (w_fs w) p)) w w'"
proof -
  let ?K = "file_is p (fs_files (w_fs w) p)"
  obtain w1 there where e: "exists_file p w = (w1, Inr there)" "w_fs w1 = w_fs w"
    using exists_file_result by (metis surj_pair)
  have k1: "extends ?K w w1" by (rule keepsD [OF keeps_queries(2) e(1)]) (simp add: file_is_def)
  show ?thesis
  proof (cases there)
    case False
    with assms e k1 show ?thesis by (auto simp: migrate_deployment_toml_def io_bind_def io_ret_def)
  next
    case True
    obtain w2 rb where rd: "read_file p w1 = (w2, rb)" by (cases "read_file p w1")
    have k2: "extends ?K w w2"
      by (rule extends_trans [OF k1 keepsD [OF keeps_queries(3) rd]]) (simp add: file_is_def e(2))
    show ?thesis
    proof (cases rb)
      case (Inl x)
      with assms e True rd k2 show ?thesis by (auto simp: migrate_deployment_toml_def io_bind_def)
    next
      case (Inr original)
      from read_file_Inr [OF rd [unfolded Inr]] e(2) obtain orig where
        orig: "w_fs w2 = w_fs w" "fs_files (w_fs w) p = Some orig" "nd_bytes orig = original" by auto
      have run: "(io_bind (io_of (parse_checked toml b64 original)) (\<lambda>old.
            case migrate_deployment_toml_text original of
              None \<Rightarrow> io_ret DAlreadyCurrent
            | Some patched \<Rightarrow>
                io_bind (io_of (migrated_config toml b64 old patched)) (\<lambda>_.
                io_bind (backup_before_mutate pr ts p) (\<lambda>backup.
                io_bind (atomic_write pr p patched 0x1A4) (\<lambda>_. io_ret (DMigrated backup)))))) w2 = (w', r)"
        using assms e(1) True rd Inr unfolding migrate_deployment_toml_def
        by (simp add: io_bind_def [of "exists_file p"] io_bind_def [of "read_file p"])
      let ?P = "\<lambda>s. fs_files s p = fs_files (w_fs w) p
          \<or> (\<exists>n. fs_files s p = Some n \<and> checked_migration toml b64 original n)"
      note tail = migrate_tail [OF run, unfolded orig(1)]
      have "extends ?P w w2" by (rule extends_mono [OF k2]) (simp add: file_is_def)
      then have "extends ?P w w'" using conjunct1 [OF tail] extends_trans by blast
      with conjunct2 [OF tail] orig(2,3) show ?thesis by auto
    qed
  qed
qed

text \<open>When no call fails, a checked migration goes through.\<close>

lemma migrate_deployment_completes:
  assumes "w_script w = []" "fs_dirs (w_fs w) (fst p) \<noteq> None" "fs_files (w_fs w) p = Some orig"
    "parse_checked toml b64 (nd_bytes orig) = Inr old" "migrate_deployment_toml_text (nd_bytes orig) = Some out"
    "migrated_config toml b64 old out = Inr new"
  shows "\<exists>w' n. migrate_deployment_toml toml b64 pr ts p w = (w', Inr (DMigrated (backup_path ts p)))
    \<and> fs_files (w_fs w') p = Some n \<and> nd_bytes n = out"
proof -
  have there: "exists_file p w = (w, Inr True)" "read_file p w = (w, Inr (nd_bytes orig))"
    using assms(1,3) by (simp_all add: exists_file_def metadata_def read_file_def io_bind_def io_ret_def no_fault_calls)
  have b: "fst (backup_path ts p) = fst p" "backup_path ts p \<noteq> p"
    by (cases p; simp add: backup_path_def)+
  obtain w1 n1 where w1: "write_file_mode pr (backup_path ts p) (nd_bytes orig) 0x180 w = (w1, Inr ())" "w_script w1 = []"
    "w_fs w1 = put (backup_path ts p) (Some n1) (w_fs w)"
    using run_write_file_mode [OF assms(1), of "backup_path ts p"] assms(2) b(1) by metis
  then have "fs_dirs (w_fs w1) (fst p) \<noteq> None" "fs_files (w_fs w1) p = Some orig"
    using assms(2,3) b(2) by (simp_all add: put_def)
  from atomic_write_succeeds [OF w1(2) this, of pr out "0x1A4"] obtain w' where
    w': "atomic_write pr p out 0x1A4 w1 = (w', Inr ())" "\<exists>n. fs_files (w_fs w') p = Some n \<and> nd_bytes n = out"
    by auto
  have "backup_before_mutate pr ts p w = (w1, Inr (backup_path ts p))"
    by (simp add: backup_before_mutate_def io_bind_def there w1(1) io_ret_def)
  then have "migrate_deployment_toml toml b64 pr ts p w = (w', Inr (DMigrated (backup_path ts p)))"
    by (simp add: migrate_deployment_toml_def io_bind_def there io_of_def assms(4-6) w'(1) io_ret_def)
  with w'(2) show ?thesis by blast
qed

text \<open>The patches of one section.  What follows a read of the target may rely on the bytes read.\<close>

lemma replaces_after_read:
  assumes "\<And>b. replaces p (pay b) (f b)"
  shows "extends (\<lambda>s. fs_files s p = fs_files (w_fs w) p
      \<or> (\<exists>n orig. fs_files (w_fs w) p = Some orig \<and> fs_files s p = Some n \<and> pay (nd_bytes orig) n))
    w (fst (io_bind (read_file p) f w))"
proof -
  let ?P = "\<lambda>s. fs_files s p = fs_files (w_fs w) p
      \<or> (\<exists>n orig. fs_files (w_fs w) p = Some orig \<and> fs_files s p = Some n \<and> pay (nd_bytes orig) n)"
  obtain w1 r where rd: "read_file p w = (w1, r)" by (cases "read_file p w")
  have "extends (file_is p (fs_files (w_fs w) p)) w w1"
    by (rule keepsD [OF keeps_queries(3) rd]) (simp add: file_is_def)
  then have e: "extends ?P w w1" by (rule extends_mono) (simp add: file_is_def)
  show ?thesis
  proof (cases r)
    case (Inl x)
    with e rd show ?thesis by (simp add: io_bind_def)
  next
    case (Inr b)
    from read_file_Inr [OF rd [unfolded Inr]] obtain orig where
      orig: "w_fs w1 = w_fs w" "fs_files (w_fs w) p = Some orig" "nd_bytes orig = b" by blast
    have "extends (\<lambda>s. fs_files s p = fs_files (w_fs w1) p \<or> (\<exists>n. fs_files s p = Some n \<and> pay b n)) w1 (fst (f b w1))"
      using assms unfolding replaces_def by (rule spec)
    then have "extends ?P w1 (fst (f b w1))"
      by (rule extends_mono) (use orig in auto)
    with e rd Inr show ?thesis by (simp add: io_bind_def extends_trans)
  qed
qed

lemma replaces_patch_tail:
  "replaces p (\<lambda>n. nd_bytes n = bytes)
     (io_bind (backup_before_mutate pr ts p) (\<lambda>b. io_bind (file_mode p) (\<lambda>mode.
      io_bind (atomic_write pr p bytes mode) (\<lambda>_. io_ret b))))"
proof (intro replaces_bind [OF keeps_backup] replaces_bind [OF keeps_file_mode] replaces_then_ret)
  show "replaces p (\<lambda>n. nd_bytes n = bytes) (atomic_write pr p bytes mode)" for mode
    by (rule replaces_mono [OF replaces_atomic_write]) simp
qed

definition patched_ok ::
    "(string \<Rightarrow> DeploymentConfig option) \<Rightarrow> (string \<Rightarrow> 8 word list option)
       \<Rightarrow> (DeploymentConfig \<Rightarrow> DeploymentConfig) \<Rightarrow> string \<Rightarrow> node \<Rightarrow> bool" where
  "patched_ok toml b64 clear original n \<longleftrightarrow>
     (\<exists>old new. toml original = Some old \<and> toml (nd_bytes n) = Some new \<and> clear new = clear old
        \<and> validate_deployment b64 new = Inr ())"

lemma parse_checked_Inr:
  "parse_checked toml b64 s = Inr cfg \<longleftrightarrow> toml s = Some cfg \<and> validate_deployment b64 cfg = Inr ()"
  by (auto simp: parse_checked_def split: option.splits sum.splits)

lemma replaces_patch:
  assumes "parse_checked toml b64 original = Inr old"
  shows "replaces p (patched_ok toml b64 clear original)
    (io_bind (io_of (parse_checked toml b64 patched)) (\<lambda>new.
       if clear old \<noteq> clear new then io_fail Unparsable
       else io_bind (backup_before_mutate pr ts p) (\<lambda>b. io_bind (file_mode p) (\<lambda>mode.
            io_bind (atomic_write pr p patched mode) (\<lambda>_. io_ret b)))))"
proof (rule replaces_pure)
  fix new assume new: "parse_checked toml b64 patched = Inr new"
  show "replaces p (patched_ok toml b64 clear original) (if clear old \<noteq> clear new then io_fail Unparsable
       else io_bind (backup_before_mutate pr ts p) (\<lambda>b. io_bind (file_mode p) (\<lambda>mode.
            io_bind (atomic_write pr p patched mode) (\<lambda>_. io_ret b))))"
  proof (cases "clear old = clear new")
    case True
    have "patched_ok toml b64 clear original n" if "nd_bytes n = patched" for n
      using that assms new True unfolding patched_ok_def parse_checked_Inr by metis
    then have "replaces p (patched_ok toml b64 clear original)
      (io_bind (backup_before_mutate pr ts p) (\<lambda>b. io_bind (file_mode p) (\<lambda>mode.
         io_bind (atomic_write pr p patched mode) (\<lambda>_. io_ret b))))"
      by (rule replaces_mono [OF replaces_patch_tail])
    with True show ?thesis by simp
  qed (simp add: replaces_simple)
qed

lemma exit_egress_replaces:
  "extends (\<lambda>s. fs_files s p = fs_files (w_fs w) p
      \<or> (\<exists>n orig. fs_files (w_fs w) p = Some orig \<and> fs_files s p = Some n
           \<and> patched_ok toml b64 (dc_egress_update (\<lambda>_. None)) (nd_bytes orig) n))
    w (fst (apply_exit_egress_toml toml b64 pr ts p policy w))"
  unfolding apply_exit_egress_toml_def
proof (rule replaces_after_read, rule replaces_pure)
  fix original old assume "parse_checked toml b64 original = Inr old"
  from replaces_patch [OF this, of p "dc_egress_update (\<lambda>_. None)" "exit_egress_text original policy" pr ts]
  show "replaces p (patched_ok toml b64 (dc_egress_update (\<lambda>_. None)) original)
     (if dc_role old \<noteq> Exit then io_fail Unparsable
      else let patched = exit_egress_text original policy in
       io_bind (io_of (parse_checked toml b64 patched)) (\<lambda>new.
       if old\<lparr>dc_egress := None\<rparr> \<noteq> new\<lparr>dc_egress := None\<rparr> then io_fail Unparsable
       else io_bind (backup_before_mutate pr ts p) (\<lambda>backup.
            io_bind (file_mode p) (\<lambda>mode.
            io_bind (atomic_write pr p patched mode) (\<lambda>_. io_ret backup)))))"
    by (simp add: replaces_simple Let_def)
qed

lemma tls_spoof_replaces:
  "extends (\<lambda>s. fs_files s p = fs_files (w_fs w) p
      \<or> (\<exists>n orig. fs_files (w_fs w) p = Some orig \<and> fs_files s p = Some n
           \<and> patched_ok toml b64 (dc_google_egress_tls_spoof_update (\<lambda>_. None)) (nd_bytes orig) n))
    w (fst (apply_tls_spoof_toml toml b64 pr ts p spoof w))"
  unfolding apply_tls_spoof_toml_def Let_def
proof (rule replaces_after_read, rule replaces_pure, rule replaces_pure)
  fix original old assume "parse_checked toml b64 original = Inr old"
  from replaces_patch [OF this, of p "dc_google_egress_tls_spoof_update (\<lambda>_. None)" "tls_spoof_text original spoof" pr ts]
  show "replaces p (patched_ok toml b64 (dc_google_egress_tls_spoof_update (\<lambda>_. None)) original)
     (io_bind (io_of (parse_checked toml b64 (tls_spoof_text original spoof))) (\<lambda>new.
       if old\<lparr>dc_google_egress_tls_spoof := None\<rparr> \<noteq> new\<lparr>dc_google_egress_tls_spoof := None\<rparr> then io_fail Unparsable
       else io_bind (backup_before_mutate pr ts p) (\<lambda>backup.
            io_bind (file_mode p) (\<lambda>mode.
            io_bind (atomic_write pr p (tls_spoof_text original spoof) mode) (\<lambda>_. io_ret backup)))))" .
qed

section \<open>Properties\<close>

text \<open>The default node identity is always acceptable: whatever the public host of a file
  without one, the derived \<open>node_id\<close> is nonempty, at most 63 characters long, starts with a
  letter or digit and passes the validation that the current schema requires.\<close>

theorem default_node_id_valid: "is_ok (validate_node_id (default_node_id_for_host host))"
  by (simp add: default_node_id_validates)

text \<open>The textual migration of a file with plain line ends does what it promises: the
  result declares the current schema version, keeps a declared role and node id and otherwise
  declares an exit and a valid identity, keeps the value of every other top-level key and
  every line from the first table on, and migrating the result again changes nothing.\<close>

theorem migrate_text_correct:
  assumes "CHR 0x0D \<notin> set original" "migrate_deployment_toml_text original = Some text"
    and "old = top_level (str_lines original)" "new = top_level (str_lines text)"
  shows "value_of new ''schema_version'' = Some ''2''
    \<and> value_of new ''role'' =
        (case value_of old ''role'' of None \<Rightarrow> Some (debug_plain ''exit'') | Some r \<Rightarrow> Some r)
    \<and> (case value_of old ''node_id'' of
         None \<Rightarrow> (\<exists>n. is_ok (validate_node_id n) \<and> value_of new ''node_id'' = Some (debug_plain n))
       | Some n \<Rightarrow> value_of new ''node_id'' = Some n)
    \<and> (\<forall>k. k \<notin> {''schema_version'', ''node_id'', ''role''} \<longrightarrow> value_of new k = value_of old k)
    \<and> dropWhile (\<lambda>l. \<not> is_header l) (str_lines text) = dropWhile (\<lambda>l. \<not> is_header l) (str_lines original)
    \<and> migrate_deployment_toml_text text = None"
proof -
  define hl where "hl = header_lines old"
  have no: "\<forall>l\<in>set hl. \<not> is_header l" unfolding hl_def by (rule header_lines_no_header)
  have "list_all clean_line (migrated_lines hl (str_lines original))"
    unfolding hl_def using str_lines_clean [OF assms(1)] header_lines_clean migrated_lines_clean by blast
  then have lines: "str_lines text = migrated_lines hl (str_lines original)"
    using migrate_text_lines [OF assms(2)] str_lines_unlines [of _ "[]"]
    by (simp add: hl_def assms(3))
  have new: "new = top_level (migrated_lines hl (str_lines original))"
    unfolding assms(4) lines by (rule refl)
  have kept: "value_of new k = (case value_of old k of Some v \<Rightarrow> Some v | None \<Rightarrow> value_of hl k)"
    if "k \<noteq> ''schema_version''" "value_of hl k = None \<or> value_of old k = None" for k
    unfolding new assms(3) by (rule value_of_migrated(1) [OF no that(1)]) (use that(2) assms(3) in simp)
  have ver: "value_of new ''schema_version'' = Some ''2''"
    unfolding new using value_of_migrated(2) [OF no] value_of_header_lines(1) by (simp add: hl_def)
  have role: "value_of new ''role'' =
      (case value_of old ''role'' of None \<Rightarrow> Some (debug_plain ''exit'') | Some r \<Rightarrow> Some r)"
    using kept [of "''role''"] value_of_header_lines(2) [of old]
    by (cases "value_of old ''role''") (simp_all add: hl_def)
  have node: "case value_of old ''node_id'' of
      None \<Rightarrow> (\<exists>n. is_ok (validate_node_id n) \<and> value_of new ''node_id'' = Some (debug_plain n))
    | Some n \<Rightarrow> value_of new ''node_id'' = Some n"
    using kept [of "''node_id''"] value_of_header_lines(4,5) [of old]
    by (cases "value_of old ''node_id''") (auto simp: hl_def)
  have "\<forall>k. k \<notin> {''schema_version'', ''node_id'', ''role''} \<longrightarrow> value_of new k = value_of old k"
    using kept value_of_header_lines(3) [of _ old] by (auto simp: hl_def split: option.splits)
  moreover have "value_of new ''node_id'' \<noteq> None" "value_of new ''role'' \<noteq> None"
    using node role by (auto split: option.splits)
  then have "migrate_deployment_toml_text text = None"
    using ver by (simp add: migrate_deployment_toml_text_def Let_def DEPLOYMENT_SCHEMA_VERSION_def
        parse_u32_def parse_uint_def is_ascii_digit_def flip: assms(4))
  moreover have "dropWhile (\<lambda>l. \<not> is_header l) (str_lines text)
      = dropWhile (\<lambda>l. \<not> is_header l) (str_lines original)"
    unfolding lines by (rule top_level_migrated(2) [OF no])
  ultimately show ?thesis using ver role node by blast
qed

definition example_legacy_text :: string where
  "example_legacy_text = ''public_host = '' @ debug_plain ''vpn.example.net'' @ LF @ ''[reality]'' @ LF"

theorem migrate_text_correct_witness:
  "\<exists>text. migrate_deployment_toml_text example_legacy_text = Some text
     \<and> value_of (top_level (str_lines text)) ''role'' = Some (debug_plain ''exit'')
     \<and> migrate_deployment_toml_text text = None"
proof -
  have l: "str_lines example_legacy_text = [''public_host = '' @ debug_plain ''vpn.example.net'', ''[reality]'']"
    by (simp add: example_legacy_text_def debug_plain_def LF_def)
  have h: "is_header ''[reality]''" "\<not> is_header (''public_host = '' @ debug_plain ''vpn.example.net'')"
    "top_level_key (''public_host = '' @ debug_plain ''vpn.example.net'') = Some ''public_host''"
    by (simp_all add: top_level_key_def is_header_def trim_start_plain is_whitespace_def code_point_def
        starts_with_def trim_def trim_end_by_def utf8_len_def Let_def)
  have old: "top_level (str_lines example_legacy_text) = [''public_host = '' @ debug_plain ''vpn.example.net'']"
    unfolding l top_level_def using h by simp
  have v: "value_of (top_level (str_lines example_legacy_text)) ''role'' = None"
    "value_of (top_level (str_lines example_legacy_text)) ''schema_version'' = None"
    unfolding old using h by simp_all
  obtain out where t: "migrate_deployment_toml_text example_legacy_text = Some out"
    using v that by (auto simp: migrate_deployment_toml_text_def Let_def case_prod_beta)
  have "CHR 0x0D \<notin> set example_legacy_text"
    by (simp add: example_legacy_text_def debug_plain_def LF_def)
  from migrate_text_correct [OF this t refl refl] v t show ?thesis by auto
qed

text \<open>C35: Migrating the deployment file never damages it: at every point, whatever call fails, the
  file is the original or the migrated text of the original, which parses, passes validation at the
  current schema version, has the same role, and agrees with the original in every other
  setting, a missing node id apart. The migration reports success exactly when that text is in
  place, and then the backup holds the original bytes with mode 0600; otherwise the file is
  untouched. When no call fails, the directory exists, and the original and its migrated text pass
  these checks, the migration does succeed.\<close>

theorem migrate_deployment_safe:
  assumes "migrate_deployment_toml toml b64 pr ts p w = (w', r)"
    and "Good = (\<lambda>n. \<exists>orig old new. fs_files (w_fs w) p = Some orig \<and> toml (nd_bytes orig) = Some old
      \<and> migrate_deployment_toml_text (nd_bytes orig) = Some (nd_bytes n)
      \<and> toml (nd_bytes n) = Some new \<and> validate_deployment b64 new = Inr ()
      \<and> dc_schema_version new = DEPLOYMENT_SCHEMA_VERSION \<and> dc_role new = dc_role old
      \<and> dc_peer_endpoints new = dc_peer_endpoints old \<and> dc_access_paths new = dc_access_paths old
      \<and> same_but_identity old new \<and> (dc_node_id old \<noteq> [] \<longrightarrow> dc_node_id new = dc_node_id old))"
  shows "(\<exists>ss. w_trace w' = w_trace w @ ss \<and> (\<forall>s\<in>set ss. fs_files s p = fs_files (w_fs w) p
      \<or> (\<exists>n. fs_files s p = Some n \<and> Good n)))
    \<and> (\<forall>b. r = Inr (DMigrated b) \<longrightarrow> (\<exists>n orig. fs_files (w_fs w') p = Some n \<and> Good n
        \<and> fs_files (w_fs w) p = Some orig \<and> ready b (nd_bytes orig) 0x180 (w_fs w')))
    \<and> ((\<forall>b. r \<noteq> Inr (DMigrated b)) \<longrightarrow> fs_files (w_fs w') p = fs_files (w_fs w) p)
    \<and> (\<forall>orig old out new. w_script w = [] \<and> fs_dirs (w_fs w) (fst p) \<noteq> None \<and> fs_files (w_fs w) p = Some orig
        \<and> toml (nd_bytes orig) = Some old \<and> validate_deployment b64 old = Inr ()
        \<and> migrate_deployment_toml_text (nd_bytes orig) = Some out
        \<and> toml out = Some new \<and> validate_deployment b64 new = Inr ()
        \<and> dc_schema_version new = DEPLOYMENT_SCHEMA_VERSION \<and> dc_role new = dc_role old \<and> same_but_identity old new
        \<longrightarrow> r = Inr (DMigrated (backup_path ts p)) \<and> map_option nd_bytes (fs_files (w_fs w') p) = Some out)"
proof -
  have good: "Good n" if h: "fs_files (w_fs w) p = Some orig" "checked_migration toml b64 (nd_bytes orig) n" for orig n
  proof -
    obtain old new where c: "parse_checked toml b64 (nd_bytes orig) = Inr old"
      "migrate_deployment_toml_text (nd_bytes orig) = Some (nd_bytes n)"
      "migrated_config toml b64 old (nd_bytes n) = Inr new"
      using h(2) by (auto simp: checked_migration_def)
    have "toml (nd_bytes orig) = Some old"
      using c(1) by (auto simp: parse_checked_def split: option.splits sum.splits)
    moreover have m: "parse_checked toml b64 (nd_bytes n) = Inr new"
      "dc_schema_version new = DEPLOYMENT_SCHEMA_VERSION" "dc_role new = dc_role old" "same_but_identity old new"
      using c(3) by (auto simp: migrated_config_def rbind_eq_Inr)
    moreover have "toml (nd_bytes n) = Some new" "validate_deployment b64 new = Inr ()"
      using m(1) by (auto simp: parse_checked_def split: option.splits sum.splits)
    moreover have "dc_peer_endpoints new = dc_peer_endpoints old" "dc_access_paths new = dc_access_paths old"
      "dc_node_id old \<noteq> [] \<longrightarrow> dc_node_id new = dc_node_id old"
      using arg_cong [OF m(4) [unfolded same_but_identity_def Let_def], of dc_peer_endpoints]
        arg_cong [OF m(4) [unfolded same_but_identity_def Let_def], of dc_access_paths]
        arg_cong [OF m(4) [unfolded same_but_identity_def Let_def], of dc_node_id]
      by (simp_all split: if_splits)
    ultimately show ?thesis using h(1) c(2) unfolding assms(2) by blast
  qed
  let ?P = "\<lambda>s. fs_files s p = fs_files (w_fs w) p \<or> (\<exists>n. fs_files s p = Some n \<and> Good n)"
  from migrate_deployment_run [OF assms(1)]
  have "extends ?P w w' \<and> (\<forall>b. r = Inr (DMigrated b) \<longrightarrow> (\<exists>n orig. fs_files (w_fs w') p = Some n \<and> Good n
        \<and> fs_files (w_fs w) p = Some orig \<and> ready b (nd_bytes orig) 0x180 (w_fs w')))
    \<and> ((\<forall>b. r \<noteq> Inr (DMigrated b)) \<longrightarrow> fs_files (w_fs w') p = fs_files (w_fs w) p)"
  proof (elim disjE exE conjE, goal_cases)
    case (1 orig n)
    have "extends ?P w w'" by (rule extends_mono [OF 1(2)]) (use good 1(1) in blast)
    moreover have "Good n" by (rule good [OF 1(1) 1(5)])
    ultimately show ?case using 1(1,3,4,6) by simp
  next
    case (2 orig)
    have "extends ?P w w'" by (rule extends_mono [OF 2(2)]) (use good 2(1) in blast)
    with 2(3,4) show ?case by simp
  next
    case 3
    have "extends ?P w w'" by (rule extends_mono [OF 3(2)]) (simp add: file_is_def)
    with 3 show ?case by (simp add: extends_def file_is_def)
  qed
  moreover have "r = Inr (DMigrated (backup_path ts p)) \<and> map_option nd_bytes (fs_files (w_fs w') p) = Some out"
    if "w_script w = []" "fs_dirs (w_fs w) (fst p) \<noteq> None" "fs_files (w_fs w) p = Some orig"
      "toml (nd_bytes orig) = Some old" "validate_deployment b64 old = Inr ()"
      "migrate_deployment_toml_text (nd_bytes orig) = Some out" "toml out = Some new" "validate_deployment b64 new = Inr ()"
      "dc_schema_version new = DEPLOYMENT_SCHEMA_VERSION" "dc_role new = dc_role old" "same_but_identity old new"
    for orig old out new
    using migrate_deployment_completes [OF that(1-3), of toml b64 old out new pr ts] that(4-11) assms(1)
    by (auto simp: parse_checked_def migrated_config_def)
  ultimately show ?thesis unfolding extends_def list_all_iff by blast
qed

text \<open>A relay's file without a schema version, and a reader that takes the version from the text.\<close>

definition example_relay_text :: string where
  "example_relay_text = ''node_id = '' @ debug_plain ''ru-1'' @ LF @ ''role = '' @ debug_plain ''relay'' @ LF"

definition example_reader :: "string \<Rightarrow> DeploymentConfig option" where
  "example_reader s = Some (example_relay\<lparr>dc_schema_version :=
     (if value_of (top_level (str_lines s)) ''schema_version'' = Some ''2'' then 2 else 1)\<rparr>)"

definition example_relay_world :: world where
  "example_relay_world =
     \<lparr>w_fs = \<lparr>fs_files = [example_path \<mapsto> example_node\<lparr>nd_bytes := example_relay_text\<rparr>], fs_dirs = [''/etc/vpn'' \<mapsto> 990]\<rparr>,
      w_script = [], w_trace = []\<rparr>"

lemma example_relay_text_migrates:
  "value_of (top_level (str_lines example_relay_text)) ''schema_version'' = None"
  "\<exists>out. migrate_deployment_toml_text example_relay_text = Some out
     \<and> value_of (top_level (str_lines out)) ''schema_version'' = Some ''2''"
proof -
  have l: "str_lines example_relay_text = [''node_id = '' @ debug_plain ''ru-1'', ''role = '' @ debug_plain ''relay'']"
    by (simp add: example_relay_text_def debug_plain_def LF_def)
  have h: "\<not> is_header (''node_id = '' @ debug_plain ''ru-1'')" "\<not> is_header (''role = '' @ debug_plain ''relay'')"
    "top_level_key (''node_id = '' @ debug_plain ''ru-1'') = Some ''node_id''"
    "top_level_key (''role = '' @ debug_plain ''relay'') = Some ''role''"
    by (simp_all add: top_level_key_def is_header_def trim_start_plain is_whitespace_def code_point_def
        starts_with_def trim_def trim_end_by_def utf8_len_def Let_def)
  show v: "value_of (top_level (str_lines example_relay_text)) ''schema_version'' = None"
    unfolding l top_level_def using h by simp
  then obtain out where t: "migrate_deployment_toml_text example_relay_text = Some out"
    using that by (auto simp: migrate_deployment_toml_text_def Let_def case_prod_beta)
  have "CHR 0x0D \<notin> set example_relay_text"
    by (simp add: example_relay_text_def debug_plain_def LF_def)
  from migrate_text_correct [OF this t refl refl] t
  show "\<exists>out. migrate_deployment_toml_text example_relay_text = Some out
     \<and> value_of (top_level (str_lines out)) ''schema_version'' = Some ''2''" by blast
qed

lemma example_relay_reads:
  "\<exists>old. example_reader s = Some old \<and> validate_deployment example_b64 old = Inr () \<and> dc_role old = Relay
     \<and> old\<lparr>dc_schema_version := 0\<rparr> = example_relay\<lparr>dc_schema_version := 0\<rparr>"
  "value_of (top_level (str_lines s)) ''schema_version'' = Some ''2'' \<Longrightarrow> example_reader s = Some example_relay"
proof -
  have "validate_deployment example_b64 (example_relay\<lparr>dc_schema_version := 1\<rparr>) = Inr ()"
    unfolding validate_deployment_ok
    using example_relay_texts example_relay_peer by (simp add: example_relay_def text_eval section_eval)
  moreover have "example_relay\<lparr>dc_schema_version := 2\<rparr> = example_relay" by (simp add: example_relay_def)
  moreover have "dc_role (example_relay\<lparr>dc_schema_version := n\<rparr>) = Relay" for n by (simp add: example_relay_def)
  ultimately show "\<exists>old. example_reader s = Some old \<and> validate_deployment example_b64 old = Inr () \<and> dc_role old = Relay
     \<and> old\<lparr>dc_schema_version := 0\<rparr> = example_relay\<lparr>dc_schema_version := 0\<rparr>"
    using example_relay_valid by (auto simp: example_reader_def)
  show "value_of (top_level (str_lines s)) ''schema_version'' = Some ''2'' \<Longrightarrow> example_reader s = Some example_relay"
    by (simp add: example_reader_def example_relay_def)
qed

theorem migrate_deployment_safe_witness:
  "\<exists>w' out backup. migrate_deployment_toml example_reader example_b64 example_proc 5 example_path example_relay_world
      = (w', Inr (DMigrated backup))
     \<and> migrate_deployment_toml_text example_relay_text = Some out \<and> out \<noteq> example_relay_text
     \<and> map_option nd_bytes (fs_files (w_fs w') example_path) = Some out
     \<and> ready backup example_relay_text 0x180 (w_fs w')"
proof -
  let ?orig = "example_node\<lparr>nd_bytes := example_relay_text\<rparr>"
  obtain w' r where m: "migrate_deployment_toml example_reader example_b64 example_proc 5 example_path example_relay_world
      = (w', r)" by fastforce
  obtain out where t: "migrate_deployment_toml_text example_relay_text = Some out"
    "value_of (top_level (str_lines out)) ''schema_version'' = Some ''2''"
    using example_relay_text_migrates(2) by blast
  obtain old where o: "example_reader example_relay_text = Some old" "validate_deployment example_b64 old = Inr ()"
    "dc_role old = Relay" "old\<lparr>dc_schema_version := 0\<rparr> = example_relay\<lparr>dc_schema_version := 0\<rparr>"
    using example_relay_reads(1) by blast
  have n: "example_reader out = Some example_relay" "dc_schema_version example_relay = DEPLOYMENT_SCHEMA_VERSION"
    "dc_role example_relay = dc_role old"
    using example_relay_reads(2) [OF t(2)] o(3) by (simp_all add: example_relay_def DEPLOYMENT_SCHEMA_VERSION_def)
  have "dc_node_id old = dc_node_id example_relay" using arg_cong [OF o(4), of dc_node_id] by simp
  then have s: "same_but_identity old example_relay"
    using o(4) by (cases "dc_node_id old = []") (simp_all add: same_but_identity_def example_relay_def)
  have w: "w_script example_relay_world = []" "fs_dirs (w_fs example_relay_world) (fst example_path) \<noteq> None"
    "fs_files (w_fs example_relay_world) example_path = Some ?orig"
    by (simp_all add: example_relay_world_def example_path_def)
  note main = migrate_deployment_safe [OF m refl]
  have "r = Inr (DMigrated (backup_path 5 example_path)) \<and> map_option nd_bytes (fs_files (w_fs w') example_path) = Some out"
    using conjunct2 [OF conjunct2 [OF conjunct2 [OF main]], rule_format, of ?orig old out example_relay]
      w o t(1) n s example_relay_valid by simp
  moreover from this have "ready (backup_path 5 example_path) example_relay_text 0x180 (w_fs w')"
    using conjunct1 [OF conjunct2 [OF main]] w(3) by auto
  moreover have "out \<noteq> example_relay_text" using t(2) example_relay_text_migrates(1) by auto
  ultimately show ?thesis using m t(1) by blast
qed

text \<open>Setting or clearing the exit policy or the TLS spoof in the deployment file never touches
  another setting: in every state the file system goes through, whatever call fails, the file is
  the original or a text that parses to a valid deployment equal to the original one in every
  field but the patched section.\<close>

theorem section_patches_keep_settings:
  "(\<exists>ss. w_trace (fst (apply_exit_egress_toml toml b64 pr ts p policy w)) = w_trace w @ ss
     \<and> (\<forall>s\<in>set ss. fs_files s p = fs_files (w_fs w) p
        \<or> (\<exists>orig n old new. fs_files (w_fs w) p = Some orig \<and> fs_files s p = Some n
             \<and> toml (nd_bytes orig) = Some old \<and> toml (nd_bytes n) = Some new
             \<and> new\<lparr>dc_egress := None\<rparr> = old\<lparr>dc_egress := None\<rparr> \<and> validate_deployment b64 new = Inr ())))
   \<and> (\<exists>ss. w_trace (fst (apply_tls_spoof_toml toml b64 pr ts p spoof w)) = w_trace w @ ss
     \<and> (\<forall>s\<in>set ss. fs_files s p = fs_files (w_fs w) p
        \<or> (\<exists>orig n old new. fs_files (w_fs w) p = Some orig \<and> fs_files s p = Some n
             \<and> toml (nd_bytes orig) = Some old \<and> toml (nd_bytes n) = Some new
             \<and> new\<lparr>dc_google_egress_tls_spoof := None\<rparr> = old\<lparr>dc_google_egress_tls_spoof := None\<rparr>
             \<and> validate_deployment b64 new = Inr ())))"
proof
  obtain ss where ss: "w_trace (fst (apply_exit_egress_toml toml b64 pr ts p policy w)) = w_trace w @ ss"
    "\<forall>s\<in>set ss. fs_files s p = fs_files (w_fs w) p
      \<or> (\<exists>n orig. fs_files (w_fs w) p = Some orig \<and> fs_files s p = Some n
           \<and> patched_ok toml b64 (dc_egress_update (\<lambda>_. None)) (nd_bytes orig) n)"
    using exit_egress_replaces [of p w toml b64 pr ts policy] unfolding extends_def list_all_iff by blast
  show "\<exists>ss. w_trace (fst (apply_exit_egress_toml toml b64 pr ts p policy w)) = w_trace w @ ss
     \<and> (\<forall>s\<in>set ss. fs_files s p = fs_files (w_fs w) p
        \<or> (\<exists>orig n old new. fs_files (w_fs w) p = Some orig \<and> fs_files s p = Some n
             \<and> toml (nd_bytes orig) = Some old \<and> toml (nd_bytes n) = Some new
             \<and> new\<lparr>dc_egress := None\<rparr> = old\<lparr>dc_egress := None\<rparr> \<and> validate_deployment b64 new = Inr ()))"
    by (rule exI [of _ ss]) (use ss in \<open>unfold patched_ok_def, blast\<close>)
next
  obtain ss where ss: "w_trace (fst (apply_tls_spoof_toml toml b64 pr ts p spoof w)) = w_trace w @ ss"
    "\<forall>s\<in>set ss. fs_files s p = fs_files (w_fs w) p
      \<or> (\<exists>n orig. fs_files (w_fs w) p = Some orig \<and> fs_files s p = Some n
           \<and> patched_ok toml b64 (dc_google_egress_tls_spoof_update (\<lambda>_. None)) (nd_bytes orig) n)"
    using tls_spoof_replaces [of p w toml b64 pr ts spoof] unfolding extends_def list_all_iff by blast
  show "\<exists>ss. w_trace (fst (apply_tls_spoof_toml toml b64 pr ts p spoof w)) = w_trace w @ ss
     \<and> (\<forall>s\<in>set ss. fs_files s p = fs_files (w_fs w) p
        \<or> (\<exists>orig n old new. fs_files (w_fs w) p = Some orig \<and> fs_files s p = Some n
             \<and> toml (nd_bytes orig) = Some old \<and> toml (nd_bytes n) = Some new
             \<and> new\<lparr>dc_google_egress_tls_spoof := None\<rparr> = old\<lparr>dc_google_egress_tls_spoof := None\<rparr>
             \<and> validate_deployment b64 new = Inr ()))"
    by (rule exI [of _ ss]) (use ss in \<open>unfold patched_ok_def, blast\<close>)
qed

theorem section_patches_keep_settings_witness:
  "list_all (\<lambda>s. fs_files s example_path \<noteq> None)
     (drop (length (w_trace example_world)) (w_trace (fst (apply_tls_spoof_toml (\<lambda>_. Some example_relay)
        example_b64 example_proc 5 example_path None example_world))))"
proof -
  have "fs_files (w_fs example_world) example_path = Some example_node" by (simp add: example_world_def)
  then show ?thesis
    using conjunct2 [OF section_patches_keep_settings [of "\<lambda>_. Some example_relay" example_b64 example_proc 5
      example_path None example_world None]]
    by (auto simp: list_all_iff)
qed

end
