(* ===== verification/IpText.thy ===== *)
theory IpText
  imports IpAddr RustStd
begin

text \<open>
  How the standard library prints IP addresses (\<open>Display\<close> of \<open>std::net\<close>): dotted decimals, and
  for IPv6 the groups in hexadecimal with the first longest run of two or more zero groups
  compressed, and IPv4-mapped addresses with a dotted tail.  The parser reads every printed
  address back, so an address put as text into a document denotes that address.
\<close>

fun show_hex :: "nat \<Rightarrow> string" where
  "show_hex n = (if n < 16 then [hex_digit n] else show_hex (n div 16) @ [hex_digit (n mod 16)])"

declare show_hex.simps [simp del]

fun join_by :: "string \<Rightarrow> string list \<Rightarrow> string" where
  "join_by sep [] = []"
| "join_by sep [x] = x"
| "join_by sep (x # y # xs) = x @ sep @ join_by sep (y # xs)"

definition octets_of :: "Ipv4Addr \<Rightarrow> nat list" where
  "octets_of a = map (\<lambda>i. unat (octet i a)) [0, 1, 2, 3]"

definition segments_of :: "Ipv6Addr \<Rightarrow> nat list" where
  "segments_of a = map (\<lambda>i. unat (segment i a)) [0, 1, 2, 3, 4, 5, 6, 7]"

definition show_v4 :: "Ipv4Addr \<Rightarrow> string" where
  "show_v4 a = join_by ''.'' (map show_nat (octets_of a))"

text \<open>The loop that finds the first longest run of zero groups: the position, the current run and
  the longest one so far, each as start and length.\<close>

fun zero_run :: "nat \<Rightarrow> nat \<times> nat \<Rightarrow> nat \<times> nat \<Rightarrow> nat list \<Rightarrow> nat \<times> nat" where
  "zero_run i cur best [] = best"
| "zero_run i cur best (g # gs) =
     (if g = 0 then
        (let cur = (if snd cur = 0 then i else fst cur, snd cur + 1);
             best = (if snd cur > snd best then cur else best)
         in zero_run (i + 1) cur best gs)
      else zero_run (i + 1) (0, 0) best gs)"

definition show_v6 :: "Ipv6Addr \<Rightarrow> string" where
  "show_v6 a =
     (case to_ipv4_mapped a of
        Some v4 \<Rightarrow> ''::ffff:'' @ show_v4 v4
      | None \<Rightarrow>
          let gs = segments_of a; (start, len) = zero_run 0 (0, 0) (0, 0) gs in
          if len > 1
          then join_by '':'' (map show_hex (take start gs)) @ ''::''
                 @ join_by '':'' (map show_hex (drop (start + len) gs))
          else join_by '':'' (map show_hex gs))"

fun show_ip :: "IpAddr \<Rightarrow> string" where
  "show_ip (V4 a) = show_v4 a"
| "show_ip (V6 a) = show_v6 a"

section \<open>Numbers\<close>

text \<open>\<open>prints r s n\<close>: \<open>s\<close> is \<open>n\<close> in base \<open>r\<close>, without leading zeros.\<close>

definition prints :: "nat \<Rightarrow> string \<Rightarrow> nat \<Rightarrow> bool" where
  "prints r s n \<longleftrightarrow> (\<exists>ds. map (to_digit r) s = map Some ds \<and> foldl (\<lambda>acc d. acc * r + d) 0 ds = n
     \<and> ds \<noteq> [] \<and> (length ds > 1 \<longrightarrow> hd ds \<noteq> 0) \<and> (\<forall>k > 0. n < r ^ k \<longrightarrow> length ds \<le> k))"

lemma prints_digit: "to_digit r c = Some n \<Longrightarrow> prints r [c] n"
  unfolding prints_def by (rule exI [of _ "[n]"]) auto

lemma prints_snoc:
  assumes "prints r s n" "to_digit r c = Some d" "d < r" "0 < n"
  shows "prints r (s @ [c]) (n * r + d)"
proof -
  obtain ds where ds: "map (to_digit r) s = map Some ds" "foldl (\<lambda>acc d. acc * r + d) 0 ds = n" "ds \<noteq> []"
    "length ds > 1 \<longrightarrow> hd ds \<noteq> 0" "\<forall>k > 0. n < r ^ k \<longrightarrow> length ds \<le> k"
    using assms(1) by (auto simp: prints_def)
  have "hd ds \<noteq> 0"
  proof (cases "length ds > 1")
    case False
    with ds(3) obtain x where "ds = [x]" by (cases ds; cases "tl ds") auto
    with ds(2) assms(4) show ?thesis by simp
  qed (use ds(4) in simp)
  moreover have "length (ds @ [d]) \<le> k" if "k > 0" "n * r + d < r ^ k" for k
  proof (cases k)
    case (Suc j)
    have "n * r < r ^ j * r"
      by (rule le_less_trans [of _ "n * r + d"]) (use that(2) in \<open>simp_all add: Suc mult.commute\<close>)
    then have "n < r ^ j" by simp
    moreover from this assms(4) have "j > 0" by (cases j) auto
    ultimately show ?thesis using ds(5) by (simp add: Suc)
  qed (use that in simp)
  ultimately show ?thesis
    unfolding prints_def using ds(1-3) assms(2) by (intro exI [of _ "ds @ [d]"]) simp
qed

lemma to_digit_decimal: "d < 10 \<Longrightarrow> to_digit 10 (char_of (48 + d)) = Some d"
  by (simp add: to_digit_def of_char_of)

lemma to_digit_hex: "d < 16 \<Longrightarrow> to_digit 16 (hex_digit d) = Some d"
  by (simp add: to_digit_def hex_digit_def of_char_of)

lemma prints_show_nat: "prints 10 (show_nat n) n"
proof (induction n rule: show_nat.induct)
  case (1 n)
  show ?case
  proof (cases "n < 10")
    case True
    then show ?thesis by (simp add: show_nat.simps [of n] prints_digit to_digit_decimal)
  next
    case False
    have "prints 10 (show_nat (n div 10) @ [char_of (48 + n mod 10)]) (n div 10 * 10 + n mod 10)"
      by (rule prints_snoc [OF 1 [OF False]]) (use False in \<open>simp_all add: to_digit_decimal\<close>)
    with False show ?thesis by (simp add: show_nat.simps [of n])
  qed
qed

lemma prints_show_hex: "prints 16 (show_hex n) n"
proof (induction n rule: show_hex.induct)
  case (1 n)
  show ?case
  proof (cases "n < 16")
    case True
    then show ?thesis by (simp add: show_hex.simps [of n] prints_digit to_digit_hex)
  next
    case False
    have "prints 16 (show_hex (n div 16) @ [hex_digit (n mod 16)]) (n div 16 * 16 + n mod 16)"
      by (rule prints_snoc [OF 1 [OF False]]) (use False in \<open>simp_all add: to_digit_hex\<close>)
    with False show ?thesis by (simp add: show_hex.simps [of n])
  qed
qed

definition no_digit :: "nat \<Rightarrow> string \<Rightarrow> bool" where
  "no_digit r s \<longleftrightarrow> s = [] \<or> to_digit r (hd s) = None"

lemma read_digits_append:
  "map (to_digit r) s = map Some ds \<Longrightarrow> no_digit r rest \<Longrightarrow> read_digits r (s @ rest) = (ds, rest)"
proof (induction s arbitrary: ds)
  case Nil
  then show ?case by (cases rest) (auto simp: no_digit_def)
next
  case (Cons c s)
  then obtain d ds' where "ds = d # ds'" by (cases ds) auto
  with Cons show ?case by simp
qed

lemma read_number_prints:
  assumes "prints r s n" "no_digit r rest" "n < bound" "n < r ^ k" "0 < k"
  shows "read_number r k z bound (s @ rest) = Some (n, rest)"
proof -
  obtain ds where ds: "map (to_digit r) s = map Some ds" "foldl (\<lambda>acc d. acc * r + d) 0 ds = n" "ds \<noteq> []"
    "length ds > 1 \<longrightarrow> hd ds \<noteq> 0" "length ds \<le> k"
    using assms(1,4,5) by (auto simp: prints_def)
  show ?thesis
    unfolding read_number_def read_digits_append [OF ds(1) assms(2)] using ds(2-5) assms(3) by auto
qed

section \<open>Address texts\<close>

lemma join_by_Cons: "join_by sep (x # xs) = x @ (if xs = [] then [] else sep @ join_by sep xs)"
  by (cases xs) simp_all

lemma prints_chars: "prints r s n \<Longrightarrow> c \<in> set s \<Longrightarrow> to_digit r c \<noteq> None"
  unfolding prints_def by (metis (no_types, lifting) imageE image_eqI list.set_map option.distinct(1))

lemma no_digit_sep: "no_digit 10 (CHR ''.'' # s)" "no_digit 16 (CHR '':'' # s)" "no_digit 10 (CHR '':'' # s)"
  by (simp_all add: no_digit_def to_digit_def)

lemma read_octets_text:
  assumes "list_all (\<lambda>v. v < 256) os" "no_digit 10 rest"
  shows "read_octets (length os) i ((if i = 0 \<or> os = [] then [] else ''.'') @ join_by ''.'' (map show_nat os) @ rest)
    = Some (os, rest)"
  using assms(1)
proof (induction os arbitrary: i)
  case (Cons v os)
  let ?rest = "(if os = [] then [] else ''.'' @ join_by ''.'' (map show_nat os)) @ rest"
  define t where "t = ?rest"
  have "no_digit 10 t" using assms(2) no_digit_sep(1) by (simp add: t_def)
  then have n: "read_number 10 3 False 256 (show_nat v @ t) = Some (v, t)"
    using Cons.prems by (intro read_number_prints prints_show_nat) simp_all
  have "read_octets (length os) (Suc i) t = Some (os, rest)"
    using Cons.IH [of "Suc i"] Cons.prems by (simp add: t_def split: if_splits)
  moreover have "join_by ''.'' (map show_nat (v # os)) @ rest = show_nat v @ t"
    by (simp add: join_by_Cons t_def)
  ultimately show ?case using n by (cases "i = 0") (simp_all add: read_sep_def del: join_by.simps)
qed simp

lemma read_digits_rest: "set (snd (read_digits r s)) \<subseteq> set s"
  by (induction r s rule: read_digits.induct) (auto split: option.splits prod.splits)

lemma read_number_rest: "read_number r k z b s = Some (v, rest) \<Longrightarrow> set rest \<subseteq> set s"
  using read_digits_rest [of r s] by (auto simp: read_number_def Let_def split: prod.splits if_splits)

lemma read_ipv4_needs_dot: "CHR ''.'' \<notin> set s \<Longrightarrow> read_ipv4_addr s = None"
proof -
  assume s: "CHR ''.'' \<notin> set s"
  have "read_octets (Suc n) (Suc i) r = None" if "CHR ''.'' \<notin> set r" for n i r
    using that by (cases r) (auto simp: read_sep_def)
  moreover have "CHR ''.'' \<notin> set r" if "read_number 10 3 False 256 s = Some (v, r)" for v r
    using read_number_rest [OF that] s by blast
  ultimately show ?thesis
    unfolding read_ipv4_addr_def
    by (simp add: numeral_eq_Suc read_sep_def del: read_octets_numeral split: option.splits prod.splits)
qed

definition stops :: "string \<Rightarrow> bool" where
  "stops s \<longleftrightarrow> s = [] \<or> take 2 s = ''::''"

lemma stops_group: "stops s \<Longrightarrow> read_number 16 4 True 65536 s = None"
  by (cases s) (auto simp: stops_def read_number_def to_digit_def)

lemma stops_after_sep: "stops s \<Longrightarrow> read_sep (CHR '':'') i s = Some t \<Longrightarrow> read_number 16 4 True 65536 t = None"
  by (cases s; cases "tl s") (auto simp: stops_def read_sep_def read_number_def to_digit_def split: if_splits)

lemma hex_text_no_dot: "CHR ''.'' \<notin> set (join_by '':'' (map show_hex gs))"
proof (induction gs)
  case (Cons x xs)
  have "CHR ''.'' \<notin> set (show_hex x)"
    using prints_chars [OF prints_show_hex] by (force simp: to_digit_def)
  with Cons show ?case by (simp add: join_by_Cons)
qed simp

lemma read_groups_text:
  assumes "list_all (\<lambda>g. g < 65536) gs" "length gs \<le> n" "stops rest" "CHR ''.'' \<notin> set rest"
  shows "read_groups n i ((if i = 0 \<or> gs = [] then [] else '':'') @ join_by '':'' (map show_hex gs) @ rest)
    = (gs, False, rest)"
  using assms(1,2)
proof (induction gs arbitrary: n i)
  case Nil
  have "read_ipv4_addr t = None" if "read_sep (CHR '':'') i rest = Some t" for t
    by (rule read_ipv4_needs_dot) (use that assms(4) in \<open>auto simp: read_sep_def split: if_splits list.splits\<close>)
  with stops_after_sep [OF assms(3)] show ?case
    by (cases n) (auto simp: Let_def split: option.splits)
next
  case (Cons g gs)
  let ?rest = "(if gs = [] then [] else '':'' @ join_by '':'' (map show_hex gs)) @ rest"
  obtain m where n: "n = Suc m" using Cons.prems(2) by (cases n) auto
  define t where "t = ?rest"
  have "no_digit 16 t"
    using assms(3) no_digit_sep(2) by (cases rest) (auto simp: t_def stops_def no_digit_def)
  then have r: "read_number 16 4 True 65536 (show_hex g @ t) = Some (g, t)"
    using Cons.prems by (intro read_number_prints prints_show_hex) simp_all
  have "read_ipv4_addr (show_hex g @ t) = None"
    by (rule read_ipv4_needs_dot) (use hex_text_no_dot [of "g # gs"] assms(4) in \<open>auto simp: t_def join_by_Cons\<close>)
  moreover have "read_groups m (Suc i) t = (gs, False, rest)"
    using Cons.IH [of m "Suc i"] Cons.prems n by (simp add: t_def split: if_splits)
  moreover have "join_by '':'' (map show_hex (g # gs)) @ rest = show_hex g @ t"
    by (simp add: join_by_Cons t_def)
  ultimately show ?case
    using r unfolding n by (cases "i = 0") (simp_all add: read_sep_def del: join_by.simps)
qed

section \<open>Address values\<close>

lemma foldl_radix:
  fixes b n :: nat
  assumes "j \<le> k"
  shows "foldl (\<lambda>acc d. acc * b + d) 0 (map (\<lambda>i. n div b ^ (k - 1 - i) mod b) [0..<j]) = (n div b ^ (k - j)) mod b ^ j"
  using assms
proof (induction j)
  case (Suc j)
  let ?m = "n div b ^ (k - 1 - j)"
  have "k - j = Suc (k - 1 - j)" using Suc.prems by simp
  then have "n div b ^ (k - j) = n div (b ^ (k - 1 - j) * b)" by (simp only: power_Suc mult.commute)
  also have "\<dots> = ?m div b" by (rule div_mult2_eq)
  finally have "n div b ^ (k - j) = ?m div b" .
  with Suc have "foldl (\<lambda>acc d. acc * b + d) 0 (map (\<lambda>i. n div b ^ (k - 1 - i) mod b) [0..<Suc j])
      = (?m div b mod b ^ j) * b + ?m mod b" by simp
  also have "\<dots> = ?m mod b ^ Suc j" by (simp add: mod_mult2_eq mult.commute)
  finally show ?case by simp
qed simp

lemma octets_radix: "octets_of a = map (\<lambda>i. unat a div 256 ^ (4 - 1 - i) mod 256) [0..<4]"
proof -
  have "octets_of a = map (\<lambda>i. unat (octet i a)) [0..<4]" by (simp add: octets_of_def upt_conv_Cons numeral_eq_Suc)
  also have "\<dots> = map (\<lambda>i. unat a div 256 ^ (4 - 1 - i) mod 256) [0..<4]"
  proof (rule map_cong [OF refl])
    fix i :: nat assume "i \<in> set [0..<4]"
    then have "i \<le> 3" "8 * (4 - 1 - i) = 24 - 8 * i" by auto
    moreover have "(256 :: nat) ^ (4 - 1 - i) = 2 ^ (8 * (4 - 1 - i))" by (simp only: power_mult) simp
    ultimately show "unat (octet i a) = unat a div 256 ^ (4 - 1 - i) mod 256"
      using unat_octet [of i a] by (simp only:)
  qed
  finally show ?thesis .
qed

lemma segments_radix: "segments_of a = map (\<lambda>i. unat a div 65536 ^ (8 - 1 - i) mod 65536) [0..<8]"
proof -
  have "segments_of a = map (\<lambda>i. unat (segment i a)) [0..<8]" by (simp add: segments_of_def upt_conv_Cons numeral_eq_Suc)
  also have "\<dots> = map (\<lambda>i. unat a div 65536 ^ (8 - 1 - i) mod 65536) [0..<8]"
  proof (rule map_cong [OF refl])
    fix i :: nat assume "i \<in> set [0..<8]"
    then have "i \<le> 7" "16 * (8 - 1 - i) = 112 - 16 * i" by auto
    moreover have "(65536 :: nat) ^ (8 - 1 - i) = 2 ^ (16 * (8 - 1 - i))" by (simp only: power_mult) simp
    ultimately show "unat (segment i a) = unat a div 65536 ^ (8 - 1 - i) mod 65536"
      using unat_segment [of i a] by (simp only:)
  qed
  finally show ?thesis .
qed

lemma octets_value: "foldl (\<lambda>acc d. acc * 256 + d) 0 (octets_of a) = unat a"
  unfolding octets_radix using foldl_radix [of 4 4 256 "unat a"] unat_v4_bound [of a] by simp

lemma segments_value: "foldl (\<lambda>acc d. acc * 65536 + d) 0 (segments_of a) = unat a"
  unfolding segments_radix using foldl_radix [of 8 8 65536 "unat a"] unat_v6_bound [of a] by simp

definition zeros_at :: "nat list \<Rightarrow> nat \<times> nat \<Rightarrow> bool" where
  "zeros_at gs r \<longleftrightarrow> fst r + snd r \<le> length gs \<and> (\<forall>j. fst r \<le> j \<and> j < fst r + snd r \<longrightarrow> gs ! j = 0)"

lemma zero_run_zeros:
  assumes "zeros_at all best" "zeros_at all cur" "snd cur \<noteq> 0 \<longrightarrow> fst cur + snd cur = i"
    "all = pre @ gs" "i = length pre"
  shows "zeros_at all (zero_run i cur best gs)"
  using assms
proof (induction gs arbitrary: i cur best pre)
  case (Cons g gs)
  show ?case
  proof (cases "g = 0")
    case True
    define c where "c = (if snd cur = 0 then i else fst cur, snd cur + 1)"
    define b where "b = (if snd c > snd best then c else best)"
    have "all ! i = 0" "i < length all" using Cons.prems(4,5) True by (simp_all add: nth_append)
    then have "zeros_at all c" "fst c + snd c = i + 1"
      using Cons.prems(2,3) by (auto simp: c_def zeros_at_def less_Suc_eq)
    moreover have "zeros_at all b" using Cons.prems(1) calculation(1) by (simp add: b_def)
    ultimately have "zeros_at all (zero_run (i + 1) c b gs)"
      using Cons.prems(4,5) by (intro Cons.IH [of b c "i + 1" "pre @ [g]"]) simp_all
    moreover have "zero_run i cur best (g # gs) = zero_run (i + 1) c b gs"
      unfolding c_def b_def using True by (simp add: Let_def)
    ultimately show ?thesis by simp
  next
    case False
    then show ?thesis
      using Cons.IH [of best "(0, 0)" "i + 1" "pre @ [g]"] Cons.prems(1,4,5) by (simp add: zeros_at_def)
  qed
qed simp

lemma zeros_split:
  assumes "zeros_at gs (s, l)"
  shows "gs = take s gs @ replicate l 0 @ drop (s + l) gs"
proof (rule nth_equalityI)
  show "length gs = length (take s gs @ replicate l 0 @ drop (s + l) gs)"
    using assms by (simp add: zeros_at_def)
next
  fix i assume "i < length gs"
  then show "gs ! i = (take s gs @ replicate l 0 @ drop (s + l) gs) ! i"
    using assms by (auto simp: zeros_at_def nth_append not_less)
qed

section \<open>Reading back\<close>

lemma octets_bound: "list_all (\<lambda>v. v < 256) (octets_of a)" "length (octets_of a) = 4"
  using unsigned_less [where 'a = nat and 'b = 8] by (simp_all add: octets_of_def)

lemma segments_bound: "list_all (\<lambda>v. v < 65536) (segments_of a)" "length (segments_of a) = 8"
  using unsigned_less [where 'a = nat and 'b = 16] by (simp_all add: segments_of_def)

lemma read_v4_text: "no_digit 10 rest \<Longrightarrow> read_ipv4_addr (show_v4 a @ rest) = Some (octets_of a, rest)"
  using read_octets_text [OF octets_bound(1), of rest a 0] octets_bound(2)
  by (simp add: read_ipv4_addr_def show_v4_def del: read_octets_numeral)

lemma parse_show_v4: "parse_ip (show_v4 a) = Some (V4 a)"
  using read_v4_text [of "[]" a] by (simp add: parse_ip_def no_digit_def octets_value)

lemma read_v6_full:
  assumes "list_all (\<lambda>v. v < 65536) gs" "length gs = 8"
  shows "read_ipv6_addr (join_by '':'' (map show_hex gs)) = Some (gs, [])"
  using read_groups_text [of gs 8 "[]" 0] assms
  by (simp add: read_ipv6_addr_def stops_def del: read_groups_numeral)

lemma read_v6_compressed:
  assumes "list_all (\<lambda>v. v < 65536) (hs @ ts)" "length hs + length ts < 8"
  shows "read_ipv6_addr (join_by '':'' (map show_hex hs) @ ''::'' @ join_by '':'' (map show_hex ts))
    = Some (hs @ replicate (8 - length hs - length ts) 0 @ ts, [])"
proof -
  let ?t = "join_by '':'' (map show_hex ts)"
  have dot: "CHR ''.'' \<notin> set ?t" by (rule hex_text_no_dot)
  have h: "read_groups 8 0 (join_by '':'' (map show_hex hs) @ ''::'' @ ?t) = (hs, False, ''::'' @ ?t)"
    using read_groups_text [of hs 8 "''::'' @ ?t" 0] assms dot
    by (simp add: stops_def del: read_groups_numeral)
  have t: "read_groups (8 - (length hs + 1)) 0 ?t = (ts, False, [])"
    using read_groups_text [of ts "8 - (length hs + 1)" "[]" 0] assms by (simp add: stops_def)
  have "length hs \<noteq> 8" "length hs < 8" using assms by simp_all
  then show ?thesis
    unfolding read_ipv6_addr_def h using t by simp
qed

lemma segments_zero_run:
  assumes "zero_run 0 (0, 0) (0, 0) (segments_of a) = (start, len)"
  shows "segments_of a = take start (segments_of a) @ replicate len 0 @ drop (start + len) (segments_of a)"
    and "start + len \<le> 8"
proof -
  have "zeros_at (segments_of a) (start, len)"
    using zero_run_zeros [of "segments_of a" "(0, 0)" "(0, 0)" 0 "[]" "segments_of a"] assms
    by (simp add: zeros_at_def)
  then show "segments_of a = take start (segments_of a) @ replicate len 0 @ drop (start + len) (segments_of a)"
    "start + len \<le> 8"
    using zeros_split segments_bound(2) by (auto simp: zeros_at_def)
qed

lemma parse_v6_text:
  assumes "read_ipv4_addr s = None" "read_ipv6_addr s = Some (segments_of a, [])"
  shows "parse_ip s = Some (V6 a)"
  using assms by (simp add: parse_ip_def segments_value)

lemma parse_show_v6_plain:
  assumes "to_ipv4_mapped a = None"
  shows "parse_ip (show_v6 a) = Some (V6 a)"
proof -
  obtain start len where z: "zero_run 0 (0, 0) (0, 0) (segments_of a) = (start, len)" by fastforce
  let ?hs = "take start (segments_of a)" and ?ts = "drop (start + len) (segments_of a)"
  show ?thesis
  proof (cases "len > 1")
    case True
    have e: "show_v6 a = join_by '':'' (map show_hex ?hs) @ ''::'' @ join_by '':'' (map show_hex ?ts)"
      using assms z True by (simp add: show_v6_def Let_def)
    have l: "length ?hs = start" "length ?ts = 8 - (start + len)" "start + len \<le> 8"
      using segments_zero_run(2) [OF z] segments_bound(2) [of a] by simp_all
    have "list_all (\<lambda>v. v < 65536) (?hs @ ?ts)"
      using segments_bound(1) [of a] by (auto simp: list_all_iff dest: in_set_takeD in_set_dropD)
    then have "read_ipv6_addr (show_v6 a) = Some (?hs @ replicate (8 - length ?hs - length ?ts) 0 @ ?ts, [])"
      unfolding e using l True by (intro read_v6_compressed) simp_all
    moreover have "8 - length ?hs - length ?ts = len" using l by simp
    ultimately have "read_ipv6_addr (show_v6 a) = Some (segments_of a, [])"
      using segments_zero_run(1) [OF z] by metis
    moreover have "read_ipv4_addr (show_v6 a) = None"
      unfolding e by (rule read_ipv4_needs_dot) (simp add: hex_text_no_dot)
    ultimately show ?thesis by (intro parse_v6_text)
  next
    case False
    have e: "show_v6 a = join_by '':'' (map show_hex (segments_of a))"
      using assms z False by (simp add: show_v6_def Let_def)
    show ?thesis
      unfolding e by (intro parse_v6_text read_ipv4_needs_dot hex_text_no_dot read_v6_full segments_bound)
  qed
qed

lemma read_v6_mapped:
  "read_ipv6_addr (''::ffff:'' @ show_v4 v) =
     Some ([0, 0, 0, 0, 0, 65535, octets_of v ! 0 * 256 + octets_of v ! 1, octets_of v ! 2 * 256 + octets_of v ! 3], [])"
proof -
  let ?s = "show_v4 v"
  have v4: "read_ipv4_addr ?s = Some (octets_of v, [])" using read_v4_text [of "[]" v] by (simp add: no_digit_def)
  have no4: "read_ipv4_addr (c # t) = None" if "to_digit 10 c = None" for c t
    using that by (simp add: read_ipv4_addr_def read_sep_def read_number_def)
  have h: "read_groups 8 0 (''::ffff:'' @ ?s) = ([], False, ''::ffff:'' @ ?s)"
    by (subst read_groups_numeral) (simp add: no4 to_digit_def read_sep_def read_number_def del: read_groups_numeral)
  have "read_groups 6 1 (CHR '':'' # ?s)
      = ([octets_of v ! 0 * 256 + octets_of v ! 1, octets_of v ! 2 * 256 + octets_of v ! 3], True, [])"
    using v4 by (subst read_groups_numeral) (simp add: read_sep_def del: read_groups_numeral)
  moreover have "read_number 16 4 True 65536 (''ffff:'' @ ?s) = Some (65535, CHR '':'' # ?s)"
    by (simp add: read_number_def to_digit_def)
  moreover have "read_ipv4_addr (''ffff:'' @ ?s) = None"
    by (simp add: no4 to_digit_def)
  ultimately have "read_groups 7 0 (''ffff:'' @ ?s)
      = ([65535, octets_of v ! 0 * 256 + octets_of v ! 1, octets_of v ! 2 * 256 + octets_of v ! 3], True, [])"
    by (subst read_groups_numeral) (simp add: read_sep_def del: read_groups_numeral)
  moreover have "replicate 5 0 = [0 :: nat, 0, 0, 0, 0]" by (simp add: numeral_eq_Suc)
  ultimately show ?thesis
    unfolding read_ipv6_addr_def h by (simp del: read_groups_numeral)
qed

lemma parse_show_v6_mapped:
  assumes "to_ipv4_mapped a = Some v"
  shows "parse_ip (show_v6 a) = Some (V6 a)"
proof -
  have "unat a = 65535 * 2 ^ 32 + unat v"
    using assms div_mult_mod_eq [of "unat a" "2 ^ 32"] by (simp add: to_ipv4_mapped_iff)
  also have "unat v = foldl (\<lambda>acc d. acc * 256 + d) 0 (octets_of v)" by (simp only: octets_value)
  finally have a: "foldl (\<lambda>acc d. acc * 65536 + d) 0
      [0, 0, 0, 0, 0, 65535, octets_of v ! 0 * 256 + octets_of v ! 1, octets_of v ! 2 * 256 + octets_of v ! 3] = unat a"
    by (simp add: octets_of_def)
  have "show_v6 a = ''::ffff:'' @ show_v4 v" using assms by (simp add: show_v6_def)
  moreover have "read_ipv4_addr (''::ffff:'' @ show_v4 v) = None"
    by (simp add: read_ipv4_addr_def read_sep_def read_number_def to_digit_def)
  ultimately show ?thesis
    unfolding parse_ip_def using read_v6_mapped [of v] a by (simp del: foldl_Cons)
qed

section \<open>The round trip\<close>

text \<open>The standard library reads back every address it prints, whatever its family and
  compression, so the address text the renderer puts into a rule denotes exactly the address
  that was parsed from the declaration.\<close>

lemma parse_show_ip: "parse_ip (show_ip ip) = Some ip"
proof (cases ip)
  case (V6 a)
  then show ?thesis
    using parse_show_v6_plain [of a] parse_show_v6_mapped [of a] by (cases "to_ipv4_mapped a") simp_all
qed (simp add: parse_show_v4)

end
