(* ===== verification/ServerConfig.thy ===== *)
theory ServerConfig
  imports Deployment Authorization Json IpText
begin

text \<open>
  The server document of a node, \<open>crates/compat-config/src/server.rs\<close>: the two inbounds with one
  entry per authorized grant, and the route rules that make an exit refuse protected
  destinations, a relay forward only to its declared exits, and the probe identity reach only
  its allow-list; and the checks of a rendered document that the doctor command runs.
  A document is the JSON value that is written for the core.
\<close>

section \<open>The inbounds\<close>

record ServerPorts =
  sp_vless_reality_port :: nat
  sp_hysteria2_port :: nat

definition ports_for_deployment :: "DeploymentConfig \<Rightarrow> ServerPorts" where
  "ports_for_deployment d =
     \<lparr>sp_vless_reality_port = rl_listen_port (dc_reality d), sp_hysteria2_port = hy_listen_port (dc_hysteria2 d)\<rparr>"

definition server_log_options :: json where
  "server_log_options = jobj [(''level'', JStr ''fatal''), (''timestamp'', JBool True)]"

definition authorized_grants :: "CompatUser list \<Rightarrow> int \<Rightarrow> (CompatUser \<times> CredentialGrant) list" where
  "authorized_grants users now =
     concat (map (\<lambda>u. map (Pair u) (filter (\<lambda>g. grant_is_authorized g now) (effective_grants u)))
       (filter (\<lambda>u. is_active u now) users))"

definition vless_user :: "CompatUser \<times> CredentialGrant \<Rightarrow> json" where
  "vless_user ug =
     jobj [(''name'', JStr (g_principal_id (snd ug))), (''uuid'', JStr (g_vless_uuid (snd ug))),
           (''flow'', JStr (if u_vision_off (fst ug) then [] else ''xtls-rprx-vision''))]"

definition hysteria_user :: "CompatUser \<times> CredentialGrant \<Rightarrow> json" where
  "hysteria_user ug =
     jobj [(''name'', JStr (g_principal_id (snd ug))), (''password'', JStr (g_hysteria2_password (snd ug)))]"

definition hysteria_inbound :: "json list \<Rightarrow> Hysteria2ServerParams \<Rightarrow> ServerPorts \<Rightarrow> json" where
  "hysteria_inbound hysteria_users hysteria ports =
     (let i = jobj [(''type'', JStr ''hysteria2''), (''tag'', JStr ''hysteria2-in''), (''listen'', JStr ''::''),
                (''listen_port'', jnat (sp_hysteria2_port ports)), (''users'', JArr hysteria_users),
                (''tls'', jobj [(''enabled'', JBool True), (''certificate_path'', JStr (hs_tls_cert_path hysteria)),
                   (''key_path'', JStr (hs_tls_key_path hysteria))])];
          i = (case hs_masquerade_dir_path hysteria of
                 None \<Rightarrow> i
               | Some p \<Rightarrow> jset ''masquerade'' (jobj [(''type'', JStr ''file''), (''directory'', JStr p)]) i);
          i = (case hs_obfs_password hysteria of
                 None \<Rightarrow> i
               | Some pw \<Rightarrow> jset ''obfs'' (jobj [(''type'', JStr ''salamander''), (''password'', JStr pw)]) i)
      in case (hs_up_mbps hysteria, hs_down_mbps hysteria) of
           (Some up, Some down) \<Rightarrow> jset ''down_mbps'' (jnat down) (jset ''up_mbps'' (jnat up) i)
         | _ \<Rightarrow> jset ''ignore_client_bandwidth'' (JBool True) i)"

definition vless_inbound :: "json list \<Rightarrow> RealityServerParams \<Rightarrow> ServerPorts \<Rightarrow> json" where
  "vless_inbound vless_users reality ports =
     jobj [(''type'', JStr ''vless''), (''tag'', JStr ''vless-reality-in''), (''listen'', JStr ''::''),
           (''listen_port'', jnat (sp_vless_reality_port ports)), (''users'', JArr vless_users),
           (''tls'', jobj [(''enabled'', JBool True), (''server_name'', JStr (rs_handshake_server reality)),
              (''reality'', jobj [(''enabled'', JBool True),
                 (''handshake'', jobj [(''server'', JStr (rs_handshake_server reality)),
                                       (''server_port'', jnat (rs_handshake_port reality))]),
                 (''private_key'', JStr (rs_private_key reality)), (''short_id'', jstrs (rs_short_ids reality))])]),
           (''multiplex'', jobj [(''enabled'', JBool True)])]"

definition render_singbox_server_config ::
    "CompatUser list \<Rightarrow> RealityServerParams \<Rightarrow> Hysteria2ServerParams \<Rightarrow> ServerPorts \<Rightarrow> int \<Rightarrow> json" where
  "render_singbox_server_config users reality hysteria ports now =
     (let grants = authorized_grants users now in
      jobj [(''log'', server_log_options),
            (''inbounds'', JArr [vless_inbound (map vless_user grants) reality ports,
                                hysteria_inbound (map hysteria_user grants) hysteria ports]),
            (''outbounds'', JArr [jobj [(''type'', JStr ''direct''), (''tag'', JStr ''direct'')]])])"

section \<open>Reading and writing route rules\<close>

definition route_rules :: "json \<Rightarrow> json list option" where
  "route_rules config = as_array (jidx (jidx config ''route'') ''rules'')"

definition existing_rules :: "json \<Rightarrow> json list" where
  "existing_rules config = (case route_rules config of None \<Rightarrow> [] | Some rs \<Rightarrow> rs)"

definition set_route :: "string \<Rightarrow> json \<Rightarrow> json \<Rightarrow> json" where
  "set_route k v config = jset ''route'' (jset k v (jidx config ''route'')) config"

definition ensure_route :: "json \<Rightarrow> json" where
  "ensure_route config =
     (if is_obj (jidx config ''route'') then config else jset ''route'' (jobj []) config)"

definition has_key :: "string \<Rightarrow> json \<Rightarrow> bool" where
  "has_key k rule \<longleftrightarrow> jget k rule \<noteq> None"

definition inbound_tags :: "json \<Rightarrow> string list" where
  "inbound_tags config =
     (case as_array (jidx config ''inbounds'') of
        None \<Rightarrow> []
      | Some inbounds \<Rightarrow> List.map_filter (\<lambda>inbound. as_str (jidx inbound ''tag'')) inbounds)"

definition all_inbound_tags :: "json \<Rightarrow> string list option" where
  "all_inbound_tags config = (if inbound_tags config = [] then None else Some (inbound_tags config))"

section \<open>The protected destinations\<close>

fun ip_prefix :: "IpAddr \<Rightarrow> string" where
  "ip_prefix (V4 _) = ''32''"
| "ip_prefix (V6 _) = ''128''"

definition host_cidr :: "IpAddr \<Rightarrow> string" where
  "host_cidr ip = show_ip ip @ ''/'' @ ip_prefix ip"

definition reject_rule :: "(string \<times> json) list \<Rightarrow> json" where
  "reject_rule items = jobj (items @ [(''action'', JStr ''reject''), (''method'', JStr ''default'')])"

definition direct_rule :: "(string \<times> json) list \<Rightarrow> json" where
  "direct_rule items = jobj (items @ [(''action'', JStr ''route''), (''outbound'', JStr ''direct'')])"

definition literal_ip :: "string option \<Rightarrow> IpAddr list" where
  "literal_ip v =
     (case v of None \<Rightarrow> [] | Some h \<Rightarrow> if h = [] then [] else (case parse_ip h of None \<Rightarrow> [] | Some ip \<Rightarrow> [ip]))"

definition own_address_deny_rule ::
    "string list \<Rightarrow> string option \<Rightarrow> string option \<Rightarrow> string option \<Rightarrow> json option" where
  "own_address_deny_rule all_inbounds host v4 v6 =
     (let own = literal_ip host @ literal_ip v4 @ literal_ip v6 in
      if own = [] then None
      else Some (reject_rule [(''inbound'', jstrs all_inbounds), (''ip_cidr'', jstrs (map host_cidr own))]))"

definition c16_egress_deny_rules :: "string list \<Rightarrow> json list" where
  "c16_egress_deny_rules all_inbounds =
     [jobj [(''inbound'', jstrs all_inbounds), (''action'', JStr ''resolve'')],
      reject_rule [(''inbound'', jstrs all_inbounds), (''ip_cidr'', jstrs C16_DENY_IPV4_CIDRS)],
      reject_rule [(''inbound'', jstrs all_inbounds), (''ip_cidr'', jstrs C16_DENY_IPV6_CIDRS)],
      reject_rule [(''inbound'', jstrs all_inbounds), (''network'', JStr ''tcp''),
                   (''port'', jnat C16_DENY_TCP_PORT)]]"

definition opt_list :: "'a option \<Rightarrow> 'a list" where
  "opt_list v = (case v of None \<Rightarrow> [] | Some x \<Rightarrow> [x])"

definition protected_rules :: "DeploymentConfig \<Rightarrow> string list \<Rightarrow> json list" where
  "protected_rules d tags =
     c16_egress_deny_rules tags
     @ opt_list (own_address_deny_rule tags (Some (dc_public_host d)) (dc_public_ipv4 d) (dc_public_ipv6 d))"

definition insert_rules :: "(json \<Rightarrow> bool) \<Rightarrow> json list \<Rightarrow> json list \<Rightarrow> json list" where
  "insert_rules ahead new_rules existing =
     (let insert_at = length (takeWhile ahead existing)
      in take insert_at existing @ new_rules @ drop insert_at existing)"

definition insert_after_identity_scoped_rules :: "json list \<Rightarrow> json \<Rightarrow> json" where
  "insert_after_identity_scoped_rules new_rules config =
     (let config = ensure_route config in
      set_route ''final'' (JStr ''direct'')
        (set_route ''rules'' (JArr (insert_rules (has_key ''auth_user'') new_rules (existing_rules config))) config))"

definition apply_c16_egress_policy :: "DeploymentConfig \<Rightarrow> json \<Rightarrow> json" where
  "apply_c16_egress_policy d config =
     (case all_inbound_tags config of
        None \<Rightarrow> config
      | Some all_inbounds \<Rightarrow> insert_after_identity_scoped_rules (protected_rules d all_inbounds) config)"

section \<open>The probe identity\<close>

definition principals_of :: "(CompatUser \<Rightarrow> bool) \<Rightarrow> CompatUser list \<Rightarrow> int \<Rightarrow> string list" where
  "principals_of P users now =
     concat (map (\<lambda>u. active_principal_ids u now) (filter (\<lambda>u. is_active u now \<and> P u) users))"

definition loopback_items :: "DeploymentConfig \<Rightarrow> string list \<Rightarrow> (string \<times> json) list" where
  "loopback_items d probe_ids =
     [(''auth_user'', jstrs probe_ids), (''network'', JStr ''tcp''), (''ip_cidr'', jstrs [''127.0.0.1/32'']),
      (''port'', jnat (ss_listen_port (dc_subscription d)))]"

definition apply_exit_loopback_selftest_exception ::
    "DeploymentConfig \<Rightarrow> CompatUser list \<Rightarrow> int \<Rightarrow> json \<Rightarrow> json" where
  "apply_exit_loopback_selftest_exception d users now config =
     (let probe_ids = principals_of u_is_reserved_probe users now in
      if probe_ids = [] then config
      else let config = ensure_route config in
        set_route ''rules'' (JArr (direct_rule (loopback_items d probe_ids) # existing_rules config)) config)"

definition probe_rules :: "string list \<Rightarrow> json list" where
  "probe_rules ids =
     [direct_rule [(''auth_user'', jstrs ids), (''network'', JStr ''tcp''), (''port'', jnat PROBE_ALLOWED_PORT),
                   (''ip_cidr'', jstrs PROBE_ALLOWED_IP_CIDRS)],
      direct_rule [(''auth_user'', jstrs ids), (''network'', JStr ''tcp''), (''port'', jnat PROBE_ALLOWED_PORT),
                   (''domain'', jstrs PROBE_ALLOWED_DOMAINS)],
      reject_rule [(''auth_user'', jstrs ids)]]"

definition already_probe_scoped :: "string list \<Rightarrow> json \<Rightarrow> bool" where
  "already_probe_scoped ids rule =
     (case as_array (jidx rule ''auth_user'') of
        None \<Rightarrow> False
      | Some au \<Rightarrow> list_all (\<lambda>v. case as_str v of None \<Rightarrow> False | Some s \<Rightarrow> s \<in> set ids) au)"

definition apply_probe_user_confinement :: "CompatUser list \<Rightarrow> int \<Rightarrow> json \<Rightarrow> json" where
  "apply_probe_user_confinement users now config =
     (let ids = principals_of u_is_reserved_probe users now in
      if ids = [] then config
      else let config = ensure_route config in
        set_route ''rules''
          (JArr (insert_rules (already_probe_scoped ids) (probe_rules ids) (existing_rules config))) config)"

definition is_loopback_selftest_exception :: "json \<Rightarrow> bool" where
  "is_loopback_selftest_exception r \<longleftrightarrow>
     has_key ''auth_user'' r \<and> jget ''ip_cidr'' r = Some (jstrs [''127.0.0.1/32''])
     \<and> jidx r ''action'' = JStr ''route''"

definition is_probe_rule :: "json \<Rightarrow> bool" where
  "is_probe_rule r \<longleftrightarrow>
     has_key ''auth_user'' r
     \<and> (jidx r ''action'' = JStr ''reject'' \<or> has_key ''ip_cidr'' r \<or> has_key ''domain'' r)
     \<and> \<not> has_key ''domain_suffix'' r \<and> \<not> has_key ''inbound'' r"

definition probe_confinement_rule_count :: "json \<Rightarrow> nat" where
  "probe_confinement_rule_count doc =
     (case route_rules doc of
        None \<Rightarrow> 0
      | Some all \<Rightarrow>
          let offset = (case all of [] \<Rightarrow> 0 | r # _ \<Rightarrow> if is_loopback_selftest_exception r then 1 else 0);
              rules = drop offset all
          in if length rules \<ge> 3 \<and> list_all is_probe_rule (take 3 rules)
                \<and> jidx (rules ! 2) ''action'' = JStr ''reject''
             then offset + 3 else 0)"

definition is_c16_rule :: "json \<Rightarrow> bool" where
  "is_c16_rule r \<longleftrightarrow>
     \<not> has_key ''auth_user'' r
     \<and> (jget ''action'' r = Some (JStr ''resolve'') \<or> has_key ''ip_cidr'' r \<or> has_key ''domain'' r
        \<or> jget ''port'' r = Some (jnat C16_DENY_TCP_PORT))"

definition c16_egress_policy_rule_count :: "json \<Rightarrow> nat" where
  "c16_egress_policy_rule_count doc =
     (case route_rules doc of
        None \<Rightarrow> 0
      | Some rules \<Rightarrow> length (takeWhile is_c16_rule (take 5 rules)))"

section \<open>Exit rules and exit principals\<close>

definition spoof_items :: "TlsSpoofSection \<Rightarrow> (string \<times> json) list" where
  "spoof_items spoof =
     [(''domain_suffix'', jstrs GOOGLE_EGRESS_DOMAINS), (''network'', JStr ''tcp''), (''port'', jnat 443),
      (''protocol'', JStr ''tls''), (''action'', JStr ''route-options''), (''tls_spoof'', JStr (ts_sni spoof)),
      (''tls_spoof_method'', JStr (spoof_method_str (ts_method spoof)))]"

definition egress_policy :: "DeploymentConfig \<Rightarrow> bool \<Rightarrow> Ipv6LiteralPolicy" where
  "egress_policy d hairpin_active =
     (case dc_egress d of Some p \<Rightarrow> p | None \<Rightarrow> if hairpin_active then RejectGoogle else Allow)"

definition ipv6_reject :: "Ipv6LiteralPolicy \<Rightarrow> bool \<Rightarrow> json" where
  "ipv6_reject policy hairpin_active =
     (let reject = jobj [(''ip_version'', jnat 6), (''action'', JStr ''reject''), (''method'', JStr ''default''),
                         (''no_drop'', JBool True)]
      in if policy = RejectGoogle
         then (let reject = jset ''domain_suffix'' (jstrs GOOGLE_EGRESS_DOMAINS) reject
               in if \<not> hairpin_active then jset ''port'' (jnat 443) reject else reject)
         else reject)"

definition exit_egress_rules :: "DeploymentConfig \<Rightarrow> bool \<Rightarrow> json list" where
  "exit_egress_rules d hairpin_active =
     (let policy = egress_policy d hairpin_active in
      (if hairpin_active then [jobj [(''action'', JStr ''sniff'')]]
       else if policy = RejectGoogle
         then [jobj [(''ip_version'', jnat 6), (''port'', jnat 443), (''action'', JStr ''sniff''),
                     (''sniffer'', jstrs [''tls'', ''quic'']), (''timeout'', JStr ''100ms'')]]
       else [])
      @ (if policy \<noteq> Allow then [ipv6_reject policy hairpin_active] else [])
      @ (case dc_google_egress_tls_spoof d of
           None \<Rightarrow> []
         | Some spoof \<Rightarrow>
             [jobj [(''network'', JStr ''tcp''), (''port'', jnat 443), (''action'', JStr ''sniff''),
                    (''sniffer'', jstrs [''tls'']), (''timeout'', JStr ''300ms'')],
              jobj (spoof_items spoof)]))"

definition exit_principal_ids :: "DeploymentConfig \<Rightarrow> CompatUser list \<Rightarrow> int \<Rightarrow> string list" where
  "exit_principal_ids d users now =
     (if \<not> exit_principals_enabled d then []
      else principals_of (\<lambda>u. u_exit_principal u \<and> \<not> u_google_egress_hairpin u \<and> \<not> u_is_reserved_probe u) users now)"

definition target_item :: "RelayTarget \<Rightarrow> string \<times> json" where
  "target_item t =
     (case parse_ip (rt_host t) of
        Some ip \<Rightarrow> (''ip_cidr'', jstrs [host_cidr ip])
      | None \<Rightarrow> (''domain'', jstrs [rt_host t]))"

definition reality_in :: string where "reality_in = ''vless-reality-in''"

definition scope_rule :: "string list \<Rightarrow> json \<Rightarrow> json" where
  "scope_rule principals rule =
     jset ''auth_user'' (jstrs principals) (jset ''inbound'' (jstrs [reality_in]) rule)"

definition exit_principal_rules :: "DeploymentConfig \<Rightarrow> string list \<Rightarrow> json list" where
  "exit_principal_rules d principals =
     (if principals = [] then []
      else map (scope_rule principals)
        (protected_rules d [reality_in]
         @ map (\<lambda>t. reject_rule [(''network'', JStr ''tcp''), (''port'', jnat (rt_target_port t)), target_item t])
             (relay_targets d)
         @ exit_egress_rules d False
         @ [jobj [(''action'', JStr ''route''), (''outbound'', JStr ''direct'')]]))"

section \<open>The rendered document\<close>

definition hairpin_route :: json where
  "hairpin_route =
     jobj [(''domain_suffix'', jstrs GOOGLE_EGRESS_DOMAINS), (''action'', JStr ''route''),
           (''outbound'', JStr ''google-egress-hairpin'')]"

definition apply_google_egress_hairpin :: "GoogleEgressHairpinSection \<Rightarrow> string \<Rightarrow> json \<Rightarrow> json" where
  "apply_google_egress_hairpin hairpin uuid config =
     (let config =
        (case as_array (jidx config ''outbounds'') of
           None \<Rightarrow> config
         | Some outbounds \<Rightarrow>
             jset ''outbounds''
               (JArr (outbounds @
                 [jobj [(''type'', JStr ''vless''), (''tag'', JStr ''google-egress-hairpin''),
                        (''server'', JStr (gh_relay_host hairpin)), (''server_port'', jnat (gh_relay_port hairpin)),
                        (''uuid'', JStr uuid), (''flow'', JStr ''xtls-rprx-vision''),
                        (''tls'', jobj [(''enabled'', JBool True), (''server_name'', JStr (gh_relay_server_name hairpin)),
                           (''utls'', jobj [(''enabled'', JBool True), (''fingerprint'', JStr ''chrome'')]),
                           (''reality'', jobj [(''enabled'', JBool True),
                              (''public_key'', JStr (gh_relay_reality_public_key hairpin)),
                              (''short_id'', JStr (gh_relay_reality_short_id hairpin))])])]])) config);
          rules = existing_rules config @ [hairpin_route]
      in set_route ''final'' (JStr ''direct'') (set_route ''rules'' (JArr rules) config))"

definition projected :: "CompatUser list \<Rightarrow> AuthorizationSet" where
  "projected users =
     map (\<lambda>u. \<lparr>a_principal_id = u_name u, a_credential_id = u_id u,
              a_class = (if starts_with ''native_'' (u_name u) then AuthNative else AuthCompatibility),
              a_valid_from = u_created_at u,
              a_valid_until = (case u_expires_at u of None \<Rightarrow> I64_MAX | Some e \<Rightarrow> e),
              a_revoked = (\<not> u_enabled u), a_vless_uuid = Some (u_vless_uuid u),
              a_hysteria2_password = Some (u_hysteria2_password u)\<rparr>)
       (filter (\<lambda>u. starts_with ''cred_'' (u_id u)) users)"

definition loopback_rules :: "DeploymentConfig \<Rightarrow> string list \<Rightarrow> json list" where
  "loopback_rules d probe_ids =
     (if probe_ids = [] then []
      else [direct_rule ((''inbound'', jstrs [reality_in]) # loopback_items d probe_ids)])"

definition hairpin_rules :: "DeploymentConfig \<Rightarrow> string \<Rightarrow> json list" where
  "hairpin_rules d who =
     (let scope = [(''inbound'', jstrs [reality_in]), (''auth_user'', jstrs [who])] in
      [jobj (scope @ [(''action'', JStr ''sniff'')])]
      @ (case dc_google_egress_tls_spoof d of
           None \<Rightarrow> []
         | Some spoof \<Rightarrow> [jobj (scope @ spoof_items spoof)])
      @ [direct_rule (scope @ [(''domain_suffix'', jstrs GOOGLE_EGRESS_DOMAINS)])])"

definition target_rule :: "RelayTarget \<Rightarrow> json" where
  "target_rule t =
     direct_rule [(''inbound'', jstrs [reality_in]), (''network'', JStr ''tcp''),
                  (''port'', jnat (rt_target_port t)), target_item t]"

definition relay_rules :: "DeploymentConfig \<Rightarrow> CompatUser list \<Rightarrow> int \<Rightarrow> json list" where
  "relay_rules d users now =
     loopback_rules d (principals_of u_is_reserved_probe users now)
     @ concat (map (hairpin_rules d) (principals_of u_google_egress_hairpin users now))
     @ (if exit_principals_enabled d then exit_principal_rules d (exit_principal_ids d users now) else [])
     @ map target_rule (relay_targets d)"

datatype RenderError = BadDeployment DeploymentError | BadAuthorizationSet AuthError | NoInbounds

definition render_exit :: "DeploymentConfig \<Rightarrow> CompatUser list \<Rightarrow> RealityServerParams \<Rightarrow> int \<Rightarrow> json \<Rightarrow> json" where
  "render_exit d users reality now config =
     (let config = (case (dc_google_egress_hairpin d, rs_google_egress_hairpin_uuid reality) of
                      (Some hairpin, Some uuid) \<Rightarrow> apply_google_egress_hairpin hairpin uuid config
                    | _ \<Rightarrow> config);
          hairpin_active = (dc_google_egress_hairpin d \<noteq> None \<and> rs_google_egress_hairpin_uuid reality \<noteq> None);
          policy_rules = exit_egress_rules d hairpin_active @ existing_rules config;
          config = set_route ''rules'' (JArr policy_rules) config;
          config = apply_exit_loopback_selftest_exception d users now config;
          config = apply_c16_egress_policy d config
      in apply_probe_user_confinement users now config)"

definition render_relay :: "DeploymentConfig \<Rightarrow> CompatUser list \<Rightarrow> int \<Rightarrow> json \<Rightarrow> RenderError + json" where
  "render_relay d users now config =
     (let all_inbounds = (case as_array (jidx config ''inbounds'') of
                            None \<Rightarrow> [] | Some inbounds \<Rightarrow> map (\<lambda>i. jidx i ''tag'') inbounds)
      in if all_inbounds = [] then Inl NoInbounds
         else let rules = relay_rules d users now @ [reject_rule [(''inbound'', JArr all_inbounds)]];
                  config = jset ''route'' (jobj [(''rules'', JArr rules)]) config
              in Inr (apply_probe_user_confinement users now config))"

definition render_server_config_for_deployment ::
    "(string \<Rightarrow> 8 word list option) \<Rightarrow> DeploymentConfig \<Rightarrow> CompatUser list \<Rightarrow> RealityServerParams
       \<Rightarrow> Hysteria2ServerParams \<Rightarrow> int \<Rightarrow> RenderError + json" where
  "render_server_config_for_deployment b64 d users reality hysteria now =
     rbind (map_err BadDeployment (validate_deployment b64 d)) (\<lambda>_.
     rbind (map_err BadAuthorizationSet (validate_authorization_set (projected users))) (\<lambda>_.
     let config = render_singbox_server_config users reality hysteria (ports_for_deployment d) now
     in if dc_role d = Exit then Inr (render_exit d users reality now config)
        else render_relay d users now config))"

section \<open>The checks of a rendered document\<close>

record RelayPolicyFacts =
  rf_fail_closed :: bool
  rf_targets :: nat
  rf_exit_principal_rules :: nat
  rf_principals :: "string list"

definition is_exit_route :: "json \<Rightarrow> bool" where
  "is_exit_route r =
     (case as_object r of
        None \<Rightarrow> False
      | Some obj \<Rightarrow> length obj = 4 \<and> jidx r ''action'' = JStr ''route'' \<and> jidx r ''outbound'' = JStr ''direct''
          \<and> jidx r ''inbound'' = jstrs [''vless-reality-in''] \<and> as_array (jidx r ''auth_user'') \<noteq> None)"

definition is_hairpin_rule :: "json \<Rightarrow> bool" where
  "is_hairpin_rule r \<longleftrightarrow>
     has_key ''auth_user'' r \<and> (jget ''action'' r = Some (JStr ''sniff'') \<or> has_key ''domain_suffix'' r)"

definition exit_block ::
    "DeploymentConfig \<Rightarrow> json list \<Rightarrow> ((nat \<times> nat \<times> string list) option) option" where
  "exit_block d rules =
     (case filter (\<lambda>i. is_exit_route (rules ! i)) [0..<length rules] of
        [] \<Rightarrow> Some None
      | [end_at] \<Rightarrow>
          (if \<not> exit_principals_enabled d then None
           else let principals = (case as_array (jidx (rules ! end_at) ''auth_user'') of
                                    None \<Rightarrow> [] | Some a \<Rightarrow> List.map_filter as_str a);
                    expected = exit_principal_rules d principals
                in if principals = [] \<or> end_at + 1 < length expected then None
                   else let start = end_at + 1 - length expected
                        in if take (length expected) (drop start rules) \<noteq> expected then None
                           else Some (Some (start, length expected, sort principals)))
      | _ \<Rightarrow> None)"

definition relay_policy_facts :: "DeploymentConfig \<Rightarrow> json \<Rightarrow> RelayPolicyFacts" where
  "relay_policy_facts d doc =
     (let targets = length (relay_targets d);
          none = \<lparr>rf_fail_closed = False, rf_targets = targets, rf_exit_principal_rules = 0, rf_principals = []\<rparr>
      in case route_rules doc of
           None \<Rightarrow> none
         | Some rules \<Rightarrow>
             (let probes = probe_confinement_rule_count doc in
              case exit_block d rules of
                None \<Rightarrow> none
              | Some block \<Rightarrow>
                  (let outside = (\<lambda>i. case block of None \<Rightarrow> True | Some (s, n, _) \<Rightarrow> i < s \<or> i \<ge> s + n);
                       hairpins = length (filter (\<lambda>i. outside i \<and> is_hairpin_rule (rules ! i)) [0..<length rules]);
                       block_len = (case block of None \<Rightarrow> 0 | Some (_, n, _) \<Rightarrow> n)
                   in \<lparr>rf_fail_closed = (rules \<noteq> [] \<and> jidx (last rules) ''action'' = JStr ''reject''
                         \<and> length rules = targets + 1 + hairpins + probes + block_len),
                       rf_targets = targets, rf_exit_principal_rules = block_len,
                       rf_principals = (case block of None \<Rightarrow> [] | Some (_, _, ps) \<Rightarrow> ps)\<rparr>)))"

definition exit_egress_policy_matches :: "DeploymentConfig \<Rightarrow> json \<Rightarrow> bool" where
  "exit_egress_policy_matches d doc =
     (case route_rules doc of
        None \<Rightarrow> False
      | Some all \<Rightarrow>
          let prefix = probe_confinement_rule_count doc;
              tail = drop prefix all;
              c16 = protected_rules d (inbound_tags doc);
              hairpin = (dc_google_egress_hairpin d \<noteq> None);
              expected = exit_egress_rules d hairpin
                @ (if hairpin then [hairpin_route] else [])
          in prefix \<le> length all \<and> take (length c16) tail = c16 \<and> drop (length c16) tail = expected
             \<and> jidx (jidx doc ''route'') ''final'' = JStr ''direct'')"

section \<open>Lemmas on documents\<close>

lemma jget_reject_rule: "jget k (reject_rule items) = map_of (rev (items @ [(''action'', JStr ''reject''), (''method'', JStr ''default'')])) k"
  by (simp only: reject_rule_def jget_jobj)

lemma jget_direct_rule: "jget k (direct_rule items) = map_of (rev (items @ [(''action'', JStr ''route''), (''outbound'', JStr ''direct'')])) k"
  by (simp only: direct_rule_def jget_jobj)

lemma is_obj_rules [simp]: "is_obj (reject_rule items)" "is_obj (direct_rule items)"
  by (simp_all add: reject_rule_def direct_rule_def)

lemmas rule_get = jget_reject_rule jget_direct_rule jget_jobj jidx_def has_key_def

text \<open>A document whose route section is absent or an object.\<close>

definition routed :: "json \<Rightarrow> bool" where
  "routed config \<longleftrightarrow> is_obj config \<and> (jidx config ''route'' = JNull \<or> is_obj (jidx config ''route''))"

lemma jidx_JNull [simp]: "jidx JNull k = JNull"
  by (simp add: jidx_def)

lemma is_obj_JObj [simp]: "is_obj (JObj m)" "\<not> is_obj JNull"
  by (simp_all add: is_obj_def)

lemma jset_route:
  "routed config \<Longrightarrow> is_obj (jset k v (jidx config ''route''))
     \<and> jidx (jset k v (jidx config ''route'')) k' = (if k = k' then v else jidx (jidx config ''route'') k')"
  by (cases "jidx config ''route'' = JNull") (auto simp: routed_def jidx_def bt_get_def)

lemma routed_set_route [simp]: "routed config \<Longrightarrow> routed (set_route k v config)"
  using jset_route [of config k v] by (simp add: set_route_def routed_def)

lemma set_route_idx [simp]:
  assumes "routed config"
  shows "k' \<noteq> ''route'' \<Longrightarrow> jidx (set_route k v config) k' = jidx config k'"
    and "jidx (jidx (set_route k v config) ''route'') k' = (if k = k' then v else jidx (jidx config ''route'') k')"
    and "route_rules (set_route k v config) = (if k = ''rules'' then as_array v else route_rules config)"
  using assms jset_route [of config k v] by (simp_all add: set_route_def routed_def route_rules_def)

lemma ensure_route_idx [simp]:
  assumes "routed config"
  shows "routed (ensure_route config)" "k' \<noteq> ''route'' \<Longrightarrow> jidx (ensure_route config) k' = jidx config k'"
    "jidx (jidx (ensure_route config) ''route'') k = jidx (jidx config ''route'') k"
    "route_rules (ensure_route config) = route_rules config"
    "existing_rules (ensure_route config) = existing_rules config"
  using assms by (auto simp: ensure_route_def routed_def route_rules_def existing_rules_def jidx_jobj)

lemma existing_set_route [simp]:
  "routed config \<Longrightarrow> existing_rules (set_route ''rules'' (JArr rs) config) = rs"
  "routed config \<Longrightarrow> k \<noteq> ''rules'' \<Longrightarrow> existing_rules (set_route k v config) = existing_rules config"
  by (simp_all add: existing_rules_def)

lemma inbound_tags_cong: "jidx c ''inbounds'' = jidx c' ''inbounds'' \<Longrightarrow> inbound_tags c = inbound_tags c'"
  by (simp add: inbound_tags_def)

lemma insert_rules_split:
  assumes "list_all ahead xs" "ys = [] \<or> \<not> ahead (hd ys)"
  shows "insert_rules ahead new_rules (xs @ ys) = xs @ new_rules @ ys"
proof -
  have "takeWhile ahead (xs @ ys) = xs"
    using assms by (cases ys) (auto simp: list_all_iff takeWhile_append)
  then show ?thesis by (simp add: insert_rules_def)
qed

lemma set_insert_rules: "set (insert_rules ahead new_rules rules) = set new_rules \<union> set rules"
  unfolding insert_rules_def Let_def set_append
  by (metis append_take_drop_id set_append sup.left_commute)

lemma insert_rules_last:
  assumes "\<not> ahead r"
  obtains xs ys where "rules = xs @ ys" "list_all ahead xs" "ys = [] \<or> \<not> ahead (hd ys)"
    "insert_rules ahead new_rules (rules @ [r]) = xs @ new_rules @ ys @ [r]"
proof
  let ?xs = "takeWhile ahead rules" and ?ys = "dropWhile ahead rules"
  show "rules = ?xs @ ?ys" "list_all ahead ?xs" "?ys = [] \<or> \<not> ahead (hd ?ys)"
    using hd_dropWhile [of ahead rules] by (auto simp: list_all_iff dest: set_takeWhileD)
  have "insert_rules ahead new_rules (?xs @ ?ys @ [r]) = ?xs @ new_rules @ ?ys @ [r]"
    using assms hd_dropWhile [of ahead rules]
    by (intro insert_rules_split) (auto simp: list_all_iff hd_append dest: set_takeWhileD)
  then show "insert_rules ahead new_rules (rules @ [r]) = ?xs @ new_rules @ ?ys @ [r]"
    by (metis append.assoc takeWhile_dropWhile_id)
qed

text \<open>The document before its route rules are added.\<close>

lemma jidx_hysteria_inbound:
  "jidx (hysteria_inbound us hysteria ports) ''tag'' = JStr ''hysteria2-in''"
  "jidx (hysteria_inbound us hysteria ports) ''users'' = JArr us"
  by (simp_all add: hysteria_inbound_def Let_def jidx_jobj split: option.splits)

lemma transport_document:
  defines "config u r h p n \<equiv> render_singbox_server_config u r h p n"
  shows "routed (config u r h p n)" "route_rules (config u r h p n) = None"
    "existing_rules (config u r h p n) = []" "jidx (config u r h p n) ''route'' = JNull"
    "inbound_tags (config u r h p n) = [reality_in, ''hysteria2-in'']"
  unfolding config_def render_singbox_server_config_def Let_def
  by (simp_all add: routed_def route_rules_def existing_rules_def inbound_tags_def jidx_jobj reality_in_def
      vless_inbound_def jidx_hysteria_inbound map_filter_simps)

section \<open>The rules of a rendered document\<close>

text \<open>What each stage does to a routed document.\<close>

lemma hairpin_stage:
  fixes h uuid
  assumes "routed config"
  defines "doc \<equiv> apply_google_egress_hairpin h uuid config"
  shows "routed doc" "existing_rules doc = existing_rules config @ [hairpin_route]"
    "jidx doc ''inbounds'' = jidx config ''inbounds''"
proof -
  have "routed (jset ''outbounds'' v config)" "jidx (jset ''outbounds'' v config) ''inbounds'' = jidx config ''inbounds''"
    "existing_rules (jset ''outbounds'' v config) = existing_rules config" for v
    using assms(1) by (simp_all add: routed_def existing_rules_def route_rules_def)
  then show "routed doc" "existing_rules doc = existing_rules config @ [hairpin_route]"
    "jidx doc ''inbounds'' = jidx config ''inbounds''"
    using assms(1) by (simp_all add: doc_def apply_google_egress_hairpin_def Let_def split: option.splits)
qed

lemma selftest_stage:
  fixes d users now
  assumes "routed config"
  defines "doc \<equiv> apply_exit_loopback_selftest_exception d users now config"
    and "ids \<equiv> principals_of u_is_reserved_probe users now"
  shows "routed doc" "jidx doc ''inbounds'' = jidx config ''inbounds''"
    "existing_rules doc = (if ids = [] then [] else [direct_rule (loopback_items d ids)]) @ existing_rules config"
  using assms(1) by (simp_all add: doc_def ids_def apply_exit_loopback_selftest_exception_def Let_def)

lemma c16_stage:
  fixes d
  assumes "routed config" "inbound_tags config \<noteq> []"
  defines "doc \<equiv> apply_c16_egress_policy d config"
  shows "routed doc" "jidx doc ''inbounds'' = jidx config ''inbounds''"
    "existing_rules doc = insert_rules (has_key ''auth_user'') (protected_rules d (inbound_tags config)) (existing_rules config)"
    "route_rules doc \<noteq> None" "jidx (jidx doc ''route'') ''final'' = JStr ''direct''"
  using assms(1,2)
  by (simp_all add: doc_def apply_c16_egress_policy_def all_inbound_tags_def insert_after_identity_scoped_rules_def
      Let_def existing_rules_def)

lemma confinement_stage:
  fixes users now
  assumes "routed config" "route_rules config = Some rules"
  defines "doc \<equiv> apply_probe_user_confinement users now config"
    and "ids \<equiv> principals_of u_is_reserved_probe users now"
  shows "routed doc" "jidx doc ''inbounds'' = jidx config ''inbounds''"
    "route_rules doc = Some (if ids = [] then rules else insert_rules (already_probe_scoped ids) (probe_rules ids) rules)"
    "jidx (jidx doc ''route'') ''final'' = jidx (jidx config ''route'') ''final''"
  using assms(1,2)
  by (simp_all add: doc_def ids_def apply_probe_user_confinement_def Let_def existing_rules_def)

text \<open>Which rules are scoped to an identity.\<close>

lemma exit_rules_unscoped: "r \<in> set (exit_egress_rules d b) \<union> {hairpin_route} \<Longrightarrow> \<not> has_key ''auth_user'' r"
  by (auto simp: exit_egress_rules_def hairpin_route_def ipv6_reject_def spoof_items_def Let_def rule_get
      split: if_splits option.splits)

lemma as_array_jstrs [simp]: "as_array (jstrs xs) = Some (map JStr xs)"
  by (simp add: jstrs_def)

lemma already_probe_scoped_jstrs:
  "jget ''auth_user'' r = Some (jstrs xs) \<Longrightarrow> already_probe_scoped ids r \<longleftrightarrow> set xs \<subseteq> set ids"
  by (auto simp: already_probe_scoped_def jidx_def list_all_iff)

lemma already_probe_scoped_none: "\<not> has_key ''auth_user'' r \<Longrightarrow> \<not> already_probe_scoped ids r"
  by (simp add: already_probe_scoped_def jidx_def has_key_def)

lemma protected_rules_unscoped: "r \<in> set (protected_rules d tags) \<Longrightarrow> \<not> has_key ''auth_user'' r"
  by (auto simp: protected_rules_def c16_egress_deny_rules_def own_address_deny_rule_def opt_list_def Let_def rule_get
      split: if_splits)

lemma render_exit_document:
  fixes d users reality now
  assumes "routed config" "existing_rules config = []" "inbound_tags config \<noteq> []"
  defines "doc \<equiv> render_exit d users reality now config"
    and "ids \<equiv> principals_of u_is_reserved_probe users now"
    and "active \<equiv> dc_google_egress_hairpin d \<noteq> None \<and> rs_google_egress_hairpin_uuid reality \<noteq> None"
  shows "route_rules doc = Some ((if ids = [] then [] else direct_rule (loopback_items d ids) # probe_rules ids)
        @ protected_rules d (inbound_tags config) @ exit_egress_rules d active
        @ (if active then [hairpin_route] else []))"
    and "jidx doc ''inbounds'' = jidx config ''inbounds''"
    and "jidx (jidx doc ''route'') ''final'' = JStr ''direct''"
proof -
  define c1 where "c1 = (case (dc_google_egress_hairpin d, rs_google_egress_hairpin_uuid reality) of
      (Some hairpin, Some uuid) \<Rightarrow> apply_google_egress_hairpin hairpin uuid config | _ \<Rightarrow> config)"
  define tail where "tail = exit_egress_rules d active @ (if active then [hairpin_route] else [])"
  define c2 where "c2 = set_route ''rules'' (JArr (exit_egress_rules d active @ existing_rules c1)) c1"
  define c3 where "c3 = apply_exit_loopback_selftest_exception d users now c2"
  define c4 where "c4 = apply_c16_egress_policy d c3"
  have doc: "doc = apply_probe_user_confinement users now c4"
    by (simp add: doc_def render_exit_def Let_def c1_def c2_def c3_def c4_def active_def)
  have 1: "routed c1" "existing_rules c1 = (if active then [hairpin_route] else [])"
    "jidx c1 ''inbounds'' = jidx config ''inbounds''"
    using assms(1,2) by (auto simp: c1_def active_def hairpin_stage split: option.splits)
  have 2: "routed c2" "existing_rules c2 = tail" "jidx c2 ''inbounds'' = jidx config ''inbounds''"
    using 1 by (simp_all add: c2_def tail_def)
  let ?loop = "if ids = [] then [] else [direct_rule (loopback_items d ids)]"
  have 3: "routed c3" "existing_rules c3 = ?loop @ tail" "jidx c3 ''inbounds'' = jidx config ''inbounds''"
    using selftest_stage [OF 2(1), of d users now] 2 by (simp_all add: c3_def ids_def)
  have tags: "inbound_tags c3 = inbound_tags config" by (rule inbound_tags_cong [OF 3(3)])
  have unscoped: "\<forall>r\<in>set tail. \<not> has_key ''auth_user'' r"
    using exit_rules_unscoped by (auto simp: tail_def)
  have "list_all (has_key ''auth_user'') ?loop" by (simp add: loopback_items_def rule_get)
  then have "insert_rules (has_key ''auth_user'') (protected_rules d (inbound_tags config)) (?loop @ tail)
      = ?loop @ protected_rules d (inbound_tags config) @ tail"
    using unscoped by (intro insert_rules_split) (cases tail, auto)
  moreover have "routed c4" "route_rules c4 \<noteq> None" "jidx c4 ''inbounds'' = jidx config ''inbounds''"
    "jidx (jidx c4 ''route'') ''final'' = JStr ''direct''"
    "existing_rules c4 = insert_rules (has_key ''auth_user'') (protected_rules d (inbound_tags config)) (?loop @ tail)"
    using c16_stage [OF 3(1), of d] assms(3) tags 3 by (simp_all add: c4_def)
  ultimately have 4: "routed c4" "route_rules c4 = Some (?loop @ protected_rules d (inbound_tags config) @ tail)"
    "jidx c4 ''inbounds'' = jidx config ''inbounds''" "jidx (jidx c4 ''route'') ''final'' = JStr ''direct''"
    by (auto simp: existing_rules_def)
  let ?rest = "protected_rules d (inbound_tags config) @ tail"
  have "already_probe_scoped ids (direct_rule (loopback_items d ids))"
    by (simp add: already_probe_scoped_jstrs [of _ ids] loopback_items_def rule_get)
  moreover have "?rest = [] \<or> \<not> already_probe_scoped ids (hd ?rest)"
    by (simp add: protected_rules_def c16_egress_deny_rules_def already_probe_scoped_none rule_get)
  ultimately have "insert_rules (already_probe_scoped ids) (probe_rules ids) (?loop @ ?rest) = ?loop @ probe_rules ids @ ?rest"
    by (intro insert_rules_split) simp_all
  with confinement_stage [OF 4(1,2), of users now] 4(3,4)
  show "route_rules doc = Some ((if ids = [] then [] else direct_rule (loopback_items d ids) # probe_rules ids)
        @ protected_rules d (inbound_tags config) @ exit_egress_rules d active @ (if active then [hairpin_route] else []))"
    "jidx doc ''inbounds'' = jidx config ''inbounds''" "jidx (jidx doc ''route'') ''final'' = JStr ''direct''"
    by (simp_all add: doc ids_def tail_def split: if_splits)
qed

lemma loopback_rules_scoped: "list_all (already_probe_scoped ids) (loopback_rules d ids)"
  by (simp add: loopback_rules_def already_probe_scoped_jstrs [of _ ids] loopback_items_def rule_get)

lemma render_relay_document:
  fixes d users now
  assumes "routed config" "as_array (jidx config ''inbounds'') = Some inbounds" "inbounds \<noteq> []"
    "render_relay d users now config = Inr doc"
  defines "ids \<equiv> principals_of u_is_reserved_probe users now"
    and "reject \<equiv> reject_rule [(''inbound'', JArr (map (\<lambda>i. jidx i ''tag'') inbounds))]"
  shows "route_rules doc = Some (if ids = [] then relay_rules d users now @ [reject]
      else insert_rules (already_probe_scoped ids) (probe_rules ids) (relay_rules d users now @ [reject]))"
    and "jidx doc ''inbounds'' = jidx config ''inbounds''"
proof -
  define c1 where "c1 = jset ''route'' (jobj [(''rules'', JArr (relay_rules d users now @ [reject]))]) config"
  have doc: "doc = apply_probe_user_confinement users now c1"
    using assms(2-4) by (simp add: render_relay_def Let_def c1_def reject_def)
  have "routed c1" "route_rules c1 = Some (relay_rules d users now @ [reject])"
    "jidx c1 ''inbounds'' = jidx config ''inbounds''"
    using assms(1) by (simp_all add: c1_def routed_def route_rules_def jidx_jobj)
  with confinement_stage [OF this(1,2), of users now] show
    "route_rules doc = Some (if ids = [] then relay_rules d users now @ [reject]
      else insert_rules (already_probe_scoped ids) (probe_rules ids) (relay_rules d users now @ [reject]))"
    "jidx doc ''inbounds'' = jidx config ''inbounds''"
    by (simp_all add: doc ids_def)
qed

text \<open>The two shapes of a rendered document.\<close>

definition relay_reject :: json where
  "relay_reject = reject_rule [(''inbound'', jstrs [reality_in, ''hysteria2-in''])]"

lemma render_ok:
  assumes "render_server_config_for_deployment b64 d users reality hysteria now = Inr doc"
  shows "validate_deployment b64 d = Inr ()" "validate_authorization_set (projected users) = Inr ()"
    "dc_role d = Exit \<Longrightarrow> doc = render_exit d users reality now
       (render_singbox_server_config users reality hysteria (ports_for_deployment d) now)"
    "dc_role d = Relay \<Longrightarrow> render_relay d users now
       (render_singbox_server_config users reality hysteria (ports_for_deployment d) now) = Inr doc"
  using assms by (auto simp: render_server_config_for_deployment_def rbind_eq_Inr map_err_def Let_def
      split: sum.splits if_splits)

lemma transport_inbounds:
  defines "config u r h p n \<equiv> render_singbox_server_config u r h p n"
  shows "as_array (jidx (config u r h p n) ''inbounds'') =
    Some [vless_inbound (map vless_user (authorized_grants u n)) r p,
          hysteria_inbound (map hysteria_user (authorized_grants u n)) h p]"
  unfolding config_def render_singbox_server_config_def Let_def by (simp add: jidx_jobj)

lemma rendered_inbounds:
  assumes "render_server_config_for_deployment b64 d users reality hysteria now = Inr doc"
  shows "as_array (jidx doc ''inbounds'') =
      Some [vless_inbound (map vless_user (authorized_grants users now)) reality (ports_for_deployment d),
            hysteria_inbound (map hysteria_user (authorized_grants users now)) hysteria (ports_for_deployment d)]"
    and "inbound_tags doc = [reality_in, ''hysteria2-in'']"
proof -
  let ?config = "render_singbox_server_config users reality hysteria (ports_for_deployment d) now"
  have "jidx doc ''inbounds'' = jidx ?config ''inbounds''"
  proof (cases "dc_role d")
    case Exit
    with render_ok(3) [OF assms] show ?thesis using render_exit_document(2) [OF transport_document(1,3)]
      by (simp add: transport_document(5))
  next
    case Relay
    then show ?thesis
      using render_relay_document(2) [OF transport_document(1) transport_inbounds _ render_ok(4) [OF assms Relay]] by simp
  qed
  then show "as_array (jidx doc ''inbounds'') =
      Some [vless_inbound (map vless_user (authorized_grants users now)) reality (ports_for_deployment d),
            hysteria_inbound (map hysteria_user (authorized_grants users now)) hysteria (ports_for_deployment d)]"
    "inbound_tags doc = [reality_in, ''hysteria2-in'']"
    using inbound_tags_cong [of doc ?config] by (simp_all add: transport_inbounds transport_document(5))
qed

lemma rendered_exit:
  assumes "render_server_config_for_deployment b64 d users reality hysteria now = Inr doc" "dc_role d = Exit"
  defines "ids \<equiv> principals_of u_is_reserved_probe users now"
    and "active \<equiv> dc_google_egress_hairpin d \<noteq> None \<and> rs_google_egress_hairpin_uuid reality \<noteq> None"
  shows "route_rules doc = Some ((if ids = [] then [] else direct_rule (loopback_items d ids) # probe_rules ids)
        @ protected_rules d [reality_in, ''hysteria2-in''] @ exit_egress_rules d active
        @ (if active then [hairpin_route] else []))"
    and "jidx (jidx doc ''route'') ''final'' = JStr ''direct''"
  using render_exit_document(1,3) [OF transport_document(1,3), of users reality hysteria "ports_for_deployment d" now d]
    render_ok(3) [OF assms(1,2)]
  by (simp_all add: transport_document(5) ids_def active_def)

lemma rendered_relay:
  assumes "render_server_config_for_deployment b64 d users reality hysteria now = Inr doc" "dc_role d = Relay"
  defines "ids \<equiv> principals_of u_is_reserved_probe users now"
  shows "route_rules doc = Some (if ids = [] then relay_rules d users now @ [relay_reject]
      else insert_rules (already_probe_scoped ids) (probe_rules ids) (relay_rules d users now @ [relay_reject]))"
  using render_relay_document(1) [OF transport_document(1) transport_inbounds _ render_ok(4) [OF assms(1,2)]]
  by (simp add: ids_def relay_reject_def jstrs_def jidx_hysteria_inbound vless_inbound_def jidx_jobj reality_in_def)

section \<open>Identities of the relay rules\<close>

lemma policy_rules_obj:
  "r \<in> set (protected_rules d tags) \<Longrightarrow> is_obj r" "r \<in> set (exit_egress_rules d b) \<Longrightarrow> is_obj r"
  by (auto simp: protected_rules_def c16_egress_deny_rules_def own_address_deny_rule_def opt_list_def
      exit_egress_rules_def ipv6_reject_def Let_def split: if_splits option.splits)

definition unscoped_exit_rules :: "DeploymentConfig \<Rightarrow> json list" where
  "unscoped_exit_rules d =
     protected_rules d [reality_in]
     @ map (\<lambda>t. reject_rule [(''network'', JStr ''tcp''), (''port'', jnat (rt_target_port t)), target_item t]) (relay_targets d)
     @ exit_egress_rules d False"

lemma exit_principal_rules_split:
  "ps \<noteq> [] \<Longrightarrow> exit_principal_rules d ps = map (scope_rule ps) (unscoped_exit_rules d)
     @ [scope_rule ps (jobj [(''action'', JStr ''route''), (''outbound'', JStr ''direct'')])]"
  by (simp add: exit_principal_rules_def unscoped_exit_rules_def)

lemma unscoped_exit_rules_obj: "r \<in> set (unscoped_exit_rules d) \<Longrightarrow> is_obj r"
  by (auto simp: unscoped_exit_rules_def dest: policy_rules_obj)

lemma jget_scope_rule [simp]:
  "is_obj r \<Longrightarrow> jget k (scope_rule ps r) = (if k = ''auth_user'' then Some (jstrs ps)
     else if k = ''inbound'' then Some (jstrs [reality_in]) else jget k r)"
  by (simp add: scope_rule_def)

lemma auth_user_hairpin_rules: "r \<in> set (hairpin_rules d p) \<Longrightarrow> jget ''auth_user'' r = Some (jstrs [p])"
  by (auto simp: hairpin_rules_def spoof_items_def Let_def rule_get split: option.splits)

lemma auth_user_exit_principal_rules: "r \<in> set (exit_principal_rules d ps) \<Longrightarrow> jget ''auth_user'' r = Some (jstrs ps)"
  by (cases "ps = []") (auto simp: exit_principal_rules_split unscoped_exit_rules_obj, simp add: exit_principal_rules_def)

lemma exit_principal_rules_Nil [simp]: "exit_principal_rules d [] = []"
  by (simp add: exit_principal_rules_def)

lemma fst_target_item: "fst (target_item t) \<in> {''ip_cidr'', ''domain''}"
  by (simp add: target_item_def split: option.splits)

lemma jget_target_rule:
  "jget k (target_rule t) = (if k = ''inbound'' then Some (jstrs [reality_in])
     else if k = ''network'' then Some (JStr ''tcp'') else if k = ''port'' then Some (jnat (rt_target_port t))
     else if k = ''action'' then Some (JStr ''route'') else if k = ''outbound'' then Some (JStr ''direct'')
     else if k = fst (target_item t) then Some (snd (target_item t)) else None)"
  using fst_target_item [of t] by (cases "target_item t") (auto simp: target_rule_def rule_get)

lemma target_rule_unscoped: "\<not> has_key ''auth_user'' (target_rule t)"
  using fst_target_item [of t] by (auto simp: has_key_def jget_target_rule)

lemma relay_reject_unscoped: "\<not> has_key ''auth_user'' relay_reject"
  by (simp add: relay_reject_def rule_get)

definition relay_block :: "DeploymentConfig \<Rightarrow> CompatUser list \<Rightarrow> int \<Rightarrow> json list" where
  "relay_block d users now = exit_principal_rules d (exit_principal_ids d users now)"

definition relay_prefix :: "DeploymentConfig \<Rightarrow> CompatUser list \<Rightarrow> int \<Rightarrow> json list" where
  "relay_prefix d users now =
     (let ids = principals_of u_is_reserved_probe users now
      in loopback_rules d ids @ (if ids = [] then [] else probe_rules ids))"

definition relay_hairpins :: "DeploymentConfig \<Rightarrow> CompatUser list \<Rightarrow> int \<Rightarrow> json list" where
  "relay_hairpins d users now = concat (map (hairpin_rules d) (principals_of u_google_egress_hairpin users now))"

text \<open>No probe principal is also the principal of a hairpin account or an exit principal.\<close>

definition probes_apart :: "DeploymentConfig \<Rightarrow> CompatUser list \<Rightarrow> int \<Rightarrow> bool" where
  "probes_apart d users now \<longleftrightarrow>
     list_all (\<lambda>p. p \<notin> set (principals_of u_google_egress_hairpin users now)
                 \<and> p \<notin> set (exit_principal_ids d users now)) (principals_of u_is_reserved_probe users now)"

lemma relay_rules_split:
  "relay_rules d users now = loopback_rules d (principals_of u_is_reserved_probe users now)
     @ relay_hairpins d users now @ relay_block d users now @ map target_rule (relay_targets d)"
  by (simp add: relay_rules_def relay_hairpins_def relay_block_def exit_principal_ids_def)

lemma rendered_relay_shape:
  assumes "render_server_config_for_deployment b64 d users reality hysteria now = Inr doc" "dc_role d = Relay"
    "probes_apart d users now"
  shows "route_rules doc = Some (relay_prefix d users now @ relay_hairpins d users now @ relay_block d users now
    @ map target_rule (relay_targets d) @ [relay_reject])"
proof -
  let ?ids = "principals_of u_is_reserved_probe users now"
  let ?rest = "relay_hairpins d users now @ relay_block d users now @ map target_rule (relay_targets d) @ [relay_reject]"
  have "\<not> already_probe_scoped ?ids r" if "r \<in> set ?rest" for r
  proof -
    from that consider p where "p \<in> set (principals_of u_google_egress_hairpin users now)" "r \<in> set (hairpin_rules d p)"
      | "r \<in> set (relay_block d users now)" | "\<not> has_key ''auth_user'' r"
      by (auto simp: relay_hairpins_def target_rule_unscoped relay_reject_unscoped)
    then show ?thesis
    proof cases
      case 1
      with assms(3) have "p \<notin> set ?ids" by (auto simp: probes_apart_def list_all_iff)
      then show ?thesis by (simp add: already_probe_scoped_jstrs [OF auth_user_hairpin_rules [OF 1(2)]])
    next
      case 2
      then have "exit_principal_ids d users now \<noteq> []" by (auto simp: relay_block_def)
      moreover have "set (exit_principal_ids d users now) \<inter> set ?ids = {}"
        using assms(3) by (auto simp: probes_apart_def list_all_iff)
      ultimately show ?thesis
        using 2 by (simp add: relay_block_def already_probe_scoped_jstrs [OF auth_user_exit_principal_rules])
          (metis Int_absorb2 set_empty)
    qed (simp add: already_probe_scoped_none)
  qed
  then have "insert_rules (already_probe_scoped ?ids) (probe_rules ?ids) (loopback_rules d ?ids @ ?rest)
      = loopback_rules d ?ids @ probe_rules ?ids @ ?rest"
    by (intro insert_rules_split loopback_rules_scoped) (metis list.set_sel(1))
  then show ?thesis
    unfolding rendered_relay [OF assms(1,2)] relay_rules_split relay_prefix_def by (simp add: Let_def)
qed

section \<open>The checks accept what is rendered\<close>

lemma probe_rules_recognised:
  "list_all is_probe_rule (probe_rules ids)" "length (probe_rules ids) = 3"
  "jidx (probe_rules ids ! 2) ''action'' = JStr ''reject''"
  by (simp_all add: probe_rules_def is_probe_rule_def rule_get)

lemma loopback_recognised:
  "is_loopback_selftest_exception (direct_rule (loopback_items d ids))"
  "is_loopback_selftest_exception (direct_rule ((''inbound'', v) # loopback_items d ids))"
  by (simp_all add: is_loopback_selftest_exception_def loopback_items_def rule_get)

lemma probe_count_prefix:
  assumes "route_rules doc = Some (l # probe_rules ids @ rest)" "is_loopback_selftest_exception l"
  shows "probe_confinement_rule_count doc = 4"
  using assms probe_rules_recognised [of ids]
  by (simp add: probe_confinement_rule_count_def nth_append)

lemma probe_count_none:
  assumes "route_rules doc = Some (r # rest)" "\<not> is_loopback_selftest_exception r" "\<not> is_probe_rule r"
  shows "probe_confinement_rule_count doc = 0"
  using assms by (simp add: probe_confinement_rule_count_def)

lemma no_hairpin_route: "r \<in> set (exit_egress_rules d b) \<Longrightarrow> r \<noteq> hairpin_route"
proof -
  assume r: "r \<in> set (exit_egress_rules d b)"
  have "jget ''outbound'' r = None"
    using r by (auto simp: exit_egress_rules_def ipv6_reject_def spoof_items_def Let_def rule_get split: if_splits option.splits)
  moreover have "jget ''outbound'' hairpin_route = Some (JStr ''google-egress-hairpin'')"
    by (simp add: hairpin_route_def rule_get)
  ultimately show ?thesis by auto
qed

text \<open>The doctor's check of an exit accepts exactly the document that was rendered for it: a
  freshly rendered document passes the exact rule-by-rule comparison unless the deployment
  declares the Google hairpin while its credential is missing, in which case it fails.\<close>

theorem doctor_accepts_rendered_exit:
  assumes "render_server_config_for_deployment b64 d users reality hysteria now = Inr doc" "dc_role d = Exit"
  shows "exit_egress_policy_matches d doc \<longleftrightarrow>
    dc_google_egress_hairpin d = None \<or> rs_google_egress_hairpin_uuid reality \<noteq> None"
proof -
  let ?ids = "principals_of u_is_reserved_probe users now" and ?tags = "[reality_in, ''hysteria2-in'']"
  let ?hp = "dc_google_egress_hairpin d \<noteq> None"
  define active where "active \<longleftrightarrow> ?hp \<and> rs_google_egress_hairpin_uuid reality \<noteq> None"
  define tail where "tail = exit_egress_rules d active @ (if active then [hairpin_route] else [])"
  define expected where "expected = exit_egress_rules d ?hp @ (if ?hp then [hairpin_route] else [])"
  define prefix where "prefix = (if ?ids = [] then [] else direct_rule (loopback_items d ?ids) # probe_rules ?ids)"
  have rules: "route_rules doc = Some (prefix @ protected_rules d ?tags @ tail)"
    and final: "jidx (jidx doc ''route'') ''final'' = JStr ''direct''"
    using rendered_exit [OF assms] by (simp_all add: prefix_def tail_def active_def)
  have count: "probe_confinement_rule_count doc = length prefix"
  proof (cases "?ids = []")
    case True
    obtain r rest where r: "protected_rules d ?tags = r # rest" "\<not> has_key ''auth_user'' r"
      using protected_rules_unscoped [of _ d ?tags] by (simp add: protected_rules_def c16_egress_deny_rules_def)
    then show ?thesis
      using rules True probe_count_none [of doc r "rest @ tail"]
      by (simp add: prefix_def is_loopback_selftest_exception_def is_probe_rule_def)
  next
    case False
    then show ?thesis
      using probe_count_prefix [of doc _ ?ids "protected_rules d ?tags @ tail", OF _ loopback_recognised(1)] rules
        probe_rules_recognised(2) [of ?ids] by (simp add: prefix_def)
  qed
  have "exit_egress_policy_matches d doc \<longleftrightarrow> tail = expected"
    by (simp add: exit_egress_policy_matches_def rules count rendered_inbounds(2) [OF assms(1)] final Let_def
        expected_def)
  also have "\<dots> \<longleftrightarrow> \<not> ?hp \<or> rs_google_egress_hairpin_uuid reality \<noteq> None"
  proof (cases "active = ?hp")
    case True
    then show ?thesis by (auto simp: tail_def expected_def active_def)
  next
    case False
    then have "hairpin_route \<in> set expected" "hairpin_route \<notin> set tail"
      using no_hairpin_route [of hairpin_route d active] by (auto simp: expected_def tail_def active_def)
    then have "tail \<noteq> expected" by auto
    with False show ?thesis by (auto simp: active_def)
  qed
  finally show ?thesis by blast
qed

text \<open>Searching and counting by index.\<close>

lemma filter_nth: "filter P xs = map ((!) xs) (filter (\<lambda>i. P (xs ! i)) [0..<length xs])"
proof -
  have "filter P (map ((!) xs) [0..<length xs]) = map ((!) xs) (filter (P \<circ> (!) xs) [0..<length xs])"
    by (rule filter_map)
  then show ?thesis by (simp add: map_nth comp_def)
qed

lemma length_filter_nth: "length (filter (\<lambda>i. P (xs ! i)) [0..<length xs]) = length (filter P xs)"
  by (subst (2) filter_nth) simp

lemma filter_upt_add: "filter P [0..<a + b] = filter P [0..<a] @ map ((+) a) (filter (\<lambda>i. P (a + i)) [0..<b])"
proof -
  have "(\<lambda>i. i + a) = (+) a" by (simp add: fun_eq_iff)
  then have "[a..<a + b] = map ((+) a) [0..<b]" using map_add_upt [of a b] by (simp add: add.commute [of b])
  then show ?thesis by (simp add: upt_add_eq_append [of 0 a b] filter_map comp_def)
qed

lemma filter_nth_single:
  assumes "P r" "\<forall>x\<in>set us \<union> set vs. \<not> P x"
  shows "filter (\<lambda>i. P ((us @ [r] @ vs) ! i)) [0..<length (us @ [r] @ vs)] = [length us]"
proof -
  have "length (us @ [r] @ vs) = length us + (1 + length vs)" by simp
  then show ?thesis
    unfolding filter_upt_add [of _ "length us"] \<open>length (us @ [r] @ vs) = _\<close> filter_upt_add [of _ 1]
    using assms by (auto simp: nth_append filter_empty_conv)
qed

lemma count_outside:
  "length (filter (\<lambda>i. (i < length as \<or> length as + length bs \<le> i) \<and> P ((as @ bs @ cs) ! i)) [0..<length (as @ bs @ cs)])
     = length (filter P (as @ cs))"
proof -
  let ?Q = "\<lambda>i. (i < length as \<or> length as + length bs \<le> i) \<and> P ((as @ bs @ cs) ! i)"
  have "filter ?Q [0..<length as] = filter (\<lambda>i. P (as ! i)) [0..<length as]"
    by (rule filter_cong) (auto simp: nth_append)
  moreover have "filter (\<lambda>i. ?Q (length as + i)) [0..<length bs] = []"
    by (auto simp: filter_empty_conv)
  moreover have "filter (\<lambda>i. ?Q (length as + (length bs + i))) [0..<length cs] = filter (\<lambda>i. P (cs ! i)) [0..<length cs]"
    by (rule filter_cong) (auto simp: nth_append)
  moreover have "length (as @ bs @ cs) = length as + (length bs + length cs)" by simp
  ultimately show ?thesis
    unfolding filter_upt_add by (simp only: filter_upt_add) (simp add: length_filter_nth add.assoc)
qed

text \<open>How the relay rules are classified.\<close>

lemmas obj_eval = jobj_def bt_of_list_def direct_rule_def reject_rule_def

lemma exit_route_recognised:
  "is_exit_route (scope_rule ps (jobj [(''action'', JStr ''route''), (''outbound'', JStr ''direct'')]))"
  by (simp add: is_exit_route_def scope_rule_def obj_eval jidx_def bt_get_def reality_in_def)

lemma not_exit_route_action: "jget ''action'' r \<noteq> Some (JStr ''route'') \<Longrightarrow> \<not> is_exit_route r"
  by (auto simp: is_exit_route_def jidx_def split: option.splits)

lemma unscoped_exit_rules_action:
  assumes "r \<in> set (unscoped_exit_rules d)"
  shows "jget ''action'' r \<noteq> Some (JStr ''route'')"
  using assms fst_target_item
  by (auto simp: unscoped_exit_rules_def protected_rules_def c16_egress_deny_rules_def own_address_deny_rule_def opt_list_def
      exit_egress_rules_def ipv6_reject_def spoof_items_def Let_def rule_get split: if_splits option.splits)

lemma not_exit_route:
  "r \<in> set (relay_prefix d users now) \<Longrightarrow> \<not> is_exit_route r"
  "r \<in> set (hairpin_rules d p) \<Longrightarrow> \<not> is_exit_route r"
  "\<not> is_exit_route (target_rule t)" "\<not> is_exit_route relay_reject"
proof -
  show "r \<in> set (relay_prefix d users now) \<Longrightarrow> \<not> is_exit_route r"
    by (auto simp: relay_prefix_def loopback_rules_def probe_rules_def loopback_items_def Let_def is_exit_route_def
        obj_eval jidx_def bt_get_def jstrs_def split: if_splits)
  show "r \<in> set (hairpin_rules d p) \<Longrightarrow> \<not> is_exit_route r"
    by (auto simp: hairpin_rules_def spoof_items_def Let_def is_exit_route_def obj_eval jidx_def bt_get_def
        split: option.splits)
  show "\<not> is_exit_route (target_rule t)"
    using target_rule_unscoped [of t] by (auto simp: is_exit_route_def has_key_def jidx_def split: option.splits)
  show "\<not> is_exit_route relay_reject"
    by (rule not_exit_route_action) (simp add: relay_reject_def rule_get)
qed

lemma hairpins_recognised:
  "r \<in> set (relay_prefix d users now) \<Longrightarrow> \<not> is_hairpin_rule r"
  "r \<in> set (hairpin_rules d p) \<Longrightarrow> is_hairpin_rule r"
  "\<not> is_hairpin_rule (target_rule t)" "\<not> is_hairpin_rule relay_reject"
  using target_rule_unscoped relay_reject_unscoped
  by (auto simp: is_hairpin_rule_def relay_prefix_def loopback_rules_def probe_rules_def loopback_items_def
      hairpin_rules_def spoof_items_def Let_def rule_get split: if_splits option.splits)

lemma relay_probe_count:
  assumes "route_rules doc = Some (relay_prefix d users now @ relay_hairpins d users now @ relay_block d users now
    @ map target_rule (relay_targets d) @ [relay_reject])"
  shows "probe_confinement_rule_count doc = length (relay_prefix d users now)"
proof (cases "principals_of u_is_reserved_probe users now = []")
  case True
  let ?rest = "relay_hairpins d users now @ relay_block d users now @ map target_rule (relay_targets d) @ [relay_reject]"
  have r: "route_rules doc = Some ?rest" using assms True by (simp add: relay_prefix_def loopback_rules_def)
  have in_all: "has_key ''inbound'' r" if "r \<in> set ?rest" for r
    using that
    by (cases "exit_principal_ids d users now = []")
      (auto simp: relay_hairpins_def hairpin_rules_def spoof_items_def relay_block_def exit_principal_rules_split
        jget_target_rule relay_reject_def Let_def rule_get unscoped_exit_rules_obj split: option.splits)
  have no_loop: "\<not> is_loopback_selftest_exception (hd ?rest)"
  proof (cases "relay_hairpins d users now = []")
    case hp: True
    show ?thesis
    proof (cases "exit_principal_ids d users now = []")
      case True
      have "\<not> has_key ''auth_user'' (hd ?rest)"
        using hp True target_rule_unscoped relay_reject_unscoped by (cases "relay_targets d") (simp_all add: relay_block_def)
      then show ?thesis by (simp add: is_loopback_selftest_exception_def)
    next
      case False
      then have "jget ''ip_cidr'' (hd ?rest) = None"
        using hp by (simp add: relay_block_def exit_principal_rules_split unscoped_exit_rules_def protected_rules_def
          c16_egress_deny_rules_def rule_get)
      then show ?thesis by (simp add: is_loopback_selftest_exception_def)
    qed
  next
    case False
    then have "hd ?rest \<in> set (relay_hairpins d users now)" by simp
    then have "jget ''ip_cidr'' (hd ?rest) = None"
      unfolding relay_hairpins_def by (auto simp: hairpin_rules_def spoof_items_def Let_def rule_get split: option.splits)
    then show ?thesis by (simp add: is_loopback_selftest_exception_def)
  qed
  obtain x xs where x: "?rest = x # xs" by (cases ?rest) auto
  have "\<not> is_probe_rule x" using in_all [of x] x by (simp add: is_probe_rule_def)
  then have "probe_confinement_rule_count doc = 0"
    using r no_loop unfolding x by (intro probe_count_none) simp_all
  then show ?thesis using True by (simp add: relay_prefix_def loopback_rules_def)
next
  case False
  then show ?thesis
    using probe_count_prefix [OF _ loopback_recognised(2), of doc "jstrs [reality_in]" d
        "principals_of u_is_reserved_probe users now" "principals_of u_is_reserved_probe users now"
        "relay_hairpins d users now @ relay_block d users now @ map target_rule (relay_targets d) @ [relay_reject]"]
      assms probe_rules_recognised(2) [of "principals_of u_is_reserved_probe users now"]
    by (simp add: relay_prefix_def loopback_rules_def Let_def)
qed

lemma exit_block_single:
  assumes "filter (\<lambda>i. is_exit_route (rules ! i)) [0..<length rules] = [e]" "exit_principals_enabled d"
    "(case as_array (jidx (rules ! e) ''auth_user'') of None \<Rightarrow> [] | Some a \<Rightarrow> List.map_filter as_str a) = ps"
    "ps \<noteq> []" "exit_principal_rules d ps = bs" "rules = as @ bs @ cs" "Suc e = length as + length bs"
  shows "exit_block d rules = Some (Some (length as, length bs, sort ps))"
  unfolding exit_block_def assms(1) using assms(2-5,7)
  by (simp add: Let_def del: assms(6)) (simp add: assms(6))

lemma relay_exit_block:
  assumes "rules = as @ relay_block d users now @ cs" "exit_principals_enabled d \<or> exit_principal_ids d users now = []"
    "\<forall>r\<in>set as \<union> set cs. \<not> is_exit_route r"
  defines "ps \<equiv> exit_principal_ids d users now"
  shows "exit_block d rules = Some (if ps = [] then None else Some (length as, length (relay_block d users now), sort ps))"
proof (cases "ps = []")
  case True
  then have "filter (\<lambda>i. is_exit_route (rules ! i)) [0..<length rules] = []"
    using assms(1,3) by (auto simp: ps_def relay_block_def filter_empty_conv nth_append)
  with True show ?thesis by (simp add: exit_block_def)
next
  case False
  let ?route = "scope_rule ps (jobj [(''action'', JStr ''route''), (''outbound'', JStr ''direct'')])"
  let ?us = "as @ map (scope_rule ps) (unscoped_exit_rules d)"
  have block: "relay_block d users now = map (scope_rule ps) (unscoped_exit_rules d) @ [?route]"
    using False by (simp add: relay_block_def ps_def exit_principal_rules_split)
  have rules: "rules = ?us @ [?route] @ cs" by (simp add: assms(1) block)
  have "\<not> is_exit_route r" if "r \<in> set (map (scope_rule ps) (unscoped_exit_rules d))" for r
    using that unscoped_exit_rules_action by (auto simp: unscoped_exit_rules_obj intro!: not_exit_route_action)
  then have idx: "filter (\<lambda>i. is_exit_route (rules ! i)) [0..<length rules] = [length ?us]"
    unfolding rules using assms(3)
    by (intro filter_nth_single [of is_exit_route ?route ?us cs, OF exit_route_recognised]) auto
  have at: "rules ! length ?us = ?route" unfolding rules by (simp add: nth_append)
  have "List.map_filter as_str (map JStr ps) = ps" by (induction ps) (simp_all add: map_filter_simps)
  then have ps: "(case as_array (jidx ?route ''auth_user'') of None \<Rightarrow> [] | Some a \<Rightarrow> List.map_filter as_str a) = ps"
    by (simp add: jidx_def)
  have expected: "exit_principal_rules d ps = relay_block d users now" by (simp add: relay_block_def ps_def)
  have "exit_block d rules = Some (Some (length as, length (relay_block d users now), sort ps))"
    by (rule exit_block_single [OF idx]) (use False assms(1,2) at ps expected in \<open>auto simp: ps_def block\<close>)
  with False show ?thesis by simp
qed

text \<open>The doctor's check of a relay accepts the document that was rendered for it, and reads
  from it exactly the number of forwarding targets, the length of the exit-principal block and
  the principals that block serves, provided no probe principal is also a hairpin or exit
  principal.\<close>

theorem doctor_accepts_rendered_relay:
  assumes "render_server_config_for_deployment b64 d users reality hysteria now = Inr doc" "dc_role d = Relay"
    "probes_apart d users now"
  shows "relay_policy_facts d doc =
    \<lparr>rf_fail_closed = True, rf_targets = length (relay_targets d),
     rf_exit_principal_rules = length (exit_principal_rules d (exit_principal_ids d users now)),
     rf_principals = sort (exit_principal_ids d users now)\<rparr>"
proof -
  let ?ps = "exit_principal_ids d users now"
  define as where "as = relay_prefix d users now @ relay_hairpins d users now"
  define cs where "cs = map target_rule (relay_targets d) @ [relay_reject]"
  have rules: "route_rules doc = Some (as @ relay_block d users now @ cs)"
    using rendered_relay_shape [OF assms] by (simp add: as_def cs_def)
  have count: "probe_confinement_rule_count doc = length (relay_prefix d users now)"
    by (rule relay_probe_count [OF rendered_relay_shape [OF assms]])
  have "\<forall>r\<in>set as \<union> set cs. \<not> is_exit_route r"
    using not_exit_route by (auto simp: as_def cs_def relay_hairpins_def)
  then have block: "exit_block d (as @ relay_block d users now @ cs)
      = Some (if ?ps = [] then None else Some (length as, length (relay_block d users now), sort ?ps))"
    by (intro relay_exit_block) (auto simp: exit_principal_ids_def)
  have hairpins: "length (filter is_hairpin_rule (as @ cs)) = length (relay_hairpins d users now)"
  proof -
    have "filter is_hairpin_rule (relay_prefix d users now) = []" "filter is_hairpin_rule cs = []"
      "filter is_hairpin_rule (relay_hairpins d users now) = relay_hairpins d users now"
      using hairpins_recognised by (auto simp: filter_empty_conv filter_id_conv cs_def relay_hairpins_def)
    then show ?thesis by (simp add: as_def)
  qed
  define rs where "rs = as @ relay_block d users now @ cs"
  have ends: "rs \<noteq> []" "jidx (last rs) ''action'' = JStr ''reject''"
    by (simp_all add: rs_def cs_def relay_reject_def rule_get)
  have len: "Suc (length (relay_targets d) + length (relay_hairpins d users now)
      + length (relay_prefix d users now) + length (relay_block d users now)) = length rs"
    by (simp add: rs_def as_def cs_def)
  have counted: "length (filter (\<lambda>i. (i < length as \<or> length as + length (relay_block d users now) \<le> i)
      \<and> is_hairpin_rule (rs ! i)) [0..<length rs]) = length (relay_hairpins d users now)"
    unfolding rs_def count_outside by (rule hairpins)
  have unblocked: "length (filter (\<lambda>i. is_hairpin_rule (rs ! i)) [0..<length rs]) = length (relay_hairpins d users now)"
    if "?ps = []"
    unfolding length_filter_nth using that hairpins by (simp add: rs_def relay_block_def)
  have "relay_block d users now = []" if "?ps = []" using that by (simp add: relay_block_def)
  then show ?thesis
    using rules block counted unblocked ends len unfolding rs_def [symmetric]
    by (cases "?ps = []") (simp_all add: relay_policy_facts_def count not_less Let_def relay_block_def [symmetric])
qed

section \<open>When rendering succeeds\<close>

lemma render_succeeds:
  "(\<exists>doc. render_server_config_for_deployment b64 d users reality hysteria now = Inr doc) \<longleftrightarrow>
     validate_deployment b64 d = Inr () \<and> validate_authorization_set (projected users) = Inr ()"
proof -
  have "render_relay d users now (render_singbox_server_config users reality hysteria ports now) \<noteq> Inl e" for ports e
    by (simp add: render_relay_def transport_inbounds Let_def)
  then have "\<exists>doc. render_relay d users now (render_singbox_server_config users reality hysteria ports now) = Inr doc" for ports
    by (metis sum.exhaust)
  then show ?thesis
    by (auto simp: render_server_config_for_deployment_def rbind_eq_Inr map_err_def Let_def split: sum.splits if_splits)
qed

definition example_exit :: DeploymentConfig where
  "example_exit = example_relay\<lparr>dc_role := Exit, dc_access_paths := [], dc_peer_endpoints := []\<rparr>"

lemma example_exit_valid: "validate_deployment example_b64 example_exit = Inr ()"
  unfolding validate_deployment_ok
  using example_relay_texts by (simp add: example_exit_def example_relay_def text_eval section_eval)

definition example_reality :: RealityServerParams where
  "example_reality = \<lparr>rs_private_key = ''priv'', rs_public_key = ''pub'', rs_short_ids = [''ab''],
     rs_handshake_server = ''www.example.com'', rs_handshake_port = 443, rs_google_egress_hairpin_uuid = None\<rparr>"

definition example_hysteria :: Hysteria2ServerParams where
  "example_hysteria = \<lparr>hs_tls_cert_path = ''cert'', hs_tls_key_path = ''key'', hs_obfs_password = None,
     hs_masquerade_dir_path = None, hs_up_mbps = None, hs_down_mbps = None\<rparr>"

definition example_probe :: CompatUser where
  "example_probe = example_user\<lparr>u_id := ''probe_1'', u_is_reserved_probe := True\<rparr>"

lemma example_projection: "projected [example_user, example_probe] = []"
  by (simp add: projected_def example_user_def example_probe_def starts_with_def)

lemma validate_no_authorizations: "validate_authorization_set [] = Inr ()"
  by (simp add: validate_authorization_set_def validate_set_def btree_set_def)

lemma example_renders:
  assumes "d = example_relay \<or> d = example_exit"
  shows "\<exists>doc. render_server_config_for_deployment example_b64 d [example_user, example_probe] example_reality
    example_hysteria 1000 = Inr doc"
  unfolding render_succeeds example_projection
  using assms example_relay_valid example_exit_valid validate_no_authorizations by auto

theorem doctor_accepts_rendered_exit_witness:
  "\<exists>doc. render_server_config_for_deployment example_b64 example_exit [example_user, example_probe] example_reality
     example_hysteria 1000 = Inr doc \<and> exit_egress_policy_matches example_exit doc"
proof -
  obtain doc where doc: "render_server_config_for_deployment example_b64 example_exit [example_user, example_probe]
      example_reality example_hysteria 1000 = Inr doc"
    using example_renders by blast
  have "dc_role example_exit = Exit" "dc_google_egress_hairpin example_exit = None"
    by (simp_all add: example_exit_def example_relay_def)
  with doctor_accepts_rendered_exit [OF doc] doc show ?thesis by simp
qed

lemma example_principals:
  "principals_of u_is_reserved_probe [example_user, example_probe] 1000 = [''probe_1'']"
  "principals_of u_google_egress_hairpin [example_user, example_probe] 1000 = []"
  "active_principal_ids example_user 1000 = [''user_1'']" "active_principal_ids example_probe 1000 = [''probe_1'']"
  by (simp_all add: principals_of_def active_principal_ids_def effective_grants_def is_active_def example_user_def
      example_probe_def starts_with_def grant_is_authorized_def is_revoked_at_def VALID_FROM_SKEW_GRACE_SECS_def
      in_i64_def I64_MAX_def I64_MIN_def)

theorem doctor_accepts_rendered_relay_witness:
  "\<exists>doc. render_server_config_for_deployment example_b64 example_relay [example_user, example_probe] example_reality
     example_hysteria 1000 = Inr doc
   \<and> relay_policy_facts example_relay doc
     = \<lparr>rf_fail_closed = True, rf_targets = 1, rf_exit_principal_rules = 0, rf_principals = []\<rparr>"
proof -
  obtain doc where doc: "render_server_config_for_deployment example_b64 example_relay [example_user, example_probe]
      example_reality example_hysteria 1000 = Inr doc"
    using example_renders by blast
  have r: "dc_role example_relay = Relay" by (simp add: example_relay_def)
  have e: "exit_principal_ids example_relay [example_user, example_probe] 1000 = []"
    by (simp add: exit_principal_ids_def exit_principals_enabled_def example_relay_def)
  have "length (relay_targets example_relay) = 1"
    by (simp add: relay_targets_def example_relay_def section_eval)
  moreover have "probes_apart example_relay [example_user, example_probe] 1000"
    by (simp add: probes_apart_def example_principals e)
  ultimately show ?thesis
    using doctor_accepts_rendered_relay [OF doc r] doc e by simp
qed

text \<open>The entries of the inbounds: principals in store order, with the secrets of their grants.\<close>

lemma granted_names:
  "map (\<lambda>ug. g_principal_id (snd ug)) (authorized_grants users now)
   = concat (map (\<lambda>u. active_principal_ids u now) users)"
  unfolding authorized_grants_def
  by (induction users) (auto simp: active_principal_ids_def comp_def)

lemma inbound_entries:
  "map (get_str ''name'') (map vless_user gs) = map Some (map (\<lambda>ug. g_principal_id (snd ug)) gs)"
  "map (get_str ''name'') (map hysteria_user gs) = map Some (map (\<lambda>ug. g_principal_id (snd ug)) gs)"
  "map (\<lambda>j. (get_str ''uuid'' j, get_str ''flow'' j)) (map vless_user gs)
    = map (\<lambda>(u, g). (Some (g_vless_uuid g), Some (if u_vision_off u then [] else ''xtls-rprx-vision''))) gs"
  "map (get_str ''password'') (map hysteria_user gs) = map (\<lambda>(u, g). Some (g_hysteria2_password g)) gs"
  by (auto simp: vless_user_def hysteria_user_def get_readers_jobj)

lemma jidx_vless_users: "jidx (vless_inbound us r p) ''users'' = JArr us"
  by (simp add: vless_inbound_def jidx_jobj)

text \<open>C17: Rendering succeeds exactly when the deployment is valid and the credential-backed users
  project to a valid authorization set; the relay branch never lacks inbounds. The document then
  lists, in both inbounds and in store order, exactly the authorized principals of the active
  users, each with the secrets of its own grant, and the flow is empty exactly for the users in
  the Vision experiment.\<close>

theorem rendered_credentials:
  "((\<exists>doc. render_server_config_for_deployment b64 d users reality hysteria now = Inr doc) \<longleftrightarrow>
      validate_deployment b64 d = Inr () \<and> validate_authorization_set (projected users) = Inr ())
   \<and> (\<forall>doc. render_server_config_for_deployment b64 d users reality hysteria now = Inr doc \<longrightarrow>
      (\<exists>v h vs hs. as_array (jidx doc ''inbounds'') = Some [v, h]
        \<and> jidx v ''users'' = JArr vs \<and> jidx h ''users'' = JArr hs
        \<and> map (get_str ''name'') vs = map Some (concat (map (\<lambda>u. active_principal_ids u now) users))
        \<and> map (get_str ''name'') hs = map (get_str ''name'') vs
        \<and> map (\<lambda>j. (get_str ''uuid'' j, get_str ''flow'' j)) vs
          = map (\<lambda>(u, g). (Some (g_vless_uuid g), Some (if u_vision_off u then [] else ''xtls-rprx-vision'')))
              (authorized_grants users now)
        \<and> map (get_str ''password'') hs = map (\<lambda>(u, g). Some (g_hysteria2_password g)) (authorized_grants users now)
        \<and> (\<forall>(u, g)\<in>set (authorized_grants users now). u \<in> set users \<and> is_active u now
             \<and> g \<in> set (effective_grants u) \<and> grant_is_authorized g now)))"
proof -
  let ?gs = "authorized_grants users now"
  have "\<forall>(u, g)\<in>set ?gs. u \<in> set users \<and> is_active u now \<and> g \<in> set (effective_grants u) \<and> grant_is_authorized g now"
    by (auto simp: authorized_grants_def)
  then show ?thesis
    using render_succeeds [of b64 d users reality hysteria now] rendered_inbounds(1) inbound_entries [of ?gs]
      granted_names [of users now] jidx_hysteria_inbound(2) jidx_vless_users
    by (intro conjI allI impI) (auto simp del: map_map)
qed

theorem rendered_credentials_witness:
  "\<exists>doc v h vs. render_server_config_for_deployment example_b64 example_exit [example_user, example_probe]
       example_reality example_hysteria 1000 = Inr doc
     \<and> as_array (jidx doc ''inbounds'') = Some [v, h] \<and> jidx v ''users'' = JArr vs
     \<and> map (get_str ''name'') vs = [Some ''user_1'', Some ''probe_1'']"
proof -
  obtain doc where doc: "render_server_config_for_deployment example_b64 example_exit [example_user, example_probe]
      example_reality example_hysteria 1000 = Inr doc"
    using example_renders by blast
  from doc rendered_credentials [THEN conjunct2, rule_format, OF doc] example_principals(3,4)
  show ?thesis by fastforce
qed

end
