(* ===== verification/ServerPolicy.thy ===== *)
theory ServerPolicy
  imports ServerConfig
begin

text \<open>
  What the rendered route rules mean for a connection.  The core that evaluates them is not part
  of this repository: \<open>decide\<close> and \<open>act\<close> are parameters, with the documented behaviour of its rule
  evaluation as the hypothesis \<open>documented_router\<close>.  A rule applies when every item it names
  holds; a rule that sniffs, resolves or sets options updates what is known of the destination
  and evaluation goes on; any other rule that applies decides.  The theorems say where a relay
  forwards, what an exit refuses, and where the probe identity can go.
\<close>

section \<open>Connections and the documented evaluation\<close>

text \<open>A connection: the inbound that accepted it, the authenticated user, the network and the
  destination port, and what is known of the destination address, its name and its protocol.\<close>

record conn =
  cn_inbound :: string
  cn_user :: string
  cn_network :: string
  cn_port :: nat
  cn_ip_version :: nat
  cn_protocol :: string
  cn_in_cidr :: "string \<Rightarrow> bool"
  cn_domain_is :: "string \<Rightarrow> bool"
  cn_domain_under :: "string \<Rightarrow> bool"

text \<open>An item is a string or a list of strings; a missing item always holds, and the address items
  are alternatives of each other.\<close>

definition item_strings :: "string \<Rightarrow> json \<Rightarrow> string list option" where
  "item_strings k r =
     (case jget k r of
        Some (JArr vs) \<Rightarrow> Some (List.map_filter as_str vs)
      | Some (JStr s) \<Rightarrow> Some [s]
      | _ \<Rightarrow> None)"

definition item_holds :: "string \<Rightarrow> (string \<Rightarrow> bool) \<Rightarrow> json \<Rightarrow> bool" where
  "item_holds k P r = (case item_strings k r of None \<Rightarrow> True | Some xs \<Rightarrow> list_ex P xs)"

definition number_holds :: "string \<Rightarrow> nat \<Rightarrow> json \<Rightarrow> bool" where
  "number_holds k n r = (case jget k r of None \<Rightarrow> True | Some v \<Rightarrow> v = jnat n)"

definition names_address :: "json \<Rightarrow> bool" where
  "names_address r \<longleftrightarrow> has_key ''ip_cidr'' r \<or> has_key ''domain'' r \<or> has_key ''domain_suffix'' r"

definition address_holds :: "json \<Rightarrow> conn \<Rightarrow> bool" where
  "address_holds r c \<longleftrightarrow> \<not> names_address r
     \<or> has_key ''ip_cidr'' r \<and> item_holds ''ip_cidr'' (cn_in_cidr c) r
     \<or> has_key ''domain'' r \<and> item_holds ''domain'' (cn_domain_is c) r
     \<or> has_key ''domain_suffix'' r \<and> item_holds ''domain_suffix'' (cn_domain_under c) r"

definition applies :: "json \<Rightarrow> conn \<Rightarrow> bool" where
  "applies r c \<longleftrightarrow>
     item_holds ''inbound'' (\<lambda>x. x = cn_inbound c) r \<and> item_holds ''auth_user'' (\<lambda>x. x = cn_user c) r
     \<and> item_holds ''network'' (\<lambda>x. x = cn_network c) r \<and> item_holds ''protocol'' (\<lambda>x. x = cn_protocol c) r
     \<and> number_holds ''port'' (cn_port c) r \<and> number_holds ''ip_version'' (cn_ip_version c) r \<and> address_holds r c"

definition continues :: "json \<Rightarrow> bool" where
  "continues r \<longleftrightarrow> jidx r ''action'' \<in> {JStr ''sniff'', JStr ''resolve'', JStr ''route-options''}"

definition same_identity :: "conn \<Rightarrow> conn \<Rightarrow> bool" where
  "same_identity c c' \<longleftrightarrow> cn_inbound c' = cn_inbound c \<and> cn_user c' = cn_user c \<and> cn_network c' = cn_network c
     \<and> cn_port c' = cn_port c"

definition documented_router :: "(json \<Rightarrow> conn \<Rightarrow> conn) \<Rightarrow> (json list \<Rightarrow> conn \<Rightarrow> json option) \<Rightarrow> bool" where
  "documented_router act decide \<longleftrightarrow>
     (\<forall>c. decide [] c = None)
     \<and> (\<forall>r rs c. decide (r # rs) c =
          (if \<not> applies r c then decide rs c else if continues r then decide rs (act r c) else Some r))
     \<and> (\<forall>r c. same_identity c (act r c))"

lemma same_identity_refl [simp]: "same_identity c c"
  by (simp add: same_identity_def)

lemma same_identity_trans: "same_identity a b \<Longrightarrow> same_identity b c \<Longrightarrow> same_identity a c"
  by (simp add: same_identity_def)

section \<open>Evaluation\<close>

text \<open>The rule that decides a connection, with what is then known of the destination.\<close>

fun decided_at :: "(json \<Rightarrow> conn \<Rightarrow> conn) \<Rightarrow> json list \<Rightarrow> conn \<Rightarrow> (json \<times> conn) option" where
  "decided_at act [] c = None"
| "decided_at act (r # rs) c =
     (if \<not> applies r c then decided_at act rs c
      else if continues r then decided_at act rs (act r c)
      else Some (r, c))"

lemma decide_decided_at:
  "documented_router act decide \<Longrightarrow> decide rules c = map_option fst (decided_at act rules c)"
  by (induction rules arbitrary: c) (simp_all add: documented_router_def)

lemma decided_at_sound:
  assumes "\<And>r c. same_identity c (act r c)" "decided_at act rules c = Some (r, c')"
  shows "r \<in> set rules" "\<not> continues r" "applies r c'" "same_identity c c'"
proof -
  have "r \<in> set rules \<and> \<not> continues r \<and> applies r c' \<and> same_identity c c'"
    using assms(2)
  proof (induction rules arbitrary: c)
    case (Cons x rules)
    then show ?case
      using assms(1) [of c x] same_identity_trans [of c "act x c" c'] by (auto split: if_splits)
  qed simp
  then show "r \<in> set rules" "\<not> continues r" "applies r c'" "same_identity c c'" by simp_all
qed

lemma decided_at_still:
  assumes "decided_at act rules c = Some (r, c')" "\<And>x. x \<in> set rules \<Longrightarrow> continues x \<Longrightarrow> \<not> applies x c"
  shows "c' = c"
  using assms by (induction rules) (auto split: if_splits)

text \<open>A deciding rule that applies to the identity, whatever is learnt of the destination, ends
  the evaluation.\<close>

lemma decided_at_stops:
  assumes "\<And>r c. same_identity c (act r c)" "\<not> continues x" "\<And>c'. same_identity c c' \<Longrightarrow> applies x c'"
  shows "\<exists>r c'. decided_at act (xs @ x # ys) c = Some (r, c') \<and> decided_at act (xs @ [x]) c = Some (r, c')"
  using assms(3)
proof (induction xs arbitrary: c)
  case Nil
  then show ?case using assms(2) by simp
next
  case (Cons y xs)
  have "applies x c'" if "same_identity (act y c) c'" for c'
    using Cons.prems same_identity_trans [OF assms(1) that] by blast
  then show ?case using Cons.IH [of c] Cons.IH [of "act y c"] Cons.prems by auto
qed

lemma decide_skip:
  assumes "documented_router act decide" "\<forall>r\<in>set xs. \<not> applies r c"
  shows "decide (xs @ ys) c = decide ys c"
  using assms(2)
proof (induction xs)
  case (Cons x xs)
  have "decide ((x # xs) @ ys) c = decide (xs @ ys) c"
    using assms(1) Cons.prems by (simp add: documented_router_def)
  with Cons show ?case by simp
qed simp

lemma decide_step:
  assumes "documented_router act decide"
  shows "decide (r # rs) c =
    (if \<not> applies r c then decide rs c else if continues r then decide rs (act r c) else Some r)"
  using assms by (simp add: documented_router_def)

lemma decide_refuses:
  assumes "documented_router act decide" "\<forall>r\<in>set xs. \<not> continues r \<and> jidx r ''action'' = JStr ''reject''"
    "\<exists>r\<in>set xs. applies r c"
  shows "\<exists>r. decide (xs @ ys) c = Some r \<and> jidx r ''action'' = JStr ''reject''"
  using assms(2,3)
proof (induction xs)
  case (Cons x xs)
  then show ?case using decide_step [OF assms(1), of x "xs @ ys" c] by (cases "applies x c") auto
qed simp

section \<open>When the rendered rules apply\<close>

lemma map_filter_as_str [simp]: "List.map_filter as_str (map JStr xs) = xs"
  by (induction xs) (simp_all add: map_filter_simps)

lemma item_holds_strs: "jget k r = Some (jstrs xs) \<Longrightarrow> item_holds k P r \<longleftrightarrow> list_ex P xs"
  by (simp add: item_holds_def item_strings_def jstrs_def)

lemma item_holds_str: "jget k r = Some (JStr x) \<Longrightarrow> item_holds k P r \<longleftrightarrow> P x"
  by (simp add: item_holds_def item_strings_def)

lemma item_holds_none: "jget k r = None \<Longrightarrow> item_holds k P r"
  by (simp add: item_holds_def item_strings_def)

lemma number_holds_simps: "jget k r = None \<Longrightarrow> number_holds k n r"
  "jget k r = Some (jnat m) \<Longrightarrow> number_holds k n r \<longleftrightarrow> m = n"
  by (auto simp: number_holds_def jnat_def)

lemma applies_items:
  assumes "applies r c"
  shows "jget ''inbound'' r = Some (jstrs xs) \<Longrightarrow> cn_inbound c \<in> set xs"
    "jget ''auth_user'' r = Some (jstrs xs) \<Longrightarrow> cn_user c \<in> set xs"
    "jget ''network'' r = Some (JStr n) \<Longrightarrow> cn_network c = n"
    "jget ''port'' r = Some (jnat p) \<Longrightarrow> cn_port c = p"
  using assms by (auto simp: applies_def item_holds_strs item_holds_str number_holds_simps list_ex_iff)

lemma applies_address:
  assumes "applies r c" "jget ''domain_suffix'' r = None"
  shows "jget ''ip_cidr'' r = Some (jstrs xs) \<Longrightarrow> jget ''domain'' r = None \<Longrightarrow> list_ex (cn_in_cidr c) xs"
    "jget ''domain'' r = Some (jstrs xs) \<Longrightarrow> jget ''ip_cidr'' r = None \<Longrightarrow> list_ex (cn_domain_is c) xs"
  using assms by (auto simp: applies_def address_holds_def names_address_def has_key_def item_holds_strs)

lemma applies_identity_rule:
  "applies (reject_rule [(''inbound'', jstrs tags)]) c \<longleftrightarrow> cn_inbound c \<in> set tags"
  "applies (reject_rule [(''auth_user'', jstrs ids)]) c \<longleftrightarrow> cn_user c \<in> set ids"
  by (auto simp: applies_def item_holds_def item_strings_def number_holds_def address_holds_def names_address_def
      jstrs_def rule_get list_ex_iff)

definition addressed :: "RelayTarget \<Rightarrow> conn \<Rightarrow> bool" where
  "addressed t c \<longleftrightarrow> cn_inbound c = reality_in \<and> cn_network c = ''tcp'' \<and> cn_port c = rt_target_port t
     \<and> (case parse_ip (rt_host t) of
          Some ip \<Rightarrow> cn_in_cidr c (host_cidr ip)
        | None \<Rightarrow> cn_domain_is c (rt_host t))"

lemma applies_target_rule: "applies (target_rule t) c \<longleftrightarrow> addressed t c"
  by (cases "parse_ip (rt_host t)")
    (auto simp: applies_def addressed_def address_holds_def names_address_def has_key_def item_holds_def item_strings_def
      number_holds_def jget_target_rule target_item_def jstrs_def jnat_def map_filter_simps)

lemma continues_rules [simp]:
  "\<not> continues (reject_rule items)" if "''action'' \<notin> fst ` set items" for items
  using that by (auto simp: continues_def rule_get map_of_eq_None_iff split: option.splits)

lemma applies_cong:
  assumes "\<And>k. k \<noteq> ''inbound'' \<Longrightarrow> k \<noteq> ''auth_user'' \<Longrightarrow> jget k r' = jget k r"
    "item_holds ''inbound'' (\<lambda>x. x = cn_inbound c) r' \<longleftrightarrow> item_holds ''inbound'' (\<lambda>x. x = cn_inbound c) r"
    "item_holds ''auth_user'' (\<lambda>x. x = cn_user c) r' \<longleftrightarrow> item_holds ''auth_user'' (\<lambda>x. x = cn_user c) r"
  shows "applies r' c \<longleftrightarrow> applies r c"
proof -
  have "item_holds k P r' \<longleftrightarrow> item_holds k P r" "number_holds k n r' \<longleftrightarrow> number_holds k n r" "has_key k r' \<longleftrightarrow> has_key k r"
    if "k \<noteq> ''inbound''" "k \<noteq> ''auth_user''" for k P n
    using assms(1) [OF that] by (simp_all add: item_holds_def item_strings_def number_holds_def has_key_def)
  then show ?thesis
    unfolding applies_def address_holds_def names_address_def using assms(2,3) by simp
qed

lemma applies_scope:
  assumes "is_obj r" "jget ''auth_user'' r = None" "jget ''inbound'' r \<in> {None, Some (jstrs [reality_in])}"
    "cn_user c \<in> set ps" "cn_inbound c = reality_in"
  shows "applies (scope_rule ps r) c \<longleftrightarrow> applies r c"
proof (rule applies_cong)
  show "item_holds ''inbound'' (\<lambda>x. x = cn_inbound c) (scope_rule ps r) \<longleftrightarrow> item_holds ''inbound'' (\<lambda>x. x = cn_inbound c) r"
    using assms(1,3,5) item_holds_strs [of "''inbound''" "scope_rule ps r" "[reality_in]"]
    by (auto simp: item_holds_none item_holds_strs)
  show "item_holds ''auth_user'' (\<lambda>x. x = cn_user c) (scope_rule ps r) \<longleftrightarrow> item_holds ''auth_user'' (\<lambda>x. x = cn_user c) r"
    using assms(1,2,4) item_holds_strs [of "''auth_user''" "scope_rule ps r" ps]
    by (auto simp: item_holds_none list_ex_iff)
qed (use assms(1) in simp)

text \<open>The destinations every node protects, as text prefixes: the private and special ranges and
  those addresses of the node that its deployment file records as an address literal. A node named
  by a host name that records neither \<open>public_ipv4\<close> nor \<open>public_ipv6\<close> protects no address of
  its own.\<close>

definition own_cidrs :: "DeploymentConfig \<Rightarrow> string list" where
  "own_cidrs d = map host_cidr (literal_ip (Some (dc_public_host d)) @ literal_ip (dc_public_ipv4 d) @ literal_ip (dc_public_ipv6 d))"

definition protected_destination :: "DeploymentConfig \<Rightarrow> conn \<Rightarrow> bool" where
  "protected_destination d c \<longleftrightarrow>
     list_ex (cn_in_cidr c) (C16_DENY_IPV4_CIDRS @ C16_DENY_IPV6_CIDRS @ own_cidrs d)
     \<or> cn_network c = ''tcp'' \<and> cn_port c = C16_DENY_TCP_PORT"

lemma applies_cidr_reject:
  "applies (reject_rule [(''inbound'', jstrs tags), (''ip_cidr'', jstrs xs)]) c \<longleftrightarrow>
     cn_inbound c \<in> set tags \<and> list_ex (cn_in_cidr c) xs"
  by (auto simp: applies_def item_holds_def item_strings_def number_holds_def address_holds_def names_address_def
      jstrs_def rule_get list_ex_iff)

lemma applies_port_reject:
  "applies (reject_rule [(''inbound'', jstrs tags), (''network'', JStr net), (''port'', jnat p)]) c \<longleftrightarrow>
     cn_inbound c \<in> set tags \<and> cn_network c = net \<and> cn_port c = p"
  by (auto simp: applies_def item_holds_def item_strings_def number_holds_def address_holds_def names_address_def
      jstrs_def jnat_def rule_get list_ex_iff)

definition resolve_rule :: "string list \<Rightarrow> json" where
  "resolve_rule tags = jobj [(''inbound'', jstrs tags), (''action'', JStr ''resolve'')]"

lemma resolve_rule_applies: "applies (resolve_rule tags) c \<longleftrightarrow> cn_inbound c \<in> set tags" "continues (resolve_rule tags)"
  by (auto simp: resolve_rule_def applies_def item_holds_def item_strings_def number_holds_def address_holds_def
      names_address_def jstrs_def rule_get list_ex_iff continues_def)

lemma protected_rules_split:
  obtains denies where "protected_rules d tags = resolve_rule tags # denies"
    "\<forall>r\<in>set denies. \<not> continues r \<and> jidx r ''action'' = JStr ''reject''"
    "\<And>c. cn_inbound c \<in> set tags \<Longrightarrow> protected_destination d c \<Longrightarrow> \<exists>r\<in>set denies. applies r c"
proof
  let ?denies = "tl (c16_egress_deny_rules tags)
    @ opt_list (own_address_deny_rule tags (Some (dc_public_host d)) (dc_public_ipv4 d) (dc_public_ipv6 d))"
  show "protected_rules d tags = resolve_rule tags # ?denies"
    by (simp add: protected_rules_def c16_egress_deny_rules_def resolve_rule_def)
  show "\<forall>r\<in>set ?denies. \<not> continues r \<and> jidx r ''action'' = JStr ''reject''"
    by (auto simp: c16_egress_deny_rules_def own_address_deny_rule_def opt_list_def Let_def continues_def rule_get
        split: if_splits)
  fix c assume "cn_inbound c \<in> set tags" "protected_destination d c"
  then show "\<exists>r\<in>set ?denies. applies r c"
    by (cases "own_cidrs d = []")
      (auto simp: protected_destination_def c16_egress_deny_rules_def own_address_deny_rule_def opt_list_def Let_def
        applies_cidr_reject applies_port_reject own_cidrs_def)
qed

section \<open>Where connections can go\<close>

lemma rule_user: "applies r c' \<Longrightarrow> same_identity c c' \<Longrightarrow> jget ''auth_user'' r = Some (jstrs xs) \<Longrightarrow> cn_user c \<in> set xs"
  using applies_items(2) [of r c' xs] by (simp add: same_identity_def)

lemma unscoped_exit_rules_actions:
  assumes "r \<in> set (unscoped_exit_rules d)"
  shows "continues r \<or> jidx r ''action'' = JStr ''reject''"
  using assms fst_target_item
  by (auto simp: unscoped_exit_rules_def protected_rules_def c16_egress_deny_rules_def own_address_deny_rule_def opt_list_def
      exit_egress_rules_def ipv6_reject_def spoof_items_def Let_def rule_get continues_def split: if_splits option.splits)

lemma exit_principal_rule_cases:
  assumes "r \<in> set (exit_principal_rules d ps)"
  obtains x where "r = scope_rule ps x" "is_obj x"
    "x \<in> set (unscoped_exit_rules d) \<or> x = jobj [(''action'', JStr ''route''), (''outbound'', JStr ''direct'')]"
proof (cases "ps = []")
  case False
  then show ?thesis
    using assms that unscoped_exit_rules_obj by (force simp: exit_principal_rules_split)
qed (use assms in simp)

lemma hairpin_rule_decides:
  assumes "r \<in> set (hairpin_rules d p)" "\<not> continues r" "applies r c"
  shows "cn_user c = p \<and> list_ex (cn_domain_under c) GOOGLE_EGRESS_DOMAINS
    \<and> jidx r ''action'' = JStr ''route'' \<and> jidx r ''outbound'' = JStr ''direct''"
proof -
  have r: "r = direct_rule [(''inbound'', jstrs [reality_in]), (''auth_user'', jstrs [p]),
      (''domain_suffix'', jstrs GOOGLE_EGRESS_DOMAINS)]"
    using assms(1,2)
    by (auto simp: hairpin_rules_def spoof_items_def continues_def Let_def rule_get split: option.splits)
  then have "item_holds ''domain_suffix'' (cn_domain_under c) r"
    using assms(3) by (auto simp: applies_def address_holds_def names_address_def rule_get)
  moreover have "jget ''domain_suffix'' r = Some (jstrs GOOGLE_EGRESS_DOMAINS)" by (simp add: r rule_get)
  ultimately have "list_ex (cn_domain_under c) GOOGLE_EGRESS_DOMAINS" by (simp add: item_holds_strs)
  moreover have "cn_user c \<in> set [p]"
    by (rule applies_items(2) [OF assms(3)]) (simp add: r rule_get)
  ultimately show ?thesis by (simp add: r rule_get)
qed

lemma relay_rule_cases:
  assumes "render_server_config_for_deployment b64 d users reality hysteria now = Inr doc" "dc_role d = Relay"
    "route_rules doc = Some rules" "r \<in> set rules"
  obtains (probe) "jget ''auth_user'' r = Some (jstrs (principals_of u_is_reserved_probe users now))"
      "jidx r ''action'' = JStr ''reject'' \<or> jidx r ''action'' = JStr ''route'' \<and> jidx r ''outbound'' = JStr ''direct''"
    | (hairpin) p where "p \<in> set (principals_of u_google_egress_hairpin users now)" "r \<in> set (hairpin_rules d p)"
    | (block) "exit_principals_enabled d" "r \<in> set (exit_principal_rules d (exit_principal_ids d users now))"
    | (target) t where "t \<in> set (relay_targets d)" "r = target_rule t"
    | (reject) "r = relay_reject"
proof -
  let ?ids = "principals_of u_is_reserved_probe users now"
  have "r \<in> set (probe_rules ?ids) \<or> r \<in> set (relay_rules d users now) \<or> r = relay_reject"
    using assms(3,4) rendered_relay [OF assms(1,2)] by (auto simp: set_insert_rules split: if_splits)
  then consider "r \<in> set (probe_rules ?ids) \<union> set (loopback_rules d ?ids)" | "r \<in> set (relay_hairpins d users now)"
    | "r \<in> set (relay_block d users now)" | "r \<in> set (map target_rule (relay_targets d))" | "r = relay_reject"
    by (auto simp: relay_rules_split)
  then show ?thesis
  proof cases
    case 1
    then show ?thesis
      by (intro probe) (auto simp: probe_rules_def loopback_rules_def loopback_items_def rule_get split: if_splits)
  next
    case 2
    then show ?thesis using hairpin by (auto simp: relay_hairpins_def)
  next
    case 3
    then show ?thesis
      by (intro block) (auto simp: relay_block_def exit_principal_ids_def split: if_splits)
  qed (use target reject in auto)
qed

lemma exit_block_decides:
  assumes "r \<in> set (exit_principal_rules d ps)" "\<not> continues r" "applies r c"
  shows "cn_user c \<in> set ps \<and> (jidx r ''action'' = JStr ''reject''
    \<or> jidx r ''action'' = JStr ''route'' \<and> jidx r ''outbound'' = JStr ''direct'')"
proof -
  obtain x where "r = scope_rule ps x" "is_obj x"
    "x \<in> set (unscoped_exit_rules d) \<or> x = jobj [(''action'', JStr ''route''), (''outbound'', JStr ''direct'')]"
    using assms(1) by (rule exit_principal_rule_cases)
  then show ?thesis
    using assms(2) unscoped_exit_rules_actions [of x d] applies_items(2) [OF assms(3) auth_user_exit_principal_rules [OF assms(1)]]
    by (auto simp: jidx_def continues_def rule_get)
qed

lemma relay_rule_continues:
  assumes "render_server_config_for_deployment b64 d users reality hysteria now = Inr doc" "dc_role d = Relay"
    "route_rules doc = Some rules" "r \<in> set rules" "continues r" "applies r c"
  shows "cn_user c \<in> set (principals_of u_google_egress_hairpin users now) \<union> set (exit_principal_ids d users now)"
  using assms(1-4)
proof (cases rule: relay_rule_cases)
  case (hairpin p)
  then show ?thesis using applies_items(2) [OF assms(6) auth_user_hairpin_rules [OF hairpin(2)]] by auto
next
  case block
  then show ?thesis using applies_items(2) [OF assms(6) auth_user_exit_principal_rules] by blast
qed (use assms(5) in \<open>auto simp: continues_def relay_reject_def rule_get jidx_def jget_target_rule\<close>)

text \<open>C14: A relay is not an open proxy. Every connection that one of its inbounds accepts is decided
  by the rendered rules, and it is refused unless it goes, over TCP and through the REALITY
  inbound, to the host and port of a declared exit; the only other connections let through are
  those of the probe identity, those of a hairpin account to the Google domains, and those of the
  exit principals of a node that opted in. The destination is the one known when the deciding rule
  is evaluated; for every user but the hairpin accounts and the exit principals that is the
  destination as the client asked for it.\<close>

theorem relay_forwards_only_declared:
  assumes "render_server_config_for_deployment b64 d users reality hysteria now = Inr doc" "dc_role d = Relay"
    "documented_router act decide" "cn_inbound c \<in> set (inbound_tags doc)"
  shows "\<exists>rules r c'. route_rules doc = Some rules \<and> decide rules c = Some r \<and> decided_at act rules c = Some (r, c')
    \<and> (c' = c \<or> cn_user c \<in> set (principals_of u_google_egress_hairpin users now) \<union> set (exit_principal_ids d users now))
    \<and> (jidx r ''action'' = JStr ''reject''
       \<or> jidx r ''action'' = JStr ''route'' \<and> jidx r ''outbound'' = JStr ''direct''
         \<and> ((\<exists>t\<in>set (relay_targets d). addressed t c')
            \<or> cn_user c \<in> set (principals_of u_is_reserved_probe users now)
            \<or> cn_user c \<in> set (principals_of u_google_egress_hairpin users now)
              \<and> list_ex (cn_domain_under c') GOOGLE_EGRESS_DOMAINS
            \<or> exit_principals_enabled d \<and> cn_user c \<in> set (exit_principal_ids d users now)))"
proof -
  obtain rules where rules: "route_rules doc = Some rules" using rendered_relay [OF assms(1,2)] by auto
  have act: "\<And>r c. same_identity c (act r c)" using assms(3) by (simp add: documented_router_def)
  have "relay_reject \<in> set rules"
    using rules rendered_relay [OF assms(1,2)] by (auto simp: set_insert_rules split: if_splits)
  then obtain xs ys where "rules = xs @ relay_reject # ys" by (auto simp: in_set_conv_decomp)
  moreover have "\<not> continues relay_reject" by (simp add: relay_reject_def)
  moreover have "applies relay_reject c'" if "same_identity c c'" for c'
    using that assms(4) rendered_inbounds(2) [OF assms(1)]
    by (simp add: relay_reject_def applies_identity_rule same_identity_def)
  ultimately obtain r c' where at: "decided_at act rules c = Some (r, c')"
    using decided_at_stops [where act = act and x = relay_reject and c = c and xs = xs and ys = ys, OF act] by auto
  note s = decided_at_sound [OF act at]
  have user: "cn_user c' = cn_user c" using s(4) by (simp add: same_identity_def)
  have still: "c' = c \<or> cn_user c \<in> set (principals_of u_google_egress_hairpin users now) \<union> set (exit_principal_ids d users now)"
    using decided_at_still [OF at] relay_rule_continues [OF assms(1,2) rules] by blast
  have "jidx r ''action'' = JStr ''reject''
       \<or> jidx r ''action'' = JStr ''route'' \<and> jidx r ''outbound'' = JStr ''direct''
         \<and> ((\<exists>t\<in>set (relay_targets d). addressed t c')
            \<or> cn_user c \<in> set (principals_of u_is_reserved_probe users now)
            \<or> cn_user c \<in> set (principals_of u_google_egress_hairpin users now)
              \<and> list_ex (cn_domain_under c') GOOGLE_EGRESS_DOMAINS
            \<or> exit_principals_enabled d \<and> cn_user c \<in> set (exit_principal_ids d users now))"
    using assms(1,2) rules s(1)
  proof (cases rule: relay_rule_cases)
    case probe
    then show ?thesis using rule_user [OF s(3,4)] by blast
  next
    case (hairpin p)
    then show ?thesis using hairpin_rule_decides [OF hairpin(2) s(2,3)] user by auto
  next
    case block
    then show ?thesis using exit_block_decides [OF block(2) s(2,3)] user by auto
  next
    case (target t)
    then show ?thesis using s(3) by (auto simp: applies_target_rule jidx_def jget_target_rule)
  qed (simp add: relay_reject_def rule_get)
  then show ?thesis using rules at still decide_decided_at [OF assms(3), of rules c] by auto
qed

text \<open>The forwarding rule of an exit named by an address literal denotes that address and no
  other: the rule is limited to one prefix of full length, whose text the standard library reads
  back as the declared address.\<close>

theorem target_rule_denotes_target:
  assumes "parse_ip (rt_host t) = Some ip"
  shows "\<exists>txt. jget ''ip_cidr'' (target_rule t) = Some (jstrs [txt @ ''/'' @ ip_prefix ip]) \<and> parse_ip txt = Some ip
    \<and> jget ''domain'' (target_rule t) = None \<and> jget ''port'' (target_rule t) = Some (jnat (rt_target_port t))"
  using assms parse_show_ip [of ip]
  by (intro exI [of _ "show_ip ip"]) (simp add: jget_target_rule target_item_def host_cidr_def)

theorem target_rule_denotes_target_witness:
  "\<exists>txt. jget ''ip_cidr'' (target_rule \<lparr>rt_host = ''192.0.2.7'', rt_target_port = 443\<rparr>) = Some (jstrs [txt @ ''/32''])
    \<and> parse_ip txt = parse_ip ''192.0.2.7''"
proof -
  have p: "parse_ip ''192.0.2.7'' = Some (V4 3221225991)" by (simp add: parse_eval)
  from target_rule_denotes_target [of "\<lparr>rt_host = ''192.0.2.7'', rt_target_port = 443\<rparr>" "V4 3221225991"]
  show ?thesis by (auto simp: p)
qed

text \<open>C15: An exit never reaches the destinations it protects. After the address of the destination
  is resolved, a connection of any user but the probe identity to a private or special range, to
  an address of the node that the deployment records as an address literal (\<open>public_host\<close>,
  \<open>public_ipv4\<close> or \<open>public_ipv6\<close>), or to the mail port over TCP is refused. An address of the
  node that the deployment does not record so is not covered.\<close>

theorem exit_refuses_protected:
  assumes "render_server_config_for_deployment b64 d users reality hysteria now = Inr doc" "dc_role d = Exit"
    "documented_router act decide" "cn_inbound c \<in> set (inbound_tags doc)"
    "cn_user c \<notin> set (principals_of u_is_reserved_probe users now)"
    "protected_destination d (act (resolve_rule (inbound_tags doc)) c)"
  shows "\<exists>rules r. route_rules doc = Some rules \<and> decide rules c = Some r \<and> jidx r ''action'' = JStr ''reject''"
proof -
  let ?ids = "principals_of u_is_reserved_probe users now"
  let ?c' = "act (resolve_rule (inbound_tags doc)) c"
  obtain denies where p: "protected_rules d (inbound_tags doc) = resolve_rule (inbound_tags doc) # denies"
    "\<forall>r\<in>set denies. \<not> continues r \<and> jidx r ''action'' = JStr ''reject''"
    "\<And>c. cn_inbound c \<in> set (inbound_tags doc) \<Longrightarrow> protected_destination d c \<Longrightarrow> \<exists>r\<in>set denies. applies r c"
    using protected_rules_split [of d "inbound_tags doc"] by metis
  define prefix where "prefix = (if ?ids = [] then [] else direct_rule (loopback_items d ?ids) # probe_rules ?ids)"
  obtain rest where rules: "route_rules doc = Some (prefix @ resolve_rule (inbound_tags doc) # denies @ rest)"
    using rendered_exit(1) [OF assms(1,2)] p(1) by (auto simp: prefix_def rendered_inbounds(2) [OF assms(1)])
  have "\<not> applies r c" if "r \<in> set prefix" for r
  proof -
    have "jget ''auth_user'' r = Some (jstrs ?ids)"
      using that by (auto simp: prefix_def probe_rules_def loopback_items_def rule_get split: if_splits)
    then show ?thesis using applies_items(2) assms(5) by blast
  qed
  then have "decide (prefix @ resolve_rule (inbound_tags doc) # denies @ rest) c = decide (denies @ rest) ?c'"
    using decide_skip [OF assms(3), of prefix c] decide_step [OF assms(3), of "resolve_rule (inbound_tags doc)"]
      resolve_rule_applies assms(4) by simp
  moreover have "cn_inbound ?c' \<in> set (inbound_tags doc)"
    using assms(3,4) by (simp add: documented_router_def same_identity_def)
  ultimately show ?thesis
    using rules decide_refuses [OF assms(3) p(2), of ?c' rest] p(3) [OF _ assms(6)] by auto
qed

lemma probe_rule_decides:
  assumes "r \<in> set (loopback_rules d ids) \<union> {direct_rule (loopback_items d ids)} \<union> set (probe_rules ids)" "applies r c"
  shows "\<not> continues r" "jidx r ''action'' = JStr ''reject'' \<or> cn_network c = ''tcp''
      \<and> (cn_port c = ss_listen_port (dc_subscription d) \<and> cn_in_cidr c ''127.0.0.1/32''
         \<or> cn_port c = PROBE_ALLOWED_PORT
           \<and> (list_ex (cn_in_cidr c) PROBE_ALLOWED_IP_CIDRS \<or> list_ex (cn_domain_is c) PROBE_ALLOWED_DOMAINS))"
proof -
  from assms(1) consider (loop) "jget ''network'' r = Some (JStr ''tcp'')" "jget ''port'' r = Some (jnat (ss_listen_port (dc_subscription d)))"
      "jget ''ip_cidr'' r = Some (jstrs [''127.0.0.1/32''])" "jget ''domain'' r = None" "jget ''domain_suffix'' r = None"
    | (ip) "jget ''network'' r = Some (JStr ''tcp'')" "jget ''port'' r = Some (jnat PROBE_ALLOWED_PORT)"
      "jget ''ip_cidr'' r = Some (jstrs PROBE_ALLOWED_IP_CIDRS)" "jget ''domain'' r = None" "jget ''domain_suffix'' r = None"
    | (domain) "jget ''network'' r = Some (JStr ''tcp'')" "jget ''port'' r = Some (jnat PROBE_ALLOWED_PORT)"
      "jget ''domain'' r = Some (jstrs PROBE_ALLOWED_DOMAINS)" "jget ''ip_cidr'' r = None" "jget ''domain_suffix'' r = None"
    | (reject) "jidx r ''action'' = JStr ''reject''"
    by (auto simp: loopback_rules_def loopback_items_def probe_rules_def rule_get split: if_splits)
  then show "jidx r ''action'' = JStr ''reject'' \<or> cn_network c = ''tcp''
      \<and> (cn_port c = ss_listen_port (dc_subscription d) \<and> cn_in_cidr c ''127.0.0.1/32''
         \<or> cn_port c = PROBE_ALLOWED_PORT
           \<and> (list_ex (cn_in_cidr c) PROBE_ALLOWED_IP_CIDRS \<or> list_ex (cn_domain_is c) PROBE_ALLOWED_DOMAINS))"
  proof cases
    case loop
    then show ?thesis using applies_items(3,4) [OF assms(2)] applies_address(1) [OF assms(2)] by fastforce
  next
    case ip
    then show ?thesis using applies_items(3,4) [OF assms(2)] applies_address(1) [OF assms(2)] by simp
  next
    case domain
    then show ?thesis using applies_items(3,4) [OF assms(2)] applies_address(2) [OF assms(2)] by simp
  qed simp
  show "\<not> continues r"
    using assms(1) by (auto simp: continues_def loopback_rules_def loopback_items_def probe_rules_def rule_get split: if_splits)
qed

text \<open>The rules up to the blanket reject of the probe identity: on an exit its own, on a relay also
  those of hairpin accounts and exit principals that are scoped to it.\<close>

lemma probe_rules_ahead:
  assumes "render_server_config_for_deployment b64 d users reality hysteria now = Inr doc"
    "principals_of u_is_reserved_probe users now = ids" "ids \<noteq> []"
  obtains xs ys where "route_rules doc = Some (xs @ reject_rule [(''auth_user'', jstrs ids)] # ys)"
    "\<And>r. r \<in> set xs \<Longrightarrow> r \<in> set (loopback_rules d ids) \<union> {direct_rule (loopback_items d ids)} \<union> set (probe_rules ids)
       \<or> dc_role d = Relay \<and> (r \<in> set (relay_hairpins d users now) \<or> r \<in> set (relay_block d users now))"
proof (cases "dc_role d")
  case Exit
  obtain rest where "route_rules doc = Some (direct_rule (loopback_items d ids) # probe_rules ids @ rest)"
    using rendered_exit(1) [OF assms(1) Exit] assms(2,3) by auto
  then show ?thesis
    by (intro that [of "direct_rule (loopback_items d ids) # butlast (probe_rules ids)" rest])
      (auto simp: probe_rules_def)
next
  case Relay
  obtain xs ys where x: "relay_rules d users now = xs @ ys" "list_all (already_probe_scoped ids) xs"
    "insert_rules (already_probe_scoped ids) (probe_rules ids) (relay_rules d users now @ [relay_reject])
       = xs @ probe_rules ids @ ys @ [relay_reject]"
    using insert_rules_last [of "already_probe_scoped ids" relay_reject "relay_rules d users now" "probe_rules ids"]
      already_probe_scoped_none [OF relay_reject_unscoped] by metis
  show ?thesis
  proof (rule that [of "xs @ butlast (probe_rules ids)" "ys @ [relay_reject]"])
    show "route_rules doc = Some ((xs @ butlast (probe_rules ids)) @ reject_rule [(''auth_user'', jstrs ids)] # ys @ [relay_reject])"
      using rendered_relay [OF assms(1) Relay] x(3) assms(2,3) by (simp add: probe_rules_def)
    fix r assume "r \<in> set (xs @ butlast (probe_rules ids))"
    then consider "r \<in> set (probe_rules ids)" | "r \<in> set (relay_rules d users now)" "already_probe_scoped ids r"
      using x(1,2) in_set_butlastD [of r "probe_rules ids"] by (auto simp: list_all_iff)
    then show "r \<in> set (loopback_rules d ids) \<union> {direct_rule (loopback_items d ids)} \<union> set (probe_rules ids)
       \<or> dc_role d = Relay \<and> (r \<in> set (relay_hairpins d users now) \<or> r \<in> set (relay_block d users now))"
      using assms(2) already_probe_scoped_none [OF target_rule_unscoped] Relay by cases (auto simp: relay_rules_split)
  qed
qed

text \<open>C16: The probe identity cannot be used as a proxy, on an exit or on a relay: whatever it asks
  for, the connection is refused unless it goes over TCP to the node's own loopback subscription
  port, or to port 443 of the one probe address or of the two probe domains, as the probe asked for
  them. The exceptions are those of a relay on which the probe's principal is also granted
  something else: the principal of a hairpin account may reach the Google domains, and the
  principal of an account that is an exit principal keeps that exception.\<close>

theorem probe_identity_confined:
  assumes "render_server_config_for_deployment b64 d users reality hysteria now = Inr doc"
    "documented_router act decide" "cn_user c \<in> set (principals_of u_is_reserved_probe users now)"
  shows "\<exists>rules r c'. route_rules doc = Some rules \<and> decide rules c = Some r \<and> decided_at act rules c = Some (r, c')
    \<and> (c' = c \<or> dc_role d = Relay \<and> cn_user c \<in> set (principals_of u_google_egress_hairpin users now)
                    \<union> set (exit_principal_ids d users now))
    \<and> (jidx r ''action'' = JStr ''reject''
       \<or> cn_network c = ''tcp''
         \<and> (cn_port c = ss_listen_port (dc_subscription d) \<and> cn_in_cidr c' ''127.0.0.1/32''
            \<or> cn_port c = PROBE_ALLOWED_PORT
              \<and> (list_ex (cn_in_cidr c') PROBE_ALLOWED_IP_CIDRS \<or> list_ex (cn_domain_is c') PROBE_ALLOWED_DOMAINS))
       \<or> dc_role d = Relay \<and> cn_user c \<in> set (principals_of u_google_egress_hairpin users now)
         \<and> list_ex (cn_domain_under c') GOOGLE_EGRESS_DOMAINS
       \<or> dc_role d = Relay \<and> cn_user c \<in> set (exit_principal_ids d users now))"
proof -
  define ids where "ids = principals_of u_is_reserved_probe users now"
  let ?last = "reject_rule [(''auth_user'', jstrs ids)]"
  have act: "\<And>r c. same_identity c (act r c)" using assms(2) by (simp add: documented_router_def)
  have "ids \<noteq> []" using assms(3) by (auto simp: ids_def)
  then obtain xs ys where rules: "route_rules doc = Some (xs @ ?last # ys)"
    and xs: "\<And>r. r \<in> set xs \<Longrightarrow> r \<in> set (loopback_rules d ids) \<union> {direct_rule (loopback_items d ids)} \<union> set (probe_rules ids)
       \<or> dc_role d = Relay \<and> (r \<in> set (relay_hairpins d users now) \<or> r \<in> set (relay_block d users now))"
    using probe_rules_ahead [OF assms(1) ids_def [symmetric]] by metis
  have "applies ?last c'" if "same_identity c c'" for c'
    using that assms(3) by (simp add: applies_identity_rule same_identity_def ids_def)
  then obtain r c' where at: "decided_at act (xs @ ?last # ys) c = Some (r, c')" "decided_at act (xs @ [?last]) c = Some (r, c')"
    using decided_at_stops [where act = act and x = ?last and c = c and xs = xs and ys = ys, OF act] by auto
  note s = decided_at_sound [OF act at(2)]
  have user: "cn_user c' = cn_user c" "cn_network c' = cn_network c" "cn_port c' = cn_port c"
    using s(4) by (simp_all add: same_identity_def)
  have from_rules: "x \<in> set (loopback_rules d ids) \<union> {direct_rule (loopback_items d ids)} \<union> set (probe_rules ids)
      \<or> dc_role d = Relay \<and> (\<exists>p\<in>set (principals_of u_google_egress_hairpin users now). x \<in> set (hairpin_rules d p))
      \<or> dc_role d = Relay \<and> x \<in> set (exit_principal_rules d (exit_principal_ids d users now))"
    if "x \<in> set (xs @ [?last])" for x
    using that xs [of x] by (auto simp: probe_rules_def relay_hairpins_def relay_block_def)
  have still: "c' = c \<or> dc_role d = Relay \<and> cn_user c \<in> set (principals_of u_google_egress_hairpin users now)
      \<union> set (exit_principal_ids d users now)"
  proof (rule ccontr)
    assume n: "\<not> ?thesis"
    have "\<not> applies x c" if "x \<in> set (xs @ [?last])" "continues x" for x
      using from_rules [OF that(1)] that(2) n probe_rule_decides(1) [of x d ids c]
        applies_items(2) [of x c, OF _ auth_user_hairpin_rules]
        applies_items(2) [of x c, OF _ auth_user_exit_principal_rules] by fastforce
    from decided_at_still [OF at(2) this] n show False by simp
  qed
  have "jidx r ''action'' = JStr ''reject''
       \<or> cn_network c = ''tcp''
         \<and> (cn_port c = ss_listen_port (dc_subscription d) \<and> cn_in_cidr c' ''127.0.0.1/32''
            \<or> cn_port c = PROBE_ALLOWED_PORT
              \<and> (list_ex (cn_in_cidr c') PROBE_ALLOWED_IP_CIDRS \<or> list_ex (cn_domain_is c') PROBE_ALLOWED_DOMAINS))
       \<or> dc_role d = Relay \<and> cn_user c \<in> set (principals_of u_google_egress_hairpin users now)
         \<and> list_ex (cn_domain_under c') GOOGLE_EGRESS_DOMAINS
       \<or> dc_role d = Relay \<and> cn_user c \<in> set (exit_principal_ids d users now)"
    using from_rules [OF s(1)] probe_rule_decides(2) [OF _ s(3), of d ids] user
      hairpin_rule_decides [OF _ s(2,3), of d] exit_block_decides [OF _ s(2,3), of d] by fastforce
  then show ?thesis using rules at(1) still decide_decided_at [OF assms(2), of "xs @ ?last # ys" c] by auto
qed

lemma insert_rules_ahead:
  "list_all ahead xs \<Longrightarrow> insert_rules ahead new_rules (xs @ ys) = xs @ insert_rules ahead new_rules ys"
  by (induction xs) (simp_all add: insert_rules_def Let_def)

definition hairpin_sniff :: "string \<Rightarrow> json" where
  "hairpin_sniff p = jobj [(''inbound'', jstrs [reality_in]), (''auth_user'', jstrs [p]), (''action'', JStr ''sniff'')]"

definition hairpin_direct :: "string \<Rightarrow> json" where
  "hairpin_direct p = direct_rule [(''inbound'', jstrs [reality_in]), (''auth_user'', jstrs [p]),
     (''domain_suffix'', jstrs GOOGLE_EGRESS_DOMAINS)]"

lemma hairpin_rules_plain:
  "dc_google_egress_tls_spoof d = None \<Longrightarrow> hairpin_rules d p = [hairpin_sniff p, hairpin_direct p]"
  by (simp add: hairpin_rules_def hairpin_direct_def hairpin_sniff_def Let_def)

lemma applies_hairpin:
  "cn_user c = p \<Longrightarrow> cn_inbound c = reality_in \<Longrightarrow> applies (hairpin_sniff p) c"
  "cn_user c = p \<Longrightarrow> cn_inbound c = reality_in \<Longrightarrow> list_ex (cn_domain_under c) GOOGLE_EGRESS_DOMAINS
     \<Longrightarrow> applies (hairpin_direct p) c"
  "continues (hairpin_sniff p)" "\<not> continues (hairpin_direct p)"
  by (simp_all add: hairpin_direct_def hairpin_sniff_def applies_def item_holds_def item_strings_def number_holds_def
      address_holds_def names_address_def jstrs_def rule_get map_filter_simps continues_def)

text \<open>C38: The exception for hairpin accounts is real. When the first hairpin principal of a relay is
  a probe principal, its hairpin rules count as already scoped to the probe and stay ahead of the
  blanket reject: on a relay without TLS spoofing, over any network and to any port, the probe
  credential is let through to every destination that sniffing leaves under a Google domain.\<close>

theorem hairpin_probe_reaches_google:
  assumes "render_server_config_for_deployment b64 d users reality hysteria now = Inr doc" "dc_role d = Relay"
    "documented_router act decide" "dc_google_egress_tls_spoof d = None"
    "principals_of u_google_egress_hairpin users now = p # ps" "p \<in> set (principals_of u_is_reserved_probe users now)"
    "cn_user c = p" "cn_inbound c = reality_in"
    "list_ex (cn_domain_under (act (hairpin_sniff p) c)) GOOGLE_EGRESS_DOMAINS"
  shows "\<exists>rules r. route_rules doc = Some rules \<and> decide rules c = Some r
    \<and> jidx r ''action'' = JStr ''route'' \<and> jidx r ''outbound'' = JStr ''direct''"
proof -
  let ?ids = "principals_of u_is_reserved_probe users now"
  let ?c = "act (hairpin_sniff p) c"
  define l where "l = direct_rule ((''inbound'', jstrs [reality_in]) # loopback_items d ?ids)"
  have ne: "?ids \<noteq> []" using assms(6) by auto
  obtain zs where z: "relay_rules d users now = (l # hairpin_rules d p) @ zs"
    using assms(5) ne by (simp add: relay_rules_split relay_hairpins_def loopback_rules_def l_def)
  have "list_all (already_probe_scoped ?ids) (l # hairpin_rules d p)"
    using loopback_rules_scoped [of ?ids d] ne assms(6) already_probe_scoped_jstrs [OF auth_user_hairpin_rules]
    by (auto simp: loopback_rules_def l_def list_all_iff)
  then have "insert_rules (already_probe_scoped ?ids) (probe_rules ?ids) ((l # hairpin_rules d p) @ zs @ [relay_reject])
      = (l # hairpin_rules d p) @ insert_rules (already_probe_scoped ?ids) (probe_rules ?ids) (zs @ [relay_reject])"
    by (rule insert_rules_ahead)
  then obtain rest where rules: "route_rules doc = Some (l # hairpin_sniff p # hairpin_direct p # rest)"
    using rendered_relay [OF assms(1,2)] ne z hairpin_rules_plain [OF assms(4)] by simp
  have fin: "\<not> continues l" "jidx l ''action'' = JStr ''route''" "jidx l ''outbound'' = JStr ''direct''"
    "jidx (hairpin_direct p) ''action'' = JStr ''route''" "jidx (hairpin_direct p) ''outbound'' = JStr ''direct''"
    by (simp_all add: l_def loopback_items_def hairpin_direct_def continues_def rule_get)
  have "same_identity c ?c" using assms(3) by (simp add: documented_router_def)
  then have "applies (hairpin_direct p) ?c"
    using assms(7-9) by (intro applies_hairpin(2)) (simp_all add: same_identity_def)
  then have "decide (hairpin_sniff p # hairpin_direct p # rest) c = Some (hairpin_direct p)"
    using applies_hairpin(1) [of c p] applies_hairpin(3,4) [of p] assms(7,8) by (simp add: decide_step [OF assms(3)])
  then have "decide (l # hairpin_sniff p # hairpin_direct p # rest) c = Some (if applies l c then l else hairpin_direct p)"
    using decide_step [OF assms(3), of l _ c] fin(1) by simp
  then show ?thesis using rules fin by (cases "applies l c") auto
qed

definition target_reject :: "RelayTarget \<Rightarrow> json" where
  "target_reject t = reject_rule [(''network'', JStr ''tcp''), (''port'', jnat (rt_target_port t)), target_item t]"

lemma jget_target_reject:
  "jget k (target_reject t) = (if k = ''network'' then Some (JStr ''tcp'') else if k = ''port'' then Some (jnat (rt_target_port t))
     else if k = ''action'' then Some (JStr ''reject'') else if k = ''method'' then Some (JStr ''default'')
     else if k = fst (target_item t) then Some (snd (target_item t)) else None)"
  using fst_target_item [of t] by (cases "target_item t") (auto simp: target_reject_def rule_get)

lemma applies_target_reject: "addressed t c \<Longrightarrow> applies (target_reject t) c"
  by (cases "parse_ip (rt_host t)")
    (auto simp: applies_def addressed_def address_holds_def names_address_def has_key_def item_holds_def item_strings_def
      number_holds_def jget_target_reject target_item_def jstrs_def jnat_def map_filter_simps)

lemma exit_block_refuses:
  assumes "ps \<noteq> []"
  obtains denies rest where "exit_principal_rules d ps = scope_rule ps (resolve_rule [reality_in]) # map (scope_rule ps) denies @ rest"
    "\<forall>r\<in>set denies. is_obj r \<and> jget ''auth_user'' r = None \<and> jget ''inbound'' r \<in> {None, Some (jstrs [reality_in])}
      \<and> jidx r ''action'' = JStr ''reject''"
    "\<forall>c. cn_inbound c = reality_in \<and> (protected_destination d c \<or> (\<exists>t\<in>set (relay_targets d). addressed t c))
      \<longrightarrow> (\<exists>r\<in>set denies. applies r c)"
proof -
  obtain denies where p: "protected_rules d [reality_in] = resolve_rule [reality_in] # denies"
    "\<forall>r\<in>set denies. \<not> continues r \<and> jidx r ''action'' = JStr ''reject''"
    "\<And>c. cn_inbound c \<in> set [reality_in] \<Longrightarrow> protected_destination d c \<Longrightarrow> \<exists>r\<in>set denies. applies r c"
    using protected_rules_split [of d "[reality_in]"] by metis
  have d: "is_obj r \<and> jget ''auth_user'' r = None \<and> jget ''inbound'' r = Some (jstrs [reality_in])"
    if "r \<in> set (protected_rules d [reality_in])" for r
    using that
    by (auto simp: protected_rules_def c16_egress_deny_rules_def own_address_deny_rule_def opt_list_def Let_def rule_get
        split: if_splits)
  let ?denies = "denies @ map target_reject (relay_targets d)"
  show ?thesis
  proof (rule that [of ?denies
        "map (scope_rule ps) (exit_egress_rules d False @ [jobj [(''action'', JStr ''route''), (''outbound'', JStr ''direct'')]])"])
    show "exit_principal_rules d ps = scope_rule ps (resolve_rule [reality_in]) # map (scope_rule ps) ?denies
        @ map (scope_rule ps) (exit_egress_rules d False @ [jobj [(''action'', JStr ''route''), (''outbound'', JStr ''direct'')]])"
      using assms p(1) by (simp add: exit_principal_rules_def target_reject_def)
    show "\<forall>r\<in>set ?denies. is_obj r \<and> jget ''auth_user'' r = None \<and> jget ''inbound'' r \<in> {None, Some (jstrs [reality_in])}
        \<and> jidx r ''action'' = JStr ''reject''"
    proof
      fix r assume "r \<in> set ?denies"
      then consider "r \<in> set denies" | t where "r = target_reject t" by auto
      then show "is_obj r \<and> jget ''auth_user'' r = None \<and> jget ''inbound'' r \<in> {None, Some (jstrs [reality_in])}
          \<and> jidx r ''action'' = JStr ''reject''"
      proof cases
        case 1
        then show ?thesis using d [of r] p(1,2) by simp
      next
        case 2
        have "is_obj r" by (simp add: 2 target_reject_def)
        then show ?thesis using fst_target_item [of t] by (auto simp: 2 jget_target_reject jidx_def)
      qed
    qed
    show "\<forall>c. cn_inbound c = reality_in \<and> (protected_destination d c \<or> (\<exists>t\<in>set (relay_targets d). addressed t c))
        \<longrightarrow> (\<exists>r\<in>set ?denies. applies r c)"
      using p(3) applies_target_reject by fastforce
  qed
qed

text \<open>The exit principals of a relay get an exit's protection and cannot bounce through the
  relay, when no probe principal is also one of them or of a hairpin account: after resolution, their connection through the REALITY inbound to a protected
  destination, or to a declared exit of this relay, is refused.\<close>

theorem exit_principals_confined:
  assumes "render_server_config_for_deployment b64 d users reality hysteria now = Inr doc" "dc_role d = Relay"
    "documented_router act decide" "probes_apart d users now" "cn_inbound c = reality_in"
    "cn_user c \<in> set (exit_principal_ids d users now)"
    "cn_user c \<notin> set (principals_of u_google_egress_hairpin users now)"
    "c' = act (scope_rule (exit_principal_ids d users now) (resolve_rule [reality_in])) c"
    "protected_destination d c' \<or> (\<exists>t\<in>set (relay_targets d). addressed t c')"
  shows "\<exists>rules r. route_rules doc = Some rules \<and> decide rules c = Some r \<and> jidx r ''action'' = JStr ''reject''"
proof -
  define ps where "ps = exit_principal_ids d users now"
  have ne: "ps \<noteq> []" using assms(6) by (auto simp: ps_def)
  obtain denies rest where b: "exit_principal_rules d ps = scope_rule ps (resolve_rule [reality_in]) # map (scope_rule ps) denies @ rest"
    "\<forall>r\<in>set denies. is_obj r \<and> jget ''auth_user'' r = None \<and> jget ''inbound'' r \<in> {None, Some (jstrs [reality_in])}
      \<and> jidx r ''action'' = JStr ''reject''"
    "\<forall>c. cn_inbound c = reality_in \<and> (protected_destination d c \<or> (\<exists>t\<in>set (relay_targets d). addressed t c))
      \<longrightarrow> (\<exists>r\<in>set denies. applies r c)"
    using exit_block_refuses [OF ne, of d] by metis
  define pre where "pre = relay_prefix d users now @ relay_hairpins d users now"
  define post where "post = rest @ map target_rule (relay_targets d) @ [relay_reject]"
  have rules: "route_rules doc = Some (pre @ scope_rule ps (resolve_rule [reality_in]) # map (scope_rule ps) denies @ post)"
    using rendered_relay_shape [OF assms(1,2,4)] b(1)
    by (simp add: pre_def post_def relay_block_def ps_def [symmetric])
  have np: "cn_user c \<notin> set (principals_of u_is_reserved_probe users now)"
    using assms(4,6) by (auto simp: probes_apart_def list_all_iff)
  have "\<not> applies r c" if "r \<in> set pre" for r
  proof -
    obtain xs where "jget ''auth_user'' r = Some (jstrs xs)" "cn_user c \<notin> set xs"
    proof (cases "r \<in> set (relay_hairpins d users now)")
      case True
      then obtain p where "p \<in> set (principals_of u_google_egress_hairpin users now)" "r \<in> set (hairpin_rules d p)"
        by (auto simp: relay_hairpins_def)
      then show ?thesis using that [of "[p]"] auth_user_hairpin_rules [of r d p] assms(7) by auto
    next
      case False
      then have "r \<in> set (relay_prefix d users now)" using \<open>r \<in> set pre\<close> by (simp add: pre_def)
      then have "jget ''auth_user'' r = Some (jstrs (principals_of u_is_reserved_probe users now))"
        by (auto simp: relay_prefix_def loopback_rules_def probe_rules_def loopback_items_def Let_def rule_get split: if_splits)
      then show ?thesis using that np by blast
    qed
    then show ?thesis using applies_items(2) by blast
  qed
  moreover have o: "is_obj (resolve_rule [reality_in])" "jget ''auth_user'' (resolve_rule [reality_in]) = None"
    "jget ''inbound'' (resolve_rule [reality_in]) \<in> {None, Some (jstrs [reality_in])}"
    by (simp_all add: resolve_rule_def rule_get)
  then have "applies (scope_rule ps (resolve_rule [reality_in])) c" "continues (scope_rule ps (resolve_rule [reality_in]))"
    using applies_scope [OF o, of c ps] assms(5,6) resolve_rule_applies [of "[reality_in]"]
    by (simp_all add: ps_def continues_def jidx_def)
  ultimately have "decide (pre @ scope_rule ps (resolve_rule [reality_in]) # map (scope_rule ps) denies @ post) c
      = decide (map (scope_rule ps) denies @ post) c'"
    using decide_skip [OF assms(3), of pre c] by (simp add: decide_step [OF assms(3)] assms(8) ps_def)
  moreover have c': "cn_inbound c' = reality_in" "cn_user c' \<in> set ps"
    using assms(3,5,6,8) by (simp_all add: documented_router_def same_identity_def ps_def)
  then obtain r where "r \<in> set denies" "applies r c'" using b(3) assms(9) by blast
  then have "\<exists>r\<in>set (map (scope_rule ps) denies). applies r c'"
    using b(2) applies_scope [of r c' ps] c' by auto
  moreover have "\<forall>r\<in>set (map (scope_rule ps) denies). \<not> continues r \<and> jidx r ''action'' = JStr ''reject''"
    using b(2) by (auto simp: continues_def jidx_def)
  ultimately show ?thesis using rules decide_refuses [OF assms(3)] by auto
qed

section \<open>Concrete connections\<close>

fun first_match :: "json list \<Rightarrow> conn \<Rightarrow> json option" where
  "first_match [] c = None"
| "first_match (r # rs) c = (if \<not> applies r c then first_match rs c else if continues r then first_match rs c else Some r)"

lemma first_match_documented: "documented_router (\<lambda>_ c. c) first_match"
  by (simp add: documented_router_def)

definition example_conn :: conn where
  "example_conn = \<lparr>cn_inbound = reality_in, cn_user = ''user_1'', cn_network = ''tcp'', cn_port = 80, cn_ip_version = 4,
     cn_protocol = [], cn_in_cidr = (\<lambda>_. False), cn_domain_is = (\<lambda>_. False), cn_domain_under = (\<lambda>_. False)\<rparr>"

lemma example_relay_facts:
  "dc_role example_relay = Relay" "exit_principal_ids example_relay users now = []" "\<not> exit_principals_enabled example_relay"
  "relay_targets example_relay = [\<lparr>rt_host = ''de.example.net'', rt_target_port = 443\<rparr>]"
  "probes_apart example_relay [example_user, example_probe] 1000"
proof -
  show e: "exit_principal_ids example_relay users now = []" for users now
    by (simp add: exit_principal_ids_def exit_principals_enabled_def example_relay_def)
  show "probes_apart example_relay [example_user, example_probe] 1000"
    by (simp add: probes_apart_def example_principals e)
qed (simp_all add: exit_principals_enabled_def relay_targets_def example_relay_def section_eval)

theorem relay_forwards_only_declared_witness:
  "\<exists>doc rules r. render_server_config_for_deployment example_b64 example_relay [example_user, example_probe] example_reality
     example_hysteria 1000 = Inr doc \<and> route_rules doc = Some rules \<and> first_match rules example_conn = Some r
     \<and> jidx r ''action'' = JStr ''reject''"
proof -
  obtain doc where doc: "render_server_config_for_deployment example_b64 example_relay [example_user, example_probe]
      example_reality example_hysteria 1000 = Inr doc"
    using example_renders by blast
  have "cn_inbound example_conn \<in> set (inbound_tags doc)"
    by (simp add: rendered_inbounds(2) [OF doc] example_conn_def)
  note main = relay_forwards_only_declared [OF doc example_relay_facts(1) first_match_documented this]
  have "\<not> (\<exists>t\<in>set (relay_targets example_relay). addressed t example_conn)"
    by (simp add: example_relay_facts addressed_def example_conn_def)
  moreover have "cn_user example_conn \<notin> set (principals_of u_is_reserved_probe [example_user, example_probe] 1000)"
    "cn_user example_conn \<notin> set (principals_of u_google_egress_hairpin [example_user, example_probe] 1000)"
    by (simp_all add: example_principals example_conn_def)
  ultimately show ?thesis using main doc example_relay_facts(2,3) by auto
qed

theorem exit_refuses_protected_witness:
  "\<exists>doc rules r. render_server_config_for_deployment example_b64 example_exit [example_user, example_probe] example_reality
     example_hysteria 1000 = Inr doc \<and> route_rules doc = Some rules
     \<and> first_match rules (example_conn\<lparr>cn_in_cidr := (\<lambda>x. x = ''10.0.0.0/8'')\<rparr>) = Some r \<and> jidx r ''action'' = JStr ''reject''"
proof -
  obtain doc where doc: "render_server_config_for_deployment example_b64 example_exit [example_user, example_probe]
      example_reality example_hysteria 1000 = Inr doc"
    using example_renders by blast
  let ?c = "example_conn\<lparr>cn_in_cidr := (\<lambda>x. x = ''10.0.0.0/8'')\<rparr>"
  have "dc_role example_exit = Exit" by (simp add: example_exit_def)
  moreover have "cn_inbound ?c \<in> set (inbound_tags doc)"
    by (simp add: rendered_inbounds(2) [OF doc] example_conn_def)
  moreover have "cn_user ?c \<notin> set (principals_of u_is_reserved_probe [example_user, example_probe] 1000)"
    by (simp add: example_principals example_conn_def)
  moreover have "protected_destination example_exit ?c"
    by (simp add: protected_destination_def C16_DENY_IPV4_CIDRS_def)
  ultimately show ?thesis using exit_refuses_protected [OF doc _ first_match_documented] doc by blast
qed

theorem probe_identity_confined_witness:
  "\<exists>doc rules r. render_server_config_for_deployment example_b64 example_relay [example_user, example_probe] example_reality
     example_hysteria 1000 = Inr doc \<and> route_rules doc = Some rules
     \<and> first_match rules (example_conn\<lparr>cn_user := ''probe_1''\<rparr>) = Some r \<and> jidx r ''action'' = JStr ''reject''"
proof -
  obtain doc where doc: "render_server_config_for_deployment example_b64 example_relay [example_user, example_probe]
      example_reality example_hysteria 1000 = Inr doc"
    using example_renders by blast
  have "cn_user (example_conn\<lparr>cn_user := ''probe_1''\<rparr>) \<in> set (principals_of u_is_reserved_probe [example_user, example_probe] 1000)"
    by (simp add: example_principals)
  from probe_identity_confined [OF doc first_match_documented this] doc
  show ?thesis by (auto simp: example_conn_def PROBE_ALLOWED_PORT_def example_principals example_relay_facts)
qed

definition example_both :: DeploymentConfig where
  "example_both = example_relay\<lparr>dc_exit_principals := Some True\<rparr>"

lemma example_both_valid: "validate_deployment example_b64 example_both = Inr ()"
  unfolding validate_deployment_ok
  using example_relay_texts example_relay_peer
  by (simp add: example_both_def example_relay_def text_eval section_eval)

definition example_principal :: CompatUser where
  "example_principal = example_user\<lparr>u_exit_principal := True\<rparr>"

lemma example_both_facts:
  "dc_role example_both = Relay" "exit_principal_ids example_both [example_principal] 1000 = [''user_1'']"
  "principals_of u_google_egress_hairpin [example_principal] 1000 = []"
  "principals_of u_is_reserved_probe [example_principal] 1000 = []"
  "relay_targets example_both = [\<lparr>rt_host = ''de.example.net'', rt_target_port = 443\<rparr>]"
  by (simp_all add: example_both_def example_relay_def exit_principal_ids_def exit_principals_enabled_def principals_of_def
      active_principal_ids_def effective_grants_def is_active_def example_user_def example_principal_def starts_with_def
      grant_is_authorized_def is_revoked_at_def VALID_FROM_SKEW_GRACE_SECS_def in_i64_def I64_MAX_def I64_MIN_def
      relay_targets_def section_eval)

theorem exit_principals_confined_witness:
  "\<exists>doc rules r. render_server_config_for_deployment example_b64 example_both [example_principal] example_reality
     example_hysteria 1000 = Inr doc \<and> route_rules doc = Some rules
     \<and> first_match rules (example_conn\<lparr>cn_port := 443, cn_domain_is := (\<lambda>x. x = ''de.example.net'')\<rparr>) = Some r
     \<and> jidx r ''action'' = JStr ''reject''"
proof -
  have "projected [example_principal] = []"
    by (simp add: projected_def example_principal_def example_user_def starts_with_def)
  then obtain doc where doc: "render_server_config_for_deployment example_b64 example_both [example_principal]
      example_reality example_hysteria 1000 = Inr doc"
    using render_succeeds example_both_valid validate_no_authorizations by metis
  let ?c = "example_conn\<lparr>cn_port := 443, cn_domain_is := (\<lambda>x. x = ''de.example.net'')\<rparr>"
  have "parse_ip ''de.example.net'' = None" by (simp add: parse_eval)
  then have a: "\<exists>t\<in>set (relay_targets example_both). addressed t ?c"
    by (simp add: example_both_facts addressed_def example_conn_def)
  have "probes_apart example_both [example_principal] 1000" by (simp add: probes_apart_def example_both_facts)
  moreover have "cn_inbound ?c = reality_in" "cn_user ?c \<in> set (exit_principal_ids example_both [example_principal] 1000)"
    "cn_user ?c \<notin> set (principals_of u_google_egress_hairpin [example_principal] 1000)"
    by (simp_all add: example_conn_def example_both_facts)
  ultimately show ?thesis
    using exit_principals_confined [OF doc example_both_facts(1) first_match_documented _ _ _ _ refl] a doc by blast
qed

definition example_hairpin_probe :: CompatUser where
  "example_hairpin_probe = example_probe\<lparr>u_google_egress_hairpin := True\<rparr>"

theorem hairpin_probe_reaches_google_witness:
  "\<exists>doc rules r. render_server_config_for_deployment example_b64 example_relay [example_hairpin_probe] example_reality
     example_hysteria 1000 = Inr doc \<and> route_rules doc = Some rules
     \<and> first_match rules (example_conn\<lparr>cn_user := ''probe_1'', cn_domain_under := (\<lambda>x. x = ''youtube.com'')\<rparr>) = Some r
     \<and> jidx r ''action'' = JStr ''route'' \<and> jidx r ''outbound'' = JStr ''direct''"
proof -
  have "projected [example_hairpin_probe] = []"
    by (simp add: projected_def example_hairpin_probe_def example_probe_def example_user_def starts_with_def)
  then obtain doc where doc: "render_server_config_for_deployment example_b64 example_relay [example_hairpin_probe]
      example_reality example_hysteria 1000 = Inr doc"
    using render_succeeds example_relay_valid validate_no_authorizations by metis
  have ids: "principals_of u_is_reserved_probe [example_hairpin_probe] 1000 = [''probe_1'']"
    "principals_of u_google_egress_hairpin [example_hairpin_probe] 1000 = [''probe_1'']"
    by (simp_all add: example_hairpin_probe_def example_probe_def example_user_def principals_of_def active_principal_ids_def
        effective_grants_def is_active_def starts_with_def grant_is_authorized_def is_revoked_at_def
        VALID_FROM_SKEW_GRACE_SECS_def in_i64_def I64_MAX_def I64_MIN_def)
  let ?c = "example_conn\<lparr>cn_user := ''probe_1'', cn_domain_under := (\<lambda>x. x = ''youtube.com'')\<rparr>"
  have "list_ex (cn_domain_under ?c) GOOGLE_EGRESS_DOMAINS" by (simp add: GOOGLE_EGRESS_DOMAINS_def)
  moreover have "dc_google_egress_tls_spoof example_relay = None" by (simp add: example_relay_def)
  ultimately have "\<exists>rules r. route_rules doc = Some rules \<and> first_match rules ?c = Some r
      \<and> jidx r ''action'' = JStr ''route'' \<and> jidx r ''outbound'' = JStr ''direct''"
    using hairpin_probe_reaches_google [OF doc example_relay_facts(1) first_match_documented _ ids(2)]
    by (simp add: ids example_conn_def)
  with doc show ?thesis by blast
qed

end
