(* ===== verification/Store.thy ===== *)
theory Store
  imports FileStore Model
begin

text \<open>
  The user store of \<open>crates/compat-config/src/store.rs\<close>: the versioned file \<open>users.json\<close>, its
  legacy form, and the atomic save and the migration.  The JSON readers and the printer are
  third-party code: \<open>env\<close> reads the versioned envelope, \<open>legacy\<close> the bare array, \<open>ser\<close>
  prints an envelope.
\<close>

definition USERS_SCHEMA_VERSION :: nat where "USERS_SCHEMA_VERSION = 1"

type_synonym users_envelope = "nat \<times> CompatUser list"

datatype UsersSchemaState = UsersMissing | UsersLegacy | UsersCurrent | UsersFuture nat | UsersCorrupted

datatype UsersMigrationOutcome = UMissing | UAlreadyCurrent | UMigrated path

definition users_schema ::
    "(string \<Rightarrow> users_envelope option) \<Rightarrow> (string \<Rightarrow> CompatUser list option) \<Rightarrow> string \<Rightarrow> UsersSchemaState" where
  "users_schema env legacy bytes =
     (case env bytes of
        Some (v, _) \<Rightarrow> if v > USERS_SCHEMA_VERSION then UsersFuture v else UsersCurrent
      | None \<Rightarrow> (case legacy bytes of Some _ \<Rightarrow> UsersLegacy | None \<Rightarrow> UsersCorrupted))"

definition detect_users_schema ::
    "(string \<Rightarrow> users_envelope option) \<Rightarrow> (string \<Rightarrow> CompatUser list option) \<Rightarrow> path \<Rightarrow> UsersSchemaState io" where
  "detect_users_schema env legacy p =
     io_bind (exists_file p) (\<lambda>there.
       if \<not> there then io_ret UsersMissing
       else io_bind (sys_query (\<lambda>fs. map_option nd_bytes (fs_files fs p))) (\<lambda>m. case m of
              None \<Rightarrow> io_ret UsersCorrupted
            | Some bytes \<Rightarrow> io_ret (users_schema env legacy bytes)))"

definition parse_users_bytes ::
    "(string \<Rightarrow> users_envelope option) \<Rightarrow> (string \<Rightarrow> CompatUser list option) \<Rightarrow> string
       \<Rightarrow> FsError + CompatUser list" where
  "parse_users_bytes env legacy bytes =
     (case env bytes of
        Some (v, users) \<Rightarrow> if v > USERS_SCHEMA_VERSION then Inl (FutureSchema v) else Inr users
      | None \<Rightarrow> (case legacy bytes of Some users \<Rightarrow> Inr users | None \<Rightarrow> Inl Unparsable))"

definition io_lift :: "FsError + 'a \<Rightarrow> 'a io" where
  "io_lift r w = (w, r)"

definition load_users ::
    "(string \<Rightarrow> users_envelope option) \<Rightarrow> (string \<Rightarrow> CompatUser list option) \<Rightarrow> path \<Rightarrow> CompatUser list io" where
  "load_users env legacy p =
     io_bind (exists_file p) (\<lambda>there.
       if \<not> there then io_ret []
       else io_bind (read_file p) (\<lambda>bytes. io_lift (parse_users_bytes env legacy bytes)))"

text \<open>Setting the mode of the directory is a call that may fail; directory modes are not part of
  the file system.\<close>

definition set_dir_mode_0750 :: "string \<Rightarrow> unit io" where
  "set_dir_mode_0750 d = sys_call (\<lambda>fs. if fs_dirs fs d = None then None else Some fs)"

definition save_users_atomic ::
    "(users_envelope \<Rightarrow> string) \<Rightarrow> process \<Rightarrow> path \<Rightarrow> CompatUser list \<Rightarrow> unit io" where
  "save_users_atomic ser pr p users =
     io_bind (create_dir_all pr (fst p)) (\<lambda>_.
     io_bind (set_dir_mode_0750 (fst p)) (\<lambda>_.
     io_bind (write_file_mode pr (tmp_path pr p) (ser (USERS_SCHEMA_VERSION, users)) 0x1A0) (\<lambda>_.
     io_bind (preserve_ownership_before_rename (tmp_path pr p) p) (\<lambda>_.
     rename (tmp_path pr p) p))))"

definition migrate_users ::
    "(string \<Rightarrow> users_envelope option) \<Rightarrow> (string \<Rightarrow> CompatUser list option) \<Rightarrow> (users_envelope \<Rightarrow> string)
       \<Rightarrow> process \<Rightarrow> nat \<Rightarrow> path \<Rightarrow> UsersMigrationOutcome io" where
  "migrate_users env legacy ser pr ts p =
     io_bind (detect_users_schema env legacy p) (\<lambda>state. case state of
       UsersMissing \<Rightarrow> io_ret UMissing
     | UsersCurrent \<Rightarrow> io_ret UAlreadyCurrent
     | UsersFuture v \<Rightarrow> io_fail (FutureSchema v)
     | UsersCorrupted \<Rightarrow> io_fail Unparsable
     | UsersLegacy \<Rightarrow>
         io_bind (read_file p) (\<lambda>bytes. case legacy bytes of
           None \<Rightarrow> io_fail Unparsable
         | Some users \<Rightarrow>
             (let json = ser (USERS_SCHEMA_VERSION, users) in
              case env json of
                None \<Rightarrow> io_fail Unparsable
              | Some (v, users') \<Rightarrow>
                  if v \<noteq> USERS_SCHEMA_VERSION \<or> length users' \<noteq> length users then io_fail Unparsable
                  else io_bind (backup_before_mutate pr ts p) (\<lambda>backup.
                       io_bind (atomic_write pr p json 0x1A0) (\<lambda>_.
                       io_ret (UMigrated backup))))))"

section \<open>Lemmas\<close>

text \<open>What a reader finds at the path of the store in a state of the file system.\<close>

definition stored_users ::
    "(string \<Rightarrow> users_envelope option) \<Rightarrow> (string \<Rightarrow> CompatUser list option) \<Rightarrow> node option
       \<Rightarrow> FsError + CompatUser list" where
  "stored_users env legacy n = (case n of None \<Rightarrow> Inr [] | Some n \<Rightarrow> parse_users_bytes env legacy (nd_bytes n))"

lemma load_users_stored:
  assumes "w_script w = []"
  shows "load_users env legacy p w = (w, stored_users env legacy (fs_files (w_fs w) p))"
  using assms
  by (simp add: load_users_def stored_users_def exists_file_def metadata_def read_file_def io_bind_def
      io_ret_def io_lift_def io_fail_def no_fault_calls split: option.splits)

lemma parse_users_ser:
  assumes "env (ser (USERS_SCHEMA_VERSION, users)) = Some (USERS_SCHEMA_VERSION, users)"
  shows "parse_users_bytes env legacy (ser (USERS_SCHEMA_VERSION, users)) = Inr users"
  by (simp add: parse_users_bytes_def assms)

lemma keeps_io_lift [keeps_intros]: "keeps Q (io_lift r)"
  by (simp add: keeps_def io_lift_def)

lemma keeps_set_dir_mode [keeps_intros]: "keeps Q (set_dir_mode_0750 d)"
  unfolding set_dir_mode_0750_def by (auto intro!: keeps_sys_call split: if_splits)

lemma keeps_detect [keeps_intros]: "keeps Q (detect_users_schema env legacy p)"
  unfolding detect_users_schema_def by (auto intro!: keeps_intros split: option.splits)

interpretation users: replacer "save_users_atomic ser pr p us" p
    "\<lambda>n. nd_bytes n = ser (USERS_SCHEMA_VERSION, us) \<and> nd_mode n = 0x1A0"
  for ser pr p us
proof -
  let ?b = "ser (USERS_SCHEMA_VERSION, us)" and ?t = "tmp_path pr p"
  define prep where "prep = io_bind (create_dir_all pr (fst p)) (\<lambda>_.
    io_bind (set_dir_mode_0750 (fst p)) (\<lambda>_.
    io_bind (write_file_mode pr ?t ?b 0x1A0) (\<lambda>_. preserve_ownership_before_rename ?t p)))"
  have "replacer (io_bind prep (\<lambda>_. rename ?t p)) p (\<lambda>n. nd_bytes n = ?b \<and> nd_mode n = 0x1A0)"
  proof (rule replacer_by_rename)
    show "keeps (file_is p old) prep" for old
      unfolding prep_def by (auto intro!: keeps_intros)
    fix w w' assume "prep w = (w', Inr ())"
    then obtain w1 w2 where "write_file_mode pr ?t ?b 0x1A0 w1 = (w2, Inr ())"
      "preserve_ownership_before_rename ?t p w2 = (w', Inr ())"
      unfolding prep_def by (auto simp: io_bind_Inr)
    then have "ready ?t ?b 0x1A0 (w_fs w')"
      using write_file_mode_ready keeps_now [OF keeps_ready_ownership] by blast
    then show "\<exists>n. fs_files (w_fs w') ?t = Some n \<and> nd_bytes n = ?b \<and> nd_mode n = 0x1A0"
      by (simp add: ready_def)
  qed simp
  then show "replacer (save_users_atomic ser pr p us) p (\<lambda>n. nd_bytes n = ?b \<and> nd_mode n = 0x1A0)"
    by (simp add: save_users_atomic_def prep_def io_bind_assoc)
qed

lemma users_schema_legacy: "users_schema env legacy bytes = UsersLegacy \<Longrightarrow> env bytes = None"
  by (auto simp: users_schema_def split: option.splits if_splits)

lemma detect_result:
  assumes "detect_users_schema env legacy p w = (w', r)"
  obtains st where "r = Inr st" "w_fs w' = w_fs w"
    "st = UsersLegacy \<Longrightarrow> \<exists>old. fs_files (w_fs w) p = Some old \<and> env (nd_bytes old) = None"
proof -
  let ?q = "sys_query (\<lambda>fs. map_option nd_bytes (fs_files fs p))"
  obtain w1 t where e: "exists_file p w = (w1, Inr t)" "w_fs w1 = w_fs w"
    using exists_file_result by (metis surj_pair)
  obtain w2 m where q: "?q w1 = (w2, m)" by (cases "?q w1")
  note q2 = sys_query_Inr [OF q] sys_query_result [OF q]
  show thesis
  proof (cases t)
    case False
    with assms e that [of UsersMissing] show thesis
      by (simp add: detect_users_schema_def io_bind_def io_ret_def)
  next
    case True
    from q2(2) show thesis
    proof
      assume "m = Inr None"
      with assms e q q2(1) True that [of UsersCorrupted] show thesis
        by (simp add: detect_users_schema_def io_bind_def io_ret_def)
    next
      assume m: "m = Inr (map_option nd_bytes (fs_files (w_fs w1) p))"
      show thesis
      proof (cases "fs_files (w_fs w) p")
        case None
        with assms e q q2(1) True m that [of UsersCorrupted] show thesis
          by (simp add: detect_users_schema_def io_bind_def io_ret_def)
      next
        case (Some old)
        with assms e q q2(1) True m that [of "users_schema env legacy (nd_bytes old)"] users_schema_legacy
        show thesis by (simp add: detect_users_schema_def io_bind_def io_ret_def)
      qed
    qed
  qed
qed

text \<open>A run of the migration either rewrites a legacy store or leaves the store as it is.\<close>

lemma migrate_users_cases:
  assumes "migrate_users env legacy ser pr ts p w = (w', r)"
  obtains (kept) "fs_files (w_fs w') p = fs_files (w_fs w) p" "\<And>b. r \<noteq> Inr (UMigrated b)"
    | (migrated) old us n where "r = Inr (UMigrated (backup_path ts p))"
      "fs_files (w_fs w) p = Some old" "legacy (nd_bytes old) = Some us" "env (nd_bytes old) = None"
      "fs_files (w_fs w') p = Some n" "nd_bytes n = ser (USERS_SCHEMA_VERSION, us)"
      "ready (backup_path ts p) (nd_bytes old) 0x180 (w_fs w')"
proof -
  obtain w1 st where d: "detect_users_schema env legacy p w = (w1, Inr st)"
    and d1: "w_fs w1 = w_fs w"
      "st = UsersLegacy \<Longrightarrow> \<exists>old. fs_files (w_fs w) p = Some old \<and> env (nd_bytes old) = None"
    using detect_result by (metis surj_pair)
  show thesis
  proof (cases "st = UsersLegacy")
    case False
    with assms d d1(1) show thesis
      by (intro kept) (auto simp: migrate_users_def io_bind_def io_ret_def io_fail_def
          split: UsersSchemaState.splits)
  next
    case True
    obtain old where old: "fs_files (w_fs w) p = Some old" "env (nd_bytes old) = None"
      using d1(2) True by blast
    obtain w2 rb where rd: "read_file p w1 = (w2, rb)" by (cases "read_file p w1")
    have same: "fs_files (w_fs w2) p = fs_files (w_fs w) p"
      using keeps_now [OF keeps_queries(3) rd, of "file_is p (fs_files (w_fs w) p)"] d1(1)
      by (simp add: file_is_def)
    show thesis
    proof (cases rb)
      case (Inl e)
      with assms d True rd same show thesis by (intro kept) (auto simp: migrate_users_def io_bind_def)
    next
      case (Inr bytes)
      with read_file_Inr [of p w1 w2 bytes] rd old d1(1) have b: "bytes = nd_bytes old" by simp
      define json where "json us = ser (USERS_SCHEMA_VERSION, us)" for us
      have run: "(case legacy (nd_bytes old) of
            None \<Rightarrow> io_fail Unparsable
          | Some us \<Rightarrow> (case env (json us) of
              None \<Rightarrow> io_fail Unparsable
            | Some (v, us') \<Rightarrow>
                if v \<noteq> USERS_SCHEMA_VERSION \<or> length us' \<noteq> length us then io_fail Unparsable
                else io_bind (backup_before_mutate pr ts p) (\<lambda>backup.
                     io_bind (atomic_write pr p (json us) 0x1A0) (\<lambda>_. io_ret (UMigrated backup))))) w2 = (w', r)"
        using assms d True rd Inr b unfolding migrate_users_def json_def Let_def by (simp add: io_bind_def [of "detect_users_schema env legacy p"] io_bind_def [of "read_file p"])
      show thesis
      proof (cases "legacy (nd_bytes old)")
        case None
        with run same show thesis by (intro kept) (auto simp: io_fail_def)
      next
        case (Some us)
        show thesis
        proof (cases "io_bind (backup_before_mutate pr ts p) (\<lambda>backup.
            io_bind (atomic_write pr p (json us) 0x1A0) (\<lambda>_. io_ret (UMigrated backup))) w2 = (w', r)")
          case True
          from backup_then_write [OF True] show thesis
          proof (elim disjE exE conjE)
            fix old' n
            assume a: "r = Inr (UMigrated (backup_path ts p))" "fs_files (w_fs w2) p = Some old'"
              "fs_files (w_fs w') p = Some n" "nd_bytes n = json us"
              "ready (backup_path ts p) (nd_bytes old') 0x180 (w_fs w')"
            with old same have "old' = old" by simp
            with a old Some show thesis by (intro migrated [of old us n]) (simp_all add: json_def)
          next
            fix e assume "r = Inl e" "fs_files (w_fs w') p = fs_files (w_fs w2) p"
            with same show thesis by (intro kept) simp_all
          qed
        next
          case False
          with run Some have "w' = w2 \<and> r = Inl Unparsable"
            by (auto simp: io_fail_def split: option.splits if_splits)
          with same show thesis by (intro kept) simp_all
        qed
      qed
    qed
  qed
qed

lemma replaces_migrate_users:
  "replaces p (\<lambda>n. \<exists>us. nd_bytes n = ser (USERS_SCHEMA_VERSION, us)) (migrate_users env legacy ser pr ts p)"
proof -
  have none: "replaces p pay (io_fail e)" "replaces p pay (io_ret x)" for pay e and x :: UsersMigrationOutcome
    by (rule replaces_keeps, rule keeps_ret)+
  have tail: "replaces p (\<lambda>n. \<exists>us. nd_bytes n = ser (USERS_SCHEMA_VERSION, us))
      (io_bind (backup_before_mutate pr ts p) (\<lambda>b. io_bind (atomic_write pr p (ser (USERS_SCHEMA_VERSION, us)) 0x1A0)
         (\<lambda>_. io_ret (UMigrated b))))" for us
    by (rule replaces_mono [OF replaces_backup_then_write]) blast
  show ?thesis
    unfolding migrate_users_def
  proof (rule replaces_bind [OF keeps_detect])
    fix st
    show "replaces p (\<lambda>n. \<exists>us. nd_bytes n = ser (USERS_SCHEMA_VERSION, us)) (case st of
       UsersMissing \<Rightarrow> io_ret UMissing
     | UsersLegacy \<Rightarrow>
         io_bind (read_file p) (\<lambda>bytes. case legacy bytes of
           None \<Rightarrow> io_fail Unparsable
         | Some users \<Rightarrow>
             (let json = ser (USERS_SCHEMA_VERSION, users) in
              case env json of
                None \<Rightarrow> io_fail Unparsable
              | Some (v, users') \<Rightarrow>
                  if v \<noteq> USERS_SCHEMA_VERSION \<or> length users' \<noteq> length users then io_fail Unparsable
                  else io_bind (backup_before_mutate pr ts p) (\<lambda>backup.
                       io_bind (atomic_write pr p json 0x1A0) (\<lambda>_. io_ret (UMigrated backup)))))
     | UsersCurrent \<Rightarrow> io_ret UAlreadyCurrent
     | UsersFuture v \<Rightarrow> io_fail (FutureSchema v)
     | UsersCorrupted \<Rightarrow> io_fail Unparsable)"
    proof (cases st)
      case UsersLegacy
      show ?thesis
        unfolding UsersLegacy UsersSchemaState.case Let_def
        by (rule replaces_bind [OF keeps_queries(3)]) (simp add: none tail split: option.split prod.split)
    qed (simp_all add: none)
  qed
qed

section \<open>Properties\<close>

text \<open>Saving the user list is atomic for its readers: at every point of a save, whatever call
  fails, a reader of the store finds the previous answer or exactly the saved list; after a
  successful save loading returns the saved list, after a failed one the previous answer.
  The hypothesis is that reading the printed envelope gives it back.\<close>

theorem save_users_atomic_for_readers:
  assumes "env (ser (USERS_SCHEMA_VERSION, users)) = Some (USERS_SCHEMA_VERSION, users)"
    and "save_users_atomic ser pr p users w = (w', r)"
  shows "(\<exists>ss. w_trace w' = w_trace w @ ss \<and> (\<forall>s\<in>set ss.
      stored_users env legacy (fs_files s p) \<in> {stored_users env legacy (fs_files (w_fs w) p), Inr users}))
    \<and> (w_script w' = [] \<longrightarrow>
        load_users env legacy p w' =
          (w', if is_ok r then Inr users else stored_users env legacy (fs_files (w_fs w) p)))"
proof -
  have new: "stored_users env legacy (Some n) = Inr users" if "nd_bytes n = ser (USERS_SCHEMA_VERSION, users)" for n
    using parse_users_ser [of env ser users legacy] assms(1) that by (simp add: stored_users_def)
  obtain ss where ss: "w_trace w' = w_trace w @ ss"
    using users.all_or_nothing [OF assms(2)] unfolding extends_def by blast
  have "\<forall>s\<in>set ss. stored_users env legacy (fs_files s p)
      \<in> {stored_users env legacy (fs_files (w_fs w) p), Inr users}"
    using users.reader_never_torn [OF assms(2) ss, of _ "stored_users env legacy"] new by fastforce
  moreover have "load_users env legacy p w' =
      (w', if is_ok r then Inr users else stored_users env legacy (fs_files (w_fs w) p))"
    if "w_script w' = []"
    using users.outcome_decides [OF assms(2)] load_users_stored [OF that] new by (auto split: if_splits)
  ultimately show ?thesis using ss by blast
qed

definition example_ser :: "users_envelope \<Rightarrow> string" where
  "example_ser x = ''v'' @ show_nat (fst x)"

definition example_env :: "string \<Rightarrow> users_envelope option" where
  "example_env s = (if s = ''v1'' then Some (1, [example_user]) else None)"

lemma example_env_ser: "example_env (example_ser (USERS_SCHEMA_VERSION, [example_user]))
    = Some (USERS_SCHEMA_VERSION, [example_user])"
proof -
  have "show_nat 1 = ''1''" by code_simp
  then show ?thesis by (simp add: example_env_def example_ser_def USERS_SCHEMA_VERSION_def)
qed

theorem save_users_atomic_for_readers_witness:
  "\<exists>ss. w_trace (fst (save_users_atomic example_ser example_proc example_path [example_user] example_world)) = ss
     \<and> list_all (\<lambda>s. stored_users example_env (\<lambda>_. None) (fs_files s example_path)
          \<in> {Inl Unparsable, Inr [example_user]}) ss"
proof -
  have "stored_users example_env (\<lambda>_. None) (fs_files (w_fs example_world) example_path) = Inl Unparsable"
    "w_trace example_world = []"
    by (simp_all add: example_world_def stored_users_def parse_users_bytes_def example_node_def example_env_def)
  with save_users_atomic_for_readers [of example_env example_ser "[example_user]" example_proc example_path
      example_world _ _ "\<lambda>_. None", OF example_env_ser prod.collapse [symmetric]]
  show ?thesis by (auto simp: list_all_iff)
qed

text \<open>Migrating the user store never loses it: at every point the store holds the original
  bytes or the complete migrated file; the migration reports success only after a backup with
  mode 0600 and the original bytes was written and the envelope is in place, and then loading
  returns the users of the legacy file. A current, missing, newer or corrupted store is left
  untouched, and only the last two are errors.\<close>

theorem migrate_users_safe:
  assumes "\<forall>old us. fs_files (w_fs w) p = Some old \<and> legacy (nd_bytes old) = Some us \<longrightarrow>
      env (ser (USERS_SCHEMA_VERSION, us)) = Some (USERS_SCHEMA_VERSION, us)"
    and "migrate_users env legacy ser pr ts p w = (w', r)"
  shows "(\<exists>ss. w_trace w' = w_trace w @ ss \<and> (\<forall>s\<in>set ss. fs_files s p = fs_files (w_fs w) p
      \<or> (\<exists>us n. fs_files s p = Some n \<and> nd_bytes n = ser (USERS_SCHEMA_VERSION, us))))
    \<and> (\<forall>b. r = Inr (UMigrated b) \<longrightarrow>
        (\<exists>old us n. fs_files (w_fs w) p = Some old \<and> legacy (nd_bytes old) = Some us \<and> env (nd_bytes old) = None
           \<and> fs_files (w_fs w') p = Some n \<and> stored_users env legacy (Some n) = Inr us
           \<and> ready b (nd_bytes old) 0x180 (w_fs w')))
    \<and> ((\<forall>b. r \<noteq> Inr (UMigrated b)) \<longrightarrow> fs_files (w_fs w') p = fs_files (w_fs w) p)"
proof -
  define P where "P s \<longleftrightarrow> fs_files s p = fs_files (w_fs w) p
      \<or> (\<exists>n. fs_files s p = Some n \<and> (\<exists>us. nd_bytes n = ser (USERS_SCHEMA_VERSION, us)))" for s :: filesys
  have "extends P w (fst (migrate_users env legacy ser pr ts p w))"
    using replaces_migrate_users unfolding replaces_def P_def [abs_def] by blast
  then obtain ss where ss: "w_trace w' = w_trace w @ ss" "list_all P ss"
    unfolding assms(2) fst_conv extends_def by blast
  have "P s \<Longrightarrow> fs_files s p = fs_files (w_fs w) p
      \<or> (\<exists>us n. fs_files s p = Some n \<and> nd_bytes n = ser (USERS_SCHEMA_VERSION, us))" for s
    unfolding P_def by blast
  with ss have "\<exists>ss. w_trace w' = w_trace w @ ss \<and> (\<forall>s\<in>set ss. fs_files s p = fs_files (w_fs w) p
      \<or> (\<exists>us n. fs_files s p = Some n \<and> nd_bytes n = ser (USERS_SCHEMA_VERSION, us)))"
    unfolding list_all_iff by blast
  moreover from assms(2) have "(\<forall>b. r = Inr (UMigrated b) \<longrightarrow>
        (\<exists>old us n. fs_files (w_fs w) p = Some old \<and> legacy (nd_bytes old) = Some us \<and> env (nd_bytes old) = None
           \<and> fs_files (w_fs w') p = Some n \<and> stored_users env legacy (Some n) = Inr us
           \<and> ready b (nd_bytes old) 0x180 (w_fs w')))
    \<and> ((\<forall>b. r \<noteq> Inr (UMigrated b)) \<longrightarrow> fs_files (w_fs w') p = fs_files (w_fs w) p)"
  proof (cases rule: migrate_users_cases)
    case kept
    then show ?thesis by simp
  next
    case (migrated old us n)
    then have "stored_users env legacy (Some n) = Inr us"
      using assms(1) by (simp add: stored_users_def parse_users_bytes_def)
    with migrated show ?thesis by auto
  qed
  ultimately show ?thesis by (rule conjI)
qed

theorem migrate_users_safe_witness:
  "\<exists>n. fs_files (w_fs (fst (migrate_users (\<lambda>s. if s = ''v1'' then Some (USERS_SCHEMA_VERSION, []) else None)
      (\<lambda>s. if s = ''old'' then Some [] else None) (\<lambda>_. ''v1'') example_proc 5 example_path example_world)))
      example_path = Some n
    \<and> (n = example_node
      \<or> stored_users (\<lambda>s. if s = ''v1'' then Some (USERS_SCHEMA_VERSION, []) else None)
          (\<lambda>s. if s = ''old'' then Some [] else None) (Some n) = Inr [])"
proof -
  let ?env = "\<lambda>s. if s = ''v1'' then Some (USERS_SCHEMA_VERSION, []) else None :: users_envelope option"
  let ?leg = "\<lambda>s. if s = ''old'' then Some [] else None :: CompatUser list option"
  obtain w' r where m: "migrate_users ?env ?leg (\<lambda>_. ''v1'') example_proc 5 example_path example_world = (w', r)"
    by fastforce
  have f: "fs_files (w_fs example_world) example_path = Some example_node" by (simp add: example_world_def)
  have "\<forall>old us. fs_files (w_fs example_world) example_path = Some old \<and> ?leg (nd_bytes old) = Some us
      \<longrightarrow> ?env ((\<lambda>_. ''v1'') (USERS_SCHEMA_VERSION, us)) = Some (USERS_SCHEMA_VERSION, us)"
    by (simp split: if_splits)
  from migrate_users_safe [of example_world example_path ?leg ?env "\<lambda>_. ''v1''" example_proc 5 w' r, OF this m] f
  have
    "(\<exists>b. r = Inr (UMigrated b)) \<longrightarrow> (\<exists>n. fs_files (w_fs w') example_path = Some n \<and> stored_users ?env ?leg (Some n) = Inr [])"
    "(\<forall>b. r \<noteq> Inr (UMigrated b)) \<longrightarrow> fs_files (w_fs w') example_path = Some example_node"
    by (auto split: if_splits)
  then show ?thesis unfolding m fst_conv by blast
qed

end
