(* ===== verification/SystemdDropin.thy ===== *)
theory SystemdDropin
  imports Deployment
begin

text \<open>
  The capability drop-in of the core's service unit,
  \<open>crates/compat-config/src/systemd_dropin.rs\<close>: its content, the marker that makes a file
  managed, and the decision what to do with the file found.
\<close>

definition MANAGED_MARKER :: string where
  "MANAGED_MARKER = ''# managed by vpn-admin (singbox-vpn): sing-box TLS spoof capabilities. Do not edit; remove [google_egress_tls_spoof] to remove this file.''"

definition CAPABILITIES :: string where
  "CAPABILITIES = ''CAP_NET_BIND_SERVICE CAP_NET_RAW CAP_NET_ADMIN''"

definition dropin_body :: string where
  "dropin_body =
     ''[Service]'' @ [CHR 0x0A] @ ''AmbientCapabilities='' @ CAPABILITIES @ [CHR 0x0A]
     @ ''CapabilityBoundingSet='' @ CAPABILITIES @ [CHR 0x0A]"

definition desired_tls_spoof_dropin :: "DeploymentConfig \<Rightarrow> string option" where
  "desired_tls_spoof_dropin d =
     map_option (\<lambda>_. MANAGED_MARKER @ [CHR 0x0A] @ dropin_body) (dc_google_egress_tls_spoof d)"

datatype DropinAction = DropinNone | DropinWrite string | DropinRemove | LeaveUnmanaged

definition is_managed :: "string \<Rightarrow> bool" where
  "is_managed existing \<longleftrightarrow>
     (case str_lines existing of [] \<Rightarrow> False | line # _ \<Rightarrow> trim_end line = MANAGED_MARKER)"

fun words_of :: "string list \<Rightarrow> string \<Rightarrow> string list" where
  "words_of [] word = (if word = [] then [] else [word])"
| "words_of (c # cs) word =
     (if is_whitespace c then (if word = [] then words_of cs [] else word # words_of cs [])
      else words_of cs (word @ c))"

definition split_whitespace :: "string \<Rightarrow> string list" where
  "split_whitespace s = words_of (utf8_split s) []"

fun join_space :: "string list \<Rightarrow> string" where
  "join_space [] = []"
| "join_space [w] = w"
| "join_space (w # ws) = w @ '' '' @ join_space ws"

definition effective_line :: "string \<Rightarrow> string" where
  "effective_line l =
     (case split_once (CHR ''='') l of
        Some (k, v) \<Rightarrow> trim k @ ''='' @ join_space (split_whitespace v)
      | None \<Rightarrow> l)"

definition effective :: "string \<Rightarrow> string list" where
  "effective text =
     map effective_line
       (filter (\<lambda>l. l \<noteq> [] \<and> \<not> starts_with ''#'' l) (map trim (str_lines text)))"

fun plan_tls_spoof_dropin :: "string option \<Rightarrow> string option \<Rightarrow> DropinAction" where
  "plan_tls_spoof_dropin None None = DropinNone"
| "plan_tls_spoof_dropin None (Some want) = DropinWrite want"
| "plan_tls_spoof_dropin (Some have_text) (Some want) =
     (if have_text = want then DropinNone
      else if is_managed have_text \<or> effective have_text = effective want then DropinWrite want
      else LeaveUnmanaged)"
| "plan_tls_spoof_dropin (Some have_text) None =
     (if is_managed have_text then DropinRemove else LeaveUnmanaged)"

text \<open>What the file is after the decision was carried out.\<close>

fun dropin_after :: "DropinAction \<Rightarrow> string option \<Rightarrow> string option" where
  "dropin_after (DropinWrite content) existing = Some content"
| "dropin_after DropinRemove existing = None"
| "dropin_after _ existing = existing"

lemma desired_is_managed: "desired_tls_spoof_dropin d = Some content \<Longrightarrow> is_managed content"
proof -
  have "is_managed (MANAGED_MARKER @ [CHR 0x0A] @ dropin_body)" by code_simp
  then show "desired_tls_spoof_dropin d = Some content \<Longrightarrow> is_managed content"
    by (auto simp: desired_tls_spoof_dropin_def)
qed

text \<open>A file that the tool does not own is never touched unless it already has the same effect, and
  carrying out the decision settles the file: deciding again changes nothing.\<close>

lemma unmanaged_file_kept:
  assumes "\<not> is_managed have_text" "desired = None \<or> (\<exists>want. desired = Some want \<and> effective have_text \<noteq> effective want)"
  shows "dropin_after (plan_tls_spoof_dropin (Some have_text) desired) (Some have_text) = Some have_text"
  using assms by (cases desired) auto

lemma dropin_plan_settles:
  "dropin_after (plan_tls_spoof_dropin (dropin_after (plan_tls_spoof_dropin existing desired) existing) desired)
     (dropin_after (plan_tls_spoof_dropin existing desired) existing)
   = dropin_after (plan_tls_spoof_dropin existing desired) existing"
  by (cases existing; cases desired) auto

end
