(* ===== verification/NodeHost.thy ===== *)
theory NodeHost
  imports Store SystemdDropin
begin

text \<open>
  The host that \<open>vpn-admin\<close> works on, and the service manager of \<open>apps/admin/src/service.rs\<close>.
  A host has the file system of \<open>FileStore\<close>, the answers the program \<open>systemctl\<close> will give to
  the calls to come, and the bytes of the configuration the running core has loaded.  A
  computation records every pair of file system and loaded configuration it passes through, so
  a statement about all recorded states covers a crash at any point; the triples \<open>ht\<close> carry
  such a crash condition next to the conditions on the normal and on the failing end.
\<close>

section \<open>Hosts\<close>

text \<open>The answer of a run of \<open>systemctl\<close>: it could not be started, or it ended with a success or
  failure status and an output.  Past the end of the script every call succeeds.  What a failing
  restart leaves loaded is open: \<open>ho_after\<close> lists it.\<close>

datatype answer = NoSpawn | Exited bool string

record host =
  ho_world :: world
  ho_answers :: "answer list"
  ho_after :: "string option list"
  ho_loaded :: "string option"
  ho_restarts :: nat

type_synonym node_state = "filesys \<times> string option"

definition state_of :: "host \<Rightarrow> node_state" where
  "state_of h = (w_fs (ho_world h), ho_loaded h)"

type_synonym ('e, 'a) admin = "(host, node_state, 'e, 'a) traced"

definition io_try :: "'a io \<Rightarrow> (FsError + 'a) io" where
  "io_try m w = (case m w of (w', r) \<Rightarrow> (w', Inr r))"

definition ad_io :: "(FsError \<Rightarrow> 'e) \<Rightarrow> 'a io \<Rightarrow> ('e, 'a) admin" where
  "ad_io err m h =
     (case m (ho_world h) of (w, r) \<Rightarrow>
        (h\<lparr>ho_world := w\<rparr>,
         map (\<lambda>fs. (fs, ho_loaded h)) (drop (length (w_trace (ho_world h))) (w_trace w)),
         map_err err r))"

definition ad_try :: "'a io \<Rightarrow> ('e, FsError + 'a) admin" where
  "ad_try m h =
     (case m (ho_world h) of (w, r) \<Rightarrow>
        (h\<lparr>ho_world := w\<rparr>,
         map (\<lambda>fs. (fs, ho_loaded h)) (drop (length (w_trace (ho_world h))) (w_trace w)),
         Inr r))"

section \<open>The service manager\<close>

definition next_answer :: "host \<Rightarrow> host \<times> answer" where
  "next_answer h =
     (case ho_answers h of
        [] \<Rightarrow> (h, Exited True ''loaded'')
      | a # as \<Rightarrow> (h\<lparr>ho_answers := as\<rparr>, a))"

definition svc_run :: "('e, answer) admin" where
  "svc_run h =
     (case next_answer h of
        (h1, NoSpawn) \<Rightarrow> (case next_answer h1 of (h2, a) \<Rightarrow> (h2, [], Inr a))
      | (h1, a) \<Rightarrow> (h1, [], Inr a))"

definition exited_ok :: "answer \<Rightarrow> bool" where
  "exited_ok a = (case a of NoSpawn \<Rightarrow> False | Exited ok _ \<Rightarrow> ok)"

definition is_available :: "('e, bool) admin" where
  "is_available = tr_bind svc_run (\<lambda>a. tr_return (exited_ok a))"

definition daemon_reload :: "('e, bool) admin" where
  "daemon_reload = tr_bind svc_run (\<lambda>a. tr_return (exited_ok a))"

definition is_unit_installed :: "('e, bool) admin" where
  "is_unit_installed =
     tr_bind svc_run (\<lambda>a. tr_return (case a of NoSpawn \<Rightarrow> False | Exited ok out \<Rightarrow> ok \<and> trim out = ''loaded''))"

definition unit_is_active :: "('e, bool) admin" where
  "unit_is_active = tr_bind svc_run (\<lambda>a. tr_return (exited_ok a))"

text \<open>\<open>systemctl reload-or-restart\<close>: when it succeeds the core has read the configuration file
  \<open>p\<close>; when it fails, what is loaded afterwards is open.\<close>

definition load_effect :: "path \<Rightarrow> answer \<Rightarrow> host \<Rightarrow> host" where
  "load_effect p a h =
     (case a of
        NoSpawn \<Rightarrow> h
      | Exited True _ \<Rightarrow>
          h\<lparr>ho_loaded := map_option nd_bytes (fs_files (w_fs (ho_world h)) p), ho_restarts := Suc (ho_restarts h)\<rparr>
      | Exited False _ \<Rightarrow>
          (case ho_after h of
             [] \<Rightarrow> h\<lparr>ho_restarts := Suc (ho_restarts h)\<rparr>
           | l # ls \<Rightarrow> h\<lparr>ho_loaded := l, ho_after := ls, ho_restarts := Suc (ho_restarts h)\<rparr>))"

definition reload_or_restart :: "path \<Rightarrow> ('e, bool) admin" where
  "reload_or_restart p =
     tr_bind svc_run (\<lambda>_.
     tr_bind svc_run (\<lambda>a.
       (\<lambda>h. let h' = load_effect p a h in (h', [state_of h'], Inr (exited_ok a)))))"

definition MAX_POLLS :: nat where "MAX_POLLS = 10"

fun polls :: "nat \<Rightarrow> nat \<Rightarrow> ('e, bool) admin" where
  "polls 0 consecutive = tr_return False"
| "polls (Suc n) consecutive =
     tr_bind unit_is_active (\<lambda>active.
       if active then if consecutive + 1 = 3 then tr_return True else polls n (consecutive + 1)
       else polls n 0)"

definition reload_and_verify :: "path \<Rightarrow> ('e, bool) admin" where
  "reload_and_verify p =
     tr_bind (reload_or_restart p) (\<lambda>ok. if ok then polls MAX_POLLS 0 else tr_return False)"

section \<open>Paths and text files\<close>

fun utf8_tail :: "nat \<Rightarrow> nat \<Rightarrow> nat \<Rightarrow> string \<Rightarrow> string option" where
  "utf8_tail lo hi 0 s = Some s"
| "utf8_tail lo hi (Suc n) [] = None"
| "utf8_tail lo hi (Suc n) (c # s) =
     (if lo \<le> of_char c \<and> of_char c \<le> hi then utf8_tail 0x80 0xBF n s else None)"

definition utf8_char :: "char \<Rightarrow> string \<Rightarrow> string option" where
  "utf8_char c s =
     (let b = of_char c :: nat in
      if b < 0x80 then Some s
      else if 0xC2 \<le> b \<and> b \<le> 0xDF then utf8_tail 0x80 0xBF 1 s
      else if b = 0xE0 then utf8_tail 0xA0 0xBF 2 s
      else if b = 0xED then utf8_tail 0x80 0x9F 2 s
      else if 0xE1 \<le> b \<and> b \<le> 0xEF then utf8_tail 0x80 0xBF 2 s
      else if b = 0xF0 then utf8_tail 0x90 0xBF 3 s
      else if 0xF1 \<le> b \<and> b \<le> 0xF3 then utf8_tail 0x80 0xBF 3 s
      else if b = 0xF4 then utf8_tail 0x80 0x8F 3 s
      else None)"

lemma utf8_tail_length: "utf8_tail lo hi n s = Some s' \<Longrightarrow> length s' \<le> length s"
  by (induction lo hi n s rule: utf8_tail.induct) (auto split: if_splits)

lemma utf8_char_length: "utf8_char c s = Some s' \<Longrightarrow> length s' \<le> length s"
  by (auto simp: utf8_char_def Let_def split: if_splits dest: utf8_tail_length)

text \<open>\<open>std::str::from_utf8\<close> succeeds.\<close>

function utf8_ok :: "string \<Rightarrow> bool" where
  "utf8_ok [] = True"
| "utf8_ok (c # s) = (case utf8_char c s of None \<Rightarrow> False | Some s' \<Rightarrow> utf8_ok s')"
  by pat_completeness auto
termination
  by (relation "measure length") (auto dest: utf8_char_length)

definition read_text :: "path \<Rightarrow> string io" where
  "read_text p = io_bind (read_file p) (\<lambda>b. if utf8_ok b then io_ret b else io_fail Io)"

text \<open>\<open>PathBuf::join\<close> with a relative component, the parts of a path, and
  \<open>Path::with_extension\<close> on a file name.\<close>

definition join_dir :: "string \<Rightarrow> string \<Rightarrow> string" where
  "join_dir d c = (if d = [] \<or> last d = CHR ''/'' then d @ c else d @ ''/'' @ c)"

definition split_path :: "string \<Rightarrow> path" where
  "split_path s =
     (let name = rev (takeWhile (\<lambda>c. c \<noteq> CHR ''/'') (rev s)) in
      (take (length s - length name - 1) s, name))"

definition with_extension :: "string \<Rightarrow> string \<Rightarrow> string" where
  "with_extension ext name =
     (let tail = takeWhile (\<lambda>c. c \<noteq> CHR ''.'') (rev name);
          stem = take (length name - length tail - 1) name
      in (if length tail = length name \<or> stem = [] then name else stem) @ ''.'' @ ext)"

definition path_exists :: "path \<Rightarrow> bool io" where
  "path_exists p =
     io_bind (sys_query (\<lambda>fs. if fs_files fs p \<noteq> None \<or> fs_dirs fs (join_dir (fst p) (snd p)) \<noteq> None
                              then Some () else None)) (\<lambda>m. io_ret (m \<noteq> None))"

section \<open>Crash triples\<close>

definition ht :: "(node_state \<Rightarrow> bool) \<Rightarrow> (node_state \<Rightarrow> bool) \<Rightarrow> ('e, 'a) admin
    \<Rightarrow> ('a \<Rightarrow> node_state \<Rightarrow> bool) \<Rightarrow> ('e \<Rightarrow> node_state \<Rightarrow> bool) \<Rightarrow> bool" where
  "ht C P m R E \<longleftrightarrow> (\<forall>h h' t r. P (state_of h) \<longrightarrow> m h = (h', t, r) \<longrightarrow>
     list_all C t \<and> (case r of Inr x \<Rightarrow> R x (state_of h') | Inl e \<Rightarrow> E e (state_of h')))"

named_theorems ht_intros \<open>rules of the crash triples\<close>

lemma htI:
  assumes "\<And>h h' t r. P (state_of h) \<Longrightarrow> m h = (h', t, r) \<Longrightarrow>
    list_all C t \<and> (case r of Inr x \<Rightarrow> R x (state_of h') | Inl e \<Rightarrow> E e (state_of h'))"
  shows "ht C P m R E"
  using assms unfolding ht_def by blast

lemma htD:
  assumes "ht C P m R E" "P (state_of h)" "m h = (h', t, r)"
  shows "list_all C t" "r = Inr x \<Longrightarrow> R x (state_of h')" "r = Inl e \<Longrightarrow> E e (state_of h')"
  using assms unfolding ht_def by (fastforce split: sum.splits)+

lemma ht_return: "(\<And>s. P s \<Longrightarrow> R x s) \<Longrightarrow> ht C P (tr_return x) R E"
  by (simp add: ht_def tr_return_def)

lemma ht_fail: "(\<And>s. P s \<Longrightarrow> E e s) \<Longrightarrow> ht C P (tr_fail e) R E"
  by (simp add: ht_def tr_fail_def)

lemma ht_bind:
  assumes "ht C P m M E" "\<And>x. ht C (M x) (f x) R E"
  shows "ht C P (tr_bind m f) R E"
proof (rule htI)
  fix h h' t r assume p: "P (state_of h)" and m: "tr_bind m f h = (h', t, r)"
  from m show "list_all C t \<and> (case r of Inr x \<Rightarrow> R x (state_of h') | Inl e \<Rightarrow> E e (state_of h'))"
  proof (cases rule: tr_bind_cases)
    case (stop e)
    with htD [OF assms(1) p stop(1)] show ?thesis by simp
  next
    case (step h1 t1 x t2)
    have a: "list_all C t1" "M x (state_of h1)" using htD [OF assms(1) p step(1)] by simp_all
    have "list_all C t2" "case r of Inr x \<Rightarrow> R x (state_of h') | Inl e \<Rightarrow> E e (state_of h')"
      using htD [OF assms(2) a(2) step(2)] by (cases r; simp)+
    with a(1) step(3) show ?thesis by simp
  qed
qed

lemma ht_conseq:
  assumes "ht C P m R E" "\<And>s. P' s \<Longrightarrow> P s" "\<And>x s. R x s \<Longrightarrow> R' x s" "\<And>e s. E e s \<Longrightarrow> E' e s"
    "\<And>s. C s \<Longrightarrow> C' s"
  shows "ht C' P' m R' E'"
proof (rule htI)
  fix h h' t r assume p: "P' (state_of h)" and m: "m h = (h', t, r)"
  note d = htD [OF assms(1) assms(2) [OF p] m]
  have "list_all C' t" using d(1) assms(5) by (auto simp: list_all_iff)
  with d(2,3) assms(3,4)
  show "list_all C' t \<and> (case r of Inr x \<Rightarrow> R' x (state_of h') | Inl e \<Rightarrow> E' e (state_of h'))"
    by (cases r) auto
qed

lemma ht_conj:
  assumes "ht C P m R E" "ht C' P' m R' E'"
  shows "ht (\<lambda>s. C s \<and> C' s) (\<lambda>s. P s \<and> P' s) m (\<lambda>x s. R x s \<and> R' x s) (\<lambda>e s. E e s \<and> E' e s)"
  using assms unfolding ht_def by (fastforce simp: list_all_iff split: sum.splits)

lemma ht_if: "(b \<Longrightarrow> ht C P m R E) \<Longrightarrow> (\<not> b \<Longrightarrow> ht C P m' R E) \<Longrightarrow> ht C P (if b then m else m') R E"
  by simp

text \<open>An invariant holds at every recorded state and at both ends.\<close>

abbreviation "invariant Q m \<equiv> ht Q Q m (\<lambda>_. Q) (\<lambda>_. Q)"

lemma inv_return [ht_intros]: "invariant Q (tr_return x)" "invariant Q (tr_fail e)"
  by (auto intro: ht_return ht_fail)

lemma inv_bind [ht_intros]: "invariant Q m \<Longrightarrow> (\<And>x. invariant Q (f x)) \<Longrightarrow> invariant Q (tr_bind m f)"
  by (rule ht_bind)

lemma inv_if [ht_intros]: "(b \<Longrightarrow> invariant Q m) \<Longrightarrow> (\<not> b \<Longrightarrow> invariant Q m') \<Longrightarrow> invariant Q (if b then m else m')"
  by simp

subsection \<open>Rules of the primitives\<close>

lemma ht_ad_io:
  assumes "\<And>fs l. P (fs, l) \<Longrightarrow> C (fs, l)"
    and "\<And>w w' r l. P (w_fs w, l) \<Longrightarrow> m w = (w', r) \<Longrightarrow>
      extends (\<lambda>fs. C (fs, l)) w w' \<and> (case r of Inr x \<Rightarrow> R x (w_fs w', l) | Inl e \<Rightarrow> E (err e) (w_fs w', l))"
  shows "ht C P (ad_io err m) R E"
proof (rule htI)
  fix h h' t r assume p: "P (state_of h)" and m: "ad_io err m h = (h', t, r)"
  obtain w q where w: "m (ho_world h) = (w, q)" by (cases "m (ho_world h)")
  have p': "P (w_fs (ho_world h), ho_loaded h)" using p by (simp add: state_of_def)
  note a = assms(2) [OF p' w]
  then obtain ss where ss: "w_trace w = w_trace (ho_world h) @ ss" "list_all (\<lambda>fs. C (fs, ho_loaded h)) ss"
    by (auto simp: extends_def)
  have "h' = h\<lparr>ho_world := w\<rparr>" "t = map (\<lambda>fs. (fs, ho_loaded h)) ss" "r = map_err err q"
    using m ss(1) by (simp_all add: ad_io_def w)
  with a ss(2) show "list_all C t \<and> (case r of Inr x \<Rightarrow> R x (state_of h') | Inl e \<Rightarrow> E e (state_of h'))"
    by (cases q) (simp_all add: state_of_def list_all_iff)
qed

lemma ht_ad_try:
  assumes "\<And>fs l. P (fs, l) \<Longrightarrow> C (fs, l)"
    and "\<And>w w' r l. P (w_fs w, l) \<Longrightarrow> m w = (w', r) \<Longrightarrow>
      extends (\<lambda>fs. C (fs, l)) w w' \<and> R r (w_fs w', l)"
  shows "ht C P (ad_try m) R E"
proof (rule htI)
  fix h h' t and r :: "'b + (FsError + 'a)" assume p: "P (state_of h)" and m: "ad_try m h = (h', t, r)"
  obtain w q where w: "m (ho_world h) = (w, q)" by (cases "m (ho_world h)")
  have p': "P (w_fs (ho_world h), ho_loaded h)" using p by (simp add: state_of_def)
  note a = assms(2) [OF p' w]
  then obtain ss where ss: "w_trace w = w_trace (ho_world h) @ ss" "list_all (\<lambda>fs. C (fs, ho_loaded h)) ss"
    by (auto simp: extends_def)
  have "h' = h\<lparr>ho_world := w\<rparr>" "t = map (\<lambda>fs. (fs, ho_loaded h)) ss" "r = Inr q"
    using m ss(1) by (simp_all add: ad_try_def w)
  with a ss(2) show "list_all C t \<and> (case r of Inr x \<Rightarrow> R x (state_of h') | Inl e \<Rightarrow> E e (state_of h'))"
    by (simp add: state_of_def list_all_iff)
qed

lemma inv_ad_io:
  assumes "\<And>l. keeps (\<lambda>fs. Q (fs, l)) m"
  shows "invariant Q (ad_io err m)" "invariant Q (ad_try m)"
proof -
  have "extends (\<lambda>fs. Q (fs, l)) w w' \<and> Q (w_fs w', l)" if "Q (w_fs w, l)" "m w = (w', r)" for w w' r l
    using keepsD [OF assms that(2), of l] that(1) by (auto simp: extends_def)
  then show "invariant Q (ad_io err m)" "invariant Q (ad_try m)"
    by (auto intro!: ht_ad_io ht_ad_try split: sum.split)
qed

lemma svc_run_cases:
  assumes "svc_run h = (h', t, r)"
  obtains a as where "h' = h\<lparr>ho_answers := as\<rparr>" "t = []" "r = Inr a"
proof -
  have "\<exists>as. fst (next_answer h) = h\<lparr>ho_answers := as\<rparr>" for h
  proof (cases "ho_answers h")
    case Nil
    then have "fst (next_answer h) = h\<lparr>ho_answers := []\<rparr>" by (simp add: next_answer_def)
    then show ?thesis by blast
  next
    case (Cons a as)
    then have "fst (next_answer h) = h\<lparr>ho_answers := as\<rparr>" by (simp add: next_answer_def)
    then show ?thesis by blast
  qed
  then have n: "\<exists>as. h1 = h\<lparr>ho_answers := as\<rparr>" if "next_answer h = (h1, a)" for h h1 a
    using that by (metis fst_conv)
  obtain h1 a1 where a1: "next_answer h = (h1, a1)" by (cases "next_answer h")
  obtain as1 where h1: "h1 = h\<lparr>ho_answers := as1\<rparr>" using n [OF a1] ..
  obtain h2 a2 where a2: "next_answer h1 = (h2, a2)" by (cases "next_answer h1")
  obtain as2 where h2: "h2 = h1\<lparr>ho_answers := as2\<rparr>" using n [OF a2] ..
  show thesis
    using assms a1 a2 h1 h2 that [of as1 a1] that [of as2 a2] by (cases a1) (auto simp: svc_run_def)
qed

lemma ht_svc_run: "(\<And>a s. P s \<Longrightarrow> R a s) \<Longrightarrow> ht C P svc_run R E"
proof (rule htI)
  fix h h' t and r :: "'a + answer" assume r: "\<And>a s. P s \<Longrightarrow> R a s" and p: "P (state_of h)"
    and s: "svc_run h = (h', t, r)"
  from s obtain a as where e: "h' = h\<lparr>ho_answers := as\<rparr>" "t = []" "r = Inr a"
    by (rule svc_run_cases)
  have "state_of h' = state_of h" by (simp add: e(1) state_of_def)
  with r [OF p] e show "list_all C t \<and> (case r of Inr x \<Rightarrow> R x (state_of h') | Inl e \<Rightarrow> E e (state_of h'))"
    by simp
qed

text \<open>A question to the service manager changes neither files nor the loaded configuration.\<close>

lemma ht_service_query:
  assumes "\<And>b s. P s \<Longrightarrow> R b s"
  shows "ht C P is_available R E" "ht C P is_unit_installed R E" "ht C P unit_is_active R E"
    "ht C P daemon_reload R E"
  unfolding is_available_def is_unit_installed_def unit_is_active_def daemon_reload_def
  by (auto intro!: ht_bind [where M = "\<lambda>_. P"] ht_svc_run ht_return assms)

lemma ht_polls:
  assumes "\<And>b s. P s \<Longrightarrow> R b s"
  shows "ht C P (polls n c) R E"
proof (induction n arbitrary: c)
  case (Suc n)
  show ?case
    by (auto intro!: ht_bind [where M = "\<lambda>_. P"] ht_service_query ht_return assms Suc.IH)
qed (auto intro: ht_return assms)

text \<open>A restart loads the configuration file when it succeeds.\<close>

definition runs_file :: "path \<Rightarrow> node_state \<Rightarrow> bool" where
  "runs_file p s \<longleftrightarrow> snd s = map_option nd_bytes (fs_files (fst s) p)"

lemma load_effect_fs [simp]: "w_fs (ho_world (load_effect p a h)) = w_fs (ho_world h)"
  by (auto simp: load_effect_def split: answer.splits bool.splits list.splits)

lemma load_effect_ok: "exited_ok a \<Longrightarrow> runs_file p (state_of (load_effect p a h))"
  by (auto simp: load_effect_def exited_ok_def runs_file_def state_of_def split: answer.splits bool.splits)

lemma ht_reload_or_restart:
  assumes "\<And>fs l l'. P (fs, l) \<Longrightarrow> C (fs, l')"
    and "\<And>fs l l' ok. P (fs, l) \<Longrightarrow> (ok \<Longrightarrow> runs_file p (fs, l')) \<Longrightarrow> R ok (fs, l')"
  shows "ht C P (reload_or_restart p) R E"
proof -
  have eff: "ht C P (\<lambda>h. let h' = load_effect p a h in (h', [state_of h'], Inr (exited_ok a))) R E" for a
  proof (rule htI)
    fix h h' t and r :: "'a + bool"
    assume p: "P (state_of h)"
      and m: "(let h' = load_effect p a h in (h', [state_of h'], Inr (exited_ok a))) = (h', t, r)"
    have m': "h' = load_effect p a h" "t = [state_of h']" "r = Inr (exited_ok a)"
      using m by (auto simp: Let_def)
    have s: "state_of h' = (fst (state_of h), ho_loaded h')" "P (fst (state_of h), ho_loaded h)"
      using p by (simp_all add: m'(1) state_of_def)
    have "C (state_of h')" unfolding s(1) by (rule assms(1) [OF s(2)])
    moreover have "exited_ok a \<Longrightarrow> runs_file p (fst (state_of h), ho_loaded h')"
      using load_effect_ok [of a p h] by (simp add: m'(1) state_of_def)
    then have "R (exited_ok a) (state_of h')" unfolding s(1) by (rule assms(2) [OF s(2)])
    ultimately show "list_all C t \<and> (case r of Inr x \<Rightarrow> R x (state_of h') | Inl e \<Rightarrow> E e (state_of h'))"
      using m' by simp
  qed
  show ?thesis
    unfolding reload_or_restart_def
    by (rule ht_bind [where M = "\<lambda>_. P"], (auto intro: ht_svc_run)[1],
        rule ht_bind [where M = "\<lambda>_. P"], (auto intro: ht_svc_run)[1], rule eff)
qed

lemma ht_reload_and_verify:
  assumes "\<And>fs l l'. P (fs, l) \<Longrightarrow> C (fs, l')"
    and "\<And>fs l l' ok. P (fs, l) \<Longrightarrow> (ok \<Longrightarrow> runs_file p (fs, l')) \<Longrightarrow> R ok (fs, l')"
  shows "ht C P (reload_and_verify p) R E"
proof -
  let ?M = "\<lambda>ok (s :: node_state). (\<exists>l. P (fst s, l)) \<and> (ok \<longrightarrow> runs_file p s)"
  have "ht C (?M ok) (if ok then polls MAX_POLLS 0 else tr_return False) R E" for ok
    using assms(2) by (cases ok) (auto intro!: ht_polls ht_return)
  then show ?thesis
    unfolding reload_and_verify_def
    by (intro ht_bind [where M = ?M] ht_reload_or_restart) (auto intro: assms(1))
qed

end
