(* ===== verification/AdminApply.thy ===== *)
theory AdminApply
  imports NodeHost ServerConfig
begin

text \<open>
  The apply path of \<open>vpn-admin\<close> (\<open>apps/admin/src/main.rs\<close>): reading the key material, keeping the
  capability drop-in in step, rendering, checking and swapping the configuration of the core,
  the restart with its verification and recovery, the stamp that records the configuration
  verified live, and the transaction that publishes a changed user store only after the running
  core has it.  Library code and other programs are fields of \<open>tools\<close>: JSON printing and
  reading, SHA-256 and hexadecimal text, the check of a candidate by the core, the coherence of a
  key pair, and the reader and printer of the user store.  What one run sees of its environment
  is a \<open>run_env\<close>.
\<close>

unbundle bit_operations_syntax

section \<open>Environment\<close>

record tools =
  tl_b64 :: "string \<Rightarrow> 8 word list option"
  tl_pretty :: "json \<Rightarrow> string"
  tl_compact :: "json \<Rightarrow> string"
  tl_parse :: "string \<Rightarrow> json option"
  tl_sha :: "string \<Rightarrow> 8 word list"
  tl_hex :: "8 word list \<Rightarrow> string"
  tl_check :: "string \<Rightarrow> FsError + unit"
  tl_coherent :: "string \<Rightarrow> string \<Rightarrow> bool"
  tl_users_ser :: "users_envelope \<Rightarrow> string"
  tl_users_env :: "string \<Rightarrow> users_envelope option"
  tl_users_legacy :: "string \<Rightarrow> CompatUser list option"

datatype RealitySelfTestOutcome = Pass | HandshakeRejected | Inconclusive

datatype HandshakeVerification = Ran RealitySelfTestOutcome | NotRun

text \<open>The variables \<open>SINGBOX_VPN_ALLOW_OFFLINE_MUTATION\<close>, \<open>SINGBOX_VPN_SYSTEMD_DIR\<close> and
  \<open>SINGBOX_VPN_SYSTEMCTL\<close>, the three readings of the clock (by the command, by the renderer and
  by the self-test), the status text of the core's process
  before and after the restart, and the verdict of the handshake self-test for a user.\<close>

record run_env =
  re_process :: process
  re_offline :: "string option"
  re_systemd_dir :: "string option"
  re_systemctl :: "string option"
  re_now_start :: int
  re_now :: int
  re_now_check :: int
  re_status :: "string option"
  re_status_after :: "string option"
  re_selftest :: "CompatUser \<Rightarrow> RealitySelfTestOutcome option"

datatype AdminError =
    NoKeyset FsError | RenderFailed RenderError | NoBinary | NoService | DropinNotApplied
  | ConfigFailed FsError | ReloadFailed bool | CapabilitiesMissing | HandshakeFailed bool
  | StampFailed FsError | SaveFailed bool

definition offline_mutation_allowed :: "run_env \<Rightarrow> bool" where
  "offline_mutation_allowed re \<longleftrightarrow> re_offline re = Some ''1''"

section \<open>Paths\<close>

definition users_file :: "DeploymentConfig \<Rightarrow> path" where
  "users_file d = (join_dir (dc_state_dir d) ''users'', ''users.json'')"

definition reality_dir :: "DeploymentConfig \<Rightarrow> string" where
  "reality_dir d = join_dir (dc_state_dir d) ''reality''"

definition reality_private_key_file :: "DeploymentConfig \<Rightarrow> path" where
  "reality_private_key_file d = (reality_dir d, ''private.key'')"

definition reality_public_key_file :: "DeploymentConfig \<Rightarrow> path" where
  "reality_public_key_file d = (reality_dir d, ''public.key'')"

definition hysteria_dir :: "DeploymentConfig \<Rightarrow> string" where
  "hysteria_dir d = join_dir (dc_state_dir d) ''hysteria''"

definition google_egress_hairpin_uuid_file :: "DeploymentConfig \<Rightarrow> path" where
  "google_egress_hairpin_uuid_file d = (join_dir (dc_state_dir d) ''google-egress'', ''uuid.txt'')"

definition hysteria_obfs_password_file :: "DeploymentConfig \<Rightarrow> path" where
  "hysteria_obfs_password_file d = (reality_dir d, ''hysteria_obfs_password.txt'')"

definition singbox_config_file :: "DeploymentConfig \<Rightarrow> path" where
  "singbox_config_file d = (join_dir (dc_state_dir d) ''sing-box'', ''config.json'')"

definition applied_config_stamp_path :: "path \<Rightarrow> path" where
  "applied_config_stamp_path target = (fst target, with_extension ''applied.sha256'' (snd target))"

definition spoof_stamp_path :: "DeploymentConfig \<Rightarrow> path" where
  "spoof_stamp_path d = (dc_state_dir d, ''tls-spoof-restarted-for.sha256'')"

definition systemd_system_dir :: "run_env \<Rightarrow> string option" where
  "systemd_system_dir re =
     (case re_systemd_dir re of
        Some p \<Rightarrow> if p \<noteq> [] then Some p
                  else if re_systemctl re \<noteq> None then None else Some ''/etc/systemd/system''
      | None \<Rightarrow> if re_systemctl re \<noteq> None then None else Some ''/etc/systemd/system'')"

definition tls_spoof_dropin_path :: "run_env \<Rightarrow> path option" where
  "tls_spoof_dropin_path re =
     map_option (\<lambda>d. (join_dir d ''sing-box.service.d'', ''tls-spoof.conf'')) (systemd_system_dir re)"

section \<open>Key material\<close>

text \<open>A file that is optional: the error of reading it counts as absence.\<close>

definition io_ok :: "'a io \<Rightarrow> 'a option io" where
  "io_ok m = io_bind (io_try m) (\<lambda>r. io_ret (case r of Inl _ \<Rightarrow> None | Inr x \<Rightarrow> Some x))"

definition load_reality_params :: "tools \<Rightarrow> DeploymentConfig \<Rightarrow> RealityServerParams io" where
  "load_reality_params kit d =
     io_bind (read_text (reality_private_key_file d)) (\<lambda>priv.
     io_bind (read_text (reality_public_key_file d)) (\<lambda>pub.
     if \<not> tl_coherent kit (trim priv) (trim pub) then io_fail (Rejected ''REALITY keypair'')
     else
     io_bind (read_text (reality_dir d, ''short_id.txt'')) (\<lambda>short_id.
     io_bind (io_ok (read_text (google_egress_hairpin_uuid_file d))) (\<lambda>uuid.
     io_ret \<lparr>rs_private_key = trim priv, rs_public_key = trim pub, rs_short_ids = [trim short_id],
             rs_handshake_server = rl_handshake_server (dc_reality d),
             rs_handshake_port = rl_handshake_port (dc_reality d),
             rs_google_egress_hairpin_uuid = map_option trim uuid\<rparr>))))"

definition load_hysteria_params :: "DeploymentConfig \<Rightarrow> Hysteria2ServerParams io" where
  "load_hysteria_params d =
     (let masquerade = join_dir (hysteria_dir d) ''masquerade'' in
      io_bind (io_ok (read_text (hysteria_obfs_password_file d))) (\<lambda>obfs.
      io_bind (path_exists (hysteria_dir d, ''masquerade'')) (\<lambda>there.
      io_ret \<lparr>hs_tls_cert_path = join_dir (hysteria_dir d) ''cert.pem'',
              hs_tls_key_path = join_dir (hysteria_dir d) ''key.pem'',
              hs_obfs_password =
                (case map_option trim obfs of Some p \<Rightarrow> if p = [] then None else Some p | None \<Rightarrow> None),
              hs_masquerade_dir_path = (if there then Some masquerade else None),
              hs_up_mbps = hy_up_mbps (dc_hysteria2 d), hs_down_mbps = hy_down_mbps (dc_hysteria2 d)\<rparr>)))"

section \<open>Stamps\<close>

definition rendered_config_fingerprint :: "tools \<Rightarrow> json \<Rightarrow> string" where
  "rendered_config_fingerprint kit doc = hash_token (tl_sha kit) (tl_hex kit) (tl_compact kit doc)"

definition write_secret_file :: "process \<Rightarrow> path \<Rightarrow> string \<Rightarrow> unit io" where
  "write_secret_file pr p contents =
     io_bind (open_truncate pr 0x180 p) (\<lambda>_. io_bind (write_all p contents) (\<lambda>_. sync_all))"

text \<open>Both stamps, of the configuration and of the revision, are written beside the file and
  renamed into place.\<close>

definition commit_stamp :: "process \<Rightarrow> path \<Rightarrow> string \<Rightarrow> unit io" where
  "commit_stamp pr stamp text =
     (let tmp = (fst stamp, with_extension (''tmp.'' @ show_nat (pr_pid pr)) (snd stamp)) in
      io_bind (write_secret_file pr tmp text) (\<lambda>_. rename tmp stamp))"

definition commit_applied_config_stamp :: "process \<Rightarrow> path \<Rightarrow> string \<Rightarrow> unit io" where
  "commit_applied_config_stamp pr target fingerprint =
     commit_stamp pr (applied_config_stamp_path target) fingerprint"

section \<open>The capability drop-in\<close>

datatype DropinSync = SyncUnchanged | SyncChanged | SyncSkipped | SyncFailed

definition carry_out_dropin :: "process \<Rightarrow> path \<Rightarrow> DropinAction \<Rightarrow> unit io" where
  "carry_out_dropin pr p action =
     (case action of
        DropinWrite content \<Rightarrow>
          io_bind (create_dir_all pr (fst p)) (\<lambda>_. atomic_write pr p content 0x1A4)
      | DropinRemove \<Rightarrow> remove_file p
      | _ \<Rightarrow> io_ret ())"

definition sync_tls_spoof_capability_dropin :: "run_env \<Rightarrow> DeploymentConfig \<Rightarrow> ('e, DropinSync) admin" where
  "sync_tls_spoof_capability_dropin re d =
     (case tls_spoof_dropin_path re of
        None \<Rightarrow> tr_return SyncSkipped
      | Some p \<Rightarrow>
          tr_bind (ad_try (read_text p)) (\<lambda>existing.
          let action = plan_tls_spoof_dropin (case existing of Inl _ \<Rightarrow> None | Inr t \<Rightarrow> Some t)
                         (desired_tls_spoof_dropin d)
          in if action = DropinNone \<or> action = LeaveUnmanaged then tr_return SyncUnchanged
             else
             tr_bind (ad_try (carry_out_dropin (re_process re) p action)) (\<lambda>changed.
               case changed of
                 Inl _ \<Rightarrow> tr_return SyncFailed
               | Inr _ \<Rightarrow>
                   tr_bind is_available (\<lambda>available.
                   if \<not> available then tr_return SyncChanged
                   else tr_bind daemon_reload (\<lambda>ok. tr_return (if ok then SyncChanged else SyncFailed))))))"

definition hex_value :: "char \<Rightarrow> nat option" where
  "hex_value c =
     (let n = of_char c :: nat in
      if is_ascii_digit c then Some (n - 48)
      else if 97 \<le> n \<and> n \<le> 102 then Some (n - 87)
      else if 65 \<le> n \<and> n \<le> 70 then Some (n - 55) else None)"

fun parse_hex_digits :: "nat \<Rightarrow> string \<Rightarrow> nat option" where
  "parse_hex_digits acc [] = Some acc"
| "parse_hex_digits acc (c # cs) =
     (case hex_value c of
        None \<Rightarrow> None
      | Some v \<Rightarrow> if acc * 16 + v < 2 ^ 64 then parse_hex_digits (acc * 16 + v) cs else None)"

text \<open>\<open>u64::from_str_radix(s, 16)\<close>.\<close>

definition parse_hex_u64 :: "string \<Rightarrow> 64 word option" where
  "parse_hex_u64 s =
     (let s = (case s of c # cs \<Rightarrow> if c = CHR ''+'' then cs else s | [] \<Rightarrow> []) in
      if s = [] then None else map_option of_nat (parse_hex_digits 0 s))"

definition proc_status_cap_eff :: "string \<Rightarrow> 64 word option" where
  "proc_status_cap_eff status =
     (case List.map_filter (strip_prefix ''CapEff:'') (str_lines status) of
        [] \<Rightarrow> None
      | hex # _ \<Rightarrow> parse_hex_u64 (trim hex))"

definition cap_eff_allows_tls_spoof :: "64 word \<Rightarrow> bool" where
  "cap_eff_allows_tls_spoof cap_eff \<longleftrightarrow> cap_eff AND 0x3000 = 0x3000"

definition running_singbox_lacks_spoof_capabilities ::
    "run_env \<Rightarrow> DeploymentConfig \<Rightarrow> string option \<Rightarrow> bool option" where
  "running_singbox_lacks_spoof_capabilities re d status =
     (if dc_google_egress_tls_spoof d = None then None
      else if re_systemctl re \<noteq> None then None
      else map_option (\<lambda>caps. \<not> cap_eff_allows_tls_spoof caps) (Option.bind status proc_status_cap_eff))"

section \<open>Applying a configuration\<close>

definition preferred_protocol_user :: "CompatUser list \<Rightarrow> int \<Rightarrow> CompatUser option" where
  "preferred_protocol_user users now =
     (case find (\<lambda>u. is_active u now \<and> u_is_reserved_probe u) users of
        Some u \<Rightarrow> Some u
      | None \<Rightarrow> find (\<lambda>u. is_active u now) users)"

definition verify_reality_handshake_or_warn ::
    "run_env \<Rightarrow> DeploymentConfig \<Rightarrow> CompatUser list \<Rightarrow> HandshakeVerification io" where
  "verify_reality_handshake_or_warn re d users =
     io_bind (path_exists (split_path (dc_singbox_binary d))) (\<lambda>binary.
     io_ret (if \<not> binary then NotRun
             else case preferred_protocol_user users (re_now_check re) of
                    None \<Rightarrow> NotRun
                  | Some u \<Rightarrow> (case re_selftest re u of None \<Rightarrow> NotRun | Some outcome \<Rightarrow> Ran outcome)))"

definition restore_previous_config :: "run_env \<Rightarrow> path \<Rightarrow> ('e, bool) admin" where
  "restore_previous_config re target =
     tr_bind (ad_try (io_bind (path_exists (config_backup_path target)) (\<lambda>there.
                if there then copy_file (re_process re) (config_backup_path target) target
                else io_fail Io))) (\<lambda>restored.
     if is_ok restored then reload_and_verify target else tr_return False)"

definition record_spoof_restart :: "run_env \<Rightarrow> path \<Rightarrow> string option \<Rightarrow> (FsError + unit) io" where
  "record_spoof_restart re stamp content =
     io_try (case content of
               Some hash \<Rightarrow> write_secret_file (re_process re) stamp hash
             | None \<Rightarrow> remove_file stamp)"

text \<open>From the restart to the stamp.\<close>

definition go_live ::
    "tools \<Rightarrow> run_env \<Rightarrow> DeploymentConfig \<Rightarrow> CompatUser list \<Rightarrow> bool \<Rightarrow> json \<Rightarrow> string option option
       \<Rightarrow> (AdminError, bool) admin" where
  "go_live kit re d users strict doc spoof =
     (let target = singbox_config_file d in
      tr_bind (reload_and_verify target) (\<lambda>up.
      if \<not> up then tr_bind (restore_previous_config re target) (\<lambda>recovered. tr_fail (ReloadFailed recovered))
      else if strict \<and> running_singbox_lacks_spoof_capabilities re d (re_status_after re) = Some True
      then tr_fail CapabilitiesMissing
      else
      tr_bind (ad_io ConfigFailed (verify_reality_handshake_or_warn re d users)) (\<lambda>handshake.
      if handshake = Ran HandshakeRejected
      then tr_bind (restore_previous_config re target) (\<lambda>recovered. tr_fail (HandshakeFailed recovered))
      else
      tr_bind (ad_io StampFailed (commit_applied_config_stamp (re_process re) target
                 (rendered_config_fingerprint kit doc))) (\<lambda>_.
      case spoof of
        None \<Rightarrow> tr_return True
      | Some content \<Rightarrow>
          tr_bind (ad_io ConfigFailed (record_spoof_restart re (spoof_stamp_path d) content)) (\<lambda>_.
          tr_return True)))))"

definition apply_document ::
    "tools \<Rightarrow> run_env \<Rightarrow> DeploymentConfig \<Rightarrow> CompatUser list \<Rightarrow> bool \<Rightarrow> bool \<Rightarrow> json
       \<Rightarrow> (AdminError, bool) admin" where
  "apply_document kit re d users service_available strict doc =
     (let target = singbox_config_file d in
      tr_bind (ad_try (read_file target)) (\<lambda>current.
      let target_already_matches = (case current of Inl _ \<Rightarrow> False | Inr b \<Rightarrow> tl_parse kit b = Some doc) in
      tr_bind (ad_try (read_text (applied_config_stamp_path target))) (\<lambda>stamp.
      let applied_stamp_matches =
            (case stamp of Inl _ \<Rightarrow> False | Inr s \<Rightarrow> trim s = rendered_config_fingerprint kit doc) in
      tr_bind (sync_tls_spoof_capability_dropin re d) (\<lambda>dropin.
      if strict \<and> dropin = SyncFailed then tr_fail DropinNotApplied
      else
      let spoof_hash = map_option (hash_token (tl_sha kit) (tl_hex kit)) (desired_tls_spoof_dropin d) in
      tr_bind (if running_singbox_lacks_spoof_capabilities re d (re_status re) = Some True
               then tr_bind (ad_try (read_text (spoof_stamp_path d))) (\<lambda>s.
                      tr_return (spoof_hash \<noteq> (case s of Inl _ \<Rightarrow> None | Inr s \<Rightarrow> Some (trim s))))
               else tr_return False) (\<lambda>caps_restart_due.
      let capability_restart = (dropin = SyncChanged \<or> caps_restart_due) in
      tr_bind (if \<not> capability_restart \<and> target_already_matches \<and> applied_stamp_matches \<and> service_available
               then unit_is_active else tr_return False) (\<lambda>already_current.
      if already_current then tr_return True
      else
      tr_bind (ad_io ConfigFailed
                 (apply_config_atomically (tl_pretty kit) (tl_check kit) (re_process re) doc target)) (\<lambda>_.
      tr_bind is_available (\<lambda>available.
      if \<not> available then tr_return False
      else
      tr_bind is_unit_installed (\<lambda>installed.
      if \<not> installed then tr_return False
      else go_live kit re d users strict doc
             (if capability_restart then Some spoof_hash else None))))))))))"

definition render_and_apply_singbox_config_with ::
    "tools \<Rightarrow> run_env \<Rightarrow> DeploymentConfig \<Rightarrow> CompatUser list \<Rightarrow> bool \<Rightarrow> bool \<Rightarrow> (AdminError, bool) admin" where
  "render_and_apply_singbox_config_with kit re d users require_live strict =
     tr_bind (ad_try (load_reality_params kit d)) (\<lambda>keys.
       case keys of
         Inl e \<Rightarrow>
           if require_live \<and> \<not> offline_mutation_allowed re then tr_fail (NoKeyset e) else tr_return False
       | Inr reality \<Rightarrow>
           tr_bind (ad_io NoKeyset (load_hysteria_params d)) (\<lambda>hysteria.
           case render_server_config_for_deployment (tl_b64 kit) d users reality hysteria (re_now re) of
             Inl e \<Rightarrow> tr_fail (RenderFailed e)
           | Inr doc \<Rightarrow>
               tr_bind (ad_io NoKeyset (path_exists (split_path (dc_singbox_binary d)))) (\<lambda>binary.
               if \<not> binary
               then if require_live \<and> \<not> offline_mutation_allowed re then tr_fail NoBinary
                    else tr_return False
               else
               tr_bind (tr_bind is_available (\<lambda>a. if a then is_unit_installed else tr_return False))
                 (\<lambda>service_available.
               if require_live \<and> \<not> service_available \<and> \<not> offline_mutation_allowed re
               then tr_fail NoService
               else apply_document kit re d users service_available strict doc))))"

definition render_and_apply_singbox_config ::
    "tools \<Rightarrow> run_env \<Rightarrow> DeploymentConfig \<Rightarrow> CompatUser list \<Rightarrow> bool \<Rightarrow> (AdminError, bool) admin" where
  "render_and_apply_singbox_config kit re d users require_live =
     render_and_apply_singbox_config_with kit re d users require_live False"

text \<open>The transaction over the core and the user store.  A rollback is a second run, with an
  environment of its own.\<close>

definition attempt :: "('e, 'a) admin \<Rightarrow> ('f, 'e + 'a) admin" where
  "attempt m h = (case m h of (h', t, r) \<Rightarrow> (h', t, Inr r))"

definition apply_users_and_save ::
    "tools \<Rightarrow> run_env \<Rightarrow> run_env \<Rightarrow> DeploymentConfig \<Rightarrow> CompatUser list \<Rightarrow> CompatUser list
       \<Rightarrow> (AdminError, bool) admin" where
  "apply_users_and_save kit re re_back d previous users =
     tr_bind (render_and_apply_singbox_config kit re d users True) (\<lambda>went_live.
     tr_bind (ad_try (save_users_atomic (tl_users_ser kit) (re_process re) (users_file d) users)) (\<lambda>saved.
     case saved of
       Inl _ \<Rightarrow>
         tr_bind (attempt (render_and_apply_singbox_config kit re_back d previous True)) (\<lambda>rollback.
         tr_fail (SaveFailed (is_ok rollback)))
     | Inr _ \<Rightarrow> tr_return went_live))"

section \<open>Paths that a run may change\<close>

abbreviation "stamp_file d \<equiv> applied_config_stamp_path (singbox_config_file d)"

definition stamp_tmp :: "process \<Rightarrow> path \<Rightarrow> path" where
  "stamp_tmp pr p = (fst p, with_extension (''tmp.'' @ show_nat (pr_pid pr)) (snd p))"

definition touched :: "run_env \<Rightarrow> DeploymentConfig \<Rightarrow> path set" where
  "touched re d =
     (let c = singbox_config_file d; s = stamp_file d; pr = re_process re in
      {c, tmp_path pr c, config_backup_path c, s, stamp_tmp pr s, spoof_stamp_path d}
      \<union> (case tls_spoof_dropin_path re of None \<Rightarrow> {} | Some p \<Rightarrow> {p, tmp_path pr p}))"

lemma with_extension_names [simp]:
  "with_extension ''applied.sha256'' ''config.json'' = ''config.applied.sha256''"
  "with_extension ext ''config.applied.sha256'' = ''config.applied.'' @ ext"
  by (simp_all add: with_extension_def)

lemmas path_defs = users_file_def singbox_config_file_def applied_config_stamp_path_def stamp_tmp_def
  spoof_stamp_path_def config_backup_path_def tmp_path_def

lemma stamp_file_neq [simp]:
  "stamp_file d \<noteq> singbox_config_file d" "singbox_config_file d \<noteq> stamp_file d"
  "stamp_tmp pr (stamp_file d) \<noteq> singbox_config_file d" "singbox_config_file d \<noteq> stamp_tmp pr (stamp_file d)" "stamp_tmp pr (stamp_file d) \<noteq> stamp_file d"
  by (simp_all add: path_defs)

lemma dropin_names: "tls_spoof_dropin_path re = Some p \<Longrightarrow> snd p = ''tls-spoof.conf''"
  by (auto simp: tls_spoof_dropin_path_def)

lemma config_untouched_by_dropin:
  assumes "tls_spoof_dropin_path re = Some p"
  shows "singbox_config_file d \<noteq> p" "singbox_config_file d \<noteq> tmp_path pr p"
    "stamp_file d \<noteq> p" "stamp_file d \<noteq> tmp_path pr p"
  using dropin_names [OF assms] by (auto simp: path_defs)

lemma users_untouched: "users_file d \<notin> touched re d"
  using dropin_names [of re] by (auto simp: touched_def path_defs Let_def split: option.splits)

section \<open>Frame\<close>

lemma keeps_conj: "keeps Q m \<Longrightarrow> keeps R m \<Longrightarrow> keeps (\<lambda>s. Q s \<and> R s) m"
  by (fastforce simp: keeps_def extends_def list_all_iff)

lemma keeps_io_try [keeps_intros]: "keeps Q m \<Longrightarrow> keeps Q (io_try m)"
  unfolding keeps_def by (metis (no_types, lifting) io_try_def case_prod_beta fst_conv)

lemma keeps_rename [keeps_intros]: "q \<noteq> src \<Longrightarrow> q \<noteq> dst \<Longrightarrow> keeps (file_is q n) (rename src dst)"
  unfolding rename_def by (auto intro!: keeps_sys_call simp: file_is_def split: option.splits)

lemma keeps_remove [keeps_intros]: "q \<noteq> p \<Longrightarrow> keeps (file_is q n) (remove_file p)"
  unfolding remove_file_def by (auto intro!: keeps_sys_call simp: file_is_def split: if_splits)

lemma keeps_readers [keeps_intros]:
  "keeps Q (read_text p)" "keeps Q (path_exists p)" "keeps Q (io_ok (read_text p))"
  "keeps Q (load_hysteria_params d)" "keeps Q (load_reality_params kit d)"
  "keeps Q (verify_reality_handshake_or_warn re d users)"
proof -
  have r: "keeps Q (read_text p)" and x: "keeps Q (path_exists p)" for p
    unfolding read_text_def path_exists_def by (auto intro!: keeps_intros)
  then have o: "keeps Q (io_ok (read_text p))" for p
    unfolding io_ok_def by (intro keeps_intros r)
  show "keeps Q (read_text p)" "keeps Q (path_exists p)" "keeps Q (io_ok (read_text p))" by (fact r x o)+
  show "keeps Q (load_hysteria_params d)" "keeps Q (load_reality_params kit d)"
    "keeps Q (verify_reality_handshake_or_warn re d users)"
    unfolding load_hysteria_params_def load_reality_params_def verify_reality_handshake_or_warn_def Let_def
    by (auto intro!: keeps_intros r x o)
qed

lemma keeps_secret_file [keeps_intros]:
  "q \<noteq> p \<Longrightarrow> keeps (file_is q n) (write_secret_file pr p contents)"
  unfolding write_secret_file_def by (auto intro!: keeps_intros)

lemma keeps_commit_stamp [keeps_intros]:
  "q \<noteq> p \<Longrightarrow> q \<noteq> stamp_tmp pr p \<Longrightarrow> keeps (file_is q n) (commit_stamp pr p text)"
  unfolding commit_stamp_def stamp_tmp_def Let_def by (auto intro!: keeps_intros)

lemma keeps_carry_out_dropin [keeps_intros]:
  "q \<noteq> p \<Longrightarrow> q \<noteq> tmp_path pr p \<Longrightarrow> keeps (file_is q n) (carry_out_dropin pr p action)"
  unfolding carry_out_dropin_def by (cases action) (auto intro!: keeps_intros)

lemma keeps_record_spoof [keeps_intros]:
  "q \<noteq> p \<Longrightarrow> keeps (file_is q n) (record_spoof_restart re p content)"
  unfolding record_spoof_restart_def by (cases content) (auto intro!: keeps_intros)

lemma keeps_apply_config [keeps_intros]:
  assumes "q \<noteq> p" "q \<noteq> tmp_path pr p" "q \<noteq> config_backup_path p"
  shows "keeps (file_is q n) (apply_config_atomically ser check pr config p)"
  unfolding apply_config_atomically_def using assms by (auto intro!: keeps_intros)

text \<open>Files are kept by a computation on the host when its file operations keep them; restarts
  and questions to the service manager change no file.\<close>

abbreviation "keeps_file q n \<equiv> invariant (\<lambda>s. file_is q n (fst s))"

lemma kf_ad_io [ht_intros]:
  "keeps (file_is q n) m \<Longrightarrow> keeps_file q n (ad_io err m)"
  "keeps (file_is q n) m \<Longrightarrow> keeps_file q n (ad_try m)"
  by (simp_all add: inv_ad_io)

lemma kf_service [ht_intros]:
  "keeps_file q n is_available" "keeps_file q n is_unit_installed" "keeps_file q n unit_is_active"
  "keeps_file q n daemon_reload" "keeps_file q n (reload_and_verify p)"
  by (auto intro!: ht_service_query ht_reload_and_verify)

lemma kf_restore [ht_intros]:
  "q \<noteq> p \<Longrightarrow> keeps_file q n (restore_previous_config re p)"
  unfolding restore_previous_config_def by (auto intro!: ht_intros keeps_intros)

lemma kf_dropin:
  assumes "\<And>p. tls_spoof_dropin_path re = Some p \<Longrightarrow> q \<noteq> p \<and> q \<noteq> tmp_path (re_process re) p"
  shows "keeps_file q n (sync_tls_spoof_capability_dropin re d)"
proof (cases "tls_spoof_dropin_path re")
  case None
  then show ?thesis by (simp add: sync_tls_spoof_capability_dropin_def inv_return)
next
  case (Some p)
  with assms [OF Some] show ?thesis
    unfolding sync_tls_spoof_capability_dropin_def Let_def
    by (auto intro!: ht_intros keeps_intros split: sum.split)
qed

lemma kf_go_live:
  assumes "q \<notin> touched re d"
  shows "keeps_file q n (go_live kit re d users strict doc spoof)"
  using assms unfolding go_live_def commit_applied_config_stamp_def touched_def Let_def
  by (auto intro!: ht_intros keeps_intros split: option.splits)

lemma kf_apply_document:
  assumes "q \<notin> touched re d"
  shows "keeps_file q n (apply_document kit re d users service_available strict doc)"
proof -
  have "keeps_file q n (sync_tls_spoof_capability_dropin re d)"
    using assms by (intro kf_dropin) (auto simp: touched_def Let_def)
  moreover have "keeps_file q n (go_live kit re d users strict doc spoof)" for spoof
    by (rule kf_go_live [OF assms])
  moreover have "keeps (file_is q n)
      (apply_config_atomically (tl_pretty kit) (tl_check kit) (re_process re) doc (singbox_config_file d))"
    using assms by (intro keeps_apply_config) (auto simp: touched_def Let_def)
  ultimately show ?thesis
    unfolding apply_document_def Let_def by (auto intro!: ht_intros keeps_intros)
qed

lemma kf_apply:
  assumes "q \<notin> touched re d"
  shows "keeps_file q n (render_and_apply_singbox_config_with kit re d users live strict)"
  unfolding render_and_apply_singbox_config_with_def
  by (auto intro!: ht_intros keeps_intros kf_apply_document [OF assms] split: sum.split)

section \<open>What a run establishes\<close>

text \<open>Bytes stand for a document when they are its print or read as it.  The stamp is sound when
  the shortcut of a later run is justified: a configuration file that reads as a document whose
  fingerprint is stamped is the configuration the core runs.\<close>

definition denotes :: "tools \<Rightarrow> string option \<Rightarrow> json \<Rightarrow> bool" where
  "denotes kit bytes doc =
     (case bytes of None \<Rightarrow> False | Some b \<Rightarrow> b = tl_pretty kit doc \<or> tl_parse kit b = Some doc)"

definition config_bytes :: "DeploymentConfig \<Rightarrow> node_state \<Rightarrow> string option" where
  "config_bytes d s = map_option nd_bytes (fs_files (fst s) (singbox_config_file d))"

definition stamp_sound :: "tools \<Rightarrow> DeploymentConfig \<Rightarrow> node_state \<Rightarrow> bool" where
  "stamp_sound kit d s =
     (case (Option.bind (config_bytes d s) (tl_parse kit), fs_files (fst s) (stamp_file d)) of
        (Some doc, Some stamp) \<Rightarrow>
          trim (nd_bytes stamp) = rendered_config_fingerprint kit doc \<longrightarrow> denotes kit (snd s) doc
      | _ \<Rightarrow> True)"

text \<open>The errors that refuse a change before anything of the configuration changed, and those that
  leave a host whose recovery failed.\<close>

fun refused :: "AdminError \<Rightarrow> bool" where
  "refused (ReloadFailed _) = False"
| "refused (HandshakeFailed _) = False"
| "refused CapabilitiesMissing = False"
| "refused (StampFailed _) = False"
| "refused (SaveFailed _) = False"
| "refused _ = True"

fun unstamped :: "AdminError \<Rightarrow> bool" where
  "unstamped (StampFailed _) = True"
| "unstamped _ = False"

definition unrecovered :: "AdminError \<Rightarrow> bool" where
  "unrecovered e \<longleftrightarrow> e = ReloadFailed False \<or> e = HandshakeFailed False"

lemma stamp_sound_runs_file:
  "runs_file (singbox_config_file d) s \<Longrightarrow> stamp_sound kit d s"
  by (auto simp: runs_file_def stamp_sound_def denotes_def config_bytes_def split: option.splits)

definition at_rest :: "DeploymentConfig \<Rightarrow> node option \<Rightarrow> node option \<Rightarrow> string option \<Rightarrow> node_state \<Rightarrow> bool" where
  "at_rest d c t l s \<longleftrightarrow>
     file_is (singbox_config_file d) c (fst s) \<and> file_is (stamp_file d) t (fst s) \<and> snd s = l"

text \<open>A run's result: live with the document, not live and the loaded configuration as before, or
  an error with what it leaves.\<close>

definition run_ok :: "tools \<Rightarrow> DeploymentConfig \<Rightarrow> string option \<Rightarrow> json \<Rightarrow> bool \<Rightarrow> node_state \<Rightarrow> bool" where
  "run_ok kit d l doc went_live s =
     (if went_live then denotes kit (config_bytes d s) doc \<and> denotes kit (snd s) doc \<and> stamp_sound kit d s
      else snd s = l)"

definition run_err ::
    "tools \<Rightarrow> DeploymentConfig \<Rightarrow> (json \<Rightarrow> bool) \<Rightarrow> node option \<Rightarrow> node option \<Rightarrow> string option
       \<Rightarrow> AdminError \<Rightarrow> node_state \<Rightarrow> bool" where
  "run_err kit d is_doc c t l e s =
     (if refused e then at_rest d c t l s
      else (unrecovered e \<or> runs_file (singbox_config_file d) s)
        \<and> (unstamped e \<longrightarrow> (\<exists>doc. is_doc doc \<and> denotes kit (snd s) doc)))"

abbreviation "triple \<equiv> ht (\<lambda>_. True)"

lemma triple_query:
  assumes "\<And>Q. keeps Q m" "\<And>w w' r. m w = (w', r) \<Longrightarrow> V r (w_fs w)"
  shows "triple P (ad_try m) (\<lambda>r s. P s \<and> V r (fst s)) E"
    "triple P (ad_io err m) (\<lambda>x s. P s \<and> V (Inr x) (fst s)) (\<lambda>e s. P s \<and> (\<exists>f. e = err f \<and> V (Inl f) (fst s)))"
proof -
  have same: "w_fs w' = w_fs w" "V r (w_fs w)" if "m w = (w', r)" for w w' r
    using keeps_now [OF assms(1), of w w' r "\<lambda>fs. fs = w_fs w"] that assms(2) by auto
  have ext: "extends (\<lambda>_. True) w w'" if "m w = (w', r)" for w w' r
    using keepsD [OF assms(1) that, of "\<lambda>_. True"] by simp
  show "triple P (ad_try m) (\<lambda>r s. P s \<and> V r (fst s)) E"
    by (rule ht_ad_try) (auto simp: same ext)
  show "triple P (ad_io err m) (\<lambda>x s. P s \<and> V (Inr x) (fst s)) (\<lambda>e s. P s \<and> (\<exists>f. e = err f \<and> V (Inl f) (fst s)))"
    by (rule ht_ad_io) (auto simp: same ext split: sum.split)
qed

lemma read_file_result:
  assumes "read_file p w = (w', Inr b)"
  shows "map_option nd_bytes (fs_files (w_fs w) p) = Some b"
proof -
  obtain w1 where q: "sys_query (\<lambda>fs. map_option nd_bytes (fs_files fs p)) w = (w1, Inr (Some b))"
    using assms by (auto simp: read_file_def io_bind_Inr io_ret_def io_fail_def split: option.splits)
  show ?thesis using sys_query_result [OF q] by simp
qed

lemma read_text_result: "read_text p w = (w', Inr b) \<Longrightarrow> map_option nd_bytes (fs_files (w_fs w) p) = Some b"
  by (auto simp: read_text_def io_bind_Inr io_ret_def io_fail_def dest!: read_file_result split: if_splits)

text \<open>Computations that never fail.\<close>

lemma total_results:
  "\<not> path_exists p w = (w', Inl e)" "\<not> load_hysteria_params d w = (w', Inl e)"
  "\<not> verify_reality_handshake_or_warn re d users w = (w', Inl e)"
  "\<not> record_spoof_restart re p content w = (w', Inl e)"
proof -
  have q: "\<not> sys_query f w = (w', Inl e)" for f :: "filesys \<Rightarrow> 'a option" and w w' e
    using sys_query_result [of f w w' "Inl e"] by auto
  have x: "\<not> path_exists p w = (w', Inl e)" for p w w' e
    by (simp add: path_exists_def io_bind_Inl io_ret_def q)
  have t: "\<not> io_try m w = (w', Inl e)" for m :: "'b io" and w w' e
    by (simp add: io_try_def split: prod.split)
  show "\<not> path_exists p w = (w', Inl e)" by (rule x)
  show "\<not> load_hysteria_params d w = (w', Inl e)"
    by (simp add: load_hysteria_params_def Let_def io_bind_Inl io_ok_def io_ret_def x) (simp add: io_try_def split: prod.split)
  show "\<not> verify_reality_handshake_or_warn re d users w = (w', Inl e)"
    by (simp add: verify_reality_handshake_or_warn_def io_bind_Inl io_ret_def x)
  show "\<not> record_spoof_restart re p content w = (w', Inl e)"
    by (simp add: record_spoof_restart_def io_try_def split: prod.split)
qed

text \<open>The configuration file is the print of a document; what a computation does to other files and
  to the loaded configuration does not change that.\<close>

definition wrote :: "tools \<Rightarrow> DeploymentConfig \<Rightarrow> json \<Rightarrow> node_state \<Rightarrow> bool" where
  "wrote kit d doc s \<longleftrightarrow> config_bytes d s = Some (tl_pretty kit doc)"

lemma triple_keeps_config:
  assumes "\<And>n. keeps (file_is (singbox_config_file d) n) m"
  shows "triple (\<lambda>s. wrote kit d doc s \<and> runs_file (singbox_config_file d) s) (ad_io err m)
    (\<lambda>_ s. wrote kit d doc s \<and> runs_file (singbox_config_file d) s)
    (\<lambda>e s. (\<exists>f w w'. e = err f \<and> m w = (w', Inl f)) \<and> wrote kit d doc s \<and> runs_file (singbox_config_file d) s)"
proof (rule ht_ad_io)
  fix w w' r l
  assume p: "wrote kit d doc (w_fs w, l) \<and> runs_file (singbox_config_file d) (w_fs w, l)" and m: "m w = (w', r)"
  have "extends (file_is (singbox_config_file d) (fs_files (w_fs w) (singbox_config_file d))) w w'"
    by (rule keepsD [OF assms m]) (simp add: file_is_def)
  then have "extends (\<lambda>_. True) w w'" "fs_files (w_fs w') (singbox_config_file d) = fs_files (w_fs w) (singbox_config_file d)"
    by (auto simp: extends_def file_is_def list_all_iff)
  with p m show "extends (\<lambda>fs. True) w w' \<and>
     (case r of Inl e \<Rightarrow> (\<exists>f w w'. err e = err f \<and> m w = (w', Inl f)) \<and> wrote kit d doc (w_fs w', l)
        \<and> runs_file (singbox_config_file d) (w_fs w', l)
      | Inr x \<Rightarrow> wrote kit d doc (w_fs w', l) \<and> runs_file (singbox_config_file d) (w_fs w', l))"
    by (auto simp: wrote_def runs_file_def config_bytes_def split: sum.split)
qed simp

lemma triple_try: "triple P (ad_try m) (\<lambda>_ _. True) E"
  by (auto simp: ht_def ad_try_def list_all_iff split: prod.splits)

lemma triple_restore:
  "triple P (restore_previous_config re (singbox_config_file d))
     (\<lambda>recovered s. recovered \<longrightarrow> runs_file (singbox_config_file d) s) E"
  unfolding restore_previous_config_def
  by (rule ht_bind [OF triple_try]) (auto intro!: ht_reload_and_verify ht_return)

lemma triple_go_live:
  "triple (wrote kit d doc) (go_live kit re d users strict doc spoof)
     (\<lambda>live s. live \<and> wrote kit d doc s \<and> runs_file (singbox_config_file d) s)
     (\<lambda>e s. \<not> refused e \<and> (unrecovered e \<or> runs_file (singbox_config_file d) s)
        \<and> (unstamped e \<longrightarrow> wrote kit d doc s \<and> runs_file (singbox_config_file d) s))"
    (is "triple _ _ ?R ?E")
proof -
  let ?p = "singbox_config_file d"
  let ?W = "\<lambda>s. wrote kit d doc s \<and> runs_file ?p s"
  have reload: "triple (wrote kit d doc) (reload_and_verify ?p) (\<lambda>up s. up \<longrightarrow> ?W s) ?E"
    by (rule ht_reload_and_verify) (auto simp: wrote_def config_bytes_def)
  have down: "triple P (tr_bind (restore_previous_config re ?p) (\<lambda>recovered. tr_fail (f recovered))) ?R ?E"
    if "f = ReloadFailed \<or> f = HandshakeFailed" for f P
    by (rule ht_bind [OF triple_restore]) (use that in \<open>auto intro!: ht_fail simp: unrecovered_def\<close>)
  have shake: "triple ?W (ad_io ConfigFailed (verify_reality_handshake_or_warn re d users)) (\<lambda>_. ?W) ?E"
    by (rule ht_conseq [OF triple_keeps_config]) (auto intro: keeps_intros simp: total_results)
  have stamp: "triple ?W (ad_io StampFailed (commit_applied_config_stamp (re_process re) ?p
      (rendered_config_fingerprint kit doc))) (\<lambda>_. ?W) ?E"
    unfolding commit_applied_config_stamp_def
    by (rule ht_conseq [OF triple_keeps_config]) (auto intro!: keeps_commit_stamp)
  have spoofed: "triple ?W (ad_io ConfigFailed (record_spoof_restart re (spoof_stamp_path d) content)) (\<lambda>_. ?W) ?E" for content
    by (rule ht_conseq [OF triple_keeps_config])
      (auto intro!: keeps_record_spoof simp: total_results path_defs)
  have finish: "triple ?W (case spoof of None \<Rightarrow> tr_return True
      | Some content \<Rightarrow> tr_bind (ad_io ConfigFailed (record_spoof_restart re (spoof_stamp_path d) content))
          (\<lambda>_. tr_return True)) ?R ?E"
    by (cases spoof) (auto intro!: ht_bind [OF spoofed] ht_return)
  have tail: "triple ?W (tr_bind (ad_io ConfigFailed (verify_reality_handshake_or_warn re d users)) (\<lambda>handshake.
      if handshake = Ran HandshakeRejected
      then tr_bind (restore_previous_config re ?p) (\<lambda>recovered. tr_fail (HandshakeFailed recovered))
      else tr_bind (ad_io StampFailed (commit_applied_config_stamp (re_process re) ?p
             (rendered_config_fingerprint kit doc))) (\<lambda>_.
           case spoof of None \<Rightarrow> tr_return True
           | Some content \<Rightarrow> tr_bind (ad_io ConfigFailed (record_spoof_restart re (spoof_stamp_path d) content))
               (\<lambda>_. tr_return True)))) ?R ?E"
    by (intro ht_bind [OF shake] ht_if down ht_bind [OF stamp] finish) auto
  show ?thesis
    unfolding go_live_def Let_def
  proof (rule ht_bind [OF reload], goal_cases)
    case (1 up)
    then show ?case
      by (cases up) (auto intro!: down tail ht_fail)
  qed
qed

lemma loaded_ad_io:
  "invariant (\<lambda>s. snd s = l) (ad_io err m)" "invariant (\<lambda>s. snd s = l) (ad_try m)"
  by (auto simp: ht_def ad_io_def ad_try_def state_of_def list_all_iff split: prod.splits sum.split)

lemma triple_at_rest_dropin:
  "triple (at_rest d c t l) (sync_tls_spoof_capability_dropin re d) (\<lambda>_. at_rest d c t l) E"
proof -
  have i: "invariant (at_rest d c t l) m"
    if "keeps_file (singbox_config_file d) c m" "keeps_file (stamp_file d) t m" "invariant (\<lambda>s. snd s = l) m"
    for m :: "('e, 'x) admin"
    using ht_conj [OF that(1) ht_conj [OF that(2,3)]] by (simp add: at_rest_def [abs_def])
  have l: "invariant (\<lambda>s. snd s = l) (sync_tls_spoof_capability_dropin re d)"
    unfolding sync_tls_spoof_capability_dropin_def Let_def
    by (auto intro!: ht_intros loaded_ad_io ht_service_query split: option.split sum.split)
  have ok: "triple (\<lambda>_. True) (sync_tls_spoof_capability_dropin re d) (\<lambda>_ _. True) (\<lambda>_ _. False)"
    unfolding sync_tls_spoof_capability_dropin_def Let_def
    by (auto intro!: ht_bind [where M = "\<lambda>_ _. True"] triple_try ht_service_query ht_return ht_if
        split: option.split sum.split)
  show ?thesis
    by (rule ht_conseq [OF ht_conj [OF i [OF kf_dropin kf_dropin l] ok]]) (auto dest: config_untouched_by_dropin)
qed

text \<open>The swap of the configuration file: all or nothing, and the stamp stays.\<close>

lemma triple_swap:
  "triple (at_rest d c t l)
     (ad_io ConfigFailed (apply_config_atomically (tl_pretty kit) check pr doc (singbox_config_file d)))
     (\<lambda>_ s. wrote kit d doc s \<and> snd s = l) (\<lambda>e s. (\<exists>f. e = ConfigFailed f) \<and> at_rest d c t l s)"
proof (rule ht_ad_io)
  fix w w' r l'
  let ?p = "singbox_config_file d"
  assume a: "at_rest d c t l (w_fs w, l')" and m: "apply_config_atomically (tl_pretty kit) check pr doc ?p w = (w', r)"
  have "keeps (file_is (stamp_file d) t) (apply_config_atomically (tl_pretty kit) check pr doc ?p)"
    by (rule keeps_apply_config) (auto simp: path_defs)
  from keepsD [OF this m] a have t: "extends (\<lambda>_. True) w w'" "file_is (stamp_file d) t (w_fs w')"
    by (auto simp: at_rest_def extends_def list_all_iff)
  show "extends (\<lambda>fs. True) w w' \<and>
     (case r of Inl e \<Rightarrow> (\<exists>f. ConfigFailed e = ConfigFailed f) \<and> at_rest d c t l (w_fs w', l')
      | Inr x \<Rightarrow> wrote kit d doc (w_fs w', l') \<and> snd (w_fs w', l') = l)"
  proof (cases r)
    case (Inl e)
    with a t cfg.failure [OF m [unfolded Inl]] show ?thesis by (simp add: at_rest_def file_is_def)
  next
    case (Inr u)
    with a t cfg.success [OF m [unfolded Inr]] show ?thesis
      by (auto simp: at_rest_def wrote_def config_bytes_def)
  qed
qed simp

lemma ht_pure: "(Q \<Longrightarrow> ht C P m R E) \<Longrightarrow> ht C (\<lambda>s. P s \<and> Q) m R E"
  by (auto simp: ht_def)

lemma triple_swap_and_restart:
  "triple (at_rest d c t l)
     (tr_bind (ad_io ConfigFailed
        (apply_config_atomically (tl_pretty kit) (tl_check kit) pr doc (singbox_config_file d))) (\<lambda>_.
      tr_bind is_available (\<lambda>available.
      if \<not> available then tr_return False
      else tr_bind is_unit_installed (\<lambda>installed.
      if \<not> installed then tr_return False else go_live kit re d users strict doc spoof))))
     (run_ok kit d l doc) (run_err kit d ((=) doc) c t l)"
proof -
  let ?W = "\<lambda>s. wrote kit d doc s \<and> snd s = l"
  have live: "triple ?W (go_live kit re d users strict doc spoof) (run_ok kit d l doc) (run_err kit d ((=) doc) c t l)"
    by (rule ht_conseq [OF triple_go_live])
      (auto simp: run_ok_def run_err_def wrote_def denotes_def runs_file_def config_bytes_def
        intro: stamp_sound_runs_file)
  have kept: "triple ?W (tr_return False) (run_ok kit d l doc) (run_err kit d ((=) doc) c t l)"
    by (rule ht_return) (simp add: run_ok_def)
  have swap: "triple (at_rest d c t l) (ad_io ConfigFailed
      (apply_config_atomically (tl_pretty kit) (tl_check kit) pr doc (singbox_config_file d)))
      (\<lambda>_. ?W) (run_err kit d ((=) doc) c t l)"
    by (rule ht_conseq [OF triple_swap]) (auto simp: run_err_def)
  show ?thesis
    by (rule ht_bind [OF swap]) (auto intro!: ht_bind [where M = "\<lambda>_. ?W"] ht_service_query live kept)
qed

lemma triple_apply_document:
  assumes s: "\<And>s. at_rest d c t l s \<Longrightarrow> stamp_sound kit d s"
  shows "triple (at_rest d c t l) (apply_document kit re d users service_available strict doc)
    (run_ok kit d l doc) (run_err kit d ((=) doc) c t l)"
proof -
  let ?p = "singbox_config_file d" and ?A = "at_rest d c t l"
  let ?E = "run_err kit d ((=) doc) c t l"
  have cur: "triple ?A (ad_try (read_file ?p))
      (\<lambda>r s. ?A s \<and> (\<forall>b. r = Inr b \<longrightarrow> map_option nd_bytes c = Some b)) ?E"
    by (rule ht_conseq [OF triple_query(1) [where P = ?A and V = "\<lambda>r fs. \<forall>b. r = Inr b \<longrightarrow>
          map_option nd_bytes (fs_files fs ?p) = Some b"]])
      (auto intro: keeps_intros simp: at_rest_def file_is_def dest: read_file_result simp del: map_option_eq_Some)
  have stm: "triple ?A (ad_try (read_text (stamp_file d)))
      (\<lambda>r s. ?A s \<and> (\<forall>b. r = Inr b \<longrightarrow> map_option nd_bytes t = Some b)) ?E"
    by (rule ht_conseq [OF triple_query(1) [where P = ?A and V = "\<lambda>r fs. \<forall>b. r = Inr b \<longrightarrow>
          map_option nd_bytes (fs_files fs (stamp_file d)) = Some b"]])
      (auto intro: keeps_intros simp: at_rest_def file_is_def dest: read_text_result simp del: map_option_eq_Some)
  have drop: "triple ?A (sync_tls_spoof_capability_dropin re d) (\<lambda>_. ?A) ?E"
    by (rule triple_at_rest_dropin)
  have rd: "triple ?A (ad_try (read_text q)) (\<lambda>_. ?A) ?E" for q
    by (rule ht_conseq [OF triple_query(1) [where P = ?A and V = "\<lambda>_ _. True"]]) (auto intro: keeps_intros)
  have due: "triple ?A (if lacks then tr_bind (ad_try (read_text q)) (\<lambda>s. tr_return (f s)) else tr_return False)
      (\<lambda>_. ?A) ?E" for lacks q and f :: "FsError + string \<Rightarrow> bool"
    by (auto intro!: ht_bind [OF rd] ht_return)
  have asked: "triple ?A (if ask then unit_is_active else tr_return False) (\<lambda>r s. ?A s \<and> (r \<longrightarrow> ask)) ?E" for ask
    by (auto intro!: ht_service_query ht_return)
  have current: "run_ok kit d l doc True s"
    if "?A s" "map_option nd_bytes c = Some b" "tl_parse kit b = Some doc" "map_option nd_bytes t = Some b'"
      "trim b' = rendered_config_fingerprint kit doc" for s b b'
    using that s [OF that(1)]
    by (auto simp: run_ok_def at_rest_def file_is_def stamp_sound_def config_bytes_def denotes_def)
  show ?thesis
    unfolding apply_document_def Let_def
    apply (rule ht_bind [OF cur], rule ht_pure, rule ht_bind [OF stm], rule ht_pure, rule ht_bind [OF drop])
    apply (rule ht_if)
    subgoal by (rule ht_fail) (simp add: run_err_def)
    apply (rule ht_bind [OF due], rule ht_bind [OF asked], rule ht_pure, rule ht_if)
    subgoal for r r' by (rule ht_return) (auto intro: current split: sum.splits)
    by (rule triple_swap_and_restart)
qed

text \<open>The document a run renders, from the key material it reads in a state of the files.\<close>

definition reads :: "'a io \<Rightarrow> filesys \<Rightarrow> 'a \<Rightarrow> bool" where
  "reads m fs x \<longleftrightarrow> (\<exists>w w'. w_fs w = fs \<and> m w = (w', Inr x))"

definition candidate ::
    "tools \<Rightarrow> run_env \<Rightarrow> DeploymentConfig \<Rightarrow> CompatUser list \<Rightarrow> filesys \<Rightarrow> json \<Rightarrow> bool" where
  "candidate kit re d users fs doc \<longleftrightarrow>
     (\<exists>reality hysteria. reads (load_reality_params kit d) fs reality \<and> reads (load_hysteria_params d) fs hysteria
        \<and> render_server_config_for_deployment (tl_b64 kit) d users reality hysteria (re_now re) = Inr doc)"

definition applied ::
    "tools \<Rightarrow> run_env \<Rightarrow> DeploymentConfig \<Rightarrow> CompatUser list \<Rightarrow> node_state \<Rightarrow> bool \<Rightarrow> node_state \<Rightarrow> bool" where
  "applied kit re d users s0 went_live s \<longleftrightarrow>
     (if went_live then \<exists>doc. candidate kit re d users (fst s0) doc \<and> run_ok kit d (snd s0) doc True s
      else snd s = snd s0)"

abbreviation "failed_run kit re d users s0 \<equiv>
  run_err kit d (candidate kit re d users (fst s0)) (fs_files (fst s0) (singbox_config_file d)) (fs_files (fst s0) (stamp_file d)) (snd s0)"

lemma triple_apply:
  assumes s: "stamp_sound kit d s0"
  shows "triple (\<lambda>s. s = s0) (render_and_apply_singbox_config_with kit re d users live strict)
    (applied kit re d users s0) (failed_run kit re d users s0)"
proof -
  let ?c = "fs_files (fst s0) (singbox_config_file d)" and ?t = "fs_files (fst s0) (stamp_file d)"
  let ?A = "\<lambda>s. s = s0" and ?R = "applied kit re d users s0" and ?E = "failed_run kit re d users s0"
  have keys: "triple ?A (ad_try (load_reality_params kit d))
      (\<lambda>r s. ?A s \<and> (\<forall>x. r = Inr x \<longrightarrow> reads (load_reality_params kit d) (fst s0) x)) ?E"
    by (rule ht_conseq [OF triple_query(1) [where P = ?A and V = "\<lambda>r fs. \<forall>x. r = Inr x \<longrightarrow>
          reads (load_reality_params kit d) fs x"]])
      (auto intro: keeps_intros simp: reads_def)
  have hy: "triple ?A (ad_io NoKeyset (load_hysteria_params d))
      (\<lambda>x s. ?A s \<and> reads (load_hysteria_params d) (fst s0) x) ?E"
    by (rule ht_conseq [OF triple_query(2) [where P = ?A and V = "\<lambda>r fs. \<forall>x. r = Inr x \<longrightarrow>
          reads (load_hysteria_params d) fs x"]])
      (auto intro: keeps_intros simp: reads_def run_err_def at_rest_def file_is_def)
  have bin: "triple ?A (ad_io NoKeyset (path_exists q)) (\<lambda>_. ?A) ?E" for q
    by (rule ht_conseq [OF triple_query(2) [where P = ?A and V = "\<lambda>_ _. True"]])
      (auto intro: keeps_intros simp: run_err_def at_rest_def file_is_def)
  have svc: "triple ?A (tr_bind is_available (\<lambda>a. if a then is_unit_installed else tr_return False)) (\<lambda>_. ?A) ?E"
    by (auto intro!: ht_bind [where M = "\<lambda>_. ?A"] ht_service_query ht_return)
  have stay: "triple ?A (tr_return False) ?R ?E" by (rule ht_return) (simp add: applied_def)
  have stop: "refused e \<Longrightarrow> triple ?A (tr_fail e) ?R ?E" for e
    by (rule ht_fail) (simp add: run_err_def at_rest_def file_is_def)
  have sound: "stamp_sound kit d s" if "at_rest d ?c ?t (snd s0) s" for s
  proof -
    have e: "fs_files (fst s) (singbox_config_file d) = ?c" "fs_files (fst s) (stamp_file d) = ?t" "snd s = snd s0"
      using that by (simp_all add: at_rest_def file_is_def)
    show ?thesis using s unfolding stamp_sound_def config_bytes_def e .
  qed
  have doc: "triple ?A (apply_document kit re d users service_available strict doc) ?R ?E"
    if "candidate kit re d users (fst s0) doc" for doc service_available
    by (rule ht_conseq [OF triple_apply_document [OF sound]])
      (use that in \<open>auto simp: at_rest_def file_is_def applied_def run_ok_def run_err_def split: if_splits\<close>)
  show ?thesis
    unfolding render_and_apply_singbox_config_with_def
    by (rule ht_bind [OF keys], rule ht_pure)
      (auto intro!: ht_if stay stop ht_bind [OF hy] ht_pure ht_bind [OF bin] ht_bind [OF svc] doc
        simp: candidate_def split: sum.split)
qed

text \<open>The transaction: the user store changes only after the run, and an error leaves it.\<close>

lemma triple_apply_plain:
  "stamp_sound kit d s0 \<Longrightarrow> triple (\<lambda>s. s = s0) (render_and_apply_singbox_config kit re d users live)
    (applied kit re d users s0) (failed_run kit re d users s0)"
  unfolding render_and_apply_singbox_config_def by (rule triple_apply)

lemma kf_attempt: "keeps_file q n m \<Longrightarrow> keeps_file q n (attempt m)"
  unfolding ht_def attempt_def by (fastforce split: prod.splits sum.splits)

definition users_node :: "DeploymentConfig \<Rightarrow> node_state \<Rightarrow> node option" where
  "users_node d s = fs_files (fst s) (users_file d)"

definition published :: "tools \<Rightarrow> DeploymentConfig \<Rightarrow> CompatUser list \<Rightarrow> node_state \<Rightarrow> bool" where
  "published kit d users s \<longleftrightarrow>
     (case users_node d s of
        None \<Rightarrow> False
      | Some n \<Rightarrow> nd_bytes n = tl_users_ser kit (USERS_SCHEMA_VERSION, users) \<and> nd_mode n = 0x1A0)"

definition runs_candidate ::
    "tools \<Rightarrow> run_env \<Rightarrow> DeploymentConfig \<Rightarrow> CompatUser list \<Rightarrow> filesys \<Rightarrow> node_state \<Rightarrow> bool" where
  "runs_candidate kit re d users fs s \<longleftrightarrow>
     (\<exists>doc. candidate kit re d users fs doc \<and> denotes kit (snd s) doc)"

lemma kf_users:
  "keeps_file (users_file d) n (render_and_apply_singbox_config kit re d users live)"
  unfolding render_and_apply_singbox_config_def by (rule kf_apply [OF users_untouched])

lemma published_iff:
  "published kit d users s \<longleftrightarrow> (\<exists>n. users_node d s = Some n
     \<and> nd_bytes n = tl_users_ser kit (USERS_SCHEMA_VERSION, users) \<and> nd_mode n = 0x1A0)"
  by (simp add: published_def split: option.split)

lemma save_states:
  assumes "ad_try (save_users_atomic (tl_users_ser kit) pr (users_file d) users) h = (h', t, r)"
  obtains q where "r = Inr q" "ho_loaded h' = ho_loaded h"
    "list_all (\<lambda>s. snd s = ho_loaded h) t"
    "list_all (\<lambda>s. users_node d s = users_node d (state_of h) \<or> published kit d users s) t"
    "q = Inr () \<longrightarrow> published kit d users (state_of h')"
    "\<not> is_ok q \<longrightarrow> users_node d (state_of h') = users_node d (state_of h)"
proof -
  let ?ser = "tl_users_ser kit"
  obtain w q where w: "save_users_atomic ?ser pr (users_file d) users (ho_world h) = (w, q)"
    by (cases "save_users_atomic ?ser pr (users_file d) users (ho_world h)")
  obtain ss where ss: "w_trace w = w_trace (ho_world h) @ ss"
    "list_all (\<lambda>s. fs_files s (users_file d) = fs_files (w_fs (ho_world h)) (users_file d)
       \<or> (\<exists>n. fs_files s (users_file d) = Some n \<and> nd_bytes n = ?ser (USERS_SCHEMA_VERSION, users) \<and> nd_mode n = 0x1A0)) ss"
    using users.all_or_nothing [OF w] by (auto simp: extends_def)
  have e: "h' = h\<lparr>ho_world := w\<rparr>" "t = map (\<lambda>fs. (fs, ho_loaded h)) ss" "r = Inr q"
    using assms ss(1) by (simp_all add: ad_try_def w)
  have kept: "fs_files (w_fs w) (users_file d) = fs_files (w_fs (ho_world h)) (users_file d)" if "\<not> is_ok q"
    using that users.failure [of ?ser pr "users_file d" users "ho_world h" w] w by (cases q) simp_all
  show thesis
    by (rule that [of q])
      (use e ss(2) users.success [of ?ser pr "users_file d" users "ho_world h" w] kept w in
        \<open>auto simp: published_iff users_node_def state_of_def list_all_iff\<close>)
qed

text \<open>What the transaction leaves, by its result: published and running, published without a
  restart, or the store of before.\<close>

definition committed ::
    "tools \<Rightarrow> run_env \<Rightarrow> DeploymentConfig \<Rightarrow> CompatUser list \<Rightarrow> node_state \<Rightarrow> AdminError + bool \<Rightarrow> node_state \<Rightarrow> bool" where
  "committed kit re d users s0 r s =
     (case r of
        Inl _ \<Rightarrow> users_node d s = users_node d s0
      | Inr went_live \<Rightarrow>
          published kit d users s
          \<and> (if went_live then runs_candidate kit re d users (fst s0) s else snd s = snd s0))"

definition passes_through ::
    "tools \<Rightarrow> run_env \<Rightarrow> DeploymentConfig \<Rightarrow> CompatUser list \<Rightarrow> node_state \<Rightarrow> AdminError + bool \<Rightarrow> node_state \<Rightarrow> bool" where
  "passes_through kit re d users s0 r s \<longleftrightarrow>
     users_node d s = users_node d s0
     \<or> published kit d users s \<and> (r = Inr True \<longrightarrow> runs_candidate kit re d users (fst s0) s)"

lemma transaction_spec:
  assumes s: "stamp_sound kit d (state_of h)"
    and run: "apply_users_and_save kit re re_back d previous users h = (h', t, r)"
  shows "committed kit re d users (state_of h) r (state_of h')"
    and "list_all (passes_through kit re d users (state_of h) r) t"
proof -
  let ?u = "users_node d (state_of h)"
  have kf: "list_all (\<lambda>s. users_node d s = ?u) t1 \<and> users_node d (state_of h1) = ?u"
    if "render_and_apply_singbox_config kit re' d us True h0 = (h1, t1, r1)" "users_node d (state_of h0) = ?u"
    for re' us h0 h1 t1 r1
    using htD [OF kf_users [of d ?u] _ that(1)] that(2)
    by (cases r1) (auto simp: users_node_def file_is_def)
  from run [unfolded apply_users_and_save_def]
  have "committed kit re d users (state_of h) r (state_of h')
    \<and> list_all (passes_through kit re d users (state_of h) r) t"
  proof (cases rule: tr_bind_cases)
    case (stop e)
    with kf [OF stop(1)] show ?thesis
      by (auto simp: committed_def passes_through_def list_all_iff)
  next
    case (step h1 t1 live t2)
    have a: "applied kit re d users (state_of h) live (state_of h1)"
      using htD(2) [OF triple_apply_plain [OF s] refl step(1)] by simp
    note k1 = kf [OF step(1) refl]
    from step(2) show ?thesis
    proof (cases rule: tr_bind_cases)
      case (stop e)
      from stop(1) show ?thesis by (rule save_states) simp
    next
      case (step h2 t3 q t4)
      from step(1) obtain sv: "ho_loaded h2 = ho_loaded h1" "list_all (\<lambda>s. snd s = ho_loaded h1) t3"
        "list_all (\<lambda>s. users_node d s = users_node d (state_of h1) \<or> published kit d users s) t3"
        "q = Inr () \<longrightarrow> published kit d users (state_of h2)"
        "\<not> is_ok q \<longrightarrow> users_node d (state_of h2) = users_node d (state_of h1)"
        by (rule save_states) simp
      show ?thesis
      proof (cases q)
        case (Inl e)
        with sv(5) k1 have u2: "users_node d (state_of h2) = ?u" by simp
        obtain h3 t5 r5 where ro: "render_and_apply_singbox_config kit re_back d previous True h2 = (h3, t5, r5)"
          by (cases "render_and_apply_singbox_config kit re_back d previous True h2") auto
        have e: "h' = h3" "t4 = t5" "r = Inl (SaveFailed (is_ok r5))"
          using step(2) Inl ro by (auto simp: tr_bind_def attempt_def tr_fail_def)
        with kf [OF ro u2] k1 sv(3) step(3) \<open>t = t1 @ t2\<close> show ?thesis
          by (auto simp: committed_def passes_through_def list_all_iff)
      next
        case (Inr u)
        then have e: "h' = h2" "t4 = []" "r = Inr live"
          using step(2) by (auto simp: tr_return_def)
        have l: "snd (state_of h') = snd (state_of h1)" by (simp add: e(1) state_of_def sv(1))
        have rc: "runs_candidate kit re d users (fst (state_of h)) s" if "live" "snd s = ho_loaded h1" for s
          using a that by (auto simp: applied_def run_ok_def runs_candidate_def state_of_def)
        have nl: "\<not> live \<Longrightarrow> ho_loaded h1 = snd (state_of h)"
          using a by (simp add: applied_def state_of_def)
        have "committed kit re d users (state_of h) r (state_of h')"
          using rc nl sv(4) e Inr l by (auto simp: committed_def state_of_def)
        moreover have "passes_through kit re d users (state_of h) r s" if "s \<in> set t3" for s
          using that rc [of s] sv(2,3) k1 e(3) by (auto simp: passes_through_def list_all_iff)
        ultimately show ?thesis
          using k1 e(2) step(3) \<open>t = t1 @ t2\<close> by (auto simp: passes_through_def list_all_iff)
      qed
    qed
  qed
  then show "committed kit re d users (state_of h) r (state_of h')"
    and "list_all (passes_through kit re d users (state_of h) r) t" by simp_all
qed

end
