(* ===== verification/UserCommands.thy ===== *)
theory UserCommands
  imports AdminApply ExternalSync
begin

text \<open>
  The commands of \<open>vpn-admin\<close> that change the user store (\<open>apps/admin/src/main.rs\<close>): creation,
  enabling, expiry, rotation, renewal, removal, peer credentials, and the two documents the agent
  hands over.  Each reads the store, edits it and ends in the transaction of \<open>AdminApply\<close>, or
  only saves the store where the change does not concern the core.  What a command draws at
  random is an argument.
\<close>

datatype CommandError =
    Admin AdminError | LoadFailed FsError | StoreFailed FsError | InputUnreadable FsError | InputInvalid
  | NoSuchUser | ControlCharacters | NameTooLong | NoFreshId | NotAProbeName | NotReservedProbe
  | NoSuchPeer | PeerUuidBad | PeerPasswordEmpty | PeerWrongTransport | PeerCredentialMissing
  | NoPeerCredential | EmptyStdin | RenewRefused GrantError | Refused ReconcileError
  | NotApplied | AmbiguousUser

definition lift_admin :: "(AdminError, 'a) admin \<Rightarrow> (CommandError, 'a) admin" where
  "lift_admin m h = (case m h of (h', t, r) \<Rightarrow> (h', t, map_err Admin r))"

section \<open>Edits of the store\<close>

fun update_user :: "string \<Rightarrow> (CompatUser \<Rightarrow> CompatUser) \<Rightarrow> CompatUser list \<Rightarrow> CommandError + CompatUser list" where
  "update_user id' f [] = Inl NoSuchUser"
| "update_user id' f (u # us) =
     (if u_id u = id' then Inr (f u # us) else rbind (update_user id' f us) (\<lambda>us. Inr (u # us)))"

definition MAX_USER_DISPLAY_NAME_CHARS :: nat where "MAX_USER_DISPLAY_NAME_CHARS = 128"

definition validate_user_display_name :: "string \<Rightarrow> CommandError + unit" where
  "validate_user_display_name name =
     (if list_ex is_control (utf8_split name) then Inl ControlCharacters
      else ensure (length (utf8_split name) \<le> MAX_USER_DISPLAY_NAME_CHARS) NameTooLong)"

text \<open>The draws of a command: the identifiers the loop tries, one after the other, the UUID and the
  password bytes, the token text and the bytes of a principal.\<close>

record user_draws =
  ud_ids :: "8 word list list"
  ud_uuid :: "8 word list"
  ud_password :: "8 word list"
  ud_token :: string
  ud_principal :: "8 word list"

definition fresh_user_id :: "CompatUser list \<Rightarrow> 8 word list list \<Rightarrow> CommandError + string" where
  "fresh_user_id users draws =
     of_opt NoFreshId (find (\<lambda>i. \<not> list_ex (\<lambda>u. u_id u = i) users) (map generate_user_id draws))"

definition build_new_operator_user ::
    "tools \<Rightarrow> user_draws \<Rightarrow> string \<Rightarrow> string \<Rightarrow> int option \<Rightarrow> int \<Rightarrow> CompatUser" where
  "build_new_operator_user kit dr id' name expires_at now =
     \<lparr>u_id = id', u_name = name, u_enabled = True, u_vless_uuid = generate_uuid_v4 (ud_uuid dr),
      u_hysteria2_password = generate_hysteria2_password (tl_hex kit) (ud_password dr),
      u_token_hash = hash_token (tl_sha kit) (tl_hex kit) (ud_token dr),
      u_created_at = now, u_expires_at = expires_at, u_vision_off = False, u_google_egress_hairpin = False,
      u_exit_principal = False, u_peer_credentials = [], u_is_reserved_probe = False, u_credentials = []\<rparr>"

definition add_user :: "tools \<Rightarrow> user_draws \<Rightarrow> string \<Rightarrow> int option \<Rightarrow> int \<Rightarrow> CompatUser list
    \<Rightarrow> CommandError + CompatUser list" where
  "add_user kit dr name expires_at now users =
     rbind (fresh_user_id users (ud_ids dr)) (\<lambda>i.
       Inr (users @ [build_new_operator_user kit dr i name expires_at now]))"

definition add_probe :: "tools \<Rightarrow> user_draws \<Rightarrow> string \<Rightarrow> int \<Rightarrow> CompatUser list \<Rightarrow> CommandError + CompatUser list" where
  "add_probe kit dr name now users =
     rbind (fresh_user_id users (ud_ids dr)) (\<lambda>i.
       Inr (users @ [(build_new_operator_user kit dr i name None now)\<lparr>u_is_reserved_probe := True\<rparr>]))"

fun renew_first :: "string \<Rightarrow> int \<Rightarrow> int \<Rightarrow> CredentialGrant list \<Rightarrow> GrantError + CredentialGrant list" where
  "renew_first principal_id new_valid_until now [] = Inr []"
| "renew_first principal_id new_valid_until now (g # gs) =
     (if g_principal_id g = principal_id
      then rbind (renew_until g new_valid_until now) (\<lambda>g. Inr (g # gs))
      else rbind (renew_first principal_id new_valid_until now gs) (\<lambda>gs. Inr (g # gs)))"

definition renew_user :: "tools \<Rightarrow> user_draws \<Rightarrow> int \<Rightarrow> CompatUser \<Rightarrow> GrantError + CompatUser" where
  "renew_user kit dr now u =
     (let new_valid_until = now + NATIVE_LEASE_SECS in
      case current_grant u Native now of
        Some g \<Rightarrow>
          rbind (renew_first (g_principal_id g) new_valid_until now (u_credentials u)) (\<lambda>gs.
            Inr (u\<lparr>u_credentials := gs\<rparr>))
      | None \<Rightarrow>
          Inr (u\<lparr>u_credentials := u_credentials u
            @ [grant_new (generate_principal_id (tl_hex kit) Native (ud_principal dr)) Native
                 (generate_uuid_v4 (ud_uuid dr)) (generate_hysteria2_password (tl_hex kit) (ud_password dr))
                 now new_valid_until]\<rparr>))"

definition renew_native_user ::
    "tools \<Rightarrow> user_draws \<Rightarrow> int \<Rightarrow> string \<Rightarrow> CompatUser list \<Rightarrow> CommandError + CompatUser list" where
  "renew_native_user kit dr now id' users =
     rbind (of_opt NoSuchUser (find (\<lambda>u. u_id u = id') users)) (\<lambda>u.
     rbind (map_err RenewRefused (renew_user kit dr now u)) (\<lambda>u'.
       update_user id' (\<lambda>_. u') users))"

definition remove_user :: "string \<Rightarrow> CompatUser list \<Rightarrow> CommandError + CompatUser list" where
  "remove_user id' users =
     (let rest = filter (\<lambda>u. u_id u \<noteq> id') users in
      if length rest = length users then Inl NoSuchUser else Inr rest)"

section \<open>Reading and committing\<close>

definition load_store :: "tools \<Rightarrow> DeploymentConfig \<Rightarrow> CompatUser list io" where
  "load_store kit d = load_users (tl_users_env kit) (tl_users_legacy kit) (users_file d)"

definition save_store :: "tools \<Rightarrow> run_env \<Rightarrow> DeploymentConfig \<Rightarrow> CompatUser list \<Rightarrow> unit io" where
  "save_store kit re d users = save_users_atomic (tl_users_ser kit) (re_process re) (users_file d) users"

text \<open>Load, edit, apply and save; load, edit and save.\<close>

definition edit_and_apply ::
    "tools \<Rightarrow> run_env \<Rightarrow> run_env \<Rightarrow> DeploymentConfig
       \<Rightarrow> (CompatUser list \<Rightarrow> CommandError + CompatUser list) \<Rightarrow> (CommandError, bool) admin" where
  "edit_and_apply kit re re_back d edit =
     tr_bind (ad_io LoadFailed (load_store kit d)) (\<lambda>users.
     case edit users of
       Inl e \<Rightarrow> tr_fail e
     | Inr users' \<Rightarrow> lift_admin (apply_users_and_save kit re re_back d users users'))"

definition edit_and_save ::
    "tools \<Rightarrow> run_env \<Rightarrow> DeploymentConfig
       \<Rightarrow> (CompatUser list \<Rightarrow> CommandError + CompatUser list) \<Rightarrow> (CommandError, unit) admin" where
  "edit_and_save kit re d edit =
     tr_bind (ad_io LoadFailed (load_store kit d)) (\<lambda>users.
     case edit users of
       Inl e \<Rightarrow> tr_fail e
     | Inr users' \<Rightarrow> ad_io StoreFailed (save_store kit re d users'))"

section \<open>Commands\<close>

definition cmd_user_create ::
    "tools \<Rightarrow> run_env \<Rightarrow> run_env \<Rightarrow> DeploymentConfig \<Rightarrow> user_draws \<Rightarrow> string \<Rightarrow> int option
       \<Rightarrow> (CommandError, bool) admin" where
  "cmd_user_create kit re re_back d dr name expires_at =
     (case validate_user_display_name name of
        Inl e \<Rightarrow> tr_fail e
      | Inr _ \<Rightarrow> edit_and_apply kit re re_back d (add_user kit dr name expires_at (re_now_start re)))"

text \<open>The answer tells whether the probe was created.\<close>

definition cmd_user_create_probe ::
    "tools \<Rightarrow> run_env \<Rightarrow> run_env \<Rightarrow> DeploymentConfig \<Rightarrow> user_draws \<Rightarrow> string option
       \<Rightarrow> (CommandError, bool) admin" where
  "cmd_user_create_probe kit re re_back d dr name_opt =
     (let name = (case name_opt of None \<Rightarrow> RESERVED_SELFTEST_USER_NAME | Some n \<Rightarrow> n) in
      if name \<noteq> PROBE_USER_NAME \<and> name \<noteq> RESERVED_SELFTEST_USER_NAME then tr_fail NotAProbeName
      else
      tr_bind (ad_io LoadFailed (load_store kit d)) (\<lambda>users.
      case find (\<lambda>u. u_name u = name) users of
        Some existing \<Rightarrow> if u_is_reserved_probe existing then tr_return False else tr_fail NotReservedProbe
      | None \<Rightarrow>
          (case add_probe kit dr name (re_now_start re) users of
             Inl e \<Rightarrow> tr_fail e
           | Inr users' \<Rightarrow>
               tr_bind (lift_admin (apply_users_and_save kit re re_back d users users')) (\<lambda>_. tr_return True))))"

text \<open>The two documents of the agent: when the store does not change, the running core is still
  brought in line.\<close>

definition apply_reconciled ::
    "tools \<Rightarrow> run_env \<Rightarrow> run_env \<Rightarrow> DeploymentConfig \<Rightarrow> path \<Rightarrow> (json \<Rightarrow> 'i option)
       \<Rightarrow> (CompatUser list \<Rightarrow> 'i \<Rightarrow> int \<Rightarrow> ReconcileError + (CompatUser list \<times> bool))
       \<Rightarrow> (CommandError, bool) admin" where
  "apply_reconciled kit re re_back d input of_json reconcile =
     tr_bind (ad_io InputUnreadable (read_text input)) (\<lambda>text.
     case Option.bind (tl_parse kit text) of_json of
       None \<Rightarrow> tr_fail InputInvalid
     | Some parsed \<Rightarrow>
         tr_bind (ad_io LoadFailed (load_store kit d)) (\<lambda>users.
         case reconcile users parsed (re_now_start re) of
           Inl e \<Rightarrow> tr_fail (Refused e)
         | Inr (nxt, changed) \<Rightarrow>
             if changed then lift_admin (apply_users_and_save kit re re_back d users nxt)
             else lift_admin (render_and_apply_singbox_config kit re d nxt True)))"

definition cmd_lease_pool_sync ::
    "tools \<Rightarrow> run_env \<Rightarrow> run_env \<Rightarrow> DeploymentConfig \<Rightarrow> (string \<Rightarrow> string) \<Rightarrow> path \<Rightarrow> (CommandError, bool) admin" where
  "cmd_lease_pool_sync kit re re_back d tok input =
     apply_reconciled kit re re_back d input lease_pool_of_json (lease_reconcile (tl_sha kit) (tl_hex kit) tok)"

definition cmd_external_authorizations ::
    "tools \<Rightarrow> run_env \<Rightarrow> run_env \<Rightarrow> DeploymentConfig \<Rightarrow> (string \<Rightarrow> string) \<Rightarrow> path \<Rightarrow> (CommandError, bool) admin" where
  "cmd_external_authorizations kit re re_back d tok input =
     apply_reconciled kit re re_back d input set_of_json (external_reconcile (tl_sha kit) (tl_hex kit) tok)"

definition cmd_user_set_enabled ::
    "tools \<Rightarrow> run_env \<Rightarrow> run_env \<Rightarrow> DeploymentConfig \<Rightarrow> string \<Rightarrow> bool \<Rightarrow> (CommandError, bool) admin" where
  "cmd_user_set_enabled kit re re_back d id' enabled =
     edit_and_apply kit re re_back d (update_user id' (\<lambda>u. u\<lparr>u_enabled := enabled\<rparr>))"

definition cmd_user_set_expiry ::
    "tools \<Rightarrow> run_env \<Rightarrow> run_env \<Rightarrow> DeploymentConfig \<Rightarrow> string \<Rightarrow> int option \<Rightarrow> (CommandError, bool) admin" where
  "cmd_user_set_expiry kit re re_back d id' expires_at =
     tr_bind (ad_io LoadFailed (load_store kit d)) (\<lambda>users.
     case (find (\<lambda>u. u_id u = id') users, update_user id' (\<lambda>u. u\<lparr>u_expires_at := expires_at\<rparr>) users) of
       (Some u, Inr users') \<Rightarrow>
         if is_active u (re_now_start re) = is_active (u\<lparr>u_expires_at := expires_at\<rparr>) (re_now_start re)
         then tr_bind (ad_io StoreFailed (save_store kit re d users')) (\<lambda>_. tr_return True)
         else lift_admin (apply_users_and_save kit re re_back d users users')
     | _ \<Rightarrow> tr_fail NoSuchUser)"

definition cmd_user_vision_off_experiment ::
    "tools \<Rightarrow> run_env \<Rightarrow> run_env \<Rightarrow> DeploymentConfig \<Rightarrow> string \<Rightarrow> bool \<Rightarrow> (CommandError, bool) admin" where
  "cmd_user_vision_off_experiment kit re re_back d id' on =
     edit_and_apply kit re re_back d (update_user id' (\<lambda>u. u\<lparr>u_vision_off := on\<rparr>))"

definition cmd_user_google_egress_hairpin ::
    "tools \<Rightarrow> run_env \<Rightarrow> run_env \<Rightarrow> DeploymentConfig \<Rightarrow> string \<Rightarrow> bool \<Rightarrow> (CommandError, bool) admin" where
  "cmd_user_google_egress_hairpin kit re re_back d id' on =
     edit_and_apply kit re re_back d (update_user id' (\<lambda>u. u\<lparr>u_google_egress_hairpin := on\<rparr>))"

definition cmd_user_rotate_vless ::
    "tools \<Rightarrow> run_env \<Rightarrow> run_env \<Rightarrow> DeploymentConfig \<Rightarrow> user_draws \<Rightarrow> string \<Rightarrow> (CommandError, bool) admin" where
  "cmd_user_rotate_vless kit re re_back d dr id' =
     edit_and_apply kit re re_back d (update_user id' (\<lambda>u. u\<lparr>u_vless_uuid := generate_uuid_v4 (ud_uuid dr)\<rparr>))"

definition cmd_user_rotate_hysteria ::
    "tools \<Rightarrow> run_env \<Rightarrow> run_env \<Rightarrow> DeploymentConfig \<Rightarrow> user_draws \<Rightarrow> string \<Rightarrow> (CommandError, bool) admin" where
  "cmd_user_rotate_hysteria kit re re_back d dr id' =
     edit_and_apply kit re re_back d (update_user id'
       (\<lambda>u. u\<lparr>u_hysteria2_password := generate_hysteria2_password (tl_hex kit) (ud_password dr)\<rparr>))"

definition cmd_user_rotate_credentials ::
    "tools \<Rightarrow> run_env \<Rightarrow> run_env \<Rightarrow> DeploymentConfig \<Rightarrow> user_draws \<Rightarrow> string \<Rightarrow> (CommandError, bool) admin" where
  "cmd_user_rotate_credentials kit re re_back d dr id' =
     edit_and_apply kit re re_back d (update_user id'
       (\<lambda>u. u\<lparr>u_vless_uuid := generate_uuid_v4 (ud_uuid dr),
              u_hysteria2_password := generate_hysteria2_password (tl_hex kit) (ud_password dr)\<rparr>))"

definition cmd_user_renew_native ::
    "tools \<Rightarrow> run_env \<Rightarrow> run_env \<Rightarrow> DeploymentConfig \<Rightarrow> user_draws \<Rightarrow> string \<Rightarrow> (CommandError, bool) admin" where
  "cmd_user_renew_native kit re re_back d dr id' =
     edit_and_apply kit re re_back d (renew_native_user kit dr (re_now_start re) id')"

definition cmd_user_remove ::
    "tools \<Rightarrow> run_env \<Rightarrow> run_env \<Rightarrow> DeploymentConfig \<Rightarrow> string \<Rightarrow> (CommandError, bool) admin" where
  "cmd_user_remove kit re re_back d id' = edit_and_apply kit re re_back d (remove_user id')"

definition cmd_user_rotate_token ::
    "tools \<Rightarrow> run_env \<Rightarrow> DeploymentConfig \<Rightarrow> user_draws \<Rightarrow> string \<Rightarrow> (CommandError, unit) admin" where
  "cmd_user_rotate_token kit re d dr id' =
     edit_and_save kit re d (update_user id'
       (\<lambda>u. u\<lparr>u_token_hash := hash_token (tl_sha kit) (tl_hex kit) (ud_token dr)\<rparr>))"

text \<open>The refresh of the subscription service that follows a successful run concerns another unit and
  is left out.\<close>

definition cmd_render_config ::
    "tools \<Rightarrow> run_env \<Rightarrow> DeploymentConfig \<Rightarrow> bool \<Rightarrow> (CommandError, bool) admin" where
  "cmd_render_config kit re d require_applied =
     tr_bind (ad_io LoadFailed (load_store kit d)) (\<lambda>users.
     tr_bind (lift_admin (render_and_apply_singbox_config kit re d users False)) (\<lambda>applied.
     if \<not> applied \<and> require_applied then tr_fail NotApplied else tr_return applied))"

section \<open>Peer credentials\<close>

datatype PeerCredentialSource = Stdin string | Arguments "string option" "string option"

definition read_secret_line :: "string \<Rightarrow> CommandError + string" where
  "read_secret_line line =
     (let value = trim_end_by (\<lambda>c. c = CHR 0x0D \<or> c = CHR 0x0A) line in
      if trim value = [] then Inl EmptyStdin else Inr value)"

definition peer_credential_from_flags ::
    "PeerEndpointSection \<Rightarrow> string option \<Rightarrow> string option \<Rightarrow> CommandError + PeerCredential" where
  "peer_credential_from_flags peer uuid password =
     (case (pe_transport peer, uuid, password) of
        (VlessReality, Some u, None) \<Rightarrow>
          if is_uuid_v4_shaped (trim u) then Inr (PeerVless (trim u)) else Inl PeerUuidBad
      | (Hysteria2, None, Some p) \<Rightarrow> if trim p = [] then Inl PeerPasswordEmpty else Inr (PeerHysteria2 p)
      | (VlessReality, _, Some _) \<Rightarrow> Inl PeerWrongTransport
      | (Hysteria2, Some _, _) \<Rightarrow> Inl PeerWrongTransport
      | (_, None, None) \<Rightarrow> Inl PeerCredentialMissing)"

definition source_flags ::
    "PeerEndpointSection \<Rightarrow> PeerCredentialSource \<Rightarrow> CommandError + (string option \<times> string option)" where
  "source_flags peer source =
     (case source of
        Arguments uuid password \<Rightarrow> Inr (uuid, password)
      | Stdin line \<Rightarrow>
          rbind (read_secret_line line) (\<lambda>value.
            Inr (case pe_transport peer of VlessReality \<Rightarrow> (Some value, None) | Hysteria2 \<Rightarrow> (None, Some value))))"

definition set_peer_credential ::
    "string \<Rightarrow> string \<Rightarrow> PeerCredential \<Rightarrow> bool \<Rightarrow> CompatUser list \<Rightarrow> CommandError + CompatUser list" where
  "set_peer_credential id' endpoint_id credential require_existing users =
     rbind (of_opt NoSuchUser (find (\<lambda>u. u_id u = id') users)) (\<lambda>u.
       if require_existing \<and> bt_get endpoint_id (u_peer_credentials u) = None then Inl NoPeerCredential
       else update_user id' (\<lambda>u. u\<lparr>u_peer_credentials := bt_insert endpoint_id credential (u_peer_credentials u)\<rparr>) users)"

definition cmd_user_peer_set ::
    "tools \<Rightarrow> run_env \<Rightarrow> DeploymentConfig \<Rightarrow> string \<Rightarrow> string \<Rightarrow> PeerCredentialSource \<Rightarrow> bool
       \<Rightarrow> (CommandError, unit) admin" where
  "cmd_user_peer_set kit re d id' endpoint_id source require_existing =
     (case rbind (of_opt NoSuchPeer (find (\<lambda>p. pe_id p = endpoint_id) (dc_peer_endpoints d))) (\<lambda>peer.
           rbind (source_flags peer source) (\<lambda>(uuid, password).
           peer_credential_from_flags peer uuid password)) of
        Inl e \<Rightarrow> tr_fail e
      | Inr credential \<Rightarrow> edit_and_save kit re d (set_peer_credential id' endpoint_id credential require_existing))"

definition remove_peer_credential :: "string \<Rightarrow> string \<Rightarrow> CompatUser list \<Rightarrow> CommandError + CompatUser list" where
  "remove_peer_credential id' endpoint_id users =
     rbind (of_opt NoSuchUser (find (\<lambda>u. u_id u = id') users)) (\<lambda>u.
       if bt_get endpoint_id (u_peer_credentials u) = None then Inl NoPeerCredential
       else update_user id' (\<lambda>u. u\<lparr>u_peer_credentials := bt_remove endpoint_id (u_peer_credentials u)\<rparr>) users)"

definition cmd_user_peer_remove ::
    "tools \<Rightarrow> run_env \<Rightarrow> DeploymentConfig \<Rightarrow> string \<Rightarrow> string \<Rightarrow> (CommandError, unit) admin" where
  "cmd_user_peer_remove kit re d id' endpoint_id = edit_and_save kit re d (remove_peer_credential id' endpoint_id)"

section \<open>Read-only selection\<close>

definition resolve_user_selector :: "CompatUser list \<Rightarrow> string \<Rightarrow> CommandError + CompatUser" where
  "resolve_user_selector users selector =
     (case find (\<lambda>u. u_id u = selector) users of
        Some u \<Rightarrow> Inr u
      | None \<Rightarrow>
          (case filter (\<lambda>u. \<not> u_is_reserved_probe u \<and> u_name u = selector) users of
             [] \<Rightarrow> Inl NoSuchUser
           | [u] \<Rightarrow> Inr u
           | _ \<Rightarrow> Inl AmbiguousUser))"

section \<open>What a command does to the node\<close>

lemma keeps_load_store [keeps_intros]: "keeps Q (load_store kit d)"
  unfolding load_store_def load_users_def by (auto intro!: keeps_intros)

lemma load_store_state:
  assumes "ad_io LoadFailed (load_store kit d) h = (h1, t, r)"
  shows "state_of h1 = state_of h" "list_all (\<lambda>s. s = state_of h) t"
    "r = Inr users \<Longrightarrow> reads (load_store kit d) (fst (state_of h)) users"
proof -
  have "invariant (\<lambda>s. s = state_of h) (ad_io LoadFailed (load_store kit d))"
    by (rule inv_ad_io(1)) (rule keeps_load_store)
  from htD [OF this refl assms] show "state_of h1 = state_of h" "list_all (\<lambda>s. s = state_of h) t"
    by (cases r; simp)+
  show "reads (load_store kit d) (fst (state_of h)) users" if "r = Inr users"
    using assms that by (auto simp: ad_io_def reads_def state_of_def split: prod.splits)
qed

lemma edit_and_apply_cases:
  assumes s: "stamp_sound kit d (state_of h)"
    and run: "edit_and_apply kit re re_back d edit h = (h', t, r)"
  obtains (unread) e where "r = Inl (LoadFailed e)" "state_of h' = state_of h" "list_all (\<lambda>s. s = state_of h) t"
    | (declined) users e where "r = Inl e" "reads (load_store kit d) (fst (state_of h)) users" "edit users = Inl e"
        "state_of h' = state_of h" "list_all (\<lambda>s. s = state_of h) t"
    | (ran) users users' q where "r = map_err Admin q" "reads (load_store kit d) (fst (state_of h)) users"
        "edit users = Inr users'" "committed kit re d users' (state_of h) q (state_of h')"
        "list_all (passes_through kit re d users' (state_of h) q) t"
  using run [unfolded edit_and_apply_def]
proof (cases rule: tr_bind_cases)
  case (stop e)
  note l = load_store_state [OF stop(1)]
  obtain f where "e = LoadFailed f"
    using stop(1) by (auto simp: ad_io_def map_err_def split: prod.splits sum.splits)
  with l stop show thesis by (intro unread) simp_all
next
  case (step h1 t1 users t2)
  note l = load_store_state [OF step(1)]
  show thesis
  proof (cases "edit users")
    case (Inl e)
    with l step show thesis by (intro declined [of e users]) (auto simp: tr_fail_def)
  next
    case (Inr users')
    obtain q t3 where q: "apply_users_and_save kit re re_back d users users' h1 = (h', t3, q)"
      using step(2) Inr by (auto simp: lift_admin_def split: prod.splits)
    then have e: "t2 = t3" "r = map_err Admin q"
      using step(2) Inr by (auto simp: lift_admin_def)
    have s1: "stamp_sound kit d (state_of h1)" using s l(1) by simp
    note tr = transaction_spec [OF s1 q]
    have "passes_through kit re d users' (state_of h) q (state_of h)" by (simp add: passes_through_def)
    then have "list_all (passes_through kit re d users' (state_of h) q) t"
      using tr(2) l(2) step(3) e(1) l(1) by (auto simp: list_all_iff)
    with tr(1) l Inr e(2) show thesis by (intro ran [of q users users']) simp_all
  qed
qed

lemma update_user_find:
  "find (\<lambda>u. u_id u = id') users = Some u \<Longrightarrow> \<exists>users'. update_user id' f users = Inr users'"
  by (induction users) (auto split: if_splits)

lemma find_user:
  assumes "distinct (map u_id users)" "find (\<lambda>u. u_id u = id') users = Some u" "v \<in> set users" "u_id v = id'"
  shows "v = u"
  using assms by (auto simp: find_Some_iff distinct_conv_nth in_set_conv_nth)

lemma update_user_Inr:
  assumes "update_user id' f users = Inr users'" "distinct (map u_id users)"
  shows "users' = map (\<lambda>u. if u_id u = id' then f u else u) users" "id' \<in> u_id ` set users"
  using assms
proof (induction users arbitrary: users')
  case (Cons u us)
  {
    case 1
    show ?case
    proof (cases "u_id u = id'")
      case True
      have "\<forall>v\<in>set us. u_id v \<noteq> id'" using 1(2) True by (auto simp: image_iff)
      then have "map (\<lambda>u. if u_id u = id' then f u else u) us = us" by (simp cong: map_cong)
      with 1(1) True show ?thesis by simp
    next
      case False
      with 1 Cons show ?thesis by (auto simp: rbind_eq_Inr)
    qed
  next
    case 2
    with Cons show ?case by (auto simp: rbind_eq_Inr split: if_splits)
  }
qed simp_all

text \<open>The store as a run may read it: its contents, or nothing when asking for the file failed.\<close>

definition store_is :: "tools \<Rightarrow> DeploymentConfig \<Rightarrow> node_state \<Rightarrow> CompatUser list \<Rightarrow> bool" where
  "store_is kit d s users \<longleftrightarrow>
     stored_users (tl_users_env kit) (tl_users_legacy kit) (users_node d s) = Inr users"

lemma reads_store:
  assumes "reads (load_store kit d) (fst s) users" "store_is kit d s users0"
  shows "users = users0 \<or> users = []"
proof -
  obtain w w' where w: "w_fs w = fst s" "load_store kit d w = (w', Inr users)"
    using assms(1) by (auto simp: reads_def)
  obtain w1 there where e: "exists_file (users_file d) w = (w1, Inr there)"
    "(if \<not> there then io_ret [] else io_bind (read_file (users_file d)) (\<lambda>bytes.
        io_lift (parse_users_bytes (tl_users_env kit) (tl_users_legacy kit) bytes))) w1 = (w', Inr users)"
    using w(2) by (auto simp: load_store_def load_users_def io_bind_Inr)
  have fs: "w_fs w1 = fst s"
    using keeps_now [OF keeps_queries(2) e(1), of "\<lambda>fs. fs = fst s"] w(1) by simp
  show ?thesis
  proof (cases there)
    case True
    then obtain w2 bytes where r: "read_file (users_file d) w1 = (w2, Inr bytes)"
      "parse_users_bytes (tl_users_env kit) (tl_users_legacy kit) bytes = Inr users"
      using e(2) by (auto simp: io_bind_Inr io_lift_def)
    obtain n where "fs_files (fst s) (users_file d) = Some n" "nd_bytes n = bytes"
      using read_file_result [OF r(1)] fs by auto
    with r(2) assms(2) show ?thesis by (simp add: store_is_def stored_users_def users_node_def)
  qed (use e(2) in \<open>simp add: io_ret_def\<close>)
qed

text \<open>The user entries of the two inbounds of a configuration, and the principals they name.\<close>

definition entries :: "tools \<Rightarrow> string option \<Rightarrow> json list \<Rightarrow> json list \<Rightarrow> bool" where
  "entries kit loaded vs hs \<longleftrightarrow>
     (\<exists>doc v hy. denotes kit loaded doc \<and> as_array (jidx doc ''inbounds'') = Some [v, hy]
        \<and> jidx v ''users'' = JArr vs \<and> jidx hy ''users'' = JArr hs)"

definition admits :: "tools \<Rightarrow> string option \<Rightarrow> string list \<Rightarrow> bool" where
  "admits kit loaded principals \<longleftrightarrow>
     (\<exists>vs hs. entries kit loaded vs hs
        \<and> map (get_str ''name'') vs = map Some principals \<and> map (get_str ''name'') hs = map Some principals)"

lemma candidate_entries:
  assumes "runs_candidate kit re d users fs s"
  shows "entries kit (snd s) (map vless_user (authorized_grants users (re_now re)))
    (map hysteria_user (authorized_grants users (re_now re)))"
proof -
  obtain doc reality hysteria where c: "denotes kit (snd s) doc"
    "render_server_config_for_deployment (tl_b64 kit) d users reality hysteria (re_now re) = Inr doc"
    using assms by (auto simp: runs_candidate_def candidate_def)
  with rendered_inbounds(1) [OF c(2)] jidx_vless_users jidx_hysteria_inbound(2) show ?thesis
    unfolding entries_def by blast
qed

lemma candidate_admits:
  assumes "runs_candidate kit re d users fs s"
  shows "admits kit (snd s) (concat (map (\<lambda>u. active_principal_ids u (re_now re)) users))"
proof -
  let ?gs = "authorized_grants users (re_now re)"
  have "map (get_str ''name'') (map vless_user ?gs) = map Some (concat (map (\<lambda>u. active_principal_ids u (re_now re)) users))"
    "map (get_str ''name'') (map hysteria_user ?gs) = map Some (concat (map (\<lambda>u. active_principal_ids u (re_now re)) users))"
    by (simp_all only: inbound_entries granted_names)
  with candidate_entries [OF assms] show ?thesis unfolding admits_def by blast
qed

lemma disabled_principals:
  "concat (map (\<lambda>u. active_principal_ids u now) (map (\<lambda>u. if u_id u = id' then u\<lparr>u_enabled := False\<rparr> else u) users))
   = concat (map (\<lambda>u. active_principal_ids u now) (filter (\<lambda>u. u_id u \<noteq> id') users))"
  by (induction users) (auto simp: active_principal_ids_def is_active_def)

section \<open>The rendered document depends on users through what they are admitted with\<close>

definition same_view :: "int \<Rightarrow> CompatUser \<Rightarrow> CompatUser \<Rightarrow> bool" where
  "same_view now u u' \<longleftrightarrow>
     is_active u now = is_active u' now
     \<and> (u_vision_off u, u_is_reserved_probe u, u_google_egress_hairpin u, u_exit_principal u)
       = (u_vision_off u', u_is_reserved_probe u', u_google_egress_hairpin u', u_exit_principal u')
     \<and> (is_active u now \<longrightarrow>
          map (\<lambda>g. (g_principal_id g, g_vless_uuid g, g_hysteria2_password g))
           (filter (\<lambda>g. grant_is_authorized g now) (effective_grants u))
          = map (\<lambda>g. (g_principal_id g, g_vless_uuid g, g_hysteria2_password g))
           (filter (\<lambda>g. grant_is_authorized g now) (effective_grants u')))"

lemma same_view_grants:
  assumes "map (\<lambda>g. (g_principal_id g, g_vless_uuid g, g_hysteria2_password g)) gs
    = map (\<lambda>g. (g_principal_id g, g_vless_uuid g, g_hysteria2_password g)) gs'"
    "u_vision_off u = u_vision_off u'"
  shows "map vless_user (map (Pair u) gs) = map vless_user (map (Pair u') gs')"
    "map hysteria_user (map (Pair u) gs) = map hysteria_user (map (Pair u') gs')"
    "map g_principal_id gs = map g_principal_id gs'"
proof -
  have l: "list_all2 (\<lambda>g g'. g_principal_id g = g_principal_id g' \<and> g_vless_uuid g = g_vless_uuid g'
      \<and> g_hysteria2_password g = g_hysteria2_password g') gs gs'"
    using assms(1) by (auto simp: list_eq_iff_nth_eq list_all2_conv_all_nth)
  then show "map vless_user (map (Pair u) gs) = map vless_user (map (Pair u') gs')"
    "map hysteria_user (map (Pair u) gs) = map hysteria_user (map (Pair u') gs')"
    "map g_principal_id gs = map g_principal_id gs'"
    by (induction rule: list_all2_induct) (simp_all add: vless_user_def hysteria_user_def assms(2))
qed

lemma same_view_principals:
  "same_view now u u' \<Longrightarrow> active_principal_ids u now = active_principal_ids u' now"
  by (auto simp: same_view_def active_principal_ids_def dest: same_view_grants(3))

lemma same_view_entries:
  assumes "same_view now u u'"
  shows "map vless_user (authorized_grants [u] now) = map vless_user (authorized_grants [u'] now)"
    "map hysteria_user (authorized_grants [u] now) = map hysteria_user (authorized_grants [u'] now)"
proof -
  let ?gs = "filter (\<lambda>g. grant_is_authorized g now) (effective_grants u)"
    and ?gs' = "filter (\<lambda>g. grant_is_authorized g now) (effective_grants u')"
  have s: "is_active u now \<Longrightarrow> map (\<lambda>g. (g_principal_id g, g_vless_uuid g, g_hysteria2_password g)) ?gs
    = map (\<lambda>g. (g_principal_id g, g_vless_uuid g, g_hysteria2_password g)) ?gs'" "u_vision_off u = u_vision_off u'"
    and a: "is_active u now = is_active u' now"
    using assms unfolding same_view_def by blast+
  have "authorized_grants [u] now = (if is_active u now then map (Pair u) ?gs else [])"
    "authorized_grants [u'] now = (if is_active u now then map (Pair u') ?gs' else [])"
    by (simp_all add: authorized_grants_def a)
  with same_view_grants(1,2) [OF s]
  show "map vless_user (authorized_grants [u] now) = map vless_user (authorized_grants [u'] now)"
    "map hysteria_user (authorized_grants [u] now) = map hysteria_user (authorized_grants [u'] now)"
    by (cases "is_active u now"; simp del: map_map)+
qed

lemma authorized_grants_Cons: "authorized_grants (u # us) now = authorized_grants [u] now @ authorized_grants us now"
  by (simp add: authorized_grants_def)

lemma same_view_users:
  assumes "list_all2 (same_view now) users users'"
  shows "map vless_user (authorized_grants users now) = map vless_user (authorized_grants users' now)"
    "map hysteria_user (authorized_grants users now) = map hysteria_user (authorized_grants users' now)"
  using assms
proof (induction rule: list_all2_induct)
  case (Cons u us u' us')
  note e = same_view_entries [OF Cons(1)]
  show "map vless_user (authorized_grants (u # us) now) = map vless_user (authorized_grants (u' # us') now)"
    "map hysteria_user (authorized_grants (u # us) now) = map hysteria_user (authorized_grants (u' # us') now)"
    unfolding authorized_grants_Cons [of u us] authorized_grants_Cons [of u' us'] map_append e Cons(3,4) by (rule refl)+
qed (simp_all add: authorized_grants_def)

lemma same_view_principals_of:
  assumes "list_all2 (same_view now) users users'" "\<And>u u'. same_view now u u' \<Longrightarrow> P u = P u'"
  shows "principals_of P users now = principals_of P users' now"
  using assms(1)
proof (induction rule: list_all2_induct)
  case (Cons u us u' us')
  have "P u = P u'" "is_active u now = is_active u' now" "active_principal_ids u now = active_principal_ids u' now"
    using Cons(1) assms(2) same_view_principals [OF Cons(1)] unfolding same_view_def by blast+
  with Cons(3) show ?case by (simp add: principals_of_def)
qed (simp add: principals_of_def)

lemma same_view_renders:
  assumes v: "list_all2 (same_view now) users users'"
    and r: "render_server_config_for_deployment b64 d users reality hysteria now = Inr doc"
      "render_server_config_for_deployment b64 d users' reality hysteria now = Inr doc'"
  shows "doc' = doc"
proof -
  have p: "principals_of u_is_reserved_probe users now = principals_of u_is_reserved_probe users' now"
    "principals_of u_google_egress_hairpin users now = principals_of u_google_egress_hairpin users' now"
    "exit_principal_ids d users now = exit_principal_ids d users' now"
    unfolding exit_principal_ids_def using v by (auto intro!: same_view_principals_of simp: same_view_def)
  have c: "render_singbox_server_config users reality hysteria ports now
      = render_singbox_server_config users' reality hysteria ports now" for ports
    using same_view_users(1,2) [OF v] by (simp add: render_singbox_server_config_def Let_def)
  have e: "render_exit d users reality now config = render_exit d users' reality now config"
    "render_relay d users now config = render_relay d users' now config" for config
    unfolding render_exit_def render_relay_def relay_rules_def apply_probe_user_confinement_def
      apply_exit_loopback_selftest_exception_def p by simp_all
  show ?thesis
    using r unfolding render_server_config_for_deployment_def rbind_eq_Inr c e by auto
qed

section \<open>An example node\<close>

definition example_file :: "string \<Rightarrow> node" where
  "example_file bytes = \<lparr>nd_bytes = bytes, nd_mode = 0x1A0, nd_uid = 0, nd_gid = 0\<rparr>"

definition example_files :: "path \<Rightarrow> node option" where
  "example_files = map_of
     [((''/etc/vpn/reality'', ''private.key''), example_file ''priv''),
      ((''/etc/vpn/reality'', ''public.key''), example_file ''pub''),
      ((''/etc/vpn/reality'', ''short_id.txt''), example_file ''ab''),
      ((''/usr/bin'', ''sing-box''), example_file ''elf''),
      ((''/etc/vpn/users'', ''users.json''), example_file ''before'')]"

definition example_dirs :: "string \<Rightarrow> nat option" where
  "example_dirs = (\<lambda>dir. if dir \<in> {''/etc/vpn'', ''/etc/vpn/reality'', ''/etc/vpn/users'', ''/etc/vpn/sing-box'', ''/usr/bin''}
     then Some 0 else None)"

definition example_host :: "nat option list \<Rightarrow> answer list \<Rightarrow> host" where
  "example_host faults answers =
     \<lparr>ho_world = \<lparr>w_fs = \<lparr>fs_files = example_files, fs_dirs = example_dirs\<rparr>, w_script = faults, w_trace = []\<rparr>,
      ho_answers = answers, ho_after = [], ho_loaded = None, ho_restarts = 0\<rparr>"

definition stored_kit :: "CompatUser list \<Rightarrow> tools" where
  "stored_kit stored =
     \<lparr>tl_b64 = example_b64, tl_pretty = (\<lambda>_. ''doc''), tl_compact = (\<lambda>_. ''doc''), tl_parse = (\<lambda>_. None),
      tl_sha = (\<lambda>_. []), tl_hex = hex_encode, tl_check = (\<lambda>_. Inr ()), tl_coherent = (\<lambda>_ _. True),
      tl_users_ser = (\<lambda>(_, users). if users = [example_user] then ''alone'' else ''after''),
      tl_users_env = (\<lambda>b. if b = ''before'' then Some (1, stored) else None),
      tl_users_legacy = (\<lambda>_. None)\<rparr>"

abbreviation "example_kit \<equiv> stored_kit [example_user, example_probe]"

definition example_run :: run_env where
  "example_run =
     \<lparr>re_process = \<lparr>pr_uid = 0, pr_gid = 0, pr_umask = 0x12, pr_pid = 7\<rparr>, re_offline = None,
      re_systemd_dir = None, re_systemctl = Some ''guard'', re_now_start = 1000, re_now = 1000, re_now_check = 1000,
      re_status = None, re_status_after = None, re_selftest = (\<lambda>_. Some Pass)\<rparr>"

end
