(* ===== verification/NodeRuns.thy ===== *)
theory NodeRuns
  imports UserCommands
begin

text \<open>
  Runs that succeed.  \<open>fs_runs m fs x fs'\<close> says that the file operation \<open>m\<close>, started in \<open>fs\<close>,
  returns \<open>x\<close> in \<open>fs'\<close> after a fixed number of system calls none of which fails, whatever the
  calls after them do; \<open>ad_runs\<close> says the same of computations on a host.  The rules compose such
  runs, so a healthy node's run of a command is derived step by step, and a failure can be placed
  behind any prefix of it.
\<close>

section \<open>File operations\<close>

definition fs_runs :: "'a io \<Rightarrow> filesys \<Rightarrow> 'a \<Rightarrow> filesys \<Rightarrow> bool" where
  "fs_runs m fs x fs' \<longleftrightarrow> (\<exists>n tr'. \<forall>tr rest.
     m \<lparr>w_fs = fs, w_script = replicate n None @ rest, w_trace = tr\<rparr>
       = (\<lparr>w_fs = fs', w_script = rest, w_trace = tr @ tr'\<rparr>, Inr x))"

named_theorems runs_intros \<open>rules for runs that succeed\<close>

lemma fs_runs_ret [runs_intros]: "fs_runs (io_ret x) fs x fs"
  unfolding fs_runs_def by (rule exI [of _ 0], rule exI [of _ "[]"]) (simp add: io_ret_def)

lemma fs_runs_bind:
  assumes "fs_runs m fs x fs1" "fs_runs (f x) fs1 y fs2"
  shows "fs_runs (io_bind m f) fs y fs2"
proof -
  obtain n1 t1 where 1: "\<And>tr rest. m \<lparr>w_fs = fs, w_script = replicate n1 None @ rest, w_trace = tr\<rparr>
      = (\<lparr>w_fs = fs1, w_script = rest, w_trace = tr @ t1\<rparr>, Inr x)"
    using assms(1) by (auto simp: fs_runs_def)
  obtain n2 t2 where 2: "\<And>tr rest. f x \<lparr>w_fs = fs1, w_script = replicate n2 None @ rest, w_trace = tr\<rparr>
      = (\<lparr>w_fs = fs2, w_script = rest, w_trace = tr @ t2\<rparr>, Inr y)"
    using assms(2) by (auto simp: fs_runs_def)
  have "io_bind m f \<lparr>w_fs = fs, w_script = replicate (n1 + n2) None @ rest, w_trace = tr\<rparr>
      = (\<lparr>w_fs = fs2, w_script = rest, w_trace = tr @ (t1 @ t2)\<rparr>, Inr y)" for tr rest
    by (simp add: io_bind_def replicate_add 1 2)
  then show ?thesis unfolding fs_runs_def by blast
qed

lemma fs_runs_call: "f fs = Some fs' \<Longrightarrow> fs_runs (sys_call f) fs () fs'"
  unfolding fs_runs_def
  by (rule exI [of _ 1], rule exI [of _ "[fs']"]) (simp add: sys_call_def next_fault_def commit_def)

lemma fs_runs_query [runs_intros]: "fs_runs (sys_query f) fs (f fs) fs"
  unfolding fs_runs_def
  by (rule exI [of _ 1], rule exI [of _ "[]"]) (simp add: sys_query_def next_fault_def)

lemma fs_runs_write_all:
  assumes "fs_files fs p = Some n"
  shows "fs_runs (write_all p bytes) fs () (put p (Some (n\<lparr>nd_bytes := bytes\<rparr>)) fs)"
  unfolding fs_runs_def
  by (rule exI [of _ 1], rule exI [of _ "map (\<lambda>j. put p (Some (n\<lparr>nd_bytes := take j bytes\<rparr>)) fs) [0..<Suc (length bytes)]"])
    (simp add: write_all_def next_fault_def assms Let_def)

lemma fs_runs_try: "fs_runs m fs x fs' \<Longrightarrow> fs_runs (io_try m) fs (Inr x) fs'"
  unfolding fs_runs_def io_try_def
  apply (elim exE)
  subgoal for n tr' by (rule exI [of _ n], rule exI [of _ tr']) simp
  done

lemma fs_runs_on_error: "fs_runs m fs x fs' \<Longrightarrow> fs_runs (io_on_error m h) fs x fs'"
  unfolding fs_runs_def io_on_error_def
  apply (elim exE)
  subgoal for n tr' by (rule exI [of _ n], rule exI [of _ tr']) simp
  done

lemma fs_runs_lift: "fs_runs (io_lift (Inr x)) fs x fs"
  unfolding fs_runs_def by (rule exI [of _ 0], rule exI [of _ "[]"]) (simp add: io_lift_def)

text \<open>A query that answers an error, as a value.\<close>

definition fs_fails :: "'a io \<Rightarrow> filesys \<Rightarrow> FsError \<Rightarrow> bool" where
  "fs_fails m fs e \<longleftrightarrow> (\<exists>n. \<forall>tr rest.
     m \<lparr>w_fs = fs, w_script = replicate n None @ rest, w_trace = tr\<rparr>
       = (\<lparr>w_fs = fs, w_script = rest, w_trace = tr\<rparr>, Inl e))"

lemma fs_runs_read_file:
  "map_option nd_bytes (fs_files fs p) = Some b \<Longrightarrow> fs_runs (read_file p) fs b fs"
  unfolding read_file_def
  by (rule fs_runs_bind [OF fs_runs_query]) (auto intro: runs_intros)

lemma fs_runs_read_text:
  "map_option nd_bytes (fs_files fs p) = Some b \<Longrightarrow> utf8_ok b \<Longrightarrow> fs_runs (read_text p) fs b fs"
  unfolding read_text_def by (rule fs_runs_bind [OF fs_runs_read_file]) (auto intro: runs_intros)

lemma fs_fails_read:
  assumes "fs_files fs p = None"
  shows "fs_fails (read_file p) fs Io" "fs_fails (read_text p) fs Io"
  unfolding fs_fails_def
  by (rule exI [of _ 1], simp add: read_text_def read_file_def io_bind_def sys_query_def next_fault_def assms io_fail_def)+

lemma fs_runs_try_fails: "fs_fails m fs e \<Longrightarrow> fs_runs (io_try m) fs (Inl e) fs"
  unfolding fs_fails_def fs_runs_def io_try_def by (metis (no_types, lifting) append_Nil2 case_prod_conv)

lemma fs_runs_io_ok:
  "fs_runs m fs x fs' \<Longrightarrow> fs_runs (io_ok m) fs (Some x) fs'"
  "fs_fails m fs e \<Longrightarrow> fs_runs (io_ok m) fs None fs"
  unfolding io_ok_def
  by (rule fs_runs_bind [OF fs_runs_try], assumption, simp add: fs_runs_ret,
      rule fs_runs_bind [OF fs_runs_try_fails], assumption, simp add: fs_runs_ret)

lemma fs_runs_path_exists: "fs_runs (path_exists p) fs
    (fs_files fs p \<noteq> None \<or> fs_dirs fs (join_dir (fst p) (snd p)) \<noteq> None) fs"
  unfolding path_exists_def
  by (rule fs_runs_bind [OF fs_runs_query]) (use fs_runs_ret in \<open>auto split: if_splits\<close>)

section \<open>Replacements\<close>

lemma fs_runs_create_dir: "fs_dirs fs dir \<noteq> None \<Longrightarrow> fs_runs (create_dir_all pr dir) fs () fs"
  unfolding create_dir_all_def by (rule fs_runs_call) auto

lemma fs_runs_set_dir_mode: "fs_dirs fs dir \<noteq> None \<Longrightarrow> fs_runs (set_dir_mode_0750 dir) fs () fs"
  unfolding set_dir_mode_0750_def by (rule fs_runs_call) auto

definition opened :: "process \<Rightarrow> nat \<Rightarrow> path \<Rightarrow> filesys \<Rightarrow> node" where
  "opened pr mode p fs =
     (case fs_files fs p of
        Some n \<Rightarrow> n\<lparr>nd_bytes := []\<rparr>
      | None \<Rightarrow> \<lparr>nd_bytes = [], nd_mode = mode - (mode AND pr_umask pr), nd_uid = pr_uid pr, nd_gid = pr_gid pr\<rparr>)"

lemma fs_runs_open:
  "fs_dirs fs (fst p) \<noteq> None \<Longrightarrow> fs_runs (open_truncate pr mode p) fs () (put p (Some (opened pr mode p fs)) fs)"
  unfolding open_truncate_def opened_def by (rule fs_runs_call) auto

lemma put_put [simp]: "put p n (put p m fs) = put p n fs"
  by (simp add: put_def)

lemma fs_runs_update: "fs_files fs p = Some n \<Longrightarrow> fs_runs (update_node p f) fs () (put p (Some (f n)) fs)"
  unfolding update_node_def by (rule fs_runs_call) simp

lemma fs_runs_sync: "fs_runs sync_all fs () fs"
  unfolding sync_all_def by (rule fs_runs_call) simp

lemma fs_runs_write_file_mode:
  assumes "fs_dirs fs (fst p) \<noteq> None"
  shows "fs_runs (write_file_mode pr p bytes mode) fs ()
    (put p (Some ((opened pr mode p fs)\<lparr>nd_mode := mode, nd_bytes := bytes\<rparr>)) fs)"
proof -
  let ?o = "opened pr mode p fs"
  have a: "fs_runs (set_permissions p mode) (put p (Some ?o) fs) () (put p (Some (?o\<lparr>nd_mode := mode\<rparr>)) fs)"
    using fs_runs_update [of "put p (Some ?o) fs" p ?o "\<lambda>n. n\<lparr>nd_mode := mode\<rparr>"]
    by (simp add: set_permissions_def)
  have b: "fs_runs (write_all p bytes) (put p (Some (?o\<lparr>nd_mode := mode\<rparr>)) fs) ()
      (put p (Some (?o\<lparr>nd_mode := mode, nd_bytes := bytes\<rparr>)) fs)"
    using fs_runs_write_all [of "put p (Some (?o\<lparr>nd_mode := mode\<rparr>)) fs" p "?o\<lparr>nd_mode := mode\<rparr>" bytes] by simp
  show ?thesis
    unfolding write_file_mode_def
    by (rule fs_runs_bind [OF fs_runs_open [OF assms]], rule fs_runs_bind [OF a], rule fs_runs_bind [OF b], rule fs_runs_sync)
qed

lemma fs_runs_write_secret:
  assumes "fs_dirs fs (fst p) \<noteq> None"
  shows "fs_runs (write_secret_file pr p bytes) fs ()
    (put p (Some ((opened pr 0x180 p fs)\<lparr>nd_bytes := bytes\<rparr>)) fs)"
proof -
  let ?o = "opened pr 0x180 p fs"
  have b: "fs_runs (write_all p bytes) (put p (Some ?o) fs) () (put p (Some (?o\<lparr>nd_bytes := bytes\<rparr>)) fs)"
    using fs_runs_write_all [of "put p (Some ?o) fs" p ?o bytes] by simp
  show ?thesis
    unfolding write_secret_file_def
    by (rule fs_runs_bind [OF fs_runs_open [OF assms]], rule fs_runs_bind [OF b], rule fs_runs_sync)
qed

lemma fs_runs_rename:
  "fs_files fs src = Some n \<Longrightarrow> fs_runs (rename src dst) fs () (put dst (Some n) (put src None fs))"
  unfolding rename_def by (rule fs_runs_call) simp

lemma fs_runs_commit_stamp:
  assumes "fs_dirs fs (fst p) \<noteq> None"
  shows "fs_runs (commit_stamp pr p text) fs ()
    (put p (Some ((opened pr 0x180 (stamp_tmp pr p) fs)\<lparr>nd_bytes := text\<rparr>)) (put (stamp_tmp pr p) None fs))"
proof -
  let ?t = "stamp_tmp pr p"
  have w: "fs_runs (write_secret_file pr ?t text) fs () (put ?t (Some ((opened pr 0x180 ?t fs)\<lparr>nd_bytes := text\<rparr>)) fs)"
    by (rule fs_runs_write_secret) (use assms in \<open>simp add: stamp_tmp_def\<close>)
  have r: "fs_runs (rename ?t p) (put ?t (Some ((opened pr 0x180 ?t fs)\<lparr>nd_bytes := text\<rparr>)) fs) ()
      (put p (Some ((opened pr 0x180 ?t fs)\<lparr>nd_bytes := text\<rparr>)) (put ?t None fs))"
    using fs_runs_rename [of "put ?t (Some ((opened pr 0x180 ?t fs)\<lparr>nd_bytes := text\<rparr>)) fs" ?t _ p] by simp
  show ?thesis
    unfolding commit_stamp_def stamp_tmp_def [symmetric] Let_def by (rule fs_runs_bind [OF w r])
qed

lemma fs_runs_exists: "fs_runs (exists_file p) fs (fs_files fs p \<noteq> None) fs"
  unfolding exists_file_def metadata_def
  by (rule fs_runs_bind [OF fs_runs_query]) (use fs_runs_ret [of "fs_files fs p \<noteq> None" fs] in \<open>simp add: option.map_disc_iff\<close>)

lemma fs_runs_ownership:
  assumes "fs_files fs t = Some n" "fs_dirs fs (fst p) \<noteq> None"
  shows "\<exists>u g. fs_runs (preserve_ownership_before_rename t p) fs () (put t (Some (n\<lparr>nd_uid := u, nd_gid := g\<rparr>)) fs)"
proof -
  have c: "fs_runs (chown t u g) fs () (put t (Some (n\<lparr>nd_uid := u, nd_gid := g\<rparr>)) fs)" for u g
    unfolding chown_def by (rule fs_runs_update [OF assms(1)])
  obtain g where g: "fs_dirs fs (fst p) = Some g" using assms(2) by auto
  show ?thesis
  proof (cases "fs_files fs p")
    case None
    have c': "fs_runs (chown t (nd_uid n) g) fs () (put t (Some (n\<lparr>nd_gid := g\<rparr>)) fs)"
      using c [of "nd_uid n" g] by simp
    have "fs_runs (preserve_ownership_before_rename t p) fs () (put t (Some (n\<lparr>nd_uid := nd_uid n, nd_gid := g\<rparr>)) fs)"
      unfolding preserve_ownership_before_rename_def metadata_def dir_gid_def
      by (rule fs_runs_bind [OF fs_runs_query], simp add: None, rule fs_runs_bind [OF fs_runs_query],
          simp add: assms(1), rule fs_runs_bind [OF fs_runs_query], simp add: g c')
    then show ?thesis by blast
  next
    case (Some old)
    have "fs_runs (preserve_ownership_before_rename t p) fs () (put t (Some (n\<lparr>nd_uid := nd_uid old, nd_gid := nd_gid old\<rparr>)) fs)"
      unfolding preserve_ownership_before_rename_def metadata_def
      by (rule fs_runs_bind [OF fs_runs_query], simp add: Some c)
    then show ?thesis by blast
  qed
qed

lemma fs_runs_copy:
  assumes "fs_files fs src = Some n" "fs_dirs fs (fst dst) \<noteq> None" "src \<noteq> dst"
  shows "\<exists>m. fs_runs (copy_file pr src dst) fs () (put dst (Some m) fs) \<and> nd_bytes m = nd_bytes n \<and> nd_mode m = nd_mode n"
proof -
  let ?o = "opened pr (nd_mode n) dst fs"
  have a: "fs_runs (set_permissions dst (nd_mode n)) (put dst (Some ?o) fs) () (put dst (Some (?o\<lparr>nd_mode := nd_mode n\<rparr>)) fs)"
    using fs_runs_update [of "put dst (Some ?o) fs" dst ?o "\<lambda>m. m\<lparr>nd_mode := nd_mode n\<rparr>"]
    by (simp add: set_permissions_def)
  have b: "fs_runs (write_all dst (nd_bytes n)) (put dst (Some (?o\<lparr>nd_mode := nd_mode n\<rparr>)) fs) ()
      (put dst (Some (?o\<lparr>nd_mode := nd_mode n, nd_bytes := nd_bytes n\<rparr>)) fs)"
    using fs_runs_write_all [of "put dst (Some (?o\<lparr>nd_mode := nd_mode n\<rparr>)) fs" dst "?o\<lparr>nd_mode := nd_mode n\<rparr>" "nd_bytes n"] by simp
  have "fs_runs (copy_file pr src dst) fs () (put dst (Some (?o\<lparr>nd_mode := nd_mode n, nd_bytes := nd_bytes n\<rparr>)) fs)"
    unfolding copy_file_def
    by (rule fs_runs_bind [OF fs_runs_query], simp add: assms(1), rule fs_runs_bind [OF fs_runs_open [OF assms(2)]],
        rule fs_runs_bind [OF a b])
  then show ?thesis by fastforce
qed

lemma fs_runs_validate:
  "fs_files fs p = Some n \<Longrightarrow> check (nd_bytes n) = Inr () \<Longrightarrow> fs_runs (validate_file check p) fs () fs"
  unfolding validate_file_def
  using fs_runs_lift [of "()" fs] by (intro fs_runs_bind [OF fs_runs_read_file [of fs p "nd_bytes n"]]) (simp_all add: io_lift_def [abs_def])

text \<open>The whole swap: it succeeds when the directory exists and the core accepts the candidate, and
  leaves a backup of the file it replaces.\<close>

definition only_changes :: "path set \<Rightarrow> filesys \<Rightarrow> filesys \<Rightarrow> bool" where
  "only_changes ps fs fs' \<longleftrightarrow> (\<forall>q. q \<notin> ps \<longrightarrow> fs_files fs' q = fs_files fs q) \<and> fs_dirs fs' = fs_dirs fs"

lemma only_changesD:
  "only_changes ps fs fs' \<Longrightarrow> q \<notin> ps \<Longrightarrow> fs_files fs' q = fs_files fs q"
  "only_changes ps fs fs' \<Longrightarrow> fs_dirs fs' = fs_dirs fs"
  unfolding only_changes_def by blast+

lemma only_changes_put: "only_changes {p} fs (put p n fs)"
  by (simp add: only_changes_def)

lemma only_changes_trans: "only_changes ps fs fs1 \<Longrightarrow> only_changes qs fs1 fs2 \<Longrightarrow> only_changes (ps \<union> qs) fs fs2"
  by (simp add: only_changes_def)

lemma fs_runs_apply_config:
  assumes dir: "fs_dirs fs (fst p) \<noteq> None" and ok: "check (ser doc) = Inr ()"
  shows "\<exists>fs' n. fs_runs (apply_config_atomically ser check pr doc p) fs () fs'
    \<and> fs_files fs' p = Some n \<and> nd_bytes n = ser doc
    \<and> map_option nd_bytes (fs_files fs' (config_backup_path p))
      = (if fs_files fs p = None then map_option nd_bytes (fs_files fs (config_backup_path p))
         else map_option nd_bytes (fs_files fs p))
    \<and> only_changes {p, tmp_path pr p, config_backup_path p} fs fs'"
proof -
  let ?t = "tmp_path pr p" and ?b = "config_backup_path p"
  have names: "fst ?t = fst p" "fst ?b = fst p" by (simp_all add: tmp_path_def config_backup_path_def)
  define n1 where "n1 = (opened pr 0x1A0 ?t fs)\<lparr>nd_mode := 0x1A0, nd_bytes := ser doc\<rparr>"
  define fs1 where "fs1 = put ?t (Some n1) fs"
  have w: "fs_runs (write_file_mode pr ?t (ser doc) 0x1A0) fs () fs1"
    unfolding fs1_def n1_def by (rule fs_runs_write_file_mode) (simp add: names dir)
  have v: "fs_runs (io_on_error (validate_file check ?t) (remove_file ?t)) fs1 () fs1"
    by (rule fs_runs_on_error, rule fs_runs_validate [of _ _ n1]) (simp_all add: fs1_def n1_def ok)
  have "\<exists>fs2. fs_runs (if fs_files fs1 p \<noteq> None then io_bind (copy_file pr p ?b) (\<lambda>_. set_permissions ?b 0x1A0) else io_ret ()) fs1 () fs2
      \<and> only_changes {?b} fs1 fs2
      \<and> map_option nd_bytes (fs_files fs2 ?b) = (if fs_files fs p = None then map_option nd_bytes (fs_files fs ?b)
         else map_option nd_bytes (fs_files fs p))"
  proof (cases "fs_files fs p")
    case None
    then show ?thesis by (intro exI [of _ fs1]) (simp add: fs1_def fs_runs_ret only_changes_def)
  next
    case (Some old)
    then obtain m where m: "fs_runs (copy_file pr p ?b) fs1 () (put ?b (Some m) fs1)" "nd_bytes m = nd_bytes old"
      using fs_runs_copy [of fs1 p old ?b pr] dir names by (auto simp: fs1_def)
    have "fs_runs (set_permissions ?b 0x1A0) (put ?b (Some m) fs1) () (put ?b (Some (m\<lparr>nd_mode := 0x1A0\<rparr>)) fs1)"
      using fs_runs_update [of "put ?b (Some m) fs1" ?b m "\<lambda>n. n\<lparr>nd_mode := 0x1A0\<rparr>"]
      by (simp add: set_permissions_def)
    from fs_runs_bind [OF m(1) this] Some m(2) show ?thesis
      by (intro exI [of _ "put ?b (Some (m\<lparr>nd_mode := 0x1A0\<rparr>)) fs1"]) (simp add: fs1_def only_changes_def)
  qed
  then obtain fs2 where b: "fs_runs (if fs_files fs1 p \<noteq> None then io_bind (copy_file pr p ?b) (\<lambda>_. set_permissions ?b 0x1A0)
        else io_ret ()) fs1 () fs2" "only_changes {?b} fs1 fs2"
    "map_option nd_bytes (fs_files fs2 ?b) = (if fs_files fs p = None then map_option nd_bytes (fs_files fs ?b)
         else map_option nd_bytes (fs_files fs p))" by blast
  have t2: "fs_files fs2 ?t = Some n1" "fs_dirs fs2 (fst p) \<noteq> None"
    using only_changesD(1) [OF b(2), of ?t] only_changesD(2) [OF b(2)] dir by (simp_all add: fs1_def)
  obtain u g where o: "fs_runs (preserve_ownership_before_rename ?t p) fs2 () (put ?t (Some (n1\<lparr>nd_uid := u, nd_gid := g\<rparr>)) fs2)"
    using fs_runs_ownership [OF t2] by blast
  define n3 where "n3 = n1\<lparr>nd_uid := u, nd_gid := g\<rparr>"
  have r: "fs_runs (rename ?t p) (put ?t (Some n3) fs2) () (put p (Some n3) (put ?t None fs2))"
    using fs_runs_rename [of "put ?t (Some n3) fs2" ?t n3 p] by simp
  have "fs_runs (apply_config_atomically ser check pr doc p) fs () (put p (Some n3) (put ?t None fs2))"
    unfolding apply_config_atomically_def
    by (rule fs_runs_bind [OF fs_runs_create_dir [OF dir]], rule fs_runs_bind [OF w], rule fs_runs_bind [OF v],
        rule fs_runs_bind [OF fs_runs_exists], rule fs_runs_bind [OF b(1)], rule fs_runs_bind [OF o [folded n3_def]],
        rule r)
  then show ?thesis
    using b(2,3) by (intro exI [of _ "put p (Some n3) (put ?t None fs2)"] exI [of _ n3])
      (auto simp: n3_def n1_def only_changes_def fs1_def)
qed

lemma fs_runs_save_users:
  assumes dir: "fs_dirs fs (fst p) \<noteq> None"
  shows "\<exists>fs'. fs_runs (save_users_atomic ser pr p users) fs () fs' \<and> only_changes {p, tmp_path pr p} fs fs'"
proof -
  let ?t = "tmp_path pr p"
  have names: "fst ?t = fst p" by (simp add: tmp_path_def)
  define n1 where "n1 = (opened pr 0x1A0 ?t fs)\<lparr>nd_mode := 0x1A0, nd_bytes := ser (USERS_SCHEMA_VERSION, users)\<rparr>"
  define fs1 where "fs1 = put ?t (Some n1) fs"
  have w: "fs_runs (write_file_mode pr ?t (ser (USERS_SCHEMA_VERSION, users)) 0x1A0) fs () fs1"
    unfolding fs1_def n1_def by (rule fs_runs_write_file_mode) (simp add: names dir)
  obtain u g where o: "fs_runs (preserve_ownership_before_rename ?t p) fs1 () (put ?t (Some (n1\<lparr>nd_uid := u, nd_gid := g\<rparr>)) fs1)"
    using fs_runs_ownership [of fs1 ?t n1 p] dir by (auto simp: fs1_def)
  define n3 where "n3 = n1\<lparr>nd_uid := u, nd_gid := g\<rparr>"
  have r: "fs_runs (rename ?t p) (put ?t (Some n3) fs1) () (put p (Some n3) (put ?t None fs1))"
    using fs_runs_rename [of "put ?t (Some n3) fs1" ?t n3 p] by simp
  have "fs_runs (save_users_atomic ser pr p users) fs () (put p (Some n3) (put ?t None fs1))"
    unfolding save_users_atomic_def
    by (rule fs_runs_bind [OF fs_runs_create_dir [OF dir]], rule fs_runs_bind [OF fs_runs_set_dir_mode [OF dir]],
        rule fs_runs_bind [OF w], rule fs_runs_bind [OF o [folded n3_def]], rule r)
  then show ?thesis by (intro exI [of _ "put p (Some n3) (put ?t None fs1)"]) (simp add: only_changes_def fs1_def)
qed

section \<open>Computations on a host\<close>

definition at_host :: "host \<Rightarrow> nat option list \<Rightarrow> filesys list \<Rightarrow> host" where
  "at_host h script tr = h\<lparr>ho_world := \<lparr>w_fs = w_fs (ho_world h), w_script = script, w_trace = tr\<rparr>\<rparr>"

definition set_fs :: "host \<Rightarrow> filesys \<Rightarrow> host" where
  "set_fs h fs = h\<lparr>ho_world := (ho_world h)\<lparr>w_fs := fs\<rparr>\<rparr>"

abbreviation "host_fs h \<equiv> w_fs (ho_world h)"

text \<open>The ends of a computation: when \<open>faulty\<close>, under some outcomes of the system calls, and otherwise
  when every call succeeds.\<close>

definition ad_ends :: "bool \<Rightarrow> ('e, 'a) admin \<Rightarrow> host \<Rightarrow> 'e + 'a \<Rightarrow> host \<Rightarrow> bool" where
  "ad_ends faulty m h r h' \<longleftrightarrow> (\<exists>sc t. (faulty \<or> set sc \<subseteq> {None})
     \<and> (\<forall>tr rest. \<exists>tr'. m (at_host h (sc @ rest) tr) = (at_host h' rest tr', t, r)))"

abbreviation "ad_runs m h x h' \<equiv> ad_ends False m h (Inr x) h'"

lemma at_host_simps [simp]:
  "host_fs (at_host h sc tr) = host_fs h" "w_script (ho_world (at_host h sc tr)) = sc"
  "w_trace (ho_world (at_host h sc tr)) = tr" "ho_answers (at_host h sc tr) = ho_answers h"
  "ho_after (at_host h sc tr) = ho_after h" "ho_loaded (at_host h sc tr) = ho_loaded h"
  "ho_restarts (at_host h sc tr) = ho_restarts h" "state_of (at_host h sc tr) = state_of h"
  by (simp_all add: at_host_def state_of_def)

lemma set_fs_simps [simp]:
  "host_fs (set_fs h fs) = fs" "ho_answers (set_fs h fs) = ho_answers h" "ho_after (set_fs h fs) = ho_after h"
  "ho_loaded (set_fs h fs) = ho_loaded h" "ho_restarts (set_fs h fs) = ho_restarts h" "set_fs h (host_fs h) = h"
  by (simp_all add: set_fs_def)

lemma ad_ends_here: "m = (\<lambda>h. (h, [], r)) \<Longrightarrow> ad_ends faulty m h r h"
  unfolding ad_ends_def by (rule exI [of _ "[]"], rule exI [of _ "[]"]) auto

lemma ad_runs_return: "ad_ends faulty (tr_return x) h (Inr x) h"
  by (rule ad_ends_here) (simp add: tr_return_def fun_eq_iff)

lemma ad_ends_fail: "ad_ends faulty (tr_fail e) h (Inl e) h"
  by (rule ad_ends_here) (simp add: tr_fail_def fun_eq_iff)

lemma ad_ends_bind:
  assumes "ad_ends faulty0 m h (Inr x) h1" "ad_ends faulty (f x) h1 r h2"
  shows "ad_ends (faulty0 \<or> faulty) (tr_bind m f) h r h2"
proof -
  obtain s1 t1 where 1: "faulty0 \<or> set s1 \<subseteq> {None}" "\<And>tr rest. \<exists>tr'. m (at_host h (s1 @ rest) tr) = (at_host h1 rest tr', t1, Inr x)"
    using assms(1) unfolding ad_ends_def by blast
  obtain s2 t2 where 2: "faulty \<or> set s2 \<subseteq> {None}" "\<And>tr rest. \<exists>tr'. f x (at_host h1 (s2 @ rest) tr) = (at_host h2 rest tr', t2, r)"
    using assms(2) unfolding ad_ends_def by blast
  have "\<exists>tr'. tr_bind m f (at_host h ((s1 @ s2) @ rest) tr) = (at_host h2 rest tr', t1 @ t2, r)" for tr rest
  proof -
    obtain tr1 where a: "m (at_host h (s1 @ s2 @ rest) tr) = (at_host h1 (s2 @ rest) tr1, t1, Inr x)" using 1(2) by blast
    obtain tr2 where b: "f x (at_host h1 (s2 @ rest) tr1) = (at_host h2 rest tr2, t2, r)" using 2(2) by blast
    show ?thesis by (rule exI [of _ tr2]) (simp add: tr_bind_def a b)
  qed
  moreover have "(faulty0 \<or> faulty) \<or> set (s1 @ s2) \<subseteq> {None}" using 1(1) 2(1) by auto
  ultimately show ?thesis unfolding ad_ends_def by blast
qed

lemma ad_runs_bind:
  "ad_runs m h x h1 \<Longrightarrow> ad_ends faulty (f x) h1 r h2 \<Longrightarrow> ad_ends faulty (tr_bind m f) h r h2"
  using ad_ends_bind [of False] by simp

lemma ad_ends_lift: "ad_ends faulty m h r h' \<Longrightarrow> ad_ends faulty (lift_admin m) h (map_err Admin r) h'"
  unfolding ad_ends_def lift_admin_def
  apply (elim exE)
  subgoal for sc t
    by (rule exI [of _ sc], rule exI [of _ t]) (metis (no_types, lifting) case_prod_conv)
  done

lemma ad_ends_stop:
  assumes "ad_ends faulty m h (Inl e) h'"
  shows "ad_ends faulty (tr_bind m f) h (Inl e) h'"
proof -
  obtain sc t where 1: "faulty \<or> set sc \<subseteq> {None}" "\<And>tr rest. \<exists>tr'. m (at_host h (sc @ rest) tr) = (at_host h' rest tr', t, Inl e)"
    using assms unfolding ad_ends_def by blast
  have "\<exists>tr'. tr_bind m f (at_host h (sc @ rest) tr) = (at_host h' rest tr', t, Inl e)" for tr rest
    using 1(2) [of rest tr] by (auto simp: tr_bind_def)
  with 1(1) show ?thesis unfolding ad_ends_def by blast
qed

text \<open>An end that is reachable is the end of some run, and of every run with enough calls that succeed.\<close>

lemma ad_endsE:
  assumes "ad_ends faulty m h r h'"
  obtains script t tr' where "m (at_host h script []) = (at_host h' [] tr', t, r)"
  using assms unfolding ad_ends_def by (metis (no_types))

lemma ad_ends_always:
  assumes "ad_ends False m h r h'"
  shows "\<exists>n t. \<forall>rest tr. \<exists>tr'. m (at_host h (replicate n None @ rest) tr) = (at_host h' rest tr', t, r)"
proof -
  obtain sc t where 1: "set sc \<subseteq> {None}" "\<And>tr rest. \<exists>tr'. m (at_host h (sc @ rest) tr) = (at_host h' rest tr', t, r)"
    using assms unfolding ad_ends_def by blast
  have "replicate (length sc) None = sc" using 1(1) by (intro replicate_eqI [symmetric]) auto
  with 1(2) show ?thesis by metis
qed

lemma ad_runs_by:
  assumes "\<And>tr rest. \<exists>tr'. m (at_host h (replicate n None @ rest) tr) = (at_host h' rest tr', t, Inr x)"
  shows "ad_runs m h x h'"
  unfolding ad_ends_def by (rule exI [of _ "replicate n None"], rule exI [of _ t]) (use assms in auto)

lemma ad_runs_io:
  assumes "fs_runs m (host_fs h) x fs'"
  shows "ad_runs (ad_io err m) h x (set_fs h fs')"
proof -
  obtain n tr' where n: "\<And>tr rest. m \<lparr>w_fs = host_fs h, w_script = replicate n None @ rest, w_trace = tr\<rparr>
       = (\<lparr>w_fs = fs', w_script = rest, w_trace = tr @ tr'\<rparr>, Inr x)"
    using assms by (auto simp: fs_runs_def)
  have "ad_io err m (at_host h (replicate n None @ rest) tr)
      = (at_host (set_fs h fs') rest (tr @ tr'), map (\<lambda>fs. (fs, ho_loaded h)) tr', Inr x)" for tr rest
    using n [of rest tr] by (simp add: ad_io_def at_host_def set_fs_def)
  then show ?thesis by (intro ad_runs_by) blast
qed

lemma ad_runs_try:
  assumes "fs_runs (io_try m) (host_fs h) r fs'"
  shows "ad_runs (ad_try m) h r (set_fs h fs')"
proof -
  obtain n tr' where n: "\<And>tr rest. io_try m \<lparr>w_fs = host_fs h, w_script = replicate n None @ rest, w_trace = tr\<rparr>
       = (\<lparr>w_fs = fs', w_script = rest, w_trace = tr @ tr'\<rparr>, Inr r)"
    using assms by (auto simp: fs_runs_def)
  have "m \<lparr>w_fs = host_fs h, w_script = replicate n None @ rest, w_trace = tr\<rparr>
       = (\<lparr>w_fs = fs', w_script = rest, w_trace = tr @ tr'\<rparr>, r)" for tr rest
    using n [of rest tr] by (auto simp: io_try_def split: prod.splits)
  then have "ad_try m (at_host h (replicate n None @ rest) tr)
      = (at_host (set_fs h fs') rest (tr @ tr'), map (\<lambda>fs. (fs, ho_loaded h)) tr', Inr r)" for tr rest
    by (simp add: ad_try_def at_host_def set_fs_def)
  then show ?thesis by (intro ad_runs_by) blast
qed

lemma ad_runsI: "(\<And>sc tr. m (at_host h sc tr) = (at_host h' sc tr, t, Inr x)) \<Longrightarrow> ad_runs m h x h'"
  by (rule ad_runs_by [where n = 0 and t = t]) auto

lemma ad_runs_svc:
  "ho_answers h = [] \<Longrightarrow> ad_runs svc_run h (Exited True ''loaded'') h"
  "ho_answers h = Exited ok out # as \<Longrightarrow> ad_runs svc_run h (Exited ok out) (h\<lparr>ho_answers := as\<rparr>)"
  "ho_answers h = NoSpawn # a # as \<Longrightarrow> ad_runs svc_run h a (h\<lparr>ho_answers := as\<rparr>)"
  by (rule ad_runsI [where t = "[]"], cases h, cases a, simp_all add: svc_run_def next_answer_def at_host_def)+

text \<open>With no answers scripted every question is answered well.\<close>

lemma ad_runs_service:
  assumes "ho_answers h = []"
  shows "ad_runs is_available h True h" "ad_runs is_unit_installed h True h" "ad_runs unit_is_active h True h"
proof -
  have l: "trim ''loaded'' = ''loaded''" by code_simp
  show "ad_runs is_available h True h" "ad_runs is_unit_installed h True h" "ad_runs unit_is_active h True h"
    unfolding is_available_def is_unit_installed_def unit_is_active_def
    by (rule ad_runs_bind [OF ad_runs_svc(1) [OF assms]],
        use ad_runs_return [of False True h] in \<open>simp add: exited_ok_def l\<close>)+
qed

definition restarted :: "path \<Rightarrow> host \<Rightarrow> host" where
  "restarted p h = h\<lparr>ho_loaded := map_option nd_bytes (fs_files (host_fs h) p), ho_restarts := Suc (ho_restarts h)\<rparr>"

lemma ad_runs_load:
  "ad_runs (\<lambda>h. let h' = load_effect p a h in (h', [state_of h'], Inr (exited_ok a))) h (exited_ok a) (load_effect p a h)"
proof (rule ad_runsI)
  fix tr :: "filesys list" and rest
  have "load_effect p a (at_host h rest tr) = at_host (load_effect p a h) rest tr"
    by (auto simp: load_effect_def at_host_def split: answer.split bool.split list.split)
  then show "(let h' = load_effect p a (at_host h rest tr) in (h', [state_of h'], Inr (exited_ok a)))
      = (at_host (load_effect p a h) rest tr, [state_of (load_effect p a h)], Inr (exited_ok a))"
    by (simp add: Let_def)
qed

lemma ad_runs_reload:
  assumes "ho_answers h = []"
  shows "ad_runs (reload_and_verify p) h True (restarted p h)"
proof -
  have e: "load_effect p (Exited True ''loaded'') h = restarted p h"
    by (simp add: load_effect_def restarted_def)
  have r: "ad_runs (reload_or_restart p) h True (restarted p h)"
    unfolding reload_or_restart_def
    by (rule ad_runs_bind [OF ad_runs_svc(1) [OF assms]], rule ad_runs_bind [OF ad_runs_svc(1) [OF assms]])
      (use ad_runs_load [of p "Exited True ''loaded''" h] in \<open>simp add: e exited_ok_def\<close>)
  have a: "ho_answers (restarted p h) = []" by (simp add: restarted_def assms)
  have "ad_runs (polls 10 0) (restarted p h) True (restarted p h)"
    by (simp add: numeral_eq_Suc)
      (intro ad_runs_bind [OF ad_runs_service(3) [OF a]], simp,
       intro ad_runs_bind [OF ad_runs_service(3) [OF a]], simp,
       intro ad_runs_bind [OF ad_runs_service(3) [OF a]], simp add: ad_runs_return)
  then show ?thesis
    unfolding reload_and_verify_def MAX_POLLS_def by (intro ad_runs_bind [OF r]) simp
qed

section \<open>A healthy node\<close>

definition file_answer :: "filesys \<Rightarrow> path \<Rightarrow> FsError + string" where
  "file_answer fs p = (case fs_files fs p of None \<Rightarrow> Inl Io | Some n \<Rightarrow> Inr (nd_bytes n))"

definition text_answer :: "filesys \<Rightarrow> path \<Rightarrow> FsError + string" where
  "text_answer fs p = rbind (file_answer fs p) (\<lambda>b. if utf8_ok b then Inr b else Inl Io)"

text \<open>A restart for the sake of the capabilities is due: the drop-in has to be written or removed, or
  the running core lacks the capabilities of the TLS spoof and was not restarted for it yet.\<close>

definition capability_restart_due :: "tools \<Rightarrow> run_env \<Rightarrow> DeploymentConfig \<Rightarrow> filesys \<Rightarrow> bool" where
  "capability_restart_due kit re d fs \<longleftrightarrow>
     (case tls_spoof_dropin_path re of
        None \<Rightarrow> False
      | Some p \<Rightarrow>
          plan_tls_spoof_dropin (case text_answer fs p of Inl _ \<Rightarrow> None | Inr t \<Rightarrow> Some t) (desired_tls_spoof_dropin d)
            \<notin> {DropinNone, LeaveUnmanaged})
     \<or> running_singbox_lacks_spoof_capabilities re d (re_status re) = Some True
       \<and> map_option (hash_token (tl_sha kit) (tl_hex kit)) (desired_tls_spoof_dropin d)
         \<noteq> (case text_answer fs (spoof_stamp_path d) of Inl _ \<Rightarrow> None | Inr s \<Rightarrow> Some (trim s))"

text \<open>A node on which nothing stands in the way of a change.\<close>

definition healthy :: "tools \<Rightarrow> run_env \<Rightarrow> DeploymentConfig \<Rightarrow> host \<Rightarrow> bool" where
  "healthy kit re d h \<longleftrightarrow>
     ho_answers h = [] \<and> \<not> capability_restart_due kit re d (host_fs h)
     \<and> (case map (\<lambda>p. map_option nd_bytes (fs_files (host_fs h) p))
               [reality_private_key_file d, reality_public_key_file d, (reality_dir d, ''short_id.txt'')] of
          [Some priv, Some pub, Some sid] \<Rightarrow>
            list_all utf8_ok [priv, pub, sid] \<and> tl_coherent kit (trim priv) (trim pub)
        | _ \<Rightarrow> False)
     \<and> fs_files (host_fs h) (split_path (dc_singbox_binary d)) \<noteq> None
     \<and> split_path (dc_singbox_binary d) \<notin> touched re d
     \<and> fs_dirs (host_fs h) (fst (singbox_config_file d)) \<noteq> None
     \<and> fs_dirs (host_fs h) (fst (users_file d)) \<noteq> None
     \<and> (\<forall>u. re_selftest re u \<noteq> Some HandshakeRejected)"

lemma try_read:
  "fs_runs (io_try (read_file p)) fs (file_answer fs p) fs"
  "fs_runs (io_try (read_text p)) fs (text_answer fs p) fs"
  unfolding fs_runs_def
  by (rule exI [of _ 1], rule exI [of _ "[]"],
      simp add: file_answer_def text_answer_def read_text_def read_file_def io_try_def io_bind_def sys_query_def
        next_fault_def io_fail_def io_ret_def split: option.split)+

lemma ok_read: "\<exists>x. fs_runs (io_ok (read_text p)) fs x fs"
  unfolding io_ok_def using fs_runs_bind [OF try_read(2) fs_runs_ret] by blast

lemma healthy_keys:
  assumes "healthy kit re d h"
  shows "\<exists>reality. fs_runs (load_reality_params kit d) (host_fs h) reality (host_fs h)"
    "\<exists>hysteria. fs_runs (load_hysteria_params d) (host_fs h) hysteria (host_fs h)"
proof -
  let ?fs = "host_fs h"
  obtain priv pub sid where k: "map_option nd_bytes (fs_files ?fs (reality_private_key_file d)) = Some priv"
    "map_option nd_bytes (fs_files ?fs (reality_public_key_file d)) = Some pub"
    "map_option nd_bytes (fs_files ?fs (reality_dir d, ''short_id.txt'')) = Some sid"
    "utf8_ok priv" "utf8_ok pub" "utf8_ok sid" "tl_coherent kit (trim priv) (trim pub)"
    using assms unfolding healthy_def by (auto split: option.splits simp del: map_option_eq_Some)
  obtain u where u: "fs_runs (io_ok (read_text (google_egress_hairpin_uuid_file d))) ?fs u ?fs" using ok_read by blast
  show "\<exists>reality. fs_runs (load_reality_params kit d) ?fs reality ?fs"
    unfolding load_reality_params_def
    by (rule exI, rule fs_runs_bind [OF fs_runs_read_text [OF k(1,4)]], rule fs_runs_bind [OF fs_runs_read_text [OF k(2,5)]],
        simp only: k(7) not_True_eq_False if_False, rule fs_runs_bind [OF fs_runs_read_text [OF k(3,6)]],
        rule fs_runs_bind [OF u], rule fs_runs_ret)
  obtain o' where o': "fs_runs (io_ok (read_text (hysteria_obfs_password_file d))) ?fs o' ?fs" using ok_read by blast
  show "\<exists>hysteria. fs_runs (load_hysteria_params d) ?fs hysteria ?fs"
    unfolding load_hysteria_params_def Let_def
    by (rule exI, rule fs_runs_bind [OF o'], rule fs_runs_bind [OF fs_runs_path_exists], rule fs_runs_ret)
qed

lemma fs_runs_reads: "fs_runs m fs x fs' \<Longrightarrow> reads m fs x"
proof -
  assume "fs_runs m fs x fs'"
  then obtain n tr' where "m \<lparr>w_fs = fs, w_script = replicate n None @ [], w_trace = []\<rparr>
      = (\<lparr>w_fs = fs', w_script = [], w_trace = [] @ tr'\<rparr>, Inr x)"
    unfolding fs_runs_def by blast
  then show ?thesis unfolding reads_def by (metis world.select_convs(1))
qed

lemma ad_runs_same: "fs_runs m (host_fs h) x (host_fs h) \<Longrightarrow> ad_runs (ad_io err m) h x h"
  using ad_runs_io [of m h x "host_fs h" err] by simp

lemma ad_runs_try_same: "fs_runs (io_try m) (host_fs h) r (host_fs h) \<Longrightarrow> ad_runs (ad_try m) h r h"
  using ad_runs_try [of m h r "host_fs h"] by simp

lemma healthy_dropin:
  assumes "healthy kit re d h"
  shows "\<exists>r. ad_runs (sync_tls_spoof_capability_dropin re d :: (AdminError, DropinSync) admin) h r h
    \<and> (r = SyncUnchanged \<or> r = SyncSkipped)"
proof (cases "tls_spoof_dropin_path re")
  case None
  then show ?thesis by (auto simp: sync_tls_spoof_capability_dropin_def intro: ad_runs_return)
next
  case (Some p)
  let ?t = "text_answer (host_fs h) p"
  let ?plan = "plan_tls_spoof_dropin (case ?t of Inl _ \<Rightarrow> None | Inr t \<Rightarrow> Some t) (desired_tls_spoof_dropin d)"
  have s: "?plan = DropinNone \<or> ?plan = LeaveUnmanaged"
    using assms Some by (simp add: healthy_def capability_restart_due_def)
  have "ad_runs (ad_try (read_text p) :: (AdminError, FsError + string) admin) h ?t h"
    by (rule ad_runs_try_same) (rule try_read(2))
  then have "ad_runs (sync_tls_spoof_capability_dropin re d :: (AdminError, DropinSync) admin) h SyncUnchanged h"
    unfolding sync_tls_spoof_capability_dropin_def Some option.case Let_def
    by (rule ad_runs_bind) (simp only: s if_True ad_runs_return)
  then show ?thesis by blast
qed

lemma healthy_caps:
  assumes "healthy kit re d h"
  shows "ad_runs (if running_singbox_lacks_spoof_capabilities re d (re_status re) = Some True
      then tr_bind (ad_try (read_text (spoof_stamp_path d))) (\<lambda>s.
             tr_return (map_option (hash_token (tl_sha kit) (tl_hex kit)) (desired_tls_spoof_dropin d)
               \<noteq> (case s of Inl _ \<Rightarrow> None | Inr s \<Rightarrow> Some (trim s))))
      else tr_return False :: (AdminError, bool) admin) h False h"
proof (cases "running_singbox_lacks_spoof_capabilities re d (re_status re) = Some True")
  case True
  have e: "map_option (hash_token (tl_sha kit) (tl_hex kit)) (desired_tls_spoof_dropin d)
      = (case text_answer (host_fs h) (spoof_stamp_path d) of Inl _ \<Rightarrow> None | Inr s \<Rightarrow> Some (trim s))"
    using assms True by (simp add: healthy_def capability_restart_due_def)
  have "ad_runs (ad_try (read_text (spoof_stamp_path d)) :: (AdminError, FsError + string) admin) h
      (text_answer (host_fs h) (spoof_stamp_path d)) h"
    by (rule ad_runs_try_same) (rule try_read(2))
  then show ?thesis
    unfolding if_P [OF True] by (rule ad_runs_bind) (simp only: e simp_thms ad_runs_return)
qed (simp add: ad_runs_return)

lemma healthy_until_stamp:
  assumes h: "healthy kit re d h"
    and c: "ad_ends faulty (tr_bind (ad_io StampFailed (commit_applied_config_stamp (re_process re) (singbox_config_file d)
        (rendered_config_fingerprint kit doc))) (\<lambda>_. tr_return True)) (restarted (singbox_config_file d) h) r h2"
  shows "ad_ends faulty (go_live kit re d users False doc None) h r h2"
proof -
  let ?h1 = "restarted (singbox_config_file d) h"
  have a: "ho_answers h = []" using h by (simp add: healthy_def)
  have "\<exists>v. fs_runs (verify_reality_handshake_or_warn re d users) (host_fs h) v (host_fs h) \<and> v \<noteq> Ran HandshakeRejected"
    unfolding verify_reality_handshake_or_warn_def
    by (rule exI, rule conjI, rule fs_runs_bind [OF fs_runs_path_exists], rule fs_runs_ret)
      (use h in \<open>auto simp: healthy_def split: option.splits\<close>)
  moreover have "host_fs ?h1 = host_fs h" by (simp add: restarted_def)
  ultimately obtain v where v: "ad_runs (ad_io ConfigFailed (verify_reality_handshake_or_warn re d users)) ?h1 v ?h1"
    "v \<noteq> Ran HandshakeRejected"
    using ad_runs_same [of _ ?h1] by metis
  show ?thesis
    unfolding go_live_def Let_def
    by (rule ad_runs_bind [OF ad_runs_reload [OF a]], simp, rule ad_runs_bind [OF v(1)], simp add: v(2) c)
qed

lemma healthy_go_live:
  assumes "healthy kit re d h"
  shows "\<exists>h'. ad_runs (go_live kit re d users False doc None) h True h'
    \<and> only_changes {stamp_file d, stamp_tmp (re_process re) (stamp_file d)} (host_fs h) (host_fs h')"
proof -
  let ?p = "singbox_config_file d" and ?pr = "re_process re"
  let ?h1 = "restarted (singbox_config_file d) h"
  have fs1: "host_fs ?h1 = host_fs h" by (simp add: restarted_def)
  define fs2 where "fs2 = put (stamp_file d)
      (Some ((opened ?pr 0x180 (stamp_tmp ?pr (stamp_file d)) (host_fs h))\<lparr>nd_bytes := rendered_config_fingerprint kit doc\<rparr>))
      (put (stamp_tmp ?pr (stamp_file d)) None (host_fs h))"
  have d: "fs_dirs (host_fs h) (fst (stamp_file d)) \<noteq> None"
    using assms by (simp add: healthy_def applied_config_stamp_path_def)
  have c: "ad_runs (ad_io StampFailed (commit_applied_config_stamp ?pr ?p (rendered_config_fingerprint kit doc))) ?h1 ()
      (set_fs ?h1 fs2)"
    unfolding commit_applied_config_stamp_def
    by (rule ad_runs_io) (use fs_runs_commit_stamp [OF d] in \<open>simp add: fs1 fs2_def\<close>)
  have "ad_runs (go_live kit re d users False doc None) h True (set_fs ?h1 fs2)"
    by (rule healthy_until_stamp [OF assms], rule ad_runs_bind [OF c], rule ad_runs_return)
  moreover have "only_changes {stamp_file d, stamp_tmp ?pr (stamp_file d)} (host_fs h) (host_fs (set_fs ?h1 fs2))"
    by (auto simp: only_changes_def fs2_def)
  ultimately show ?thesis by blast
qed

text \<open>The stamp cannot be opened.\<close>

lemma unstamped_go_live:
  assumes "healthy kit re d h"
  shows "ad_ends True (go_live kit re d users False doc None) h (Inl (StampFailed Io)) (restarted (singbox_config_file d) h)"
proof (rule healthy_until_stamp [OF assms], rule ad_ends_stop)
  show "ad_ends True (ad_io StampFailed (commit_applied_config_stamp (re_process re) (singbox_config_file d)
        (rendered_config_fingerprint kit doc))) (restarted (singbox_config_file d) h) (Inl (StampFailed Io))
      (restarted (singbox_config_file d) h)"
    unfolding ad_ends_def
    by (rule exI [of _ "[Some 0]"], rule exI [of _ "[]"])
      (auto simp: ad_io_def commit_applied_config_stamp_def commit_stamp_def Let_def write_secret_file_def io_bind_def
        open_truncate_def sys_call_def next_fault_def at_host_def)
qed

definition core_files :: "run_env \<Rightarrow> DeploymentConfig \<Rightarrow> path set" where
  "core_files re d =
     (let c = singbox_config_file d; s = stamp_file d; pr = re_process re in
      {c, tmp_path pr c, config_backup_path c, s, stamp_tmp pr s})"

lemma core_files_touched: "core_files re d \<subseteq> touched re d"
  by (auto simp: core_files_def touched_def Let_def)

lemma core_files_apart:
  "reality_private_key_file d \<notin> core_files re d" "reality_public_key_file d \<notin> core_files re d"
  "(reality_dir d, ''short_id.txt'') \<notin> core_files re d"
  "tls_spoof_dropin_path re = Some p \<Longrightarrow> p \<notin> core_files re d" "spoof_stamp_path d \<notin> core_files re d"
  using dropin_names [of re p]
  by (auto simp: core_files_def Let_def path_defs reality_private_key_file_def reality_public_key_file_def)

lemma healthy_core_change:
  assumes h: "healthy kit re d h" and c: "only_changes (core_files re d) (host_fs h) fs'"
  shows "healthy kit re d (set_fs h fs')"
proof -
  have k: "fs_files fs' q = fs_files (host_fs h) q" if "q \<notin> core_files re d" for q
    by (rule only_changesD(1) [OF c that])
  have b: "split_path (dc_singbox_binary d) \<notin> core_files re d"
    using h core_files_touched by (auto simp: healthy_def)
  have t: "text_answer fs' q = text_answer (host_fs h) q" if "q \<notin> core_files re d" for q
    using k [OF that] by (simp add: text_answer_def file_answer_def)
  have dr: "capability_restart_due kit re d fs' = capability_restart_due kit re d (host_fs h)"
    using t core_files_apart(4) unfolding capability_restart_due_def t [OF core_files_apart(5)]
    by (cases "tls_spoof_dropin_path re") simp_all
  show ?thesis
    using h unfolding healthy_def set_fs_simps dr list.map k [OF core_files_apart(1)] k [OF core_files_apart(2)]
      k [OF core_files_apart(3)] k [OF b] only_changesD(2) [OF c] .
qed

lemma only_changes_mono: "only_changes ps fs fs' \<Longrightarrow> ps \<subseteq> qs \<Longrightarrow> only_changes qs fs fs'"
  unfolding only_changes_def by blast

text \<open>The files already say that the document is applied.\<close>

definition in_step :: "tools \<Rightarrow> DeploymentConfig \<Rightarrow> filesys \<Rightarrow> json \<Rightarrow> bool" where
  "in_step kit d fs doc \<longleftrightarrow>
     (case file_answer fs (singbox_config_file d) of Inl _ \<Rightarrow> False | Inr b \<Rightarrow> tl_parse kit b = Some doc)
     \<and> (case text_answer fs (stamp_file d) of Inl _ \<Rightarrow> False | Inr t \<Rightarrow> trim t = rendered_config_fingerprint kit doc)"

lemma healthy_apply_document:
  assumes h: "healthy kit re d h" and ok: "tl_check kit (tl_pretty kit doc) = Inr ()"
  obtains h1 where "healthy kit re d h1" "only_changes (core_files re d) (host_fs h) (host_fs h1)"
    "\<And>faulty r h2. ad_ends faulty (go_live kit re d users False doc None) h1 r h2 \<Longrightarrow>
       ad_ends faulty (apply_document kit re d users True False doc) h
         (if in_step kit d (host_fs h) doc then Inr True else r) (if in_step kit d (host_fs h) doc then h else h2)"
proof -
  let ?p = "singbox_config_file d" and ?pr = "re_process re"
  have a: "ho_answers h = []" and d: "fs_dirs (host_fs h) (fst ?p) \<noteq> None"
    using h by (simp_all add: healthy_def)
  note caps = healthy_caps [OF h]
  note c = ad_runs_try_same [OF try_read(1) [of ?p "host_fs h"]]
    and s = ad_runs_try_same [OF try_read(2) [of "stamp_file d" "host_fs h"]]
  obtain r0 where r0: "ad_runs (sync_tls_spoof_capability_dropin re d :: (AdminError, DropinSync) admin) h r0 h"
    "r0 = SyncUnchanged \<or> r0 = SyncSkipped"
    using healthy_dropin [OF h] by blast
  obtain fs1 where w: "fs_runs (apply_config_atomically (tl_pretty kit) (tl_check kit) ?pr doc ?p) (host_fs h) () fs1"
    "only_changes {?p, tmp_path ?pr ?p, config_backup_path ?p} (host_fs h) fs1"
    using fs_runs_apply_config [of "host_fs h" ?p "tl_check kit" "tl_pretty kit" doc ?pr] d ok by blast
  let ?h1 = "set_fs h fs1"
  have w': "only_changes (core_files re d) (host_fs h) fs1"
    by (rule only_changes_mono [OF w(2)]) (auto simp: core_files_def Let_def)
  have h1: "healthy kit re d ?h1" by (rule healthy_core_change [OF h w'])
  have swap: "ad_runs (ad_io ConfigFailed (apply_config_atomically (tl_pretty kit) (tl_check kit) ?pr doc ?p)) h () ?h1"
    by (rule ad_runs_io [OF w(1)])
  have a1: "ho_answers ?h1 = []" using a by simp
  have asked: "ad_runs (if q then unit_is_active else tr_return False :: (AdminError, bool) admin) h q h" for q
    by (cases q) (simp_all add: ad_runs_service(3) [OF a] ad_runs_return)
  have fresh: "r0 \<noteq> SyncChanged" using r0(2) by auto
  have "ad_ends faulty (apply_document kit re d users True False doc) h
      (if in_step kit d (host_fs h) doc then Inr True else r) (if in_step kit d (host_fs h) doc then h else h2)"
    if g: "ad_ends faulty (go_live kit re d users False doc None) ?h1 r h2" for faulty r h2
    unfolding apply_document_def Let_def
    apply (rule ad_runs_bind [OF c], rule ad_runs_bind [OF s], rule ad_runs_bind [OF r0(1)])
    apply (simp only: fresh if_False simp_thms)
    apply (rule ad_runs_bind [OF caps], simp only: simp_thms, rule ad_runs_bind [OF asked])
    apply (simp only: in_step_def [symmetric])
    apply (cases "in_step kit d (host_fs h) doc")
    subgoal by (simp only: if_True simp_thms ad_runs_return)
    apply (simp only: if_False simp_thms)
    apply (rule ad_runs_bind [OF swap], rule ad_runs_bind [OF ad_runs_service(1) [OF a1]], simp only: simp_thms if_False)
    by (rule ad_runs_bind [OF ad_runs_service(2) [OF a1]], simp only: simp_thms if_False, rule g)
  with h1 w' show thesis by (intro that [of ?h1]) simp_all
qed

text \<open>The document that the files of the node give for the users, and the core's acceptance of what
  may be rendered for them.\<close>

definition renders_as :: "tools \<Rightarrow> run_env \<Rightarrow> DeploymentConfig \<Rightarrow> CompatUser list \<Rightarrow> filesys \<Rightarrow> json \<Rightarrow> bool" where
  "renders_as kit re d users fs doc \<longleftrightarrow>
     (\<exists>reality hysteria. fs_runs (load_reality_params kit d) fs reality fs \<and> fs_runs (load_hysteria_params d) fs hysteria fs
        \<and> render_server_config_for_deployment (tl_b64 kit) d users reality hysteria (re_now re) = Inr doc)"

definition core_accepts :: "tools \<Rightarrow> run_env \<Rightarrow> DeploymentConfig \<Rightarrow> CompatUser list \<Rightarrow> filesys \<Rightarrow> bool" where
  "core_accepts kit re d users fs \<longleftrightarrow> (\<forall>doc. candidate kit re d users fs doc \<longrightarrow> tl_check kit (tl_pretty kit doc) = Inr ())"

lemma renders_as_candidate: "renders_as kit re d users fs doc \<Longrightarrow> candidate kit re d users fs doc"
  unfolding renders_as_def candidate_def using fs_runs_reads by metis

lemma healthy_apply:
  assumes h: "healthy kit re d h" and ok: "core_accepts kit re d users (host_fs h)"
    and v: "validate_deployment (tl_b64 kit) d = Inr ()" "validate_authorization_set (projected users) = Inr ()"
  obtains doc h1 where "renders_as kit re d users (host_fs h) doc"
    "healthy kit re d h1" "only_changes (core_files re d) (host_fs h) (host_fs h1)"
    "\<And>faulty r h2 live. ad_ends faulty (go_live kit re d users False doc None) h1 r h2 \<Longrightarrow>
       ad_ends faulty (render_and_apply_singbox_config kit re d users live) h
         (if in_step kit d (host_fs h) doc then Inr True else r) (if in_step kit d (host_fs h) doc then h else h2)"
proof -
  have a: "ho_answers h = []" and b: "fs_files (host_fs h) (split_path (dc_singbox_binary d)) \<noteq> None"
    using h by (simp_all add: healthy_def)
  obtain reality where k: "fs_runs (load_reality_params kit d) (host_fs h) reality (host_fs h)"
    using healthy_keys(1) [OF h] by blast
  obtain hysteria where y: "fs_runs (load_hysteria_params d) (host_fs h) hysteria (host_fs h)"
    using healthy_keys(2) [OF h] by blast
  obtain doc where doc: "render_server_config_for_deployment (tl_b64 kit) d users reality hysteria (re_now re) = Inr doc"
    using render_succeeds [of "tl_b64 kit" d users reality hysteria "re_now re"] v by blast
  have ra: "renders_as kit re d users (host_fs h) doc" unfolding renders_as_def using k y doc by blast
  then have c: "tl_check kit (tl_pretty kit doc) = Inr ()"
    using ok renders_as_candidate by (auto simp: core_accepts_def)
  obtain h1 where h1: "healthy kit re d h1" "only_changes (core_files re d) (host_fs h) (host_fs h1)"
    "\<And>faulty r h2. ad_ends faulty (go_live kit re d users False doc None) h1 r h2 \<Longrightarrow>
       ad_ends faulty (apply_document kit re d users True False doc) h
         (if in_step kit d (host_fs h) doc then Inr True else r) (if in_step kit d (host_fs h) doc then h else h2)"
    using healthy_apply_document [OF h c, of users] by blast
  have bin: "ad_runs (ad_io NoKeyset (path_exists (split_path (dc_singbox_binary d)))) h True h"
    by (rule ad_runs_same) (use fs_runs_path_exists [of "split_path (dc_singbox_binary d)" "host_fs h"] b in simp)
  have svc: "ad_runs (tr_bind is_available (\<lambda>a. if a then is_unit_installed else tr_return False) :: (AdminError, bool) admin) h True h"
    by (rule ad_runs_bind [OF ad_runs_service(1) [OF a]], simp only: if_True, rule ad_runs_service(2) [OF a])
  have "ad_ends faulty (render_and_apply_singbox_config kit re d users live) h r h2"
    if "ad_ends faulty (apply_document kit re d users True False doc) h r h2" for faulty live r h2
    unfolding render_and_apply_singbox_config_def render_and_apply_singbox_config_with_def
    by (rule ad_runs_bind [OF ad_runs_try_same [OF fs_runs_try [OF k]]], simp only: sum.case,
        rule ad_runs_bind [OF ad_runs_same [OF y]], simp only: doc sum.case, rule ad_runs_bind [OF bin],
        simp only: simp_thms if_False, rule ad_runs_bind [OF svc], simp only: simp_thms if_False, rule that)
  from that [OF ra h1(1,2) this [OF h1(3)]] show thesis .
qed

text \<open>When no call fails, the transaction on such a node goes live; it restarts nothing when the files
  are in step.\<close>

lemma healthy_transaction:
  assumes h: "healthy kit re d h" and ok: "core_accepts kit re d users (host_fs h)"
    and v: "validate_deployment (tl_b64 kit) d = Inr ()" "validate_authorization_set (projected users) = Inr ()"
  obtains doc h' where "renders_as kit re d users (host_fs h) doc"
    "ad_runs (apply_users_and_save kit re re_back d previous users) h True h'"
    "in_step kit d (host_fs h) doc \<longrightarrow> ho_restarts h' = ho_restarts h \<and> ho_loaded h' = ho_loaded h"
proof -
  obtain doc h1 where h1: "renders_as kit re d users (host_fs h) doc"
    "healthy kit re d h1" "only_changes (core_files re d) (host_fs h) (host_fs h1)"
    "\<And>faulty r h2 live. ad_ends faulty (go_live kit re d users False doc None) h1 r h2 \<Longrightarrow>
       ad_ends faulty (render_and_apply_singbox_config kit re d users live) h
         (if in_step kit d (host_fs h) doc then Inr True else r) (if in_step kit d (host_fs h) doc then h else h2)"
    using healthy_apply [OF assms] by blast
  obtain h2 where g: "ad_runs (go_live kit re d users False doc None) h1 True h2"
    "only_changes {stamp_file d, stamp_tmp (re_process re) (stamp_file d)} (host_fs h1) (host_fs h2)"
    using healthy_go_live [OF h1(2), of users doc] by blast
  let ?h3 = "if in_step kit d (host_fs h) doc then h else h2"
  have r: "ad_runs (render_and_apply_singbox_config kit re d users True) h True ?h3"
    using h1(4) [OF g(1)] by (simp split: if_splits)
  have "fs_dirs (host_fs ?h3) (fst (users_file d)) \<noteq> None"
    using h only_changesD(2) [OF h1(3)] only_changesD(2) [OF g(2)] by (simp add: healthy_def)
  then obtain fs2 where "fs_runs (save_users_atomic (tl_users_ser kit) (re_process re) (users_file d) users) (host_fs ?h3) () fs2"
    using fs_runs_save_users by blast
  then have s: "ad_runs (ad_try (save_users_atomic (tl_users_ser kit) (re_process re) (users_file d) users) :: (AdminError, FsError + unit) admin)
      ?h3 (Inr ()) (set_fs ?h3 fs2)"
    by (intro ad_runs_try fs_runs_try)
  have "ad_runs (apply_users_and_save kit re re_back d previous users) h True (set_fs ?h3 fs2)"
    unfolding apply_users_and_save_def
    by (rule ad_runs_bind [OF r], rule ad_runs_bind [OF s], simp only: sum.case, rule ad_runs_return)
  with h1(1) show thesis by (intro that [of doc "set_fs ?h3 fs2"]) simp_all
qed

text \<open>Reading the store.\<close>

lemma ad_runs_load_store:
  assumes "store_is kit d (state_of h) users"
  shows "ad_runs (ad_io LoadFailed (load_store kit d)) h users h"
proof -
  let ?n = "fs_files (host_fs h) (users_file d)"
  have s: "stored_users (tl_users_env kit) (tl_users_legacy kit) ?n = Inr users"
    using assms by (simp add: store_is_def users_node_def state_of_def)
  have "fs_runs (load_store kit d) (host_fs h) users (host_fs h)"
    unfolding load_store_def load_users_def
    by (rule fs_runs_bind [OF fs_runs_exists], cases ?n)
      (use s fs_runs_ret [of "[]" "host_fs h"] in
        \<open>auto simp: stored_users_def intro!: fs_runs_bind [OF fs_runs_read_file] fs_runs_lift\<close>)
  then show ?thesis by (rule ad_runs_same)
qed

section \<open>The example node is healthy\<close>

lemma example_healthy: "healthy (stored_kit us) example_run example_exit (example_host [] [])"
proof -
  have "tls_spoof_dropin_path example_run = None"
    by (simp add: tls_spoof_dropin_path_def systemd_system_dir_def example_run_def)
  moreover have "reality_private_key_file example_exit = (''/etc/vpn/reality'', ''private.key'')"
    "reality_public_key_file example_exit = (''/etc/vpn/reality'', ''public.key'')"
    "reality_dir example_exit = ''/etc/vpn/reality''"
    "split_path (dc_singbox_binary example_exit) = (''/usr/bin'', ''sing-box'')"
    "fst (singbox_config_file example_exit) = ''/etc/vpn/sing-box''"
    "fst (users_file example_exit) = ''/etc/vpn/users''"
    by (simp_all add: reality_private_key_file_def reality_public_key_file_def reality_dir_def join_dir_def
        example_exit_def example_relay_def split_path_def singbox_config_file_def users_file_def Let_def)
  moreover have "(''/usr/bin'', ''sing-box'') \<notin> touched example_run example_exit"
    using calculation by (simp add: touched_def Let_def path_defs)
  moreover have "dc_google_egress_tls_spoof example_exit = None" by (simp add: example_exit_def example_relay_def)
  then have "\<not> capability_restart_due (stored_kit us) example_run example_exit (host_fs (example_host [] []))"
    using calculation(1) by (simp add: capability_restart_due_def running_singbox_lacks_spoof_capabilities_def)
  moreover have "list_all utf8_ok [''priv'', ''pub'', ''ab'']" by (simp add: utf8_char_def Let_def)
  ultimately show ?thesis
    by (simp add: healthy_def example_host_def example_files_def example_dirs_def example_file_def stored_kit_def example_run_def)
qed

lemma example_core_accepts: "core_accepts (stored_kit us) re d users fs"
  by (simp add: core_accepts_def stored_kit_def)

lemma example_stamp_sound: "stamp_sound (stored_kit us) d s"
  by (simp add: stamp_sound_def stored_kit_def split: option.split)

lemma example_valid: "validate_deployment (tl_b64 (stored_kit us)) example_exit = Inr ()"
  by (simp add: stored_kit_def example_exit_valid)

lemma example_store: "store_is (stored_kit us) example_exit (state_of (at_host (example_host [] []) script [])) us"
  "store_is (stored_kit us) example_exit (state_of (example_host [] [])) us"
proof -
  have n: "fs_files (host_fs (example_host [] [])) (users_file example_exit) = Some (example_file ''before'')"
    by (simp add: example_host_def example_files_def users_file_def join_dir_def example_exit_def example_relay_def)
  have "parse_users_bytes (tl_users_env (stored_kit us)) (tl_users_legacy (stored_kit us)) ''before'' = Inr us"
    by (simp add: parse_users_bytes_def stored_kit_def USERS_SCHEMA_VERSION_def)
  with n show "store_is (stored_kit us) example_exit (state_of (at_host (example_host [] []) script [])) us"
    "store_is (stored_kit us) example_exit (state_of (example_host [] [])) us"
    by (simp_all add: store_is_def stored_users_def users_node_def state_of_def example_file_def)
qed

text \<open>A command on the example node that stores the users \<open>us\<close>.\<close>

lemma example_edit:
  assumes "edit us = Inr us'" "validate_authorization_set (projected us') = Inr ()"
  obtains script h' t where "edit_and_apply (stored_kit us) example_run example_run example_exit edit
    (at_host (example_host [] []) script []) = (h', t, Inr True)"
proof -
  obtain h1 where "ad_runs (apply_users_and_save (stored_kit us) example_run example_run example_exit us us')
      (example_host [] []) True h1"
    by (rule healthy_transaction [OF example_healthy example_core_accepts example_valid assms(2)])
  from ad_ends_lift [OF this]
  have "ad_runs (edit_and_apply (stored_kit us) example_run example_run example_exit edit) (example_host [] []) True h1"
    unfolding edit_and_apply_def
    by (intro ad_runs_bind [OF ad_runs_load_store [OF example_store(2)]]) (simp add: assms(1))
  then show thesis by (rule ad_endsE) (rule that)
qed

lemma example_applies:
  assumes "validate_authorization_set (projected users) = Inr ()"
  obtains h1 where "ad_runs (render_and_apply_singbox_config (stored_kit us) example_run example_exit users live)
    (example_host [] []) True h1"
proof -
  obtain doc h1 where h1: "renders_as (stored_kit us) example_run example_exit users (host_fs (example_host [] [])) doc"
    "healthy (stored_kit us) example_run example_exit h1"
    "only_changes (core_files example_run example_exit) (host_fs (example_host [] [])) (host_fs h1)"
    "\<And>faulty r h2 live. ad_ends faulty (go_live (stored_kit us) example_run example_exit users False doc None) h1 r h2 \<Longrightarrow>
       ad_ends faulty (render_and_apply_singbox_config (stored_kit us) example_run example_exit users live) (example_host [] [])
         (if in_step (stored_kit us) example_exit (host_fs (example_host [] [])) doc then Inr True else r)
         (if in_step (stored_kit us) example_exit (host_fs (example_host [] [])) doc then example_host [] [] else h2)"
    using healthy_apply [OF example_healthy example_core_accepts example_valid assms] by blast
  obtain h2 where "ad_runs (go_live (stored_kit us) example_run example_exit users False doc None) h1 True h2"
    using healthy_go_live [OF h1(2)] by blast
  from h1(4) [OF this, of live] show thesis by (intro that) (simp split: if_splits)
qed

end
