(* ===== verification/NodeGuarantees.thy ===== *)
theory NodeGuarantees
  imports NodeRuns
begin

text \<open>
  What the operator may rely on: what a run of \<open>vpn-admin\<close> says about the running core, how the user
  store follows it, that a healthy node accepts a change, and the cases in which a command reports
  more than it did.
\<close>

section \<open>Properties\<close>

text \<open>C2: A run of the apply path says the truth about the running core. If the stamp was sound before,
  then a run that answers \<open>true\<close> leaves the core running, and the configuration file holding, the
  document rendered for these users from the key files, and the stamp sound; a run that answers
  \<open>false\<close> leaves the loaded configuration as it was; a refusal leaves configuration file, stamp
  and loaded configuration as they were; and after any error that does not report a failed
  recovery the stamp is sound.\<close>

theorem live_apply_runs_document:
  assumes "stamp_sound kit d (state_of h)"
    and "render_and_apply_singbox_config_with kit re d users require_live strict h = (h', t, r)"
  shows "(case r of
      Inr went_live \<Rightarrow>
        if went_live
        then \<exists>doc. candidate kit re d users (host_fs h) doc \<and> denotes kit (config_bytes d (state_of h')) doc
          \<and> denotes kit (ho_loaded h') doc \<and> stamp_sound kit d (state_of h')
        else ho_loaded h' = ho_loaded h
    | Inl e \<Rightarrow>
        (refused e \<longrightarrow> ho_loaded h' = ho_loaded h
          \<and> fs_files (host_fs h') (singbox_config_file d) = fs_files (host_fs h) (singbox_config_file d)
          \<and> fs_files (host_fs h') (stamp_file d) = fs_files (host_fs h) (stamp_file d))
        \<and> (unrecovered e \<or> stamp_sound kit d (state_of h')))"
proof (cases r)
  case (Inl e)
  have f: "failed_run kit re d users (state_of h) e (state_of h')"
    using htD(3) [OF triple_apply [OF assms(1)] refl assms(2)] Inl by simp
  have "stamp_sound kit d (state_of h')" if "refused e"
  proof -
    have e: "fs_files (fst (state_of h')) (singbox_config_file d) = fs_files (fst (state_of h)) (singbox_config_file d)"
      "fs_files (fst (state_of h')) (stamp_file d) = fs_files (fst (state_of h)) (stamp_file d)"
      "snd (state_of h') = snd (state_of h)"
      using f that by (simp_all add: run_err_def at_rest_def file_is_def)
    show ?thesis using assms(1) unfolding stamp_sound_def config_bytes_def e .
  qed
  with f Inl show ?thesis
    by (auto simp: run_err_def at_rest_def file_is_def state_of_def intro: stamp_sound_runs_file split: if_splits)
next
  case (Inr live)
  with htD(2) [OF triple_apply [OF assms(1)] refl assms(2)] show ?thesis
    by (auto simp: applied_def run_ok_def state_of_def)
qed

theorem live_apply_runs_document_witness:
  "\<exists>script h' t. render_and_apply_singbox_config_with example_kit example_run example_exit [example_user] True False
      (at_host (example_host [] []) script []) = (h', t, Inr True) \<and> ho_loaded h' = Some ''doc''"
proof -
  have v: "validate_authorization_set (projected [example_user]) = Inr ()"
    by (simp add: projected_def example_user_def starts_with_def validate_no_authorizations)
  obtain h1 where "ad_runs (render_and_apply_singbox_config example_kit example_run example_exit [example_user] True)
      (example_host [] []) True h1"
    by (rule example_applies [OF v])
  then obtain script t tr' where run: "render_and_apply_singbox_config_with example_kit example_run example_exit
      [example_user] True False (at_host (example_host [] []) script []) = (at_host h1 [] tr', t, Inr True)"
    unfolding render_and_apply_singbox_config_def by (rule ad_endsE )
  from live_apply_runs_document [OF example_stamp_sound run] have "ho_loaded h1 = Some ''doc''"
    by (auto simp: denotes_def stored_kit_def split: option.splits)
  then have "ho_loaded (at_host h1 [] tr') = Some ''doc''" by simp
  with run show ?thesis by blast
qed

text \<open>C1: The user store follows the core. In every state the transaction passes through, a crash
  included, the store is the old one or, completely written, the new one, and when the
  transaction reports the change live, every state with the new store runs the document rendered
  for it. At the end, success means the new store, running when reported live; any error means
  the old store.\<close>

theorem store_follows_core:
  assumes "stamp_sound kit d (state_of h)"
    and "apply_users_and_save kit re re_back d previous users h = (h', t, r)"
  shows "list_all (\<lambda>s. users_node d s = users_node d (state_of h)
      \<or> published kit d users s \<and> (r = Inr True \<longrightarrow> runs_candidate kit re d users (host_fs h) s)) t
    \<and> (case r of
         Inl _ \<Rightarrow> users_node d (state_of h') = users_node d (state_of h)
       | Inr went_live \<Rightarrow> published kit d users (state_of h')
           \<and> (if went_live then runs_candidate kit re d users (host_fs h) (state_of h')
              else ho_loaded h' = ho_loaded h))"
  using transaction_spec [OF assms]
  by (auto simp: committed_def passes_through_def list_all_iff state_of_def split: sum.splits)

theorem store_follows_core_witness:
  "\<exists>script h' t. apply_users_and_save example_kit example_run example_run example_exit [example_user, example_probe]
      [example_user] (at_host (example_host [] []) script []) = (h', t, Inr True)
    \<and> published example_kit example_exit [example_user] (state_of h')
    \<and> list_all (\<lambda>s. users_node example_exit s = Some (example_file ''before'') \<or> published example_kit example_exit [example_user] s) t"
proof -
  have v: "validate_authorization_set (projected [example_user]) = Inr ()"
    by (simp add: projected_def example_user_def starts_with_def validate_no_authorizations)
  obtain h1 where "ad_runs (apply_users_and_save example_kit example_run example_run example_exit
      [example_user, example_probe] [example_user]) (example_host [] []) True h1"
    by (rule healthy_transaction [OF example_healthy example_core_accepts example_valid v])
  then obtain script t tr' where run: "apply_users_and_save example_kit example_run example_run example_exit
      [example_user, example_probe] [example_user] (at_host (example_host [] []) script []) = (at_host h1 [] tr', t, Inr True)"
    by (rule ad_endsE )
  have "users_node example_exit (state_of (at_host (example_host [] []) script [])) = Some (example_file ''before'')"
    by (simp add: users_node_def state_of_def example_host_def example_files_def users_file_def join_dir_def
        example_exit_def example_relay_def)
  with store_follows_core [OF example_stamp_sound run] run show ?thesis
    by (intro exI [of _ script] exI [of _ "at_host h1 [] tr'"] exI [of _ t]) (auto simp: list_all_iff)
qed

text \<open>C3: Disabling a user takes effect before it is recorded. If the store had distinct identifiers and
  \<open>user disable\<close> reports the change live, the running core admits, in both transports, exactly the
  active principals of the other users, the store records the user disabled, and in every state on
  the way the store is unchanged or the core already admits only those principals.\<close>

theorem disable_reaches_core:
  assumes "stamp_sound kit d (state_of h)" "store_is kit d (state_of h) users" "distinct (map u_id users)"
    and "cmd_user_set_enabled kit re re_back d id' False h = (h', t, Inr True)"
  shows "admits kit (ho_loaded h')
      (concat (map (\<lambda>u. active_principal_ids u (re_now re)) (filter (\<lambda>u. u_id u \<noteq> id') users)))
    \<and> published kit d (map (\<lambda>u. if u_id u = id' then u\<lparr>u_enabled := False\<rparr> else u) users) (state_of h')
    \<and> list_all (\<lambda>s. users_node d s = users_node d (state_of h) \<or> admits kit (snd s)
        (concat (map (\<lambda>u. active_principal_ids u (re_now re)) (filter (\<lambda>u. u_id u \<noteq> id') users)))) t"
  using assms(1) assms(4) [unfolded cmd_user_set_enabled_def]
proof (cases rule: edit_and_apply_cases)
  case (ran users0 users' q)
  have q: "q = Inr True" using ran(1) by (cases q) simp_all
  have "users0 \<noteq> []" using ran(3) by auto
  then have u0: "users0 = users" using reads_store [OF ran(2) assms(2)] by simp
  have u': "users' = map (\<lambda>u. if u_id u = id' then u\<lparr>u_enabled := False\<rparr> else u) users"
    by (rule update_user_Inr(1) [OF ran(3) [unfolded u0] assms(3)])
  let ?n = "re_now re"
  have adm: "admits kit (snd s) (concat (map (\<lambda>u. active_principal_ids u ?n) (filter (\<lambda>u. u_id u \<noteq> id') users)))"
    if "runs_candidate kit re d users' fs s" for fs s
    using candidate_admits [OF that] unfolding u' disabled_principals .
  show ?thesis
    using ran(4,5) adm unfolding q u' [symmetric]
    by (auto simp: committed_def passes_through_def list_all_iff state_of_def)
qed simp_all

theorem disable_reaches_core_witness:
  "\<exists>script h' t. cmd_user_set_enabled example_kit example_run example_run example_exit ''user_1'' False
      (at_host (example_host [] []) script []) = (h', t, Inr True) \<and> admits example_kit (ho_loaded h') [''probe_1'']"
proof -
  have v: "validate_authorization_set (projected [example_user\<lparr>u_enabled := False\<rparr>, example_probe]) = Inr ()"
    by (simp add: projected_def example_user_def example_probe_def starts_with_def validate_no_authorizations)
  have "update_user ''user_1'' (\<lambda>u. u\<lparr>u_enabled := False\<rparr>) [example_user, example_probe]
      = Inr [example_user\<lparr>u_enabled := False\<rparr>, example_probe]"
    by (simp add: example_user_def)
  then obtain script h' t where run: "cmd_user_set_enabled example_kit example_run example_run example_exit ''user_1'' False
      (at_host (example_host [] []) script []) = (h', t, Inr True)"
    unfolding cmd_user_set_enabled_def by (rule example_edit [OF _ v])
  have "distinct (map u_id [example_user, example_probe])" by (simp add: example_user_def example_probe_def)
  from disable_reaches_core [OF example_stamp_sound example_store(1) this run]
  have "admits example_kit (ho_loaded h') (concat (map (\<lambda>u. active_principal_ids u (re_now example_run))
      (filter (\<lambda>u. u_id u \<noteq> ''user_1'') [example_user, example_probe])))" by simp
  moreover have "concat (map (\<lambda>u. active_principal_ids u (re_now example_run))
      (filter (\<lambda>u. u_id u \<noteq> ''user_1'') [example_user, example_probe])) = [''probe_1'']"
    using example_principals(4) by (simp add: example_user_def example_probe_def example_run_def)
  ultimately show ?thesis using run by metis
qed

text \<open>C4: A healthy node accepts a change. When the keys, the binary and the directories are in place, the
  service manager answers, the TLS spoof needs no capability restart (its drop-in is in place, or
  unmanaged, and a core that lacks the capabilities was already restarted for it), the self-test
  of the restarted core does not reject the handshake, the core accepts what is rendered for the
  users and the deployment and the authorizations are valid, there is a number of system calls such
  that, if these succeed, the transaction returns, reports the change live, has published the store
  and leaves the core running the document rendered for it.\<close>

theorem healthy_node_goes_live:
  assumes "healthy kit re d h" "stamp_sound kit d (state_of h)" "core_accepts kit re d users (host_fs h)"
    and "validate_deployment (tl_b64 kit) d = Inr ()" "validate_authorization_set (projected users) = Inr ()"
  shows "\<exists>n. \<forall>rest tr. \<exists>h' t.
    apply_users_and_save kit re re_back d previous users (at_host h (replicate n None @ rest) tr) = (h', t, Inr True)
    \<and> published kit d users (state_of h') \<and> runs_candidate kit re d users (host_fs h) (state_of h')"
proof -
  obtain h' where "ad_runs (apply_users_and_save kit re re_back d previous users) h True h'"
    by (rule healthy_transaction [OF assms(1,3,4,5)])
  from ad_ends_always [OF this] obtain n t where
    n: "\<And>rest tr. \<exists>tr'. apply_users_and_save kit re re_back d previous users (at_host h (replicate n None @ rest) tr)
      = (at_host h' rest tr', t, Inr True)" by blast
  have "\<exists>h'' t. apply_users_and_save kit re re_back d previous users (at_host h (replicate n None @ rest) tr) = (h'', t, Inr True)
    \<and> published kit d users (state_of h'') \<and> runs_candidate kit re d users (host_fs h) (state_of h'')" for rest tr
  proof -
    obtain tr' where run: "apply_users_and_save kit re re_back d previous users (at_host h (replicate n None @ rest) tr)
      = (at_host h' rest tr', t, Inr True)" using n by blast
    have "stamp_sound kit d (state_of (at_host h (replicate n None @ rest) tr))" using assms(2) by simp
    from transaction_spec(1) [OF this run] run show ?thesis
      unfolding committed_def by (auto simp: state_of_def)
  qed
  then show ?thesis by blast
qed

theorem healthy_node_goes_live_witness:
  "\<exists>n. \<forall>rest tr. \<exists>h' t. apply_users_and_save example_kit example_run example_run example_exit
      [example_user, example_probe] [example_user] (at_host (example_host [] []) (replicate n None @ rest) tr) = (h', t, Inr True)
    \<and> published example_kit example_exit [example_user] (state_of h')
    \<and> runs_candidate example_kit example_run example_exit [example_user] (host_fs (example_host [] [])) (state_of h')"
proof -
  have v: "validate_authorization_set (projected [example_user]) = Inr ()"
    by (simp add: projected_def example_user_def starts_with_def validate_no_authorizations)
  show ?thesis
    by (rule healthy_node_goes_live [OF example_healthy example_stamp_sound example_core_accepts example_valid v])
qed

section \<open>Commands that report more than they did\<close>

text \<open>C26: A record of the applied configuration that cannot be written undoes the transaction in half.
  Whenever the transaction ends with that error, the core already runs the document for the new
  users while the store is the old one, and nothing is rolled back.\<close>

theorem failed_stamp_leaves_core_ahead:
  assumes "stamp_sound kit d (state_of h)"
    and "apply_users_and_save kit re re_back d previous users h = (h', t, Inl (StampFailed e))"
  shows "users_node d (state_of h') = users_node d (state_of h)
    \<and> runs_candidate kit re d users (host_fs h) (state_of h')"
proof
  show "users_node d (state_of h') = users_node d (state_of h)"
    using transaction_spec(1) [OF assms] by (simp add: committed_def)
  from assms(2) [unfolded apply_users_and_save_def]
  show "runs_candidate kit re d users (host_fs h) (state_of h')"
  proof (cases rule: tr_bind_cases)
    case (stop e')
    with htD(3) [OF triple_apply_plain [OF assms(1)] refl stop(1)] show ?thesis
      by (auto simp: run_err_def runs_candidate_def state_of_def)
  next
    case (step h1 t1 live t2)
    from step(2) show ?thesis
      by (auto simp: tr_bind_def tr_fail_def tr_return_def ad_try_def attempt_def split: prod.splits sum.splits)
  qed
qed

theorem failed_stamp_leaves_core_ahead_witness:
  "\<exists>script h' t. apply_users_and_save example_kit example_run example_run example_exit [example_user, example_probe]
      [example_user] (at_host (example_host [] []) script []) = (h', t, Inl (StampFailed Io))
    \<and> users_node example_exit (state_of h') = Some (example_file ''before'')
    \<and> runs_candidate example_kit example_run example_exit [example_user] (host_fs (example_host [] [])) (state_of h')"
proof -
  let ?h = "example_host [] []"
  have v: "validate_authorization_set (projected [example_user]) = Inr ()"
    by (simp add: projected_def example_user_def starts_with_def validate_no_authorizations)
  obtain doc h1 where h1: "healthy example_kit example_run example_exit h1"
    "\<And>faulty r h2 live. ad_ends faulty (go_live example_kit example_run example_exit [example_user] False doc None) h1 r h2 \<Longrightarrow>
       ad_ends faulty (render_and_apply_singbox_config example_kit example_run example_exit [example_user] live) ?h
         (if in_step example_kit example_exit (host_fs ?h) doc then Inr True else r)
         (if in_step example_kit example_exit (host_fs ?h) doc then ?h else h2)"
    using healthy_apply [OF example_healthy example_core_accepts example_valid v] by metis
  have "\<not> in_step example_kit example_exit (host_fs ?h) doc"
    by (simp add: in_step_def stored_kit_def split: sum.split)
  with h1(2) [OF unstamped_go_live [OF h1(1)], of True]
  have "ad_ends True (apply_users_and_save example_kit example_run example_run example_exit [example_user, example_probe]
      [example_user]) ?h (Inl (StampFailed Io)) (restarted (singbox_config_file example_exit) h1)"
    unfolding apply_users_and_save_def by (intro ad_ends_stop) simp
  then obtain script t tr' where run: "apply_users_and_save example_kit example_run example_run example_exit
      [example_user, example_probe] [example_user] (at_host ?h script [])
      = (at_host (restarted (singbox_config_file example_exit) h1) [] tr', t, Inl (StampFailed Io))"
    by (rule ad_endsE)
  have "users_node example_exit (state_of (at_host ?h script [])) = Some (example_file ''before'')"
    by (simp add: users_node_def state_of_def example_host_def example_files_def users_file_def join_dir_def
        example_exit_def example_relay_def)
  with failed_stamp_leaves_core_ahead [OF example_stamp_sound run] run show ?thesis
    by (intro exI [of _ script] exI) (auto simp del: at_host_simps(8))
qed

text \<open>C27: Rotation misses the credentials that are rendered. For a user with grants of their own,
  \<open>user rotate-credentials\<close> reports the new credentials applied, and both inbounds of the running core
  list exactly the entries of the store of before.\<close>

theorem rotation_misses_granted_user:
  assumes "stamp_sound kit d (state_of h)" "store_is kit d (state_of h) users" "distinct (map u_id users)"
    and "find (\<lambda>u. u_id u = id') users = Some u" "u_credentials u \<noteq> []"
    and "cmd_user_rotate_credentials kit re re_back d dr id' h = (h', t, Inr True)"
  shows "entries kit (ho_loaded h') (map vless_user (authorized_grants users (re_now re)))
    (map hysteria_user (authorized_grants users (re_now re)))"
  using assms(1) assms(6) [unfolded cmd_user_rotate_credentials_def]
proof (cases rule: edit_and_apply_cases)
  case (ran users0 users' q)
  let ?f = "\<lambda>u. u\<lparr>u_vless_uuid := generate_uuid_v4 (ud_uuid dr),
      u_hysteria2_password := generate_hysteria2_password (tl_hex kit) (ud_password dr)\<rparr>"
  have q: "q = Inr True" using ran(1) by (cases q) simp_all
  have "users0 \<noteq> []" using ran(3) by auto
  then have u0: "users0 = users" using reads_store [OF ran(2) assms(2)] by simp
  have u': "users' = map (\<lambda>u. if u_id u = id' then ?f u else u) users"
    by (rule update_user_Inr(1) [OF ran(3) [unfolded u0] assms(3)])
  note same = find_user [OF assms(3,4)]
  have "same_view now u (?f u)" for now
    using assms(5) by (simp add: same_view_def is_active_def effective_grants_def)
  then have "list_all2 (same_view now) users users'" for now
    unfolding u' list_all2_map2 using same by (auto simp: list_all2_same same_view_def)
  from same_view_users [OF this] have e: "map vless_user (authorized_grants users' (re_now re)) = map vless_user (authorized_grants users (re_now re))"
    "map hysteria_user (authorized_grants users' (re_now re)) = map hysteria_user (authorized_grants users (re_now re))"
    by metis+
  have "runs_candidate kit re d users' (fst (state_of h)) (state_of h')"
    using ran(4) unfolding q by (simp add: committed_def)
  from candidate_entries [OF this] show ?thesis unfolding e by (simp add: state_of_def)
qed simp_all

text \<open>A user with a native lease.\<close>

definition leased_user :: CompatUser where
  "leased_user = example_user\<lparr>u_credentials := [grant_new ''native_1'' Native ''uuid'' ''pw'' 0 2000]\<rparr>"

definition example_draws :: user_draws where
  "example_draws = \<lparr>ud_ids = [replicate 16 7], ud_uuid = replicate 16 1, ud_password = replicate 24 2, ud_token = ''token'',
     ud_principal = replicate 16 3\<rparr>"

theorem rotation_misses_granted_user_witness:
  "\<exists>script h' t. cmd_user_rotate_credentials (stored_kit [leased_user]) example_run example_run example_exit example_draws ''user_1''
      (at_host (example_host [] []) script []) = (h', t, Inr True)
    \<and> entries (stored_kit [leased_user]) (ho_loaded h') (map vless_user (authorized_grants [leased_user] 1000))
        (map hysteria_user (authorized_grants [leased_user] 1000))"
proof -
  let ?f = "\<lambda>u. u\<lparr>u_vless_uuid := generate_uuid_v4 (ud_uuid example_draws),
      u_hysteria2_password := generate_hysteria2_password (tl_hex (stored_kit [leased_user])) (ud_password example_draws)\<rparr>"
  have v: "validate_authorization_set (projected [?f leased_user]) = Inr ()"
    by (simp add: projected_def leased_user_def example_user_def starts_with_def validate_no_authorizations)
  have u: "find (\<lambda>u. u_id u = ''user_1'') [leased_user] = Some leased_user" "u_credentials leased_user \<noteq> []"
    "distinct (map u_id [leased_user])" "re_now example_run = 1000"
    by (simp_all add: leased_user_def example_user_def example_run_def)
  have "update_user ''user_1'' ?f [leased_user] = Inr [?f leased_user]"
    by (simp add: leased_user_def example_user_def)
  then obtain script h' t where run: "cmd_user_rotate_credentials (stored_kit [leased_user]) example_run example_run example_exit
      example_draws ''user_1'' (at_host (example_host [] []) script []) = (h', t, Inr True)"
    unfolding cmd_user_rotate_credentials_def by (rule example_edit [OF _ v])
  from rotation_misses_granted_user [OF example_stamp_sound example_store(1) u(3,1,2) run] run show ?thesis
    unfolding u(4) by blast
qed

text \<open>C28: A store that cannot be looked up is taken for an empty one. If the first system call of
  \<open>user create\<close>, the question whether the store exists, fails, a creation that succeeds leaves a
  store with the new user only, whatever the store held before.\<close>

theorem failed_lookup_empties_store:
  assumes "stamp_sound kit d (state_of h)" "w_script (ho_world h) = Some k # script"
    and "cmd_user_create kit re re_back d dr name expires_at h = (h', t, Inr live)"
  shows "\<exists>i. published kit d [build_new_operator_user kit dr i name expires_at (re_now_start re)] (state_of h')"
proof -
  have l: "ad_io LoadFailed (load_store kit d) h = (h\<lparr>ho_world := (ho_world h)\<lparr>w_script := script\<rparr>\<rparr>, [], Inr [])"
    using assms(2) by (simp add: ad_io_def load_store_def load_users_def exists_file_def metadata_def io_bind_def
        sys_query_def next_fault_def io_ret_def)
  let ?h1 = "h\<lparr>ho_world := (ho_world h)\<lparr>w_script := script\<rparr>\<rparr>"
  let ?add = "add_user kit dr name expires_at (re_now_start re) []"
  have "(case ?add of Inl e \<Rightarrow> tr_fail e | Inr users' \<Rightarrow> lift_admin (apply_users_and_save kit re re_back d [] users')) ?h1
      = (h', t, Inr live)"
    using assms(3) l by (auto simp: cmd_user_create_def edit_and_apply_def tr_bind_def tr_fail_def split: sum.splits prod.splits)
  then obtain users' where u: "?add = Inr users'" "lift_admin (apply_users_and_save kit re re_back d [] users') ?h1 = (h', t, Inr live)"
    by (cases ?add) (auto simp: tr_fail_def)
  obtain i where "users' = [build_new_operator_user kit dr i name expires_at (re_now_start re)]"
    using u(1) by (auto simp: add_user_def rbind_eq_Inr)
  moreover obtain q where q: "apply_users_and_save kit re re_back d [] users' ?h1 = (h', t, Inr q)"
    using u(2) by (auto simp: lift_admin_def map_err_def split: prod.splits sum.splits)
  have "stamp_sound kit d (state_of ?h1)" using assms(1) by (simp add: state_of_def)
  from transaction_spec(1) [OF this q] have "published kit d users' (state_of h')" by (simp add: committed_def)
  ultimately show ?thesis by blast
qed

theorem failed_lookup_empties_store_witness:
  "\<exists>script h' t i. cmd_user_create example_kit example_run example_run example_exit example_draws ''bob'' None
      (at_host (example_host [] []) (Some 0 # script) []) = (h', t, Inr True)
    \<and> published example_kit example_exit [build_new_operator_user example_kit example_draws i ''bob'' None 1000] (state_of h')"
proof -
  let ?h = "example_host [] []" and ?cmd = "cmd_user_create example_kit example_run example_run example_exit example_draws ''bob'' None"
  let ?i = "generate_user_id (replicate 16 7)"
  let ?u = "build_new_operator_user example_kit example_draws ?i ''bob'' None 1000"
  have a: "add_user example_kit example_draws ''bob'' None (re_now_start example_run) [] = Inr [?u]"
    by (simp add: add_user_def fresh_user_id_def example_draws_def example_run_def)
  have n: "validate_user_display_name ''bob'' = Inr ()" by code_simp
  have "starts_with ''user_'' ?i" by code_simp
  then have v: "validate_authorization_set (projected [?u]) = Inr ()"
    by (auto simp: projected_def build_new_operator_user_def starts_with_def validate_no_authorizations)
  obtain h1 where "ad_runs (apply_users_and_save example_kit example_run example_run example_exit [] [?u]) ?h True h1"
    by (rule healthy_transaction [OF example_healthy example_core_accepts example_valid v])
  from ad_ends_lift [OF this]
  have "ad_runs (lift_admin (apply_users_and_save example_kit example_run example_run example_exit [] [?u])) ?h True h1" by simp
  then obtain script t tr'
    where r: "lift_admin (apply_users_and_save example_kit example_run example_run example_exit [] [?u]) (at_host ?h script [])
      = (at_host h1 [] tr', t, Inr True)" by (rule ad_endsE)
  have l: "ad_io LoadFailed (load_store example_kit example_exit) (at_host ?h (Some 0 # script) []) = (at_host ?h script [], [], Inr [])"
    by (simp add: ad_io_def load_store_def load_users_def exists_file_def metadata_def io_bind_def
        sys_query_def next_fault_def io_ret_def at_host_def)
  have run: "?cmd (at_host ?h (Some 0 # script) []) = (at_host h1 [] tr', t, Inr True)"
    by (simp add: cmd_user_create_def n edit_and_apply_def tr_bind_def l a r)
  have "w_script (ho_world (at_host ?h (Some 0 # script) [])) = Some 0 # script" by simp
  from failed_lookup_empties_store [OF example_stamp_sound this run] obtain i where
    "published example_kit example_exit [build_new_operator_user example_kit example_draws i ''bob'' None 1000]
      (state_of (at_host h1 [] tr'))"
    by (auto simp: example_run_def)
  with run show ?thesis by blast
qed

section \<open>Expiry\<close>

text \<open>When an edit of the expiry does not change whether the user is active, the command only saves.\<close>

lemma expiry_saved:
  assumes "store_is kit d (state_of h) users" "find (\<lambda>u. u_id u = id') users = Some u"
    and "is_active (u\<lparr>u_expires_at := e\<rparr>) (re_now_start re) = is_active u (re_now_start re)"
    and "update_user id' (\<lambda>u. u\<lparr>u_expires_at := e\<rparr>) users = Inr users'"
    and "cmd_user_set_expiry kit re re_back d id' e h = (h', t, Inr live)"
  shows "live" "ho_loaded h' = ho_loaded h" "published kit d users' (state_of h')"
proof -
  from assms(5) [unfolded cmd_user_set_expiry_def]
  have "live \<and> ho_loaded h' = ho_loaded h \<and> published kit d users' (state_of h')"
  proof (cases rule: tr_bind_cases)
    case (step h1 t1 users0 t2)
    note l = load_store_state [OF step(1)]
    have "users0 \<noteq> []" using step(2) by (auto simp: tr_fail_def)
    then have u0: "users0 = users" using reads_store [OF l(3) [OF refl] assms(1)] by simp
    have "tr_bind (ad_io StoreFailed (save_store kit re d users')) (\<lambda>_. tr_return True) h1 = (h', t2, Inr live)"
      using step(2) by (simp add: u0 assms(2,3,4))
    then show ?thesis
    proof (cases rule: tr_bind_cases)
      case (step h2 t3 x t4)
      have "ad_try (save_users_atomic (tl_users_ser kit) (re_process re) (users_file d) users') h1 = (h2, t3, (Inr (Inr ()) :: CommandError + FsError + unit))"
        using step(1) by (auto simp: ad_io_def ad_try_def save_store_def map_err_def split: prod.splits sum.splits)
      then have "ho_loaded h2 = ho_loaded h1" "published kit d users' (state_of h2)"
        by (rule save_states, simp)+
      with step(2) l(1) show ?thesis by (auto simp: tr_return_def state_of_def)
    qed simp
  qed simp
  then show "live" "ho_loaded h' = ho_loaded h" "published kit d users' (state_of h')" by simp_all
qed

lemma expiry_same_view:
  assumes "is_active (u\<lparr>u_expires_at := e\<rparr>) now = is_active u now" "now < I64_MAX"
  shows "same_view now u (u\<lparr>u_expires_at := e\<rparr>)"
  using assms
  by (auto simp: same_view_def effective_grants_def is_active_def grant_is_authorized_def is_revoked_at_def Let_def
      split: option.splits)

lemma example_expiry:
  assumes "find (\<lambda>u. u_id u = id') us = Some u"
    and "is_active (u\<lparr>u_expires_at := e\<rparr>) (re_now_start example_run) = is_active u (re_now_start example_run)"
  obtains script h' t where "cmd_user_set_expiry (stored_kit us) example_run example_run example_exit id' e
    (at_host (example_host [] []) script []) = (h', t, Inr True)"
proof -
  let ?h = "example_host [] []"
  obtain us' where us': "update_user id' (\<lambda>u. u\<lparr>u_expires_at := e\<rparr>) us = Inr us'"
    using update_user_find [OF assms(1)] by blast
  have "fs_dirs (host_fs ?h) (fst (users_file example_exit)) \<noteq> None"
    using example_healthy by (simp add: healthy_def)
  then obtain fs' where "fs_runs (save_store (stored_kit us) example_run example_exit us') (host_fs ?h) () fs'"
    unfolding save_store_def using fs_runs_save_users by blast
  then have "ad_runs (ad_io StoreFailed (save_store (stored_kit us) example_run example_exit us')) ?h () (set_fs ?h fs')"
    by (rule ad_runs_io)
  then have "ad_runs (tr_bind (ad_io StoreFailed (save_store (stored_kit us) example_run example_exit us')) (\<lambda>_. tr_return True)) ?h True (set_fs ?h fs')"
    by (rule ad_runs_bind) (rule ad_runs_return)
  then have "ad_runs (cmd_user_set_expiry (stored_kit us) example_run example_run example_exit id' e) ?h True (set_fs ?h fs')"
    unfolding cmd_user_set_expiry_def
    by (intro ad_runs_bind [OF ad_runs_load_store [OF example_store(2)]]) (simp add: assms us')
  then show thesis by (rule ad_endsE) (rule that)
qed

text \<open>Moving an expiry that does not change whether the user is active needs no restart. The
  command answers \<open>true\<close>, the loaded configuration is as before, the store holds the new expiry, and
  at that instant the new store renders to the same document as the old one.\<close>

theorem expiry_edit_needs_no_restart:
  assumes "store_is kit d (state_of h) users" "distinct (map u_id users)" "find (\<lambda>u. u_id u = id') users = Some u"
    and "is_active (u\<lparr>u_expires_at := e\<rparr>) (re_now_start re) = is_active u (re_now_start re)" "re_now_start re < I64_MAX"
    and "cmd_user_set_expiry kit re re_back d id' e h = (h', t, Inr live)"
  shows "live \<and> ho_loaded h' = ho_loaded h
    \<and> (\<exists>users'. users' = map (\<lambda>u. if u_id u = id' then u\<lparr>u_expires_at := e\<rparr> else u) users
        \<and> published kit d users' (state_of h')
        \<and> (\<forall>b64 reality hysteria doc doc'.
             render_server_config_for_deployment b64 d users reality hysteria (re_now_start re) = Inr doc \<longrightarrow>
             render_server_config_for_deployment b64 d users' reality hysteria (re_now_start re) = Inr doc' \<longrightarrow> doc' = doc))"
proof -
  obtain users' where u: "update_user id' (\<lambda>u. u\<lparr>u_expires_at := e\<rparr>) users = Inr users'"
    using update_user_find [OF assms(3)] by blast
  have u': "users' = map (\<lambda>u. if u_id u = id' then u\<lparr>u_expires_at := e\<rparr> else u) users"
    by (rule update_user_Inr(1) [OF u assms(2)])
  have "list_all2 (same_view (re_now_start re)) users users'"
    unfolding u' list_all2_map2
    using find_user [OF assms(2,3)] expiry_same_view [OF assms(4,5)] by (auto simp: list_all2_same same_view_def)
  from same_view_renders [OF this] expiry_saved [OF assms(1,3,4) u assms(6)] u' show ?thesis by blast
qed

theorem expiry_edit_needs_no_restart_witness:
  "\<exists>script h' t. cmd_user_set_expiry (stored_kit [example_user]) example_run example_run example_exit ''user_1'' (Some 5000)
      (at_host (example_host [] []) script []) = (h', t, Inr True)
    \<and> ho_loaded h' = None \<and> published (stored_kit [example_user]) example_exit [example_user\<lparr>u_expires_at := Some 5000\<rparr>] (state_of h')"
proof -
  have u: "find (\<lambda>u. u_id u = ''user_1'') [example_user] = Some example_user"
    "is_active (example_user\<lparr>u_expires_at := Some 5000\<rparr>) (re_now_start example_run) = is_active example_user (re_now_start example_run)"
    "distinct (map u_id [example_user])" "re_now_start example_run < I64_MAX"
    by (simp_all add: example_user_def is_active_def starts_with_def example_run_def I64_MAX_def)
  obtain script h' t where run: "cmd_user_set_expiry (stored_kit [example_user]) example_run example_run example_exit ''user_1'' (Some 5000)
      (at_host (example_host [] []) script []) = (h', t, Inr True)"
    by (rule example_expiry [OF u(1,2)])
  from expiry_edit_needs_no_restart [OF example_store(1) u(3,1,2,4) run] run show ?thesis
    by (intro exI [of _ script] exI [of _ h'] exI [of _ t]) (auto simp: example_user_def example_host_def)
qed

text \<open>C29: Clearing the expiry of an external credential takes the whole node out of service for later
  changes. The command reports success for an active user of an external authorization, and from
  then on no server configuration can be rendered from the store: its check finds an authorization
  that lives too long.\<close>

theorem cleared_expiry_blocks_rendering:
  assumes "store_is kit d (state_of h) users" "distinct (map u_id users)" "find (\<lambda>u. u_id u = id') users = Some u"
    and "starts_with ''cred_'' id'" "is_active u (re_now_start re)" "u_created_at u + AUTH_COMPAT_MAX_LIFETIME_SECS < I64_MAX"
    and "cmd_user_set_expiry kit re re_back d id' None h = (h', t, Inr live)"
  shows "live \<and> (\<exists>users'. published kit d users' (state_of h')
    \<and> (\<forall>b64 reality hysteria now doc. render_server_config_for_deployment b64 d users' reality hysteria now \<noteq> Inr doc))"
proof -
  let ?u = "u\<lparr>u_expires_at := None\<rparr>"
  have a: "is_active ?u (re_now_start re) = is_active u (re_now_start re)"
    using assms(5) by (simp add: is_active_def Let_def)
  obtain users' where u: "update_user id' (\<lambda>u. u\<lparr>u_expires_at := None\<rparr>) users = Inr users'"
    using update_user_find [OF assms(3)] by blast
  have u': "users' = map (\<lambda>u. if u_id u = id' then u\<lparr>u_expires_at := None\<rparr> else u) users"
    by (rule update_user_Inr(1) [OF u assms(2)])
  have "u \<in> set users" "u_id u = id'" using assms(3) by (auto simp: find_Some_iff)
  then have m: "?u \<in> set (filter (\<lambda>u. starts_with ''cred_'' (u_id u)) users')"
    using assms(4) unfolding u' by (auto simp: image_iff)
  have "\<exists>a\<in>set (projected users'). \<not> a_revoked a \<and> a_valid_until a = I64_MAX \<and> a_valid_from a = u_created_at u"
    unfolding projected_def set_map
    by (rule bexI [OF _ imageI [OF m]]) (use assms(5) in \<open>simp add: is_active_def Let_def\<close>)
  then obtain a where a': "a \<in> set (projected users')" "\<not> a_revoked a" "a_valid_until a = I64_MAX" "a_valid_from a = u_created_at u"
    by blast
  have "\<not> is_ok (validate_item a)"
    using validate_item_live(3) [of a] a' assms(6) by auto
  then have "validate_authorization_set (projected users') \<noteq> Inr ()"
    using a'(1) by (auto simp: validate_authorization_set_def rbind_eq_Inr is_ok_iff validate_items_iff)
  with render_succeeds have "render_server_config_for_deployment b64 d users' reality hysteria now \<noteq> Inr doc"
    for b64 reality hysteria now doc by blast
  with expiry_saved [OF assms(1,3) a u assms(7)] show ?thesis by blast
qed

theorem cleared_expiry_blocks_rendering_witness:
  "\<exists>script h' t users'. cmd_user_set_expiry (stored_kit [example_user\<lparr>u_id := ''cred_1''\<rparr>]) example_run example_run example_exit
      ''cred_1'' None (at_host (example_host [] []) script []) = (h', t, Inr True)
    \<and> published (stored_kit [example_user\<lparr>u_id := ''cred_1''\<rparr>]) example_exit users' (state_of h')
    \<and> (\<forall>b64 reality hysteria now doc. render_server_config_for_deployment b64 example_exit users' reality hysteria now \<noteq> Inr doc)"
proof -
  let ?u = "example_user\<lparr>u_id := ''cred_1''\<rparr>"
  have u: "find (\<lambda>u. u_id u = ''cred_1'') [?u] = Some ?u" "distinct (map u_id [?u])" "starts_with ''cred_'' ''cred_1''"
    "is_active ?u (re_now_start example_run)" "u_created_at ?u + AUTH_COMPAT_MAX_LIFETIME_SECS < I64_MAX"
    by (simp_all add: example_user_def is_active_def starts_with_def example_run_def I64_MAX_def AUTH_COMPAT_MAX_LIFETIME_SECS_def)
  have "is_active (?u\<lparr>u_expires_at := None\<rparr>) (re_now_start example_run) = is_active ?u (re_now_start example_run)"
    by (simp add: example_user_def is_active_def starts_with_def example_run_def)
  then obtain script h' t where run: "cmd_user_set_expiry (stored_kit [?u]) example_run example_run example_exit ''cred_1'' None
      (at_host (example_host [] []) script []) = (h', t, Inr True)"
    by (rule example_expiry [OF u(1)])
  from cleared_expiry_blocks_rendering [OF example_store(1) u(2,1,3,4,5) run] run show ?thesis by blast
qed

section \<open>Renewal\<close>

lemma fs_runs_det: "fs_runs m fs x fs1 \<Longrightarrow> fs_runs m fs y fs2 \<Longrightarrow> x = y"
proof -
  assume "fs_runs m fs x fs1" "fs_runs m fs y fs2"
  then obtain n1 t1 n2 t2 where
    "m \<lparr>w_fs = fs, w_script = replicate n1 None @ replicate n2 None, w_trace = []\<rparr>
       = (\<lparr>w_fs = fs1, w_script = replicate n2 None, w_trace = [] @ t1\<rparr>, Inr x)"
    "m \<lparr>w_fs = fs, w_script = replicate n2 None @ replicate n1 None, w_trace = []\<rparr>
       = (\<lparr>w_fs = fs2, w_script = replicate n1 None, w_trace = [] @ t2\<rparr>, Inr y)"
    unfolding fs_runs_def by blast
  then show ?thesis by (simp add: replicate_add [symmetric] add.commute)
qed

lemma renewed_grant:
  assumes "renew_until g until now = Inr g'" "t < g_valid_until g"
  shows "grant_is_authorized g' t = grant_is_authorized g t" "g_principal_id g' = g_principal_id g"
    "g_vless_uuid g' = g_vless_uuid g" "g_hysteria2_password g' = g_hysteria2_password g"
  using assms by (auto simp: renew_until_def grant_is_authorized_def is_revoked_at_def split: if_splits)

text \<open>None of the user's leases under the principal identifier has run out at the time.\<close>

definition lease_lasts :: "string \<Rightarrow> int \<Rightarrow> CredentialGrant list \<Rightarrow> bool" where
  "lease_lasts pid t gs \<longleftrightarrow> list_all (\<lambda>g. g_principal_id g \<noteq> pid \<or> t < g_valid_until g) gs"

lemma renew_first_view:
  assumes "renew_first pid until now gs = Inr gs'" "lease_lasts pid t gs"
  shows "map (\<lambda>g. (g_principal_id g, g_vless_uuid g, g_hysteria2_password g)) (filter (\<lambda>g. grant_is_authorized g t) gs)
    = map (\<lambda>g. (g_principal_id g, g_vless_uuid g, g_hysteria2_password g)) (filter (\<lambda>g. grant_is_authorized g t) gs')"
    "gs \<noteq> [] \<Longrightarrow> gs' \<noteq> []"
  using assms
  by (induction gs arbitrary: gs') (auto simp: rbind_eq_Inr renewed_grant lease_lasts_def split: if_splits)

lemma renewed_view:
  assumes "current_grant u Native now = Some g" "renew_user kit dr now u = Inr u'"
    "lease_lasts (g_principal_id g) t (u_credentials u)"
  shows "same_view t u u'" "\<exists>gs. u' = u\<lparr>u_credentials := gs\<rparr>"
proof -
  obtain gs where gs: "renew_first (g_principal_id g) (now + NATIVE_LEASE_SECS) now (u_credentials u) = Inr gs"
    "u' = u\<lparr>u_credentials := gs\<rparr>"
    using assms(1,2) by (auto simp: renew_user_def Let_def rbind_eq_Inr)
  have "u_credentials u \<noteq> []"
    using assms(1) by (auto simp: current_grant_def live_grants_def)
  with renew_first_view [OF gs(1) assms(3)] show "same_view t u u'"
    by (simp add: gs(2) same_view_def is_active_def effective_grants_def)
  from gs(2) show "\<exists>gs. u' = u\<lparr>u_credentials := gs\<rparr>" by blast
qed

lemma projected_credentials:
  assumes "\<And>v. v \<in> set users \<Longrightarrow> f v = v \<or> (\<exists>gs. f v = v\<lparr>u_credentials := gs\<rparr>)"
  shows "projected (map f users) = projected users"
  using assms
proof (induction users)
  case (Cons v users)
  then consider "f v = v" | gs where "f v = v\<lparr>u_credentials := gs\<rparr>" by auto
  then show ?case using Cons by cases (simp_all add: projected_def)
qed (simp add: projected_def)

text \<open>A change of the store that no inbound shows restarts nothing on a node whose files are in step.\<close>

lemma unseen_change:
  assumes "healthy kit re d h" "stamp_sound kit d (state_of h)" "core_accepts kit re d users (host_fs h)"
    and view: "list_all2 (same_view (re_now re)) users us" and p: "projected us = projected users"
    and "renders_as kit re d users (host_fs h) doc" "in_step kit d (host_fs h) doc"
  obtains h' where "ad_runs (apply_users_and_save kit re re_back d users us) h True h'" "ho_restarts h' = ho_restarts h"
    "ho_loaded h' = ho_loaded h" "published kit d us (state_of h')"
proof -
  let ?render = "\<lambda>us rp hp. render_server_config_for_deployment (tl_b64 kit) d us rp hp (re_now re)"
  obtain reality hysteria where doc: "fs_runs (load_reality_params kit d) (host_fs h) reality (host_fs h)"
    "fs_runs (load_hysteria_params d) (host_fs h) hysteria (host_fs h)" "?render users reality hysteria = Inr doc"
    using assms(6) unfolding renders_as_def by blast
  have v: "validate_deployment (tl_b64 kit) d = Inr ()" "validate_authorization_set (projected us) = Inr ()"
    unfolding p using render_succeeds doc(3) by blast+
  have eq: "doc2 = doc1" if "?render users rp hp = Inr doc1" "?render us rp hp = Inr doc2" for rp hp doc1 doc2
    by (rule same_view_renders [OF view that])
  have "candidate kit re d users (host_fs h) doc'" if c: "candidate kit re d us (host_fs h) doc'" for doc'
  proof -
    obtain rp hp where r: "reads (load_reality_params kit d) (host_fs h) rp" "reads (load_hysteria_params d) (host_fs h) hp"
      "?render us rp hp = Inr doc'"
      using c unfolding candidate_def by blast
    obtain doc1 where d1: "?render users rp hp = Inr doc1"
      using render_succeeds [of "tl_b64 kit" d users rp hp "re_now re"] v unfolding p by blast
    from eq [OF d1 r(3)] d1 r(1,2) show ?thesis unfolding candidate_def by blast
  qed
  then have ok: "core_accepts kit re d us (host_fs h)" using assms(3) unfolding core_accepts_def by blast
  obtain doc' h' where t: "renders_as kit re d us (host_fs h) doc'"
    "ad_runs (apply_users_and_save kit re re_back d users us) h True h'"
    "in_step kit d (host_fs h) doc' \<longrightarrow> ho_restarts h' = ho_restarts h \<and> ho_loaded h' = ho_loaded h"
    by (rule healthy_transaction [OF assms(1) ok v])
  obtain rp hp where r: "fs_runs (load_reality_params kit d) (host_fs h) rp (host_fs h)"
    "fs_runs (load_hysteria_params d) (host_fs h) hp (host_fs h)" "?render us rp hp = Inr doc'"
    using t(1) unfolding renders_as_def by blast
  have "doc' = doc"
    using eq [OF doc(3)] r(3) fs_runs_det [OF doc(1) r(1)] fs_runs_det [OF doc(2) r(2)] by simp
  moreover obtain tr' t2 script where "apply_users_and_save kit re re_back d users us (at_host h script []) = (at_host h' [] tr', t2, Inr True)"
    using t(2) by (rule ad_endsE)
  from transaction_spec(1) [OF _ this] assms(2) have "published kit d us (state_of h')" by (simp add: committed_def)
  ultimately show thesis using t(2,3) assms(7) by (intro that) simp_all
qed

text \<open>C5: Renewing a live native lease disturbs no connection. On a node whose files say that the
  document of the stored users is applied, and which is healthy (the keys, the binary and the
  directories are in place, the service manager answers, the self-test does not reject, and the TLS
  spoof has no capability restart pending), a lease that has not run out when the document is
  rendered is renewed as follows: there is a number of system calls such that, if these succeed,
  \<open>user renew-native\<close> reports success and stores the longer lease, with no restart of the core and
  the same loaded configuration.\<close>

theorem renewal_restarts_nothing:
  assumes "healthy kit re d h" "stamp_sound kit d (state_of h)" "core_accepts kit re d users (host_fs h)"
    and "store_is kit d (state_of h) users" "distinct (map u_id users)" "find (\<lambda>u. u_id u = id') users = Some u"
    and "current_grant u Native (re_now_start re) = Some g" "renew_user kit dr (re_now_start re) u = Inr u'"
    and "lease_lasts (g_principal_id g) (re_now re) (u_credentials u)" "renders_as kit re d users (host_fs h) doc" "in_step kit d (host_fs h) doc"
  shows "\<exists>n. \<forall>rest tr. \<exists>h' t.
    cmd_user_renew_native kit re re_back d dr id' (at_host h (replicate n None @ rest) tr) = (h', t, Inr True)
    \<and> ho_restarts h' = ho_restarts h \<and> ho_loaded h' = ho_loaded h
    \<and> published kit d (map (\<lambda>v. if u_id v = id' then u' else v) users) (state_of h')"
proof -
  let ?us = "map (\<lambda>v. if u_id v = id' then u' else v) users"
  note same = find_user [OF assms(5,6)]
  have view: "list_all2 (same_view (re_now re)) users ?us"
    unfolding list_all2_map2
    using same renewed_view(1) [OF assms(7,8,9)] by (auto simp: list_all2_same same_view_def)
  have p: "projected ?us = projected users"
    by (rule projected_credentials) (use same renewed_view(2) [OF assms(7,8,9)] in auto)
  obtain us' where us': "update_user id' (\<lambda>_. u') users = Inr us'" using update_user_find [OF assms(6)] by blast
  have e: "renew_native_user kit dr (re_now_start re) id' users = Inr ?us"
    using us' update_user_Inr(1) [OF us' assms(5)] assms(6,8) by (simp add: renew_native_user_def)
  obtain h' where t: "ad_runs (apply_users_and_save kit re re_back d users ?us) h True h'" "ho_restarts h' = ho_restarts h"
    "ho_loaded h' = ho_loaded h" "published kit d ?us (state_of h')"
    by (rule unseen_change [OF assms(1,2,3) view p assms(10,11)])
  from ad_ends_lift [OF t(1)] have "ad_runs (cmd_user_renew_native kit re re_back d dr id') h True h'"
    unfolding cmd_user_renew_native_def edit_and_apply_def
    by (intro ad_runs_bind [OF ad_runs_load_store [OF assms(4)]]) (simp add: e)
  from ad_ends_always [OF this] obtain n tt where
    n: "\<And>rest tr. \<exists>tr'. cmd_user_renew_native kit re re_back d dr id' (at_host h (replicate n None @ rest) tr)
      = (at_host h' rest tr', tt, Inr True)" by blast
  have "\<exists>h'' t. cmd_user_renew_native kit re re_back d dr id' (at_host h (replicate n None @ rest) tr) = (h'', t, Inr True)
    \<and> ho_restarts h'' = ho_restarts h \<and> ho_loaded h'' = ho_loaded h \<and> published kit d ?us (state_of h'')" for rest tr
  proof -
    obtain tr' where "cmd_user_renew_native kit re re_back d dr id' (at_host h (replicate n None @ rest) tr)
      = (at_host h' rest tr', tt, Inr True)" using n by blast
    with t(2,3,4) show ?thesis by (intro exI [of _ "at_host h' rest tr'"] exI [of _ tt]) simp
  qed
  then show ?thesis by blast
qed

text \<open>The example node after a run that went live with the document.\<close>

definition settled_host :: host where
  "settled_host = (set_fs (example_host [] []) (put (singbox_config_file example_exit) (Some (example_file ''doc''))
     (put (stamp_file example_exit) (Some (example_file [])) (host_fs (example_host [] [])))))\<lparr>ho_loaded := Some ''doc''\<rparr>"

definition settled_kit :: "json \<Rightarrow> tools" where
  "settled_kit doc = (stored_kit [leased_user])\<lparr>tl_parse := \<lambda>_. Some doc\<rparr>"

lemma settled:
  "healthy (settled_kit doc) example_run example_exit settled_host"
  "stamp_sound (settled_kit doc) example_exit (state_of settled_host)"
  "core_accepts (settled_kit doc) example_run example_exit us fs"
  "store_is (settled_kit doc) example_exit (state_of settled_host) [leased_user]"
  "in_step (settled_kit doc) example_exit (host_fs settled_host) doc"
proof -
  let ?c = "singbox_config_file example_exit" and ?s = "stamp_file example_exit"
  have f: "fs_files (host_fs settled_host) ?c = Some (example_file ''doc'')" "fs_files (host_fs settled_host) ?s = Some (example_file [])"
    "?s \<noteq> ?c"
    by (simp_all add: settled_host_def put_def path_defs)
  have e: "host_fs (h\<lparr>ho_loaded := l\<rparr>) = host_fs h" "ho_answers (h\<lparr>ho_loaded := l\<rparr>) = ho_answers h"
    "tl_coherent (settled_kit doc) = tl_coherent (stored_kit [leased_user])"
    "tl_sha (settled_kit doc) = tl_sha (stored_kit [leased_user])" "tl_hex (settled_kit doc) = tl_hex (stored_kit [leased_user])" for h :: host and l
    by (simp_all add: settled_kit_def)
  have k: "healthy (settled_kit doc) example_run example_exit (h\<lparr>ho_loaded := l\<rparr>)
      = healthy (stored_kit [leased_user]) example_run example_exit h" for h l
    unfolding healthy_def capability_restart_due_def e by (rule refl)
  show "healthy (settled_kit doc) example_run example_exit settled_host"
    unfolding settled_host_def k
    by (rule healthy_core_change [OF example_healthy]) (auto simp: only_changes_def put_def core_files_def Let_def)
  show "stamp_sound (settled_kit doc) example_exit (state_of settled_host)"
    by (auto simp: stamp_sound_def state_of_def settled_host_def settled_kit_def denotes_def bind_eq_Some_conv split: option.splits)
  show "core_accepts (settled_kit doc) example_run example_exit us fs"
    by (simp add: core_accepts_def settled_kit_def stored_kit_def)
  have "users_file example_exit \<noteq> ?c" "users_file example_exit \<noteq> ?s" by (simp_all add: path_defs)
  with example_store(2) [of "[leased_user]"] show "store_is (settled_kit doc) example_exit (state_of settled_host) [leased_user]"
    by (simp add: store_is_def users_node_def state_of_def settled_host_def settled_kit_def put_def)
  have hex: "hex_encode [] = []" by code_simp
  show "in_step (settled_kit doc) example_exit (host_fs settled_host) doc"
    using f hex by (simp add: in_step_def file_answer_def text_answer_def settled_kit_def example_file_def stored_kit_def
        rendered_config_fingerprint_def hash_token_def trim_def)
qed

theorem renewal_restarts_nothing_witness:
  "\<exists>doc n. \<forall>rest tr. \<exists>h' t.
    cmd_user_renew_native (settled_kit doc) example_run example_run example_exit example_draws ''user_1''
      (at_host settled_host (replicate n None @ rest) tr) = (h', t, Inr True)
    \<and> ho_restarts h' = 0 \<and> ho_loaded h' = Some ''doc''
    \<and> published (settled_kit doc) example_exit
        [leased_user\<lparr>u_credentials := [grant_new ''native_1'' Native ''uuid'' ''pw'' 0 2800]\<rparr>] (state_of h')"
proof -
  have v: "validate_authorization_set (projected [leased_user]) = Inr ()"
    by (simp add: projected_def leased_user_def example_user_def starts_with_def validate_no_authorizations)
  have vd: "validate_deployment (tl_b64 (settled_kit undefined)) example_exit = Inr ()"
    using example_valid [of "[leased_user]"] by (simp add: settled_kit_def)
  obtain doc where "renders_as (settled_kit undefined) example_run example_exit [leased_user] (host_fs settled_host) doc"
    by (rule healthy_apply [OF settled(1,3) vd v])
  then have r: "renders_as (settled_kit doc) example_run example_exit [leased_user] (host_fs settled_host) doc"
    by (simp add: renders_as_def settled_kit_def load_reality_params_def)
  have u: "distinct (map u_id [leased_user])" "find (\<lambda>u. u_id u = ''user_1'') [leased_user] = Some leased_user"
    "lease_lasts (g_principal_id (grant_new ''native_1'' Native ''uuid'' ''pw'' 0 2000)) (re_now example_run) (u_credentials leased_user)"
    by (simp_all add: leased_user_def example_user_def example_run_def lease_lasts_def grant_new_def)
  have g: "current_grant leased_user Native (re_now_start example_run) = Some (grant_new ''native_1'' Native ''uuid'' ''pw'' 0 2000)"
    by code_simp
  have r2: "renew_user (settled_kit doc) example_draws (re_now_start example_run) leased_user
      = Inr (leased_user\<lparr>u_credentials := [grant_new ''native_1'' Native ''uuid'' ''pw'' 0 2800]\<rparr>)"
    by (simp add: renew_user_def g) (simp add: leased_user_def grant_new_def renew_until_def is_revoked_at_def
        example_run_def NATIVE_LEASE_SECS_def)
  from renewal_restarts_nothing [OF settled(1,2,3,4) u(1,2) g r2 u(3) r settled(5)] show ?thesis
    by (intro exI [of _ doc]) (simp add: leased_user_def example_user_def settled_host_def example_host_def set_fs_def)
qed

end
