(* ===== verification/Spec2Isabelle.thy ===== *)
theory Spec2Isabelle
  imports Framing StoreWriters ExternalHistory DeploymentFile ServerPolicy NodeGuarantees
begin

text \<open>
  Verification of the node software of singbox-vpn.

  A node runs an external proxy core (\<open>sing-box\<close>) with two inbounds, VLESS with REALITY and Hysteria2.
  Three programs of this repository surround it.  \<open>vpn-admin\<close> (\<open>apps/admin\<close>) owns the user store
  \<open>users.json\<close>: it renders the store and \<open>deployment.toml\<close> into the core's configuration, has the core
  check it, swaps the file, restarts the core and saves the store.  The provisioning agent
  (\<open>apps/provisioning-agent\<close>) polls the control plane, keeps a pool of leased credentials and the set of
  external authorizations, hands both to \<open>vpn-admin\<close> as documents and executes jobs.  The subscription
  service gives clients their profiles.  \<open>crates/compat-config\<close> holds what they share.

  \<^bold>\<open>Theories and sources.\<close>  Each theory follows the order of its source file; definitions keep the
  source's names, record fields carry a prefix of their type.
  \<^item> \<open>Prelude\<close>: results with an error value, traversals that stop at the first error, sorted association
    lists (\<open>BTreeMap\<close>), computations that leave a trace.  \<open>RustStd\<close>, \<open>IpAddr\<close>, \<open>IpText\<close>, \<open>Json\<close>: the
    parts of the standard library and of JSON values that the source uses.
  \<^item> \<open>Framing\<close>: \<open>crates/common\<close>.  \<open>SsrfGuard\<close>: the three address classifiers and \<open>ssrf_guard.rs\<close>.
  \<^item> \<open>Credentials\<close>, \<open>CredentialPolicy\<close>, \<open>Model\<close>, \<open>Authorization\<close>: the files of \<open>compat-config\<close> with these
    names.
  \<^item> \<open>LeasePool\<close>, \<open>ExternalSync\<close>, \<open>Pacing\<close>, \<open>Jobs\<close>: the agent (\<open>lease_pool.rs\<close>,
    \<open>external_authorization.rs\<close>; \<open>pacing.rs\<close>, \<open>events.rs\<close>, \<open>worker_client.rs\<close>; \<open>dispatch.rs\<close>,
    \<open>op_dedup.rs\<close>, \<open>report_queue.rs\<close>, \<open>main.rs\<close>).  A tick is one function of the state and of an
    environment record that lists every answer it gets; \<open>ExternalHistory\<close> is the relation of the
    histories of ticks, crashes and restarts.
  \<^item> \<open>StoreWriters\<close>: the two reconciliations by which \<open>vpn-admin\<close> takes over the agent's documents.
  \<^item> \<open>Deployment\<close>, \<open>DeploymentFile\<close>: \<open>deployment.rs\<close>, its validation and the edits of the file.
  \<^item> \<open>FileStore\<close>, \<open>Store\<close>: \<open>migrate.rs\<close>, \<open>ownership.rs\<close>, the writer of \<open>server.rs\<close>, and \<open>store.rs\<close>.  A
    world is a file system, a script that says which system call fails and after how many bytes, and
    the trace of all states passed through, in which a crash may stop.
  \<^item> \<open>ServerConfig\<close>, \<open>ServerPolicy\<close>: the renderer of \<open>server.rs\<close>, and what its rules decide.
  \<^item> \<open>SystemdDropin\<close>, \<open>NodeHost\<close>, \<open>AdminApply\<close>, \<open>UserCommands\<close>: \<open>systemd_dropin.rs\<close>, \<open>service.rs\<close>, and of
    \<open>apps/admin/src/main.rs\<close> the apply path (\<open>render_and_apply_singbox_config_with\<close>,
    \<open>apply_users_and_save\<close>) and every command that changes the user store.  A host is a world, the
    scripted answers of \<open>systemctl\<close>, the bytes the core has loaded and the number of restarts.
  \<^item> \<open>NodeRuns\<close> derives runs from the outcomes of their system calls; \<open>NodeGuarantees\<close> states what the
    commands guarantee.  This theory composes agent, writers and renderer.

  \<^bold>\<open>Interfaces.\<close>  The locale \<open>replacer\<close> says what replacing a file promises: every state on the way has
  the old file or the complete new one, success means the new one, failure the old one.  It is
  interpreted on \<open>atomic_write\<close>, on \<open>apply_config_atomically\<close> and on \<open>save_users_atomic\<close>, and the apply path
  rests on these facts.  The locale \<open>owned_writer\<close> is the contract of the two store writers, that
  each keeps the users it does not own; it is interpreted on both.

  \<^bold>\<open>What is shown.\<close>  Claims are numbered in the order of the manifest.
  \<^item> Apply path and commands: the store follows the core through every intermediate state, an
    answer \<open>true\<close> means that the core runs the rendered document, disabling a user reaches the core
    before it is recorded, a healthy node accepts a change, a renewal restarts nothing.  The proofs
    use triples with a condition on every intermediate state (\<open>ht\<close>).
  \<^item> Agent: only what is live is reported, pools are persisted before they are applied, rotations are
    reported (both over the fields of the request body), an external credential is not granted again without a newer revision, expiry is
    enforced, snapshots converge, a redelivered job runs once, the report queue drains, a server's
    wait is honoured.
  \<^item> Rendered policy: a relay forwards to declared exits only, an exit refuses protected networks and
    those of its own addresses that the deployment records as literals, the probe identity is
    confined unless its principal is also that of a hairpin account or an exit principal of a relay;
    the credentials of the document.  Destinations are those known when the deciding rule is
    evaluated (\<open>decided_at\<close>).
  \<^item> Composition: the agent's pool is accepted and renders, an accepted snapshot reaches the store.
  \<^item> Validation: authorization sets exactly, migration of \<open>deployment.toml\<close>, addresses, framing.
  \<^item> Departures from what the code intends, proved as theorems and listed as findings of the manifest.

  \<^bold>\<open>Hypotheses on code outside the repository.\<close>  \<open>documented_router\<close> states the documented first-match
  evaluation of the core's rules.  \<open>rfc3339_ok\<close> states that the date parser answers 64-bit
  times.  \<open>core_accepts\<close> says that the core's check accepts what is rendered.  \<open>stamp_sound\<close> is the
  invariant of the record of the applied configuration: when it names the document of the file, the
  core has loaded that document; it holds on a node without the record and the apply path keeps it,
  except after a failed restart whose recovery failed too.  \<open>healthy\<close> describes a node on which nothing
  stands in the way of a change: keys, binary and directories are in place, the service manager
  answers, the REALITY self-test does not reject, and no restart for the capabilities of the TLS
  spoof is due (\<open>capability_restart_due\<close>).  SHA-256, base64, the JSON and TOML
  readers and printers, random draws, clocks and the REALITY self-test are arguments.

  \<^bold>\<open>Bounds.\<close>  Integers have the widths of the source where they can wrap (\<open>wrap_i64\<close>, \<open>checked_sub_i64\<close>,
  words); other counters are natural numbers or integers.  The only bounded loop is the observation of
  a restart, with the source's own bound of ten; all other recursions are structural or have a
  termination proof.  The loop that draws a fresh user identifier takes the list of its draws.  Claims
  that something happens name the calls that must succeed, or bound the number of passes.

  \<^bold>\<open>Not modelled.\<close>  The subscription service, the client documents and the provisioning contract
  (serialisation through third-party libraries, no state is written).  Static revisions and pairing
  (edits of \<open>deployment.toml\<close> through a third-party TOML tree).  The commands of \<open>vpn-admin\<close> for keys,
  settings, backup and restore, status and doctor: they are sequences over key files, archives,
  sockets and diagnostic output.  The process lock, which makes one run the only writer, and output.
  Probes, telemetry, statistics and configuration reading of the agent (sockets, child processes).
  The refresh of the subscription service after \<open>render-config\<close>.  Directory modes and the order in which
  writes reach the disk: a crash keeps what the calls before it did.  Installation scripts.
\<close>

section \<open>From the user store to the server document\<close>

text \<open>The renderer validates the credential-backed users as an authorization set again.  The records
  it reconstructs from what the two store writers wrote:\<close>

lemma ascii_lower_hex: "is_ascii_hexdigit c \<Longrightarrow> is_ascii_hexdigit (ascii_lower c)"
  by (auto simp: is_ascii_hexdigit_def is_ascii_digit_def ascii_lower_def is_ascii_uppercase_def of_char_of)

lemma valid_uuid_lower: "valid_vless_uuid s \<Longrightarrow> valid_vless_uuid (to_ascii_lowercase s)"
proof -
  assume "valid_vless_uuid s"
  moreover have "zip [0..<36] (map ascii_lower s) = map (\<lambda>(i, c). (i, ascii_lower c)) (zip [0..<36] s)"
    by (simp add: zip_map2)
  moreover have "ascii_lower (CHR ''-'') = CHR ''-''" by (simp add: ascii_lower_def is_ascii_uppercase_def)
  ultimately show ?thesis
    using ascii_lower_hex by (auto simp: valid_vless_uuid_def to_ascii_lowercase_def list_all_iff split: if_splits) 
qed

lemma sorted_wrt_perm:
  assumes "\<And>x y. P x y \<Longrightarrow> P y x" "sorted_wrt P xs" "mset xs = mset ys"
  shows "sorted_wrt P ys"
  using assms(2,3)
proof (induction xs arbitrary: ys)
  case (Cons x xs)
  then have "x \<in> set ys" by (metis list.set_intros(1) mset_eq_setD)
  then obtain us vs where ys: "ys = us @ x # vs" by (meson split_list)
  then have m: "mset xs = mset (us @ vs)" using Cons.prems(2) by simp
  then have "sorted_wrt P (us @ vs)" using Cons by simp
  moreover have "\<forall>y\<in>set us \<union> set vs. P x y" using Cons.prems(1) mset_eq_setD [OF m] by simp
  ultimately show ?case unfolding ys using assms(1) by (auto simp: sorted_wrt_append)
qed simp

lemma validate_authorization_set_iff:
  "validate_authorization_set s = Inr () \<longleftrightarrow>
     (\<forall>a\<in>set s. is_ok (validate_item a)) \<and> distinct (map a_credential_id s)
     \<and> (\<forall>p. sorted_wrt (\<lambda>a b. is_ok (auth_overlap_check a b)) (principal_credentials s p))
     \<and> (\<forall>p t. length (filter (\<lambda>a. a_principal_id a = p \<and> is_active_at a t) s) \<le> 2)"
  by (auto simp: validate_authorization_set_def rbind_eq_Inr validate_items_iff validate_set_exact)

lemma validate_append:
  assumes "validate_authorization_set xs = Inr ()" "validate_authorization_set ys = Inr ()"
    "a_credential_id ` set xs \<inter> a_credential_id ` set ys = {}"
    "a_principal_id ` set xs \<inter> a_principal_id ` set ys = {}"
  shows "validate_authorization_set (xs @ ys) = Inr ()"
proof -
  have one: "filter (\<lambda>a. a_principal_id a = p \<and> Q a) xs = [] \<or> filter (\<lambda>a. a_principal_id a = p \<and> Q a) ys = []" for p Q
    using assms(4) by (auto simp: filter_empty_conv)
  have "length (filter (\<lambda>a. a_principal_id a = p \<and> is_active_at a t) (xs @ ys)) \<le> 2" for p t
    using one [of p "\<lambda>a. is_active_at a t"] assms(1,2) by (auto simp: validate_authorization_set_iff)
  moreover have "sorted_wrt (\<lambda>a b. is_ok (auth_overlap_check a b)) (principal_credentials (xs @ ys) p)" for p
    using one [of p "\<lambda>a. \<not> a_revoked a"] assms(1,2)
    by (auto simp: validate_authorization_set_iff principal_credentials_def)
  ultimately show ?thesis using assms by (auto simp: validate_authorization_set_iff)
qed

lemma validate_perm:
  assumes "validate_authorization_set xs = Inr ()" "mset xs = mset ys"
  shows "validate_authorization_set ys = Inr ()"
proof -
  have "mset (filter P xs) = mset (filter P ys)" for P using assms(2) by (metis mset_filter)
  then have f: "length (filter P xs) = length (filter P ys)" "mset (principal_credentials xs p) = mset (principal_credentials ys p)" for P p
    by (metis size_mset, simp only: principal_credentials_def)
  have "auth_overlap_check b a = auth_overlap_check a b" for a b
    by (simp add: auth_overlap_check_def min.commute max.commute)
  then have "sorted_wrt (\<lambda>a b. is_ok (auth_overlap_check a b)) (principal_credentials ys p)" for p
    using assms(1) by (intro sorted_wrt_perm [OF _ _ f(2)]) (auto simp: validate_authorization_set_iff)
  moreover have "distinct (map a_credential_id ys)"
    using assms by (metis validate_authorization_set_iff mset_eq_imp_distinct_iff mset_map)
  ultimately show ?thesis
    using assms mset_eq_setD [OF assms(2)] f(1) by (simp add: validate_authorization_set_iff)
qed

definition lowered :: "Authorization \<Rightarrow> Authorization" where
  "lowered a = a\<lparr>a_vless_uuid := map_option to_ascii_lowercase (a_vless_uuid a)\<rparr>"

lemma validate_lowered:
  assumes "validate_authorization_set xs = Inr ()"
  shows "validate_authorization_set (map lowered xs) = Inr ()"
proof -
  have same: "a_principal_id (lowered a) = a_principal_id a" "a_credential_id (lowered a) = a_credential_id a"
    "is_active_at (lowered a) t = is_active_at a t" "a_revoked (lowered a) = a_revoked a"
    "auth_overlap_check (lowered a) (lowered b) = auth_overlap_check a b" for a b t
    by (simp_all add: lowered_def is_active_at_def auth_overlap_check_def)
  have ok: "is_ok (validate_item (lowered a))" if "is_ok (validate_item a)" for a
  proof (cases "a_revoked a \<or> a_vless_uuid a = None")
    case True
    then have "validate_item (lowered a) = validate_item a" by (cases a) (auto simp: validate_item_def lowered_def cong: if_cong)
    with that show ?thesis by simp
  next
    case False
    then obtain s where s: "a_vless_uuid a = Some s" by auto
    have "valid_vless_uuid s"
      using that False unfolding validate_item_def s by (auto simp: is_ok_rbind simp del: is_ok_if split: if_splits)
    then have "validate_item (lowered a) = validate_item a"
      using s valid_uuid_lower [of s] by (cases a) (simp add: validate_item_def lowered_def cong: if_cong)
    with that show ?thesis by simp
  qed
  then show ?thesis
    using assms ok
    by (auto simp: validate_authorization_set_iff principal_credentials_def filter_map comp_def same sorted_wrt_map)
qed

lemma projected_append: "projected (xs @ ys) = projected xs @ projected ys"
  by (simp add: projected_def)

lemma validated_records: "validate_authorization_set s = Inr () \<Longrightarrow> a \<in> set s \<Longrightarrow> is_ok (validate_item a)"
  by (simp add: validate_authorization_set_iff)

lemma projected_lease_users:
  assumes "\<forall>s\<in>set ds. lease_admitted s \<and> slot_accepted s \<and> li_class s \<noteq> Some AuthCompatibility" "\<forall>s\<in>set ds. u_id (f s) = lease_id s"
  shows "projected (map (\<lambda>s. lease_update s (f s)) ds)
    = map (\<lambda>s. lowered (lease_authorization s)) (filter (\<lambda>s. metadata_count s = 4) ds)"
  using assms
proof (induction ds)
  case (Cons s ds)
  have c: "projected (map (\<lambda>s. lease_update s (f s)) (s # ds))
      = projected [lease_update s (f s)] @ projected (map (\<lambda>s. lease_update s (f s)) ds)"
    using projected_append [of "[lease_update s (f s)]" "map (\<lambda>s. lease_update s (f s)) ds"] by simp
  have "projected [lease_update s (f s)] = (if metadata_count s = 4 then [lowered (lease_authorization s)] else [])"
  proof (cases "metadata_count s = 4")
    case True
    then obtain p c t where m: "li_principal_id s = Some p" "li_credential_id s = Some c" "li_valid_from s = Some t"
      "li_class s = Some AuthNative"
      using Cons.prems(1) by (cases "the (li_class s)") (auto simp: metadata_count_iff)
    moreover have "starts_with ''cred_'' c" "starts_with ''native_'' p"
      using Cons.prems(1) m by (auto simp: lease_admitted_def)
    ultimately show ?thesis
      using True Cons.prems(2)
      by (simp add: projected_def lease_update_def lowered_def lease_authorization_def lease_id_def)
  next
    case False
    then have "li_credential_id s = None"
      using Cons.prems(1) by (auto simp: slot_accepted_def metadata_count_iff)
    then have "\<not> starts_with ''cred_'' (lease_id s)"
      by (simp add: lease_id_def lease_user_id_def LEASE_USER_PREFIX_def starts_with_def)
    then show ?thesis using False Cons.prems(2) by (simp add: projected_def lease_update_def)
  qed
  then show ?case using Cons unfolding c by simp
qed (simp add: projected_def)

text \<open>C37: The node's own lease pool never blocks the renderer. When the lease writer accepts the
  agent's slots, and the credential-backed users it keeps form a valid set with other
  identifiers, the store it writes projects to a valid authorization set again, so rendering
  fails only if the deployment itself is invalid.\<close>

theorem written_pool_renders:
  assumes "lease_reconcile sha hex tok users input now = Inr (nxt, changed)"
    "\<forall>s\<in>set input. li_class s \<noteq> Some AuthCompatibility"
    "validate_authorization_set (projected (filter (\<lambda>u. \<not> is_lease_user u) users)) = Inr ()"
    "\<forall>s\<in>set input. \<forall>u\<in>set users. \<not> is_lease_user u \<longrightarrow> li_credential_id s \<noteq> Some (u_id u)"
    "validate_deployment b64 d = Inr ()"
  shows "\<exists>doc. render_server_config_for_deployment b64 d nxt reality hysteria t = Inr doc"
proof -
  note r = assms(1) [unfolded lease_reconcile_iff]
  define f where "f s = (case find (\<lambda>u. u_id u = lease_id s \<and> True) users of
    Some u \<Rightarrow> u | None \<Rightarrow> lease_fresh_user sha hex tok now (lease_id s))" for s
  let ?kept = "filter (\<lambda>u. \<not> is_lease_user u) users" and ?ds = "sort_key li_slot input"
  have nxt: "nxt = ?kept @ map (\<lambda>s. lease_update s (f s)) ?ds"
    using r by (simp add: write_owned_def f_def)
  have ids: "u_id (f s) = lease_id s" for s
    unfolding f_def by (rule lease.chosen_id)
  have adm: "\<forall>s\<in>set ?ds. lease_admitted s \<and> slot_accepted s \<and> li_class s \<noteq> Some AuthCompatibility"
    using r assms(2) lease_input_admitted by (auto simp: lease_accepts_def)
  let ?full = "filter (\<lambda>s. metadata_count s = 4)"
  have pr: "projected nxt = projected ?kept @ map lowered (map lease_authorization (?full ?ds))"
    using projected_lease_users [OF adm, of f] ids by (simp add: nxt projected_append comp_def)
  have "mset (map lease_authorization (?full input)) = mset (map lease_authorization (?full ?ds))"
    by (simp add: mset_filter)
  then have v: "validate_authorization_set (map lease_authorization (?full ?ds)) = Inr ()"
    by (rule validate_perm [rotated]) (use r in \<open>simp add: lease_accepts_def\<close>)
  have k: "starts_with ''ext_'' (a_principal_id a)" "\<exists>u\<in>set users. \<not> is_lease_user u \<and> a_credential_id a = u_id u"
    if "a \<in> set (projected ?kept)" for a
  proof -
    show u: "\<exists>u\<in>set users. \<not> is_lease_user u \<and> a_credential_id a = u_id u" using that by (auto simp: projected_def)
    have "a_class a = AuthCompatibility" using that by (auto simp: projected_def is_lease_user_def)
    then show "starts_with ''ext_'' (a_principal_id a)"
      using validate_item_prefixes(2) [OF validated_records [OF assms(3) that]] by simp
  qed
  have l: "starts_with ''native_'' (a_principal_id (lowered a))"
    "\<exists>s\<in>set input. li_credential_id s = Some (a_credential_id (lowered a))"
    if h: "a \<in> set (map lease_authorization (?full ?ds))" for a
  proof -
    obtain s where s: "s \<in> set input" "metadata_count s = 4" "a = lease_authorization s" using h by auto
    then have "li_class s = Some AuthNative"
      using assms(2) by (cases "the (li_class s)") (auto simp: metadata_count_iff)
    then show "starts_with ''native_'' (a_principal_id (lowered a))"
      using validate_item_prefixes(2) [OF validated_records [OF v h]] by (simp add: s(3) lease_authorization_def lowered_def)
    show "\<exists>s\<in>set input. li_credential_id s = Some (a_credential_id (lowered a))"
      using s by (intro bexI [of _ s]) (auto simp: lease_authorization_def lowered_def metadata_count_iff)
  qed
  have ext: "\<not> starts_with ''native_'' p" if "starts_with ''ext_'' p" for p
    using that by (auto simp: starts_with_iff)
  have "validate_authorization_set (projected nxt) = Inr ()"
    unfolding pr
  proof (rule validate_append [OF assms(3) validate_lowered [OF v]])
    show "a_credential_id ` set (projected ?kept) \<inter> a_credential_id ` set (map lowered (map lease_authorization (?full ?ds))) = {}"
    proof (rule ccontr)
      assume "\<not> ?thesis"
      then obtain a b where "a \<in> set (projected ?kept)" "b \<in> set (map lease_authorization (?full ?ds))"
        "a_credential_id a = a_credential_id (lowered b)" by auto
      with k(2) [of a] l(2) [of b] assms(4) show False by metis
    qed
    show "a_principal_id ` set (projected ?kept) \<inter> a_principal_id ` set (map lowered (map lease_authorization (?full ?ds))) = {}"
    proof (rule ccontr)
      assume "\<not> ?thesis"
      then obtain a b where "a \<in> set (projected ?kept)" "b \<in> set (map lease_authorization (?full ?ds))"
        "a_principal_id a = a_principal_id (lowered b)" by auto
      with k(1) [of a] l(1) [of b] ext show False by metis
    qed
  qed
  then show ?thesis using assms(5) render_succeeds by blast
qed

theorem written_pool_renders_witness:
  "\<exists>nxt changed doc. lease_reconcile (\<lambda>_. []) hex_encode id [example_operator] [example_slot] 5 = Inr (nxt, changed)
     \<and> render_server_config_for_deployment example_b64 example_exit nxt example_reality example_hysteria 1700000000 = Inr doc"
proof -
  obtain nxt where r: "lease_reconcile (\<lambda>_. []) hex_encode id [example_operator] [example_slot] 5
      = Inr (nxt, nxt \<noteq> [example_operator])"
    using example_lease_accepts lease_reconcile_iff by blast
  have "\<forall>s\<in>set [example_slot]. li_class s \<noteq> Some AuthCompatibility" by (simp add: example_slot_def)
  moreover have "validate_authorization_set (projected (filter (\<lambda>u. \<not> is_lease_user u) [example_operator])) = Inr ()"
    using validate_no_authorizations
    by (simp add: example_operator_not_lease) (simp add: projected_def example_operator_def lease_fresh_user_def starts_with_def)
  moreover have "\<forall>s\<in>set [example_slot]. \<forall>u\<in>set [example_operator]. \<not> is_lease_user u \<longrightarrow> li_credential_id s \<noteq> Some (u_id u)"
    by (simp add: example_slot_def example_operator_def lease_fresh_user_def)
  ultimately show ?thesis using written_pool_renders [OF r _ _ _ example_exit_valid] r by blast
qed

text \<open>C18: A single-protocol authorization blocks the renderer. The control plane may send a record
  with only one of the two secrets, and every check of the record and of its set accepts it; the
  external writer stores the missing secret as an empty string, and the renderer reads it back
  as a present, malformed one, so with one such live record no configuration can be rendered at
  all, for any deployment.\<close>

theorem single_secret_blocks_render:
  assumes "external_reconcile sha hex tok users auths now = Inr (nxt, changed)" "a \<in> set auths" "\<not> a_revoked a"
    "a_vless_uuid a = None \<or> a_hysteria2_password a = None"
  shows "\<nexists>doc. render_server_config_for_deployment b64 d nxt reality hysteria t = Inr doc"
proof -
  note r = assms(1) [unfolded external_reconcile_iff]
  define f where "f a = (case find (\<lambda>u. u_id u = a_credential_id a \<and> is_external u) users of
    Some u \<Rightarrow> u | None \<Rightarrow> external_fresh_user sha hex tok now a)" for a
  have "external_update a (f a) \<in> set nxt" using r assms(2) by (simp add: write_owned_def f_def)
  moreover have "u_id (f a) = a_credential_id a" unfolding f_def by (rule external.chosen_id)
  moreover have "starts_with ''cred_'' (a_credential_id a)"
    using external_input_admitted [of users auths a] r assms(2) by (simp add: external_admitted_def)
  ultimately obtain x where x: "x \<in> set (projected nxt)" "\<not> a_revoked x"
    "a_vless_uuid x = Some [] \<or> a_hysteria2_password x = Some []"
    using assms(3,4) by (force simp: projected_def external_update_def)
  have "\<not> valid_vless_uuid []" "\<not> valid_hysteria2_password []"
    by (simp_all add: valid_vless_uuid_def valid_hysteria2_password_def)
  then have "\<not> is_ok (validate_item x)"
    using x(2,3) by (auto simp: validate_item_def is_ok_rbind simp del: is_ok_if split: if_splits option.splits)
  then have "validate_authorization_set (projected nxt) \<noteq> Inr ()"
    using validated_records x(1) by blast
  then show ?thesis using render_succeeds by blast
qed

theorem single_secret_blocks_render_witness:
  "validate_authorization_set [example_authorization ''1'' 0 1000] = Inr ()
   \<and> (\<exists>nxt changed. external_reconcile (\<lambda>_. []) hex_encode id [example_operator] [example_authorization ''1'' 0 1000] 5
         = Inr (nxt, changed)
       \<and> \<not> is_ok (render_server_config_for_deployment example_b64 example_exit nxt example_reality example_hysteria 10))"
proof -
  let ?a = "example_authorization ''1'' 0 1000"
  have "is_ok (validate_item ?a)" by (rule example_authorization_ok) simp_all
  then have v: "validate_authorization_set [?a] = Inr ()" by (intro validate_authorization_setI) auto
  have "\<not> is_external example_operator" "u_id example_operator \<noteq> ''cred_beta-001''"
    by (simp_all add: example_operator_def is_external_def lease_fresh_user_def starts_with_def)
  with v have "external_accepts [example_operator] [?a]"
    by (simp add: external_accepts_def example_authorization_def List.map_filter_simps)
  then obtain nxt where r: "external_reconcile (\<lambda>_. []) hex_encode id [example_operator] [?a] 5 =
      Inr (nxt, nxt \<noteq> [example_operator])"
    using external_reconcile_iff by blast
  have "\<not> a_revoked ?a" "a_vless_uuid ?a = None \<or> a_hysteria2_password ?a = None"
    by (simp_all add: example_authorization_def)
  from single_secret_blocks_render [OF r _ this, of example_b64 example_exit example_reality example_hysteria 10] r v
  show ?thesis by (auto simp: is_ok_def split: sum.splits)
qed

section \<open>From the control plane's snapshot to the user store\<close>

text \<open>What \<open>vpn-admin\<close> reads of the document the agent stages is the set the agent holds.\<close>

lemma staged_set_read:
  assumes "rfc3339_ok parse" "parse_snapshot parse body = Inr ps"
  shows "set_of_json (set_json (ps_desired ps)) = Some (ps_desired ps)"
    "validate_authorization_set (ps_desired ps) = Inr ()" "\<forall>a\<in>set (ps_desired ps). a_class a = AuthCompatibility"
  using parse_snapshot_ok [OF assms] set_read_back by (auto simp: snapshot_ok_def is_ok_iff list_all_iff)

text \<open>C19: An accepted snapshot reaches the user store: when its VLESS UUIDs are distinct and neither they
  nor its credential ids belong to another user, \<open>vpn-admin\<close> reads the agent's document as the same
  set and accepts it, the users that are not external stay as they are, and the external users are
  exactly the snapshot's credentials, enabled unless revoked.\<close>

theorem external_snapshot_reaches_store:
  assumes "rfc3339_ok parse" "parse_snapshot parse body = Inr ps"
    "distinct (map to_ascii_lowercase (List.map_filter a_vless_uuid (ps_desired ps)))"
    "\<And>u. u \<in> set users \<Longrightarrow> \<not> is_external u \<Longrightarrow>
       to_ascii_lowercase (u_vless_uuid u) \<notin> to_ascii_lowercase ` set (List.map_filter a_vless_uuid (ps_desired ps))
       \<and> u_id u \<notin> a_credential_id ` set (ps_desired ps)"
  shows "\<exists>auths nxt. set_of_json (set_json (ps_desired ps)) = Some auths
    \<and> external_reconcile sha hex tok users auths now = Inr (nxt, nxt \<noteq> users)
    \<and> filter (\<lambda>u. \<not> is_external u) nxt = filter (\<lambda>u. \<not> is_external u) users
    \<and> map (\<lambda>u. (u_id u, u_name u, u_enabled u, u_expires_at u)) (filter is_external nxt)
      = map (\<lambda>a. (a_credential_id a, a_principal_id a, \<not> a_revoked a, Some (a_valid_until a)))
          (sort_key a_credential_id (ps_desired ps))"
proof -
  note s = staged_set_read [OF assms(1,2)]
  define ds where "ds = sort_key a_credential_id (ps_desired ps)"
  define nxt where "nxt = write_owned is_external is_external a_credential_id (external_fresh_user sha hex tok now)
      external_update users ds"
  have acc: "external_accepts users (ps_desired ps)" using s assms(3,4) by (simp add: external_accepts_def)
  have "\<forall>a\<in>set ds. external_admitted a" using external_input_admitted [OF acc] by (simp add: ds_def)
  note w = external.written_owned [OF this, of sha hex tok now users, folded nxt_def]
  have "map (\<lambda>u. (u_id u, u_name u, u_enabled u, u_expires_at u)) (filter is_external nxt)
      = map (\<lambda>a. (a_credential_id a, a_principal_id a, \<not> a_revoked a, Some (a_valid_until a))) ds"
    unfolding w(1) using external.chosen_id by (simp add: external.upd_id) (simp add: external_update_def)
  moreover have "external_reconcile sha hex tok users (ps_desired ps) now = Inr (nxt, nxt \<noteq> users)"
    using acc by (simp add: external_reconcile_iff nxt_def ds_def)
  ultimately show ?thesis using s(1) w(2) unfolding ds_def by blast
qed

theorem external_snapshot_reaches_store_witness:
  "\<exists>auths nxt. set_of_json (set_json [example_authorization_of False]) = Some auths
    \<and> external_reconcile (\<lambda>_. []) hex_encode id [] auths 5 = Inr (nxt, nxt \<noteq> [])
    \<and> map u_id (filter is_external nxt) = [''cred_external01'']"
proof -
  have c: "rfc3339_ok example_clock" using example_clock_ok by (simp add: example_ext_env_def)
  have d: "distinct (map to_ascii_lowercase (List.map_filter a_vless_uuid [example_authorization_of False]))"
    by (simp add: List.map_filter_simps example_authorization_of_def)
  obtain auths nxt where x: "set_of_json (set_json [example_authorization_of False]) = Some auths"
    "external_reconcile (\<lambda>_. []) hex_encode id [] auths 5 = Inr (nxt, nxt \<noteq> [])"
    "map (\<lambda>u. (u_id u, u_name u, u_enabled u, u_expires_at u)) (filter is_external nxt)
      = [(''cred_external01'', ''ext_principal01'', True, Some 3600)]"
    using external_snapshot_reaches_store [OF c example_parsed(2), of "[]" "\<lambda>_. []" hex_encode id 5] d
    by (auto simp: example_authorization_of_def)
  then have "map u_id (filter is_external nxt) = [''cred_external01'']" by auto
  with x(1,2) show ?thesis by (intro exI [of _ auths] exI [of _ nxt]) simp
qed



end
